(* ===== verification/Prelude.thy ===== *)
theory Prelude
  imports Main "HOL-Library.Word"
begin

text \<open>
  Shared vocabulary of the development: the fixed-width integers of Go as words, byte streams and
  the reads the standard library performs on them (\<^verbatim>\<open>io.ReadFull\<close>, \<^verbatim>\<open>io.ReadAtLeast\<close>,
  \<^verbatim>\<open>encoding/binary\<close>), decimal rendering and parsing of integers (\<^verbatim>\<open>fmt "%d"\<close>,
  \<^verbatim>\<open>strconv.Atoi\<close>), 64-bit wrap-around on \<^typ>\<open>int\<close>, and the generic lemmas on lists that the
  components share. Go's \<^verbatim>\<open>int\<close> and \<^verbatim>\<open>int64\<close> are \<^typ>\<open>int\<close> where the code only compares and
  prints them, with \<open>wrap64\<close> at each addition or multiplication that may leave the 64-bit range, and
  \<^typ>\<open>64 word\<close> where the code looks at the bytes.
\<close>

unbundle bit_operations_syntax

named_theorems wire_simps \<open>evaluation rules of the byte readers and writers\<close>

type_synonym byte = "8 word"
type_synonym bytes = "8 word list"
type_synonym u32 = "32 word"
type_synonym u64 = "64 word"

section \<open>64-bit arithmetic on int\<close>

definition wrap64 :: "int \<Rightarrow> int" where
  "wrap64 x = (x + 2 ^ 63) mod 2 ^ 64 - 2 ^ 63"

lemma wrap64_id: "- (2 ^ 63) \<le> x \<Longrightarrow> x < 2 ^ 63 \<Longrightarrow> wrap64 x = x"
  by (simp add: wrap64_def)

lemma wrap64_range: "- (2 ^ 63) \<le> wrap64 x \<and> wrap64 x < 2 ^ 63"
  by (simp add: wrap64_def)

section \<open>Byte streams\<close>

text \<open>
  A reader is the list of bytes that will still arrive before the stream ends. \<open>readFull n\<close> is
  \<^verbatim>\<open>io.ReadFull\<close> (and \<^verbatim>\<open>io.ReadAtLeast\<close> with the buffer's own length) on a buffer of \<open>n\<close> bytes:
  on a short stream it consumes what is left and reports \<open>EOF\<close> if that is nothing and
  \<open>UnexpectedEOF\<close> otherwise.
\<close>

datatype io_error = EOF | UnexpectedEOF

definition readFull :: "nat \<Rightarrow> bytes \<Rightarrow> (io_error + bytes) \<times> bytes" where
  "readFull n bs =
     (if n \<le> length bs then (Inr (take n bs), drop n bs)
      else (Inl (if bs = [] then EOF else UnexpectedEOF), []))"

lemma readFull_append [wire_simps]: "length xs = n \<Longrightarrow> readFull n (xs @ ys) = (Inr xs, ys)"
  by (simp add: readFull_def)

lemma readFull_Inr:
  "readFull n bs = (Inr xs, ys) \<Longrightarrow> bs = xs @ ys \<and> length xs = n"
  by (auto simp: readFull_def split: if_splits)

lemma readFull_Inl: "readFull n bs = (Inl e, ys) \<Longrightarrow> ys = [] \<and> length bs < n"
  by (auto simp: readFull_def split: if_splits)

lemma readFull_Nil [wire_simps]: "0 < n \<Longrightarrow> readFull n [] = (Inl EOF, [])"
  by (simp add: readFull_def)

text \<open>Little-endian and big-endian integers, as \<^verbatim>\<open>binary.LittleEndian\<close> and
  \<^verbatim>\<open>binary.BigEndian\<close> lay them out.\<close>

fun le_bytes :: "nat \<Rightarrow> 'a::len word \<Rightarrow> bytes" where
  "le_bytes 0 w = []"
| "le_bytes (Suc n) w = ucast w # le_bytes n (drop_bit 8 w)"

fun le_word :: "bytes \<Rightarrow> 'a::len word" where
  "le_word [] = 0"
| "le_word (b # bs) = ucast b OR push_bit 8 (le_word bs)"

definition be_bytes :: "nat \<Rightarrow> 'a::len word \<Rightarrow> bytes" where
  "be_bytes n w = rev (le_bytes n w)"

definition be_word :: "bytes \<Rightarrow> 'a::len word" where
  "be_word bs = le_word (rev bs)"

lemma length_le_bytes [simp]: "length (le_bytes n w) = n"
  by (induction n arbitrary: w) auto

lemma length_be_bytes [simp]: "length (be_bytes n w) = n"
  by (simp add: be_bytes_def)

lemma bit_le_word:
  "bit (le_word bs :: 'a::len word) i \<longleftrightarrow>
     i < LENGTH('a) \<and> i div 8 < length bs \<and> bit (bs ! (i div 8)) (i mod 8)"
proof (induction bs arbitrary: i)
  case Nil
  then show ?case by simp
next
  case (Cons b bs)
  show ?case
  proof (cases "i < 8")
    case True
    then show ?thesis by (auto simp: bit_simps Cons.IH)
  next
    case False
    then have "i div 8 = Suc ((i - 8) div 8)" and "i mod 8 = (i - 8) mod 8"
      by (auto simp: le_div_geq le_mod_geq not_less)
    with False show ?thesis
      by (auto simp: bit_simps Cons.IH dest: bit_imp_le_length)
  qed
qed

lemma nth_le_bytes: "k < n \<Longrightarrow> le_bytes n (w :: 'a::len word) ! k = ucast (drop_bit (8 * k) w)"
proof (induction n arbitrary: w k)
  case 0
  then show ?case by simp
next
  case (Suc n)
  then show ?case by (cases k) (auto simp: ac_simps)
qed

lemma le_word_le_bytes: "LENGTH('a) = 8 * n \<Longrightarrow> le_word (le_bytes n w) = (w :: 'a::len word)"
  by (rule bit_word_eqI)
    (auto simp: bit_le_word nth_le_bytes bit_simps less_mult_imp_div_less ac_simps)

lemma le_bytes_le_word:
  "LENGTH('a) = 8 * length bs \<Longrightarrow> le_bytes (length bs) (le_word bs :: 'a::len word) = bs"
  by (rule nth_equalityI, simp, rule bit_word_eqI)
    (auto simp: bit_le_word nth_le_bytes bit_simps)

lemma le64 [simp, wire_simps]: "le_word (le_bytes 8 w) = (w :: u64)"
  by (rule le_word_le_bytes) simp

lemma le32 [simp, wire_simps]: "le_word (le_bytes 4 w) = (w :: u32)"
  by (rule le_word_le_bytes) simp

lemma be64 [simp, wire_simps]: "be_word (be_bytes 8 w) = (w :: u64)"
  by (simp add: be_word_def be_bytes_def)

lemma be32 [simp, wire_simps]: "be_word (be_bytes 4 w) = (w :: u32)"
  by (simp add: be_word_def be_bytes_def)

lemma le64_inv: "length bs = 8 \<Longrightarrow> le_bytes 8 (le_word bs :: u64) = bs"
  using le_bytes_le_word [of bs, where ?'a = 64] by simp

lemma le32_inv: "length bs = 4 \<Longrightarrow> le_bytes 4 (le_word bs :: u32) = bs"
  using le_bytes_le_word [of bs, where ?'a = 32] by simp

lemma be_bytes_inj64: "be_bytes 8 (v :: u64) = be_bytes 8 w \<longleftrightarrow> v = w"
  using be64 by metis

section \<open>Decimal numerals\<close>

definition digit_char :: "nat \<Rightarrow> char" where
  "digit_char d = char_of (48 + d)"

definition char_digit :: "char \<Rightarrow> nat option" where
  "char_digit c = (let n = of_char c in if 48 \<le> n \<and> n \<le> 57 then Some (n - 48) else None)"

fun nat_digits :: "nat \<Rightarrow> string" where
  "nat_digits n = (if n < 10 then [digit_char n] else nat_digits (n div 10) @ [digit_char (n mod 10)])"

declare nat_digits.simps [simp del]

definition itoa :: "int \<Rightarrow> string" where
  "itoa i = (if i < 0 then CHR ''-'' # nat_digits (nat (- i)) else nat_digits (nat i))"

fun digits_val :: "nat \<Rightarrow> string \<Rightarrow> nat option" where
  "digits_val acc [] = Some acc"
| "digits_val acc (c # cs) =
     (case char_digit c of None \<Rightarrow> None | Some d \<Rightarrow> digits_val (acc * 10 + d) cs)"

definition in_int64 :: "int \<Rightarrow> bool" where
  "in_int64 i \<longleftrightarrow> - (2 ^ 63) \<le> i \<and> i < 2 ^ 63"

text \<open>\<open>atoi\<close> is \<^verbatim>\<open>strconv.Atoi\<close> (and \<^verbatim>\<open>ParseInt\<close> in base 10 to 64 bits): an optional sign, at
  least one digit, nothing else, and a value in range.\<close>

definition atoi :: "string \<Rightarrow> int option" where
  "atoi s =
     (let (neg, ds) = (case s of
            [] \<Rightarrow> (False, [])
          | c # cs \<Rightarrow> if c = CHR ''-'' then (True, cs)
                      else if c = CHR ''+'' then (False, cs) else (False, s))
      in if ds = [] then None
         else case digits_val 0 ds of
                None \<Rightarrow> None
              | Some n \<Rightarrow> (let i = (if neg then - int n else int n)
                          in if in_int64 i then Some i else None))"

lemma char_digit_digit_char [simp]: "d < 10 \<Longrightarrow> char_digit (digit_char d) = Some d"
  by (simp add: char_digit_def digit_char_def Let_def)

lemma digit_char_neq [simp]:
  "d < 10 \<Longrightarrow> digit_char d \<noteq> CHR ''-''"
  "d < 10 \<Longrightarrow> digit_char d \<noteq> CHR ''+''"
proof -
  have *: "digit_char d \<noteq> c" if "d < 10" and "char_digit c = None" for c
    using that by auto
  show "d < 10 \<Longrightarrow> digit_char d \<noteq> CHR ''-''" "d < 10 \<Longrightarrow> digit_char d \<noteq> CHR ''+''"
    using * [of "CHR ''-''"] * [of "CHR ''+''"] by (simp_all add: char_digit_def)
qed

lemma nat_digits_nonempty [simp]: "nat_digits n \<noteq> []"
  by (subst nat_digits.simps) simp

lemma nat_digits_set: "c \<in> set (nat_digits n) \<Longrightarrow> \<exists>d < 10. c = digit_char d"
proof (induction n rule: nat_digits.induct)
  case (1 n)
  show ?case
  proof (cases "n < 10")
    case True
    with "1.prems" show ?thesis by (auto simp: nat_digits.simps [of n])
  next
    case False
    with "1.prems" consider "c \<in> set (nat_digits (n div 10))" | "c = digit_char (n mod 10)"
      by (auto simp: nat_digits.simps [of n])
    then show ?thesis
    proof cases
      case 1
      with "1.IH" False show ?thesis by blast
    next
      case 2
      then show ?thesis by (intro exI [of _ "n mod 10"]) simp
    qed
  qed
qed

lemma digits_val_append:
  "digits_val a (xs @ ys) = (case digits_val a xs of None \<Rightarrow> None | Some b \<Rightarrow> digits_val b ys)"
  by (induction xs arbitrary: a) (auto split: option.splits)

lemma digits_val_nat_digits [simp]: "digits_val 0 (nat_digits n) = Some n"
proof (induction n rule: nat_digits.induct)
  case (1 n)
  then show ?case
    by (cases "n < 10") (simp_all add: nat_digits.simps [of n] digits_val_append)
qed

lemma nat_digits_inject [simp]: "nat_digits m = nat_digits n \<longleftrightarrow> m = n"
  by (metis digits_val_nat_digits option.inject)

lemma nat_digits_no_dash: "CHR ''-'' \<notin> set (nat_digits n)" "CHR ''+'' \<notin> set (nat_digits n)"
  using nat_digits_set digit_char_neq by metis+

lemma itoa_inject [simp]: "itoa i = itoa j \<longleftrightarrow> i = j"
proof -
  have "hd (nat_digits n) \<noteq> CHR ''-''" for n
    using nat_digits_no_dash (1) [of n] hd_in_set [OF nat_digits_nonempty] by metis
  then have "nat_digits n \<noteq> CHR ''-'' # s" for n s
    by (metis list.sel (1))
  then show ?thesis
    by (auto simp: itoa_def eq_nat_nat_iff split: if_splits) (metis minus_equation_iff)+
qed

lemma atoi_itoa: "in_int64 i \<Longrightarrow> atoi (itoa i) = Some i"
proof (cases "i < 0")
  case True
  then show "in_int64 i \<Longrightarrow> ?thesis" by (simp add: atoi_def itoa_def)
next
  case False
  obtain c cs where cs: "nat_digits (nat i) = c # cs"
    using nat_digits_nonempty by (metis list.exhaust)
  then have "c \<noteq> CHR ''-''" "c \<noteq> CHR ''+''"
    using nat_digits_no_dash [of "nat i"] by auto
  moreover have "digits_val 0 (c # cs) = Some (nat i)"
    using digits_val_nat_digits [of "nat i"] cs by simp
  ultimately show "in_int64 i \<Longrightarrow> ?thesis"
    using False cs by (simp add: atoi_def itoa_def del: digits_val.simps)
qed

section \<open>Lists\<close>

text \<open>\<open>before xs a b\<close>: some occurrence of \<open>a\<close> comes before some occurrence of \<open>b\<close>.\<close>

fun before :: "'a list \<Rightarrow> 'a \<Rightarrow> 'a \<Rightarrow> bool" where
  "before [] a b = False"
| "before (x # xs) a b = ((x = a \<and> b \<in> set xs) \<or> before xs a b)"

lemma before_in_set: "before xs a b \<Longrightarrow> a \<in> set xs \<and> b \<in> set xs"
  by (induction xs) auto

lemma sorted_wrt_before: "sorted_wrt P xs \<Longrightarrow> before xs a b \<Longrightarrow> P a b"
  by (induction xs) auto

lemma before_append:
  "before (xs @ ys) a b \<longleftrightarrow> before xs a b \<or> before ys a b \<or> (a \<in> set xs \<and> b \<in> set ys)"
  by (induction xs) auto

lemma before_antisym: "distinct xs \<Longrightarrow> before xs a b \<Longrightarrow> \<not> before xs b a"
  by (induction xs) (auto dest: before_in_set)

text \<open>Keep the first occurrence of each element, in order.\<close>

fun dedupe_acc :: "'a list \<Rightarrow> 'a list \<Rightarrow> 'a list" where
  "dedupe_acc seen [] = []"
| "dedupe_acc seen (x # xs) =
     (if x \<in> set seen then dedupe_acc seen xs else x # dedupe_acc (x # seen) xs)"

lemma set_dedupe_acc: "set (dedupe_acc seen xs) = set xs - set seen"
  by (induction xs arbitrary: seen) auto

lemma distinct_dedupe_acc: "distinct (dedupe_acc seen xs)"
  by (induction xs arbitrary: seen) (auto simp: set_dedupe_acc)

lemma dedupe_acc_before:
  "before (dedupe_acc seen xs) a b \<Longrightarrow> before xs a b"
  by (induction xs arbitrary: seen) (auto simp: set_dedupe_acc split: if_splits)

lemma of_nat_u64_inject: "j < 2 ^ 64 \<Longrightarrow> k < 2 ^ 64 \<Longrightarrow> (of_nat j :: u64) = of_nat k \<longleftrightarrow> j = k"
  by (simp add: word_of_nat_eq_iff take_bit_nat_eq_self)

lemma nat_bit_bound: "n < 2 ^ m \<Longrightarrow> m \<le> i \<Longrightarrow> \<not> bit (n :: nat) i"
  using bit_take_bit_iff [of m n i] by (simp add: take_bit_nat_eq_self)

text \<open>Counting up by one grows until the type is exhausted.\<close>

lemma word_succ_gt: "x \<noteq> - 1 \<Longrightarrow> x < x + (1 :: u64)"
proof -
  assume "x \<noteq> - 1"
  then have "x + 1 \<noteq> 0" using max_word_wrap by blast
  then have "unat (x + 1) \<noteq> 0" by (simp add: unat_eq_0)
  then have "unat x + 1 \<noteq> 2 ^ 64" by (auto simp: unat_word_ariths)
  moreover have "unat x < 2 ^ 64" using unsigned_less [of x, where ?'a = nat] by simp
  ultimately have "unat (x + 1) = unat x + 1" by (simp add: unat_word_ariths)
  then show ?thesis by (simp add: word_less_nat_alt)
qed

end
