(* ===== verification/Wire_Codec.thy ===== *)
theory Wire_Codec
  imports Prelude
begin

text \<open>
  The interface every message of the wire protocol offers: \<^verbatim>\<open>Marshal\<close> writes a byte string and
  \<^verbatim>\<open>Unmarshal\<close> fills an existing object from a reader, returning an error or nil. Go's
  \<^verbatim>\<open>Unmarshal\<close> mutates its receiver field by field, so its model takes the receiver's old value
  and returns the error (if any), the new value and the rest of the stream.
\<close>

type_synonym 'a unmarshal = "'a \<Rightarrow> bytes \<Rightarrow> io_error option \<times> 'a \<times> bytes"

text \<open>Reading \<open>n\<close> messages one after another from one stream, stopping at the first error.\<close>

fun decode_stream :: "'a unmarshal \<Rightarrow> 'a \<Rightarrow> nat \<Rightarrow> bytes \<Rightarrow> io_error option \<times> 'a list \<times> bytes" where
  "decode_stream dec t 0 bs = (None, [], bs)"
| "decode_stream dec t (Suc n) bs =
     (case dec t bs of
        (Some e, _, rest) \<Rightarrow> (Some e, [], rest)
      | (None, x, rest) \<Rightarrow>
          (case decode_stream dec t n rest of (e, xs, rest') \<Rightarrow> (e, x # xs, rest')))"

text \<open>
  \<open>codec\<close>: what a reader may rely on. Whatever the receiver held before, reading a written message
  gives that message back and leaves exactly what followed it.
\<close>

locale codec =
  fixes enc :: "'a \<Rightarrow> bytes"
    and dec :: "'a unmarshal"
  assumes dec_enc [simp]: "dec t (enc x @ rest) = (None, x, rest)"
begin

lemma dec_enc_exact: "dec t (enc x) = (None, x, [])"
  using dec_enc [of t x "[]"] by simp

lemma enc_inject: "enc x = enc y \<longleftrightarrow> x = y"
  using dec_enc_exact by (metis prod.inject)

text \<open>No message is a proper prefix of another, so the stream needs no delimiters.\<close>

lemma enc_prefix_free: "enc x @ xs = enc y @ ys \<Longrightarrow> x = y \<and> xs = ys"
  using dec_enc by (metis prod.inject)

lemma decode_stream_concat:
  "decode_stream dec t (length xs) (concat (map enc xs) @ rest) = (None, xs, rest)"
  by (induction xs) simp_all

end

text \<open>
  \<open>strict_codec\<close>: success also means that the stream really began with the message, so a truncated
  message is always reported.
\<close>

locale strict_codec = codec +
  assumes dec_sound: "dec t bs = (None, x, rest) \<Longrightarrow> bs = enc x @ rest"
begin

lemma truncated_fails:
  assumes "enc x = bs @ lost" and "lost \<noteq> []"
  shows "fst (dec t bs) \<noteq> None"
proof
  assume "fst (dec t bs) = None"
  then obtain y rest where y: "dec t bs = (None, y, rest)"
    by (cases "dec t bs") auto
  from dec_sound [OF y] assms (1) have "enc x @ [] = enc y @ (rest @ lost)"
    by simp
  from enc_prefix_free [OF this] assms (2) show False by simp
qed

lemma decode_stream_sound:
  "decode_stream dec t n bs = (None, xs, rest) \<Longrightarrow> bs = concat (map enc xs) @ rest \<and> length xs = n"
proof (induction n arbitrary: bs xs)
  case 0
  then show ?case by simp
next
  case (Suc n)
  from Suc.prems obtain x mid where x: "dec t bs = (None, x, mid)"
    by (auto split: prod.splits option.splits)
  with Suc.prems obtain ys where ys: "decode_stream dec t n mid = (None, ys, rest)" "xs = x # ys"
    by (auto split: prod.splits)
  from Suc.IH [OF ys (1)] dec_sound [OF x] ys (2) show ?case by simp
qed

end

end
