(* ===== verification/Lab_State.thy ===== *)
theory Lab_State
  imports Wire_Codec
begin

text \<open>
  The benchmark's replicated key/value machine (\<^verbatim>\<open>lab/internal/state/state.go\<close>) and the byte
  form of its commands (\<^verbatim>\<open>statemarsh.go\<close>). Every adapter applies its committed commands with
  \<open>Execute\<close>; the store's mutex makes each \<open>Execute\<close> and \<open>Snapshot\<close> one atomic step, so the model is
  the sequence of those steps. Keys and values are \<^verbatim>\<open>int64\<close>, read as \<^typ>\<open>64 word\<close>.

  The interface \<open>replicated_machine\<close> is what a leaderless protocol relies on: commands that do not
  conflict commute. Its consequence is that two replicas that execute the same commands in orders
  that agree on conflicting pairs end in the same state and gave every client the same answer.
\<close>

section \<open>The state machine\<close>

type_synonym Operation = "8 word"

definition NONE :: Operation where "NONE = 0"
definition PUT :: Operation where "PUT = 1"
definition GET :: Operation where "GET = 2"
definition DELETE :: Operation where "DELETE = 3"
definition RLOCK :: Operation where "RLOCK = 4"
definition WLOCK :: Operation where "WLOCK = 5"

lemmas op_defs = NONE_def PUT_def GET_def DELETE_def RLOCK_def WLOCK_def

definition NIL :: u64 where "NIL = 0"

record Command =
  cmd_Op :: Operation
  cmd_K :: u64
  cmd_V :: u64

record State =
  Store :: "u64 \<rightharpoonup> u64"

definition InitState :: State where
  "InitState = \<lparr>Store = Map.empty\<rparr>"

definition Snapshot :: "State \<Rightarrow> (u64 \<rightharpoonup> u64)" where
  "Snapshot s = Store s"

definition Conflict :: "Command \<Rightarrow> Command \<Rightarrow> bool" where
  "Conflict gamma delta \<longleftrightarrow>
     (if cmd_K gamma = cmd_K delta
      then (if cmd_Op gamma = PUT \<or> cmd_Op delta = PUT then True else False)
      else False)"

fun ConflictBatch_inner :: "Command \<Rightarrow> Command list \<Rightarrow> bool" where
  "ConflictBatch_inner c [] = False"
| "ConflictBatch_inner c (d # ds) = (if Conflict c d then True else ConflictBatch_inner c ds)"

fun ConflictBatch :: "Command list \<Rightarrow> Command list \<Rightarrow> bool" where
  "ConflictBatch [] batch2 = False"
| "ConflictBatch (c # cs) batch2 =
     (if ConflictBatch_inner c batch2 then True else ConflictBatch cs batch2)"

definition IsRead :: "Command \<Rightarrow> bool" where
  "IsRead c \<longleftrightarrow> cmd_Op c = GET"

definition Execute :: "Command \<Rightarrow> State \<Rightarrow> u64 \<times> State" where
  "Execute c st =
     (if cmd_Op c = PUT then (cmd_V c, st\<lparr>Store := (Store st)(cmd_K c \<mapsto> cmd_V c)\<rparr>)
      else if cmd_Op c = GET
           then (case Store st (cmd_K c) of Some v \<Rightarrow> (v, st) | None \<Rightarrow> (NIL, st))
           else (NIL, st))"

lemma ConflictBatch_inner_iff: "ConflictBatch_inner c ds \<longleftrightarrow> (\<exists>d \<in> set ds. Conflict c d)"
  by (induction ds) auto

lemma ConflictBatch_iff: "ConflictBatch cs ds \<longleftrightarrow> (\<exists>c \<in> set cs. \<exists>d \<in> set ds. Conflict c d)"
  by (induction cs) (auto simp: ConflictBatch_inner_iff)

lemma Conflict_sym: "Conflict c d \<longleftrightarrow> Conflict d c"
  by (auto simp: Conflict_def)

section \<open>Interface: a machine whose non-conflicting commands commute\<close>

text \<open>\<open>run_log\<close> executes a log of identified commands, collecting each command's answer.\<close>

fun run_log ::
  "('c \<Rightarrow> 's \<Rightarrow> 'r \<times> 's) \<Rightarrow> ('i \<times> 'c) list \<Rightarrow> 's \<Rightarrow> ('i \<rightharpoonup> 'r) \<times> 's" where
  "run_log ex [] s = (Map.empty, s)"
| "run_log ex ((i, c) # xs) s =
     ((fst (run_log ex xs (snd (ex c s))))(i \<mapsto> fst (ex c s)), snd (run_log ex xs (snd (ex c s))))"

locale replicated_machine =
  fixes exec :: "'c \<Rightarrow> 's \<Rightarrow> 'r \<times> 's"
    and conflict :: "'c \<Rightarrow> 'c \<Rightarrow> bool"
  assumes commute_state:
      "\<not> conflict c d \<Longrightarrow> snd (exec d (snd (exec c s))) = snd (exec c (snd (exec d s)))"
    and commute_answer: "\<not> conflict c d \<Longrightarrow> fst (exec d (snd (exec c s))) = fst (exec d s)"
    and conflict_sym: "conflict c d \<longleftrightarrow> conflict d c"
begin

lemma run_log_swap:
  assumes "\<not> conflict c d" and "i \<noteq> j"
  shows "run_log exec ((i, c) # (j, d) # xs) s = run_log exec ((j, d) # (i, c) # xs) s"
proof -
  have "conflict d c \<longleftrightarrow> conflict c d" by (rule conflict_sym)
  with assms have "fst (exec d (snd (exec c s))) = fst (exec d s)"
    and "fst (exec c (snd (exec d s))) = fst (exec c s)"
    and "snd (exec d (snd (exec c s))) = snd (exec c (snd (exec d s)))"
    using commute_answer commute_state by blast+
  with assms (2) show ?thesis by (simp add: fun_upd_twist)
qed

lemma run_log_cong_Cons:
  assumes "\<And>s. run_log exec xs s = run_log exec ys s"
  shows "run_log exec (p # xs) s = run_log exec (p # ys) s"
  by (cases p) (simp add: assms)

text \<open>A command that conflicts with nothing before it can be moved to the front.\<close>

lemma run_log_to_front:
  assumes "\<forall>(j, d) \<in> set ps. \<not> conflict c d \<and> j \<noteq> i"
  shows "run_log exec (ps @ (i, c) # qs) s = run_log exec ((i, c) # ps @ qs) s"
  using assms
proof (induction ps arbitrary: s)
  case Nil
  then show ?case by simp
next
  case (Cons p ps)
  obtain j d where p: "p = (j, d)" by (cases p)
  from Cons.prems have IH: "run_log exec (ps @ (i, c) # qs) s' = run_log exec ((i, c) # ps @ qs) s'" for s'
    by (intro Cons.IH) simp
  have "run_log exec ((p # ps) @ (i, c) # qs) s = run_log exec (p # (i, c) # ps @ qs) s"
    using run_log_cong_Cons [OF IH] by simp
  also have "\<dots> = run_log exec ((i, c) # (p # ps) @ qs) s"
    using Cons.prems p run_log_swap [of c d i j "ps @ qs" s] by auto
  finally show ?case .
qed

theorem conflict_order_determines_run:
  assumes "distinct (map fst xs)" and "distinct (map fst ys)" and "set xs = set ys"
    and "\<And>i c j d. conflict c d \<Longrightarrow> before xs (i, c) (j, d) \<Longrightarrow> before ys (i, c) (j, d)"
  shows "run_log exec xs s = run_log exec ys s"
  using assms
proof (induction xs arbitrary: ys s)
  case Nil
  then show ?case by simp
next
  case (Cons p xs)
  obtain i c where p: "p = (i, c)" by (cases p)
  from Cons.prems (3) have "p \<in> set ys" by auto
  then obtain ps qs where ys: "ys = ps @ p # qs" by (meson split_list)
  with Cons.prems (2) p have i: "i \<notin> fst ` set ps" "i \<notin> fst ` set qs" by auto
  have same: "set xs = set (ps @ qs)"
  proof -
    from Cons.prems (1) have "p \<notin> set xs" by (auto simp: distinct_map)
    moreover have "p \<notin> set ps" "p \<notin> set qs" using i p by force+
    ultimately show ?thesis using Cons.prems (3) ys by (auto simp: set_eq_iff)
  qed
  have free: "\<not> conflict c d \<and> j \<noteq> i" if jd: "(j, d) \<in> set ps" for j d
  proof
    show "j \<noteq> i" using i jd by force
    show "\<not> conflict c d"
    proof
      assume "conflict c d"
      moreover have "before (p # xs) (i, c) (j, d)"
        using jd same p by auto
      ultimately have "before ys (i, c) (j, d)" by (rule Cons.prems (4))
      moreover have "before ys (j, d) (i, c)"
        using jd ys p by (simp add: before_append)
      moreover have "distinct ys" using Cons.prems (2) by (simp add: distinct_map)
      ultimately show False using before_antisym by metis
    qed
  qed
  have "run_log exec xs s' = run_log exec (ps @ qs) s'" for s'
  proof (rule Cons.IH [OF _ _ same])
    show "distinct (map fst xs)" using Cons.prems (1) by simp
    show "distinct (map fst (ps @ qs))" using Cons.prems (2) ys by auto
    fix k e j d
    assume cf: "conflict e d" and b: "before xs (k, e) (j, d)"
    then have "before ys (k, e) (j, d)" using Cons.prems (4) by auto
    moreover have "k \<noteq> i" "j \<noteq> i"
      using before_in_set [OF b] Cons.prems (1) p by force+
    ultimately show "before (ps @ qs) (k, e) (j, d)"
      using ys p by (auto simp: before_append)
  qed
  then have "run_log exec (p # xs) s = run_log exec (p # ps @ qs) s"
    by (rule run_log_cong_Cons)
  also have "run_log exec (p # ps @ qs) s = run_log exec ys s"
    unfolding ys p by (rule run_log_to_front [symmetric]) (use free in auto)
  finally show ?case .
qed

end

section \<open>The key/value machine is one\<close>

lemma Execute_commute_state:
  "\<not> Conflict c d \<Longrightarrow> snd (Execute d (snd (Execute c s))) = snd (Execute c (snd (Execute d s)))"
  by (auto simp: Execute_def Conflict_def op_defs fun_upd_twist split: if_splits option.splits)

lemma Execute_commute_answer:
  "\<not> Conflict c d \<Longrightarrow> fst (Execute d (snd (Execute c s))) = fst (Execute d s)"
  by (auto simp: Execute_def Conflict_def op_defs split: if_splits option.splits)

interpretation kv: replicated_machine Execute Conflict
  by unfold_locales (auto simp: Execute_commute_state Execute_commute_answer Conflict_sym)

section \<open>Byte form of keys, values and commands\<close>

definition Key_Marshal :: "u64 \<Rightarrow> bytes" where
  "Key_Marshal t = le_bytes 8 t"

definition Key_Unmarshal :: "u64 unmarshal" where
  "Key_Unmarshal t r =
     (case readFull 8 r of
        (Inl e, r') \<Rightarrow> (Some e, t, r')
      | (Inr bs, r') \<Rightarrow> (None, le_word bs, r'))"

definition Value_Marshal :: "u64 \<Rightarrow> bytes" where
  "Value_Marshal t = le_bytes 8 t"

definition Value_Unmarshal :: "u64 unmarshal" where
  "Value_Unmarshal t r =
     (case readFull 8 r of
        (Inl e, r') \<Rightarrow> (Some e, t, r')
      | (Inr bs, r') \<Rightarrow> (None, le_word bs, r'))"

definition Command_Marshal :: "Command \<Rightarrow> bytes" where
  "Command_Marshal t = [cmd_Op t] @ le_bytes 8 (cmd_K t) @ le_bytes 8 (cmd_V t)"

definition Command_Unmarshal :: "Command unmarshal" where
  "Command_Unmarshal t r =
     (case readFull 1 r of
        (Inl e, r1) \<Rightarrow> (Some e, t, r1)
      | (Inr b, r1) \<Rightarrow>
          (let t1 = t\<lparr>cmd_Op := b ! 0\<rparr> in
           case readFull 8 r1 of
             (Inl e, r2) \<Rightarrow> (Some e, t1, r2)
           | (Inr bs, r2) \<Rightarrow>
               (let t2 = t1\<lparr>cmd_K := le_word bs\<rparr> in
                case readFull 8 r2 of
                  (Inl e, r3) \<Rightarrow> (Some e, t2, r3)
                | (Inr bs', r3) \<Rightarrow> (None, t2\<lparr>cmd_V := le_word bs'\<rparr>, r3))))"

lemma length_Command_Marshal [simp]: "length (Command_Marshal c) = 17"
  by (simp add: Command_Marshal_def)

lemma Command_ext: "cmd_Op c = cmd_Op d \<Longrightarrow> cmd_K c = cmd_K d \<Longrightarrow> cmd_V c = cmd_V d \<Longrightarrow> c = (d :: Command)"
  by (cases c, cases d) simp

interpretation key_codec: strict_codec Key_Marshal Key_Unmarshal
  by unfold_locales
    (auto simp: Key_Marshal_def Key_Unmarshal_def wire_simps le64_inv
      split: prod.splits sum.splits dest!: readFull_Inr)

interpretation value_codec: strict_codec Value_Marshal Value_Unmarshal
  by unfold_locales
    (auto simp: Value_Marshal_def Value_Unmarshal_def wire_simps le64_inv
      split: prod.splits sum.splits dest!: readFull_Inr)

lemma Command_dec_enc: "Command_Unmarshal t (Command_Marshal c @ rest) = (None, c, rest)"
proof -
  have "readFull 1 (cmd_Op c # r) = (Inr [cmd_Op c], r)" for r
    using readFull_append [of "[cmd_Op c]" 1 r] by simp
  then show ?thesis
    by (simp add: Command_Marshal_def Command_Unmarshal_def wire_simps Let_def)
qed

lemma Command_dec_sound:
  "Command_Unmarshal t r = (None, c, rest) \<Longrightarrow> r = Command_Marshal c @ rest"
  by (auto simp: Command_Unmarshal_def Command_Marshal_def le64_inv Let_def length_Suc_conv
      split: prod.splits sum.splits dest!: readFull_Inr)

interpretation command_codec: strict_codec Command_Marshal Command_Unmarshal
  by unfold_locales (simp_all add: Command_dec_enc Command_dec_sound)

lemma Command_Unmarshal_error:
  "Command_Unmarshal t r = (Some e, t', r') \<Longrightarrow> r' = [] \<and> length r < 17"
  by (auto simp: Command_Unmarshal_def Let_def split: prod.splits sum.splits
      dest!: readFull_Inr readFull_Inl)

lemma Value_Unmarshal_error: "Value_Unmarshal t r = (Some e, t', r') \<Longrightarrow> r' = [] \<and> length r < 8"
  by (auto simp: Value_Unmarshal_def split: prod.splits sum.splits dest!: readFull_Inl)

section \<open>Agreement on conflicting commands suffices\<close>

text \<open>C11: Two replicas that execute the same identified commands, each once, and agree on the order of
  every pair of conflicting commands give every command the same answer and end in the same state.\<close>

theorem conflict_order_fixes_answers:
  assumes "distinct (map fst xs)" and "distinct (map fst ys)" and "set xs = set ys"
    and "\<forall>i c j d. Conflict c d \<longrightarrow> before xs (i, c) (j, d) \<longrightarrow> before ys (i, c) (j, d)"
  shows "run_log Execute xs st = run_log Execute ys st"
  using kv.conflict_order_determines_run [of xs ys st] assms by blast

theorem conflict_order_fixes_answers_witness:
  "run_log Execute
     [(1::nat, \<lparr>cmd_Op = PUT, cmd_K = 1, cmd_V = 5\<rparr>), (2, \<lparr>cmd_Op = PUT, cmd_K = 2, cmd_V = 6\<rparr>),
      (3, \<lparr>cmd_Op = GET, cmd_K = 1, cmd_V = 0\<rparr>)] InitState
   = run_log Execute
     [(2, \<lparr>cmd_Op = PUT, cmd_K = 2, cmd_V = 6\<rparr>), (1::nat, \<lparr>cmd_Op = PUT, cmd_K = 1, cmd_V = 5\<rparr>),
      (3, \<lparr>cmd_Op = GET, cmd_K = 1, cmd_V = 0\<rparr>)] InitState"
  by (rule conflict_order_fixes_answers) (auto simp: Conflict_def op_defs)

end
