(* ===== verification/Lab_Proto.thy ===== *)
theory Lab_Proto
  imports Lab_State
begin

text \<open>
  The benchmark's wire protocol (\<^verbatim>\<open>lab/internal/proto/proto.go\<close> and \<^verbatim>\<open>marsh.go\<close>): the message
  types, their \<^verbatim>\<open>Marshal\<close> and \<^verbatim>\<open>Unmarshal\<close>, and the object caches. Every message is a \<open>codec\<close>; those
  whose \<^verbatim>\<open>Unmarshal\<close> reports every short read are also \<open>strict_codec\<close>s. \<^verbatim>\<open>Read\<close>, \<^verbatim>\<open>ReadReply\<close>,
  \<^verbatim>\<open>ProposeAndRead\<close> and \<^verbatim>\<open>ProposeAndReadReply\<close> drop the error of their last field, so they accept
  truncated input; the lemmas \<open>*_truncated\<close> show with what result.
\<close>

section \<open>Message types\<close>

definition PROPOSE :: byte where "PROPOSE = 0"
definition PROPOSE_REPLY :: byte where "PROPOSE_REPLY = 1"
definition READ :: byte where "READ = 2"
definition READ_REPLY :: byte where "READ_REPLY = 3"
definition PROPOSE_AND_READ :: byte where "PROPOSE_AND_READ = 4"
definition PROPOSE_AND_READ_REPLY :: byte where "PROPOSE_AND_READ_REPLY = 5"
definition GENERIC_SMR_BEACON :: byte where "GENERIC_SMR_BEACON = 6"
definition GENERIC_SMR_BEACON_REPLY :: byte where "GENERIC_SMR_BEACON_REPLY = 7"

record Propose =
  pr_CommandId :: u32
  pr_Command :: Command
  pr_Timestamp :: u64

record ProposeReply =
  rp_OK :: byte
  rp_CommandId :: u32

record ProposeReplyTS =
  ts_OK :: byte
  ts_CommandId :: u32
  ts_Value :: u64
  ts_Timestamp :: u64

record Read =
  rd_CommandId :: u32
  rd_Key :: u64

record ReadReply =
  rr_CommandId :: u32
  rr_Value :: u64

record ProposeAndRead =
  par_CommandId :: u32
  par_Command :: Command
  par_Key :: u64

record ProposeAndReadReply =
  parr_OK :: byte
  parr_CommandId :: u32
  parr_Value :: u64

record Beacon = bc_Timestamp :: u64

record BeaconReply = bcr_Timestamp :: u64

record PingArgs = pa_ActAsLeader :: byte

text \<open>The messages without fields (\<^verbatim>\<open>PingReply\<close>, \<^verbatim>\<open>BeTheLeaderArgs\<close>, \<^verbatim>\<open>BeTheLeaderReply\<close>)
  are \<^typ>\<open>unit\<close>.\<close>

section \<open>Marshal and Unmarshal\<close>

text \<open>\<open>read_word n k\<close> reads an \<open>n\<close>-byte little-endian integer and hands it to the rest of the
  decoder; on a short read the decoder returns the error with the receiver as it is.\<close>

definition read_word ::
  "nat \<Rightarrow> 'a \<Rightarrow> ('w::len word \<Rightarrow> bytes \<Rightarrow> io_error option \<times> 'a \<times> bytes) \<Rightarrow> bytes
     \<Rightarrow> io_error option \<times> 'a \<times> bytes" where
  "read_word n t k r =
     (case readFull n r of
        (Inl e, r') \<Rightarrow> (Some e, t, r')
      | (Inr bs, r') \<Rightarrow> k (le_word bs) r')"

definition Propose_Marshal :: "Propose \<Rightarrow> bytes" where
  "Propose_Marshal t =
     le_bytes 4 (pr_CommandId t) @ Command_Marshal (pr_Command t) @ le_bytes 8 (pr_Timestamp t)"

definition Propose_Unmarshal :: "Propose unmarshal" where
  "Propose_Unmarshal t =
     read_word 4 t (\<lambda>cid r1.
       (let t1 = t\<lparr>pr_CommandId := cid\<rparr> in
        case Command_Unmarshal (pr_Command t1) r1 of
          (_, c, r2) \<Rightarrow>
            (let t2 = t1\<lparr>pr_Command := c\<rparr> in
             read_word 8 t2 (\<lambda>ts r3. (None, t2\<lparr>pr_Timestamp := ts\<rparr>, r3)) r2)))"

definition ProposeReply_Marshal :: "ProposeReply \<Rightarrow> bytes" where
  "ProposeReply_Marshal t = rp_OK t # le_bytes 4 (rp_CommandId t)"

definition ProposeReply_Unmarshal :: "ProposeReply unmarshal" where
  "ProposeReply_Unmarshal t r =
     (case readFull 5 r of
        (Inl e, r') \<Rightarrow> (Some e, t, r')
      | (Inr bs, r') \<Rightarrow>
          (None, t\<lparr>rp_OK := bs ! 0, rp_CommandId := le_word (tl bs)\<rparr>, r'))"

definition ProposeReplyTS_Marshal :: "ProposeReplyTS \<Rightarrow> bytes" where
  "ProposeReplyTS_Marshal t =
     (ts_OK t # le_bytes 4 (ts_CommandId t)) @ Value_Marshal (ts_Value t) @ le_bytes 8 (ts_Timestamp t)"

definition ProposeReplyTS_Unmarshal :: "ProposeReplyTS unmarshal" where
  "ProposeReplyTS_Unmarshal t r =
     (case readFull 5 r of
        (Inl e, r') \<Rightarrow> (Some e, t, r')
      | (Inr bs, r1) \<Rightarrow>
          (let t1 = t\<lparr>ts_OK := bs ! 0, ts_CommandId := le_word (tl bs)\<rparr> in
           case Value_Unmarshal (ts_Value t1) r1 of
             (_, v, r2) \<Rightarrow>
               (let t2 = t1\<lparr>ts_Value := v\<rparr> in
                read_word 8 t2 (\<lambda>ts r3. (None, t2\<lparr>ts_Timestamp := ts\<rparr>, r3)) r2)))"

definition Read_Marshal :: "Read \<Rightarrow> bytes" where
  "Read_Marshal t = le_bytes 4 (rd_CommandId t) @ Key_Marshal (rd_Key t)"

definition Read_Unmarshal :: "Read unmarshal" where
  "Read_Unmarshal t =
     read_word 4 t (\<lambda>cid r1.
       (let t1 = t\<lparr>rd_CommandId := cid\<rparr> in
        case Key_Unmarshal (rd_Key t1) r1 of (_, k, r2) \<Rightarrow> (None, t1\<lparr>rd_Key := k\<rparr>, r2)))"

definition ReadReply_Marshal :: "ReadReply \<Rightarrow> bytes" where
  "ReadReply_Marshal t = le_bytes 4 (rr_CommandId t) @ Value_Marshal (rr_Value t)"

definition ReadReply_Unmarshal :: "ReadReply unmarshal" where
  "ReadReply_Unmarshal t =
     read_word 4 t (\<lambda>cid r1.
       (let t1 = t\<lparr>rr_CommandId := cid\<rparr> in
        case Value_Unmarshal (rr_Value t1) r1 of (_, v, r2) \<Rightarrow> (None, t1\<lparr>rr_Value := v\<rparr>, r2)))"

definition ProposeAndRead_Marshal :: "ProposeAndRead \<Rightarrow> bytes" where
  "ProposeAndRead_Marshal t =
     le_bytes 4 (par_CommandId t) @ Command_Marshal (par_Command t) @ Key_Marshal (par_Key t)"

definition ProposeAndRead_Unmarshal :: "ProposeAndRead unmarshal" where
  "ProposeAndRead_Unmarshal t =
     read_word 4 t (\<lambda>cid r1.
       (let t1 = t\<lparr>par_CommandId := cid\<rparr> in
        case Command_Unmarshal (par_Command t1) r1 of
          (_, c, r2) \<Rightarrow>
            (let t2 = t1\<lparr>par_Command := c\<rparr> in
             case Key_Unmarshal (par_Key t2) r2 of (_, k, r3) \<Rightarrow> (None, t2\<lparr>par_Key := k\<rparr>, r3))))"

definition ProposeAndReadReply_Marshal :: "ProposeAndReadReply \<Rightarrow> bytes" where
  "ProposeAndReadReply_Marshal t =
     (parr_OK t # le_bytes 4 (parr_CommandId t)) @ Value_Marshal (parr_Value t)"

definition ProposeAndReadReply_Unmarshal :: "ProposeAndReadReply unmarshal" where
  "ProposeAndReadReply_Unmarshal t r =
     (case readFull 5 r of
        (Inl e, r') \<Rightarrow> (Some e, t, r')
      | (Inr bs, r1) \<Rightarrow>
          (let t1 = t\<lparr>parr_OK := bs ! 0, parr_CommandId := le_word (tl bs)\<rparr> in
           case Value_Unmarshal (parr_Value t1) r1 of
             (_, v, r2) \<Rightarrow> (None, t1\<lparr>parr_Value := v\<rparr>, r2)))"

definition Beacon_Marshal :: "Beacon \<Rightarrow> bytes" where
  "Beacon_Marshal t = le_bytes 8 (bc_Timestamp t)"

definition Beacon_Unmarshal :: "Beacon unmarshal" where
  "Beacon_Unmarshal t = read_word 8 t (\<lambda>ts r1. (None, t\<lparr>bc_Timestamp := ts\<rparr>, r1))"

definition BeaconReply_Marshal :: "BeaconReply \<Rightarrow> bytes" where
  "BeaconReply_Marshal t = le_bytes 8 (bcr_Timestamp t)"

definition BeaconReply_Unmarshal :: "BeaconReply unmarshal" where
  "BeaconReply_Unmarshal t = read_word 8 t (\<lambda>ts r1. (None, t\<lparr>bcr_Timestamp := ts\<rparr>, r1))"

definition PingArgs_Marshal :: "PingArgs \<Rightarrow> bytes" where
  "PingArgs_Marshal t = [pa_ActAsLeader t]"

definition PingArgs_Unmarshal :: "PingArgs unmarshal" where
  "PingArgs_Unmarshal t r =
     (case readFull 1 r of
        (Inl e, r') \<Rightarrow> (Some e, t, r')
      | (Inr bs, r') \<Rightarrow> (None, t\<lparr>pa_ActAsLeader := bs ! 0\<rparr>, r'))"

section \<open>Object caches\<close>

text \<open>\<^verbatim>\<open>ProposeCache\<close> is a free list: \<^verbatim>\<open>Get\<close> pops the last object or makes a zero one,
  \<^verbatim>\<open>Put\<close> appends. An object comes back as it was put, not zeroed.\<close>

definition zero_Command :: Command where
  "zero_Command = \<lparr>cmd_Op = 0, cmd_K = 0, cmd_V = 0\<rparr>"

definition zero_Propose :: Propose where
  "zero_Propose = \<lparr>pr_CommandId = 0, pr_Command = zero_Command, pr_Timestamp = 0\<rparr>"

definition ProposeCache_Get :: "Propose list \<Rightarrow> Propose \<times> Propose list" where
  "ProposeCache_Get cache =
     (if length cache > 0 then (last cache, butlast cache) else (zero_Propose, cache))"

definition ProposeCache_Put :: "Propose \<Rightarrow> Propose list \<Rightarrow> Propose list" where
  "ProposeCache_Put t cache = cache @ [t]"

lemma ProposeCache_Get_Put: "ProposeCache_Get (ProposeCache_Put t cache) = (t, cache)"
  by (simp add: ProposeCache_Get_def ProposeCache_Put_def)

section \<open>Round trips\<close>

lemma read_word_append [wire_simps]:
  "LENGTH('w) = 8 * n \<Longrightarrow> read_word n t k (le_bytes n (w :: 'w::len word) @ r) = k w r"
  by (simp add: read_word_def wire_simps le_word_le_bytes)

lemma read_word_None:
  assumes "read_word n t k r = (None, x, rest)"
  obtains bs r' where "r = bs @ r'" "length bs = n" "k (le_word bs) r' = (None, x, rest)"
  using assms by (auto simp: read_word_def split: prod.splits sum.splits dest!: readFull_Inr)

lemma readFull_5 [wire_simps]:
  "readFull 5 (b # le_bytes 4 (w :: u32) @ r) = (Inr (b # le_bytes 4 w), r)"
  using readFull_append [of "b # le_bytes 4 w" 5 r] by simp

lemma readFull_1 [wire_simps]: "readFull 1 (b # r) = (Inr [b], r)"
  using readFull_append [of "[b]" 1 r] by simp

lemma readFull_Suc_0 [wire_simps]: "readFull (Suc 0) (b # r) = (Inr [b], r)"
  using readFull_1 by simp

lemma readFull_5_Inr:
  "readFull 5 r = (Inr bs, r') \<Longrightarrow> r = (bs ! 0 # le_bytes 4 (le_word (tl bs) :: u32)) @ r'"
  by (cases bs) (auto dest!: readFull_Inr simp: le32_inv)

lemmas marshal_defs =
  Propose_Marshal_def ProposeReply_Marshal_def ProposeReplyTS_Marshal_def Read_Marshal_def
  ReadReply_Marshal_def ProposeAndRead_Marshal_def ProposeAndReadReply_Marshal_def
  Beacon_Marshal_def BeaconReply_Marshal_def PingArgs_Marshal_def

lemmas unmarshal_defs =
  Propose_Unmarshal_def ProposeReply_Unmarshal_def ProposeReplyTS_Unmarshal_def Read_Unmarshal_def
  ReadReply_Unmarshal_def ProposeAndRead_Unmarshal_def ProposeAndReadReply_Unmarshal_def
  Beacon_Unmarshal_def BeaconReply_Unmarshal_def PingArgs_Unmarshal_def

interpretation read_msg: codec Read_Marshal Read_Unmarshal
  by unfold_locales (simp add: marshal_defs unmarshal_defs wire_simps Let_def)

interpretation read_reply: codec ReadReply_Marshal ReadReply_Unmarshal
  by unfold_locales (simp add: marshal_defs unmarshal_defs wire_simps Let_def)

interpretation propose_and_read: codec ProposeAndRead_Marshal ProposeAndRead_Unmarshal
  by unfold_locales (simp add: marshal_defs unmarshal_defs wire_simps Let_def)

interpretation propose_and_read_reply: codec ProposeAndReadReply_Marshal ProposeAndReadReply_Unmarshal
  by unfold_locales (simp add: marshal_defs unmarshal_defs wire_simps Let_def)

interpretation beacon: strict_codec Beacon_Marshal Beacon_Unmarshal
  by unfold_locales
    (auto simp: marshal_defs unmarshal_defs wire_simps le64_inv elim!: read_word_None)

interpretation beacon_reply: strict_codec BeaconReply_Marshal BeaconReply_Unmarshal
  by unfold_locales
    (auto simp: marshal_defs unmarshal_defs wire_simps le64_inv elim!: read_word_None)

interpretation ping_args: strict_codec PingArgs_Marshal PingArgs_Unmarshal
  by unfold_locales
    (auto simp: marshal_defs unmarshal_defs wire_simps length_Suc_conv
      split: prod.splits sum.splits dest!: readFull_Inr)

interpretation propose_reply: strict_codec ProposeReply_Marshal ProposeReply_Unmarshal
  by unfold_locales
    (auto simp: marshal_defs unmarshal_defs wire_simps
      split: prod.splits sum.splits dest!: readFull_5_Inr)

text \<open>\<^verbatim>\<open>Propose\<close> and \<^verbatim>\<open>ProposeReplyTS\<close> also drop the error of an inner field, but a field
  follows: after a short inner read nothing is left, so the last read fails.\<close>

lemma Propose_dec_sound:
  assumes "Propose_Unmarshal t r = (None, x, rest)"
  shows "r = Propose_Marshal x @ rest"
proof -
  obtain b1 r1 where r: "r = b1 @ r1" "length b1 = 4"
    and k1: "(let t1 = t\<lparr>pr_CommandId := le_word b1\<rparr> in
        case Command_Unmarshal (pr_Command t1) r1 of
          (_, c, r2) \<Rightarrow>
            (let t2 = t1\<lparr>pr_Command := c\<rparr> in
             read_word 8 t2 (\<lambda>ts r3. (None, t2\<lparr>pr_Timestamp := ts\<rparr>, r3)) r2)) = (None, x, rest)"
    using assms by (auto simp: Propose_Unmarshal_def elim!: read_word_None)
  obtain e c r2 where c: "Command_Unmarshal (pr_Command t) r1 = (e, c, r2)"
    by (cases "Command_Unmarshal (pr_Command t) r1") auto
  with k1 obtain b3 where b3: "r2 = b3 @ rest" "length b3 = 8"
    and x: "x = t\<lparr>pr_CommandId := le_word b1, pr_Command := c, pr_Timestamp := le_word b3\<rparr>"
    by (auto simp: Let_def elim!: read_word_None)
  have "e = None"
  proof (rule ccontr)
    assume "e \<noteq> None"
    with c Command_Unmarshal_error [of "pr_Command t" r1 _ c r2] have "r2 = []" by auto
    with b3 show False by simp
  qed
  with c have "r1 = Command_Marshal c @ r2" by (simp add: Command_dec_sound)
  with r b3 x show ?thesis by (simp add: Propose_Marshal_def le32_inv le64_inv)
qed

lemma Propose_dec_enc: "Propose_Unmarshal t (Propose_Marshal x @ rest) = (None, x, rest)"
  by (simp add: marshal_defs unmarshal_defs wire_simps Let_def)

interpretation propose: strict_codec Propose_Marshal Propose_Unmarshal
  by unfold_locales (rule Propose_dec_enc, rule Propose_dec_sound)

lemma ProposeReplyTS_dec_sound:
  assumes "ProposeReplyTS_Unmarshal t r = (None, x, rest)"
  shows "r = ProposeReplyTS_Marshal x @ rest"
proof -
  obtain bs r1 where b1: "readFull 5 r = (Inr bs, r1)"
    using assms by (auto simp: ProposeReplyTS_Unmarshal_def split: prod.splits sum.splits)
  define t1 where "t1 = t\<lparr>ts_OK := bs ! 0, ts_CommandId := le_word (tl bs)\<rparr>"
  obtain e v r2 where v: "Value_Unmarshal (ts_Value t) r1 = (e, v, r2)"
    by (cases "Value_Unmarshal (ts_Value t) r1") auto
  with assms b1 obtain b3 where b3: "r2 = b3 @ rest" "length b3 = 8"
    and x: "x = t1\<lparr>ts_Value := v, ts_Timestamp := le_word b3\<rparr>"
    by (auto simp: ProposeReplyTS_Unmarshal_def Let_def t1_def elim!: read_word_None)
  have "e = None"
  proof (rule ccontr)
    assume "e \<noteq> None"
    with v Value_Unmarshal_error [of "ts_Value t" r1 _ v r2] have "r2 = []" by auto
    with b3 show False by simp
  qed
  with v have "r1 = Value_Marshal v @ r2" by (simp add: value_codec.dec_sound)
  with readFull_5_Inr [OF b1] b3 x show ?thesis
    by (simp add: ProposeReplyTS_Marshal_def t1_def le64_inv)
qed

lemma ProposeReplyTS_dec_enc: "ProposeReplyTS_Unmarshal t (ProposeReplyTS_Marshal x @ rest) = (None, x, rest)"
  by (simp add: marshal_defs unmarshal_defs wire_simps Let_def)

interpretation propose_reply_ts: strict_codec ProposeReplyTS_Marshal ProposeReplyTS_Unmarshal
  by unfold_locales (rule ProposeReplyTS_dec_enc, rule ProposeReplyTS_dec_sound)

section \<open>The decoders that accept truncated input\<close>

lemma Key_Unmarshal_short:
  "length r < 8 \<Longrightarrow> Key_Unmarshal t r = (Some (if r = [] then EOF else UnexpectedEOF), t, [])"
  by (simp add: Key_Unmarshal_def readFull_def)

lemma Value_Unmarshal_short:
  "length r < 8 \<Longrightarrow> Value_Unmarshal t r = (Some (if r = [] then EOF else UnexpectedEOF), t, [])"
  by (simp add: Value_Unmarshal_def readFull_def)

lemma Read_truncated:
  "length r < 8 \<Longrightarrow> Read_Unmarshal t (le_bytes 4 cid @ r) = (None, t\<lparr>rd_CommandId := cid\<rparr>, [])"
  by (simp add: Read_Unmarshal_def wire_simps Key_Unmarshal_short Let_def)

lemma ReadReply_truncated:
  "length r < 8 \<Longrightarrow> ReadReply_Unmarshal t (le_bytes 4 cid @ r) = (None, t\<lparr>rr_CommandId := cid\<rparr>, [])"
  by (simp add: ReadReply_Unmarshal_def wire_simps Value_Unmarshal_short Let_def)

lemma ProposeAndReadReply_truncated:
  "length r < 8 \<Longrightarrow>
     ProposeAndReadReply_Unmarshal t (ok # le_bytes 4 cid @ r)
       = (None, t\<lparr>parr_OK := ok, parr_CommandId := cid\<rparr>, [])"
  by (simp add: ProposeAndReadReply_Unmarshal_def wire_simps Value_Unmarshal_short Let_def)

section \<open>Properties\<close>

text \<open>Any sequence of proposals, or of replies, written to a connection is read back unchanged,
  message by message, whatever the receiving objects held before, and exactly what follows it is left
  in the stream.\<close>

theorem client_stream_roundtrip:
  "decode_stream Propose_Unmarshal t (length xs) (concat (map Propose_Marshal xs) @ rest) = (None, xs, rest)
   \<and> decode_stream ProposeReplyTS_Unmarshal u (length ys) (concat (map ProposeReplyTS_Marshal ys) @ rest)
       = (None, ys, rest)"
  by (simp add: propose.decode_stream_concat propose_reply_ts.decode_stream_concat)

text \<open>A proposal or a reply cut off anywhere is reported as an error, although the decoders drop the
  error of the inner field.\<close>

theorem truncated_proposal_reported:
  "(Propose_Marshal x = bs @ lost \<and> lost \<noteq> [] \<longrightarrow> fst (Propose_Unmarshal t bs) \<noteq> None)
   \<and> (ProposeReplyTS_Marshal y = bs @ lost \<and> lost \<noteq> [] \<longrightarrow> fst (ProposeReplyTS_Unmarshal u bs) \<noteq> None)"
  using propose.truncated_fails propose_reply_ts.truncated_fails by blast

theorem truncated_proposal_reported_witness:
  "fst (Propose_Unmarshal zero_Propose (take 20 (Propose_Marshal zero_Propose))) \<noteq> None"
proof -
  have "length (Propose_Marshal zero_Propose) = 29" by (simp add: Propose_Marshal_def)
  then have "drop 20 (Propose_Marshal zero_Propose) \<noteq> []" by simp
  then show ?thesis
    using truncated_proposal_reported [of zero_Propose "take 20 (Propose_Marshal zero_Propose)"
        "drop 20 (Propose_Marshal zero_Propose)"] by simp
qed

text \<open>A read request, a read reply or the reply to a combined request whose last field is cut off is
  accepted: no error is reported, and the field keeps whatever the receiving object held before.\<close>

theorem truncated_read_accepted:
  assumes "length r < 8"
  shows "Read_Unmarshal t (le_bytes 4 cid @ r) = (None, t\<lparr>rd_CommandId := cid\<rparr>, [])
    \<and> ReadReply_Unmarshal u (le_bytes 4 cid @ r) = (None, u\<lparr>rr_CommandId := cid\<rparr>, [])
    \<and> ProposeAndReadReply_Unmarshal w (ok # le_bytes 4 cid @ r) = (None, w\<lparr>parr_OK := ok, parr_CommandId := cid\<rparr>, [])"
  using assms by (simp add: Read_truncated ReadReply_truncated ProposeAndReadReply_truncated)

theorem truncated_read_accepted_witness:
  "Read_Unmarshal \<lparr>rd_CommandId = 9, rd_Key = 7\<rparr> (le_bytes 4 (1 :: u32) @ [0, 0]) = (None, \<lparr>rd_CommandId = 1, rd_Key = 7\<rparr>, [])"
  using truncated_read_accepted [of "[0, 0]" "\<lparr>rd_CommandId = 9, rd_Key = 7\<rparr>" 1] by simp

end
