(* ===== verification/Epx_State.thy ===== *)
theory Epx_State
  imports Lab_Proto "HOL-Library.Monad_Syntax"
begin

text \<open>
  The original EPaxos replica (\<^verbatim>\<open>lab/upstream/epaxos/src/epaxos/epaxos.go\<close>, \<^verbatim>\<open>epaxosproto.go\<close>, the
  base replica of \<^verbatim>\<open>genericsmr.go\<close>): messages, instances, the state of one replica, sending, and the
  helper functions of the protocol. An \<^verbatim>\<open>int32\<close> is an \<^typ>\<open>int\<close> with \<open>wrap32\<close> where it may leave its
  range; an array \<^verbatim>\<open>[DS]int32\<close> and a Go slice are lists, a nil slice of commands is \<open>None\<close>. The package
  variables \<^verbatim>\<open>pa\<close>, \<^verbatim>\<open>tpa\<close>, \<^verbatim>\<open>deferMap\<close> and the counters belong to the one replica of a process and are
  fields of it. What a step sends, answers and logs is appended to \<open>ep_out\<close>. An operation that panics
  (nil dereference, index out of range) is \<open>None\<close>.
\<close>

section \<open>Numbers and constants\<close>

definition wrap32 :: "int \<Rightarrow> int" where
  "wrap32 x = (x + 2 ^ 31) mod 2 ^ 32 - 2 ^ 31"

lemma wrap32_id: "- (2 ^ 31) \<le> x \<Longrightarrow> x < 2 ^ 31 \<Longrightarrow> wrap32 x = x"
  by (simp add: wrap32_def)

definition DS :: nat where "DS = 9"
definition MAX_BATCH :: nat where "MAX_BATCH = 1000"
definition SPACE_SIZE :: int where "SPACE_SIZE = 2 * 1024 * 1024"

definition NO_STATUS :: int where "NO_STATUS = 0"
definition PREACCEPTED :: int where "PREACCEPTED = 1"
definition PREACCEPTED_EQ :: int where "PREACCEPTED_EQ = 2"
definition ACCEPTED :: int where "ACCEPTED = 3"
definition COMMITTED :: int where "COMMITTED = 4"
definition EXECUTED :: int where "EXECUTED = 5"

lemmas status_defs =
  NO_STATUS_def PREACCEPTED_def PREACCEPTED_EQ_def ACCEPTED_def COMMITTED_def EXECUTED_def

section \<open>Messages\<close>

record Prepare =
  pp_LeaderId :: int
  pp_Replica :: int
  pp_Instance :: int
  pp_Ballot :: int

record PrepareReply =
  ppr_AcceptorId :: int
  ppr_Replica :: int
  ppr_Instance :: int
  ppr_OK :: bool
  ppr_Ballot :: int
  ppr_Status :: int
  ppr_Command :: "Command list"
  ppr_Seq :: int
  ppr_Deps :: "int list"

text \<open>\<^verbatim>\<open>TryPreAccept\<close> has the fields of \<^verbatim>\<open>PreAccept\<close> and the same encoding.\<close>

record PreAccept =
  pac_LeaderId :: int
  pac_Replica :: int
  pac_Instance :: int
  pac_Ballot :: int
  pac_Command :: "Command list"
  pac_Seq :: int
  pac_Deps :: "int list"

record PreAcceptReply =
  par_Replica :: int
  par_Instance :: int
  par_OK :: bool
  par_Ballot :: int
  par_Seq :: int
  par_Deps :: "int list"
  par_CommittedDeps :: "int list"

record Accept =
  ac_LeaderId :: int
  ac_Replica :: int
  ac_Instance :: int
  ac_Ballot :: int
  ac_Count :: int
  ac_Seq :: int
  ac_Deps :: "int list"

record AcceptReply =
  acr_Replica :: int
  acr_Instance :: int
  acr_OK :: bool
  acr_Ballot :: int

record Commit =
  cm_LeaderId :: int
  cm_Replica :: int
  cm_Instance :: int
  cm_Command :: "Command list"
  cm_Seq :: int
  cm_Deps :: "int list"

record CommitShort =
  cs_LeaderId :: int
  cs_Replica :: int
  cs_Instance :: int
  cs_Count :: int
  cs_Seq :: int
  cs_Deps :: "int list"

record TryPreAcceptReply =
  tpr_AcceptorId :: int
  tpr_Replica :: int
  tpr_Instance :: int
  tpr_OK :: bool
  tpr_Ballot :: int
  tpr_ConflictReplica :: int
  tpr_ConflictInstance :: int
  tpr_ConflictStatus :: int

datatype epx_msg =
    M_Prepare Prepare | M_PrepareReply PrepareReply | M_PreAccept PreAccept
  | M_PreAcceptReply PreAcceptReply | M_PreAcceptOK int | M_Accept Accept | M_AcceptReply AcceptReply
  | M_Commit Commit | M_CommitShort CommitShort | M_TryPreAccept PreAccept
  | M_TryPreAcceptReply TryPreAcceptReply

section \<open>The state of a replica\<close>

text \<open>A proposal with the writer its answer goes to.\<close>

record proposal =
  cp_Propose :: Propose
  cp_Reply :: nat

record RecoveryInstance =
  ri_cmds :: "Command list option"
  ri_status :: int
  ri_seq :: int
  ri_deps :: "int list"
  ri_preAcceptCount :: int
  ri_leaderResponded :: bool

record LeaderBookkeeping =
  lb_clientProposals :: "proposal list option"
  lb_maxRecvBallot :: int
  lb_prepareOKs :: int
  lb_allEqual :: bool
  lb_preAcceptOKs :: int
  lb_acceptOKs :: int
  lb_nacks :: int
  lb_originalDeps :: "int list"
  lb_committedDeps :: "int list"
  lb_recoveryInst :: "RecoveryInstance option"
  lb_preparing :: bool
  lb_tryingToPreAccept :: bool
  lb_possibleQuorum :: "bool list"
  lb_tpaOKs :: int

record Instance =
  ei_Cmds :: "Command list option"
  ei_ballot :: int
  ei_Status :: int
  ei_Seq :: int
  ei_Deps :: "int list"
  ei_lb :: "LeaderBookkeeping option"
  ei_Index :: int
  ei_Lowlink :: int

datatype epx_out =
    Send int epx_msg | ReplyTS nat ProposeReplyTS | StableWrite bytes | StableSync

record Replica =
  ep_N :: int
  ep_Id :: int
  ep_Alive :: "int \<Rightarrow> bool"
  ep_PreferredPeerOrder :: "int list"
  ep_Thrifty :: bool
  ep_Dreply :: bool
  ep_Durable :: bool
  ep_State :: State
  ep_ProposeChan :: "proposal list"
  ep_InstanceSpace :: "int \<Rightarrow> int \<Rightarrow> Instance option"
  ep_crtInstance :: "int \<Rightarrow> int"
  ep_CommittedUpTo :: "int list"
  ep_ExecedUpTo :: "int \<Rightarrow> int"
  ep_conflicts :: "int \<Rightarrow> u64 \<rightharpoonup> int"
  ep_maxSeqPerKey :: "u64 \<rightharpoonup> int"
  ep_maxSeq :: int
  ep_latestCPReplica :: int
  ep_latestCPInstance :: int
  ep_appliedN :: int
  ep_pa :: PreAccept
  ep_tpa :: PreAccept
  ep_deferMap :: "int \<times> int \<rightharpoonup> int \<times> int"
  ep_happy :: int
  ep_slow :: int
  ep_weird :: int
  ep_conflicted :: int
  ep_out :: "epx_out list"

definition zero_deps :: "int list" where "zero_deps = replicate DS 0"
definition no_deps :: "int list" where "no_deps = replicate DS (- 1)"

definition zero_pa :: PreAccept where
  "zero_pa = \<lparr>pac_LeaderId = 0, pac_Replica = 0, pac_Instance = 0, pac_Ballot = 0, pac_Command = [],
     pac_Seq = 0, pac_Deps = zero_deps\<rparr>"

text \<open>The base replica's \<^verbatim>\<open>UpdatePreferredPeerOrder\<close>: the given quorum first, then the others in their
  old order.\<close>

definition UpdatePreferredPeerOrder :: "int list \<Rightarrow> Replica \<Rightarrow> Replica" where
  "UpdatePreferredPeerOrder quorum r =
     (let front = filter (\<lambda>p. p \<noteq> ep_Id r) quorum;
          aux = fold (\<lambda>p a. if p \<in> set a then a else a @ [p]) (ep_PreferredPeerOrder r) front
      in r\<lparr>ep_PreferredPeerOrder := aux\<rparr>)"

definition NewReplica :: "int \<Rightarrow> int \<Rightarrow> bool \<Rightarrow> bool \<Rightarrow> bool \<Rightarrow> Replica" where
  "NewReplica rid n thrifty dreply durable =
     \<lparr>ep_N = n, ep_Id = rid, ep_Alive = (\<lambda>q. q \<noteq> rid),
      ep_PreferredPeerOrder = map (\<lambda>i. (rid + 1 + i) mod n) [0..n - 1],
      ep_Thrifty = thrifty, ep_Dreply = dreply, ep_Durable = durable, ep_State = InitState,
      ep_ProposeChan = [], ep_InstanceSpace = (\<lambda>_ _. None), ep_crtInstance = (\<lambda>_. 0),
      ep_CommittedUpTo = no_deps, ep_ExecedUpTo = (\<lambda>_. - 1), ep_conflicts = (\<lambda>_. Map.empty),
      ep_maxSeqPerKey = Map.empty, ep_maxSeq = 0, ep_latestCPReplica = 0, ep_latestCPInstance = - 1,
      ep_appliedN = 0, ep_pa = zero_pa, ep_tpa = zero_pa, ep_deferMap = Map.empty,
      ep_happy = 0, ep_slow = 0, ep_weird = 0, ep_conflicted = 0, ep_out = []\<rparr>"

text \<open>Index checks: a slice element is read and written only inside its bounds.\<close>

definition at :: "'a list \<Rightarrow> int \<Rightarrow> 'a option" where
  "at xs i = (if 0 \<le> i \<and> i < int (length xs) then Some (xs ! nat i) else None)"

definition set_at :: "'a list \<Rightarrow> int \<Rightarrow> 'a \<Rightarrow> 'a list" where
  "set_at xs i x = xs[nat i := x]"

definition in_space :: "Replica \<Rightarrow> int \<Rightarrow> int \<Rightarrow> bool" where
  "in_space r q i \<longleftrightarrow> 0 \<le> q \<and> q < ep_N r \<and> 0 \<le> i \<and> i < SPACE_SIZE"

definition look :: "Replica \<Rightarrow> int \<Rightarrow> int \<Rightarrow> Instance option option" where
  "look r q i = (if in_space r q i then Some (ep_InstanceSpace r q i) else None)"

definition put :: "int \<Rightarrow> int \<Rightarrow> Instance \<Rightarrow> Replica \<Rightarrow> Replica option" where
  "put q i inst r =
     (if in_space r q i
      then Some (r\<lparr>ep_InstanceSpace := (ep_InstanceSpace r)(q := (ep_InstanceSpace r q)(i := Some inst))\<rparr>)
      else None)"

definition replicas :: "Replica \<Rightarrow> int list" where
  "replicas r = [0..ep_N r - 1]"

section \<open>Ballots\<close>

definition makeUniqueBallot :: "Replica \<Rightarrow> int \<Rightarrow> int" where
  "makeUniqueBallot r ballot = wrap32 (ballot * 16) OR ep_Id r"

definition makeBallotLargerThan :: "Replica \<Rightarrow> int \<Rightarrow> int" where
  "makeBallotLargerThan r ballot = makeUniqueBallot r (wrap32 (ballot div 16 + 1))"

definition isInitialBallot :: "int \<Rightarrow> bool" where
  "isInitialBallot ballot \<longleftrightarrow> ballot div 16 = 0"

definition replicaIdFromBallot :: "int \<Rightarrow> int" where
  "replicaIdFromBallot ballot = ballot AND 15"

section \<open>Sending and logging\<close>

definition out :: "epx_out list \<Rightarrow> Replica \<Rightarrow> Replica" where
  "out os r = r\<lparr>ep_out := ep_out r @ os\<rparr>"

text \<open>\<^verbatim>\<open>SendMsg\<close> puts the marshalled message into the peer's queue; there is one queue per replica.\<close>

definition SendMsg :: "int \<Rightarrow> epx_msg \<Rightarrow> Replica \<Rightarrow> Replica option" where
  "SendMsg q m r = (if 0 \<le> q \<and> q < ep_N r then Some (out [Send q m] r) else None)"

definition le32_of :: "int \<Rightarrow> bytes" where
  "le32_of v = le_bytes 4 (word_of_int v :: u32)"

definition metadata_bytes :: "Instance \<Rightarrow> bytes" where
  "metadata_bytes inst =
     le32_of (ei_ballot inst) @ [word_of_int (ei_Status inst)] @ le32_of (ei_Seq inst)
     @ concat (map le32_of (ei_Deps inst))"

text \<open>\<^verbatim>\<open>recordInstanceMetadata\<close> of the instance in a slot; an empty slot is a nil dereference once the
  replica is durable.\<close>

definition recordInstanceMetadata :: "int \<Rightarrow> int \<Rightarrow> Replica \<Rightarrow> Replica option" where
  "recordInstanceMetadata q i r = do {
     slot \<leftarrow> look r q i;
     if \<not> ep_Durable r then Some r
     else do { inst \<leftarrow> slot; Some (out [StableWrite (metadata_bytes inst)] r) }
   }"

definition recordCommands :: "Command list option \<Rightarrow> Replica \<Rightarrow> Replica" where
  "recordCommands cmds r =
     (if \<not> ep_Durable r then r
      else case cmds of
             None \<Rightarrow> r
           | Some cs \<Rightarrow> out (map (\<lambda>c. StableWrite (Command_Marshal c)) cs) r)"

definition sync :: "Replica \<Rightarrow> Replica" where
  "sync r = (if \<not> ep_Durable r then r else out [StableSync] r)"

text \<open>The message of a nil slice carries no commands.\<close>

definition on_wire :: "Command list option \<Rightarrow> Command list" where
  "on_wire cmds = (case cmds of None \<Rightarrow> [] | Some cs \<Rightarrow> cs)"

definition quorum_peers :: "Replica \<Rightarrow> int" where
  "quorum_peers r = (if ep_Thrifty r then ep_N r div 2 else ep_N r - 1)"

definition alive_peers :: "Replica \<Rightarrow> int list" where
  "alive_peers r = filter (ep_Alive r) (take (nat (ep_N r - 1)) (ep_PreferredPeerOrder r))"

text \<open>\<^verbatim>\<open>bcastPrepare\<close> goes round the replicas from its own identifier on.\<close>

definition bcastPrepare :: "int \<Rightarrow> int \<Rightarrow> int \<Rightarrow> Replica \<Rightarrow> Replica" where
  "bcastPrepare replica instance ballot r =
     (let args = \<lparr>pp_LeaderId = ep_Id r, pp_Replica = replica, pp_Instance = instance, pp_Ballot = ballot\<rparr>;
          ring = map (\<lambda>k. (ep_Id r + k) mod ep_N r) [1..ep_N r - 1]
      in out (map (\<lambda>q. Send q (M_Prepare args)) (take (nat (quorum_peers r)) (filter (ep_Alive r) ring))) r)"

definition bcastPreAccept ::
  "int \<Rightarrow> int \<Rightarrow> int \<Rightarrow> Command list option \<Rightarrow> int \<Rightarrow> int list \<Rightarrow> Replica \<Rightarrow> Replica" where
  "bcastPreAccept replica instance ballot cmds seq deps r =
     (let args = \<lparr>pac_LeaderId = ep_Id r, pac_Replica = replica, pac_Instance = instance, pac_Ballot = ballot,
                  pac_Command = on_wire cmds, pac_Seq = seq, pac_Deps = deps\<rparr>
      in out (map (\<lambda>q. Send q (M_PreAccept args)) (take (nat (quorum_peers r)) (alive_peers r)))
           (r\<lparr>ep_pa := args\<rparr>))"

text \<open>\<^verbatim>\<open>bcastTryPreAccept\<close> fills \<^verbatim>\<open>tpa\<close> but sends \<^verbatim>\<open>pa\<close>.\<close>

definition bcastTryPreAccept ::
  "int \<Rightarrow> int \<Rightarrow> int \<Rightarrow> Command list option \<Rightarrow> int \<Rightarrow> int list \<Rightarrow> Replica \<Rightarrow> Replica" where
  "bcastTryPreAccept replica instance ballot cmds seq deps r =
     (let tpa = \<lparr>pac_LeaderId = ep_Id r, pac_Replica = replica, pac_Instance = instance, pac_Ballot = ballot,
                 pac_Command = on_wire cmds, pac_Seq = seq, pac_Deps = deps\<rparr>
      in out (map (\<lambda>q. Send q (M_TryPreAccept (ep_pa r)))
               (filter (\<lambda>q. q \<noteq> ep_Id r \<and> ep_Alive r q) (replicas r)))
           (r\<lparr>ep_tpa := tpa\<rparr>))"

definition bcastAccept :: "int \<Rightarrow> int \<Rightarrow> int \<Rightarrow> int \<Rightarrow> int \<Rightarrow> int list \<Rightarrow> Replica \<Rightarrow> Replica" where
  "bcastAccept replica instance ballot count seq deps r =
     (let args = \<lparr>ac_LeaderId = ep_Id r, ac_Replica = replica, ac_Instance = instance, ac_Ballot = ballot,
                  ac_Count = count, ac_Seq = seq, ac_Deps = deps\<rparr>
      in out (map (\<lambda>q. Send q (M_Accept args)) (take (nat (quorum_peers r)) (alive_peers r))) r)"

text \<open>The first half of the peers gets the short message when \<^verbatim>\<open>Thrifty\<close> is set, otherwise all do.\<close>

definition bcastCommit :: "int \<Rightarrow> int \<Rightarrow> Command list option \<Rightarrow> int \<Rightarrow> int list \<Rightarrow> Replica \<Rightarrow> Replica" where
  "bcastCommit replica instance cmds seq deps r =
     (let args = \<lparr>cm_LeaderId = ep_Id r, cm_Replica = replica, cm_Instance = instance,
                  cm_Command = on_wire cmds, cm_Seq = seq, cm_Deps = deps\<rparr>;
          argsShort = \<lparr>cs_LeaderId = ep_Id r, cs_Replica = replica, cs_Instance = instance,
                       cs_Count = int (length (on_wire cmds)), cs_Seq = seq, cs_Deps = deps\<rparr>;
          short = (if ep_Thrifty r then nat (ep_N r div 2) else length (alive_peers r))
      in out (map (\<lambda>q. Send q (M_CommitShort argsShort)) (take short (alive_peers r))
              @ map (\<lambda>q. Send q (M_Commit args)) (drop short (alive_peers r))) r)"

section \<open>Helper functions\<close>

definition clearHashtables :: "Replica \<Rightarrow> Replica" where
  "clearHashtables r = r\<lparr>ep_conflicts := (\<lambda>_. Map.empty)\<rparr>"

definition decided :: "Instance \<Rightarrow> bool" where
  "decided inst \<longleftrightarrow> ei_Status inst = COMMITTED \<or> ei_Status inst = EXECUTED"

text \<open>A test \<^verbatim>\<open>inst != nil && ...\<close>.\<close>

definition found_with :: "(Instance \<Rightarrow> bool) \<Rightarrow> Instance option \<Rightarrow> bool" where
  "found_with P found = (case found of None \<Rightarrow> False | Some inst \<Rightarrow> P inst)"

lemma found_with_simps [simp]: "\<not> found_with P None" "found_with P (Some inst) = P inst"
  by (simp_all add: found_with_def)

text \<open>The loop of \<^verbatim>\<open>updateCommitted\<close>: \<open>c\<close> is \<^verbatim>\<open>CommittedUpTo[replica]\<close>.\<close>

function committed_from :: "Replica \<Rightarrow> int \<Rightarrow> int \<Rightarrow> int option" where
  "committed_from r q c =
     (case look r q (c + 1) of
        None \<Rightarrow> None
      | Some None \<Rightarrow> Some c
      | Some (Some inst) \<Rightarrow> if decided inst then committed_from r q (c + 1) else Some c)"
  by pat_completeness auto
termination
  by (relation "measure (\<lambda>(r, q, c). nat (SPACE_SIZE - c))")
    (auto simp: look_def in_space_def split: if_splits)

declare committed_from.simps [simp del]

definition updateCommitted :: "int \<Rightarrow> Replica \<Rightarrow> Replica option" where
  "updateCommitted replica r = do {
     c0 \<leftarrow> at (ep_CommittedUpTo r) replica;
     c \<leftarrow> committed_from r replica c0;
     Some (r\<lparr>ep_CommittedUpTo := set_at (ep_CommittedUpTo r) replica c\<rparr>)
   }"

definition raise_entry :: "('k \<rightharpoonup> int) \<Rightarrow> 'k \<Rightarrow> int \<Rightarrow> ('k \<rightharpoonup> int)" where
  "raise_entry m k v =
     (case m k of Some d \<Rightarrow> if d < v then m(k \<mapsto> v) else m | None \<Rightarrow> m(k \<mapsto> v))"

definition row_ok :: "Replica \<Rightarrow> int \<Rightarrow> bool" where
  "row_ok r q \<longleftrightarrow> 0 \<le> q \<and> q < ep_N r"

definition note_conflict :: "int \<Rightarrow> int \<Rightarrow> int \<Rightarrow> Command \<Rightarrow> Replica \<Rightarrow> Replica" where
  "note_conflict replica instance seq c r =
     r\<lparr>ep_conflicts := (ep_conflicts r)(replica := raise_entry (ep_conflicts r replica) (cmd_K c) instance),
       ep_maxSeqPerKey := raise_entry (ep_maxSeqPerKey r) (cmd_K c) seq\<rparr>"

definition updateConflicts :: "Command list \<Rightarrow> int \<Rightarrow> int \<Rightarrow> int \<Rightarrow> Replica \<Rightarrow> Replica option" where
  "updateConflicts cmds replica instance seq r =
     (if cmds \<noteq> [] \<and> \<not> row_ok r replica then None
      else Some (fold (note_conflict replica instance seq) cmds r))"

type_synonym attributes = "int \<times> int list \<times> bool"

text \<open>The commands of the batch against the table of replica \<open>q\<close>: the loop ends at the first one that
  raises the dependency.\<close>

fun row_attributes :: "Replica \<Rightarrow> int \<Rightarrow> Command list \<Rightarrow> attributes \<Rightarrow> attributes option" where
  "row_attributes r q [] a = Some a"
| "row_attributes r q (c # cs) (seq, deps, changed) =
     (case ep_conflicts r q (cmd_K c) of
        None \<Rightarrow> row_attributes r q cs (seq, deps, changed)
      | Some d \<Rightarrow> do {
          dq \<leftarrow> at deps q;
          if d > dq
          then do {
            e \<leftarrow> look r q d;
            inst \<leftarrow> e;
            Some (if seq \<le> ei_Seq inst then wrap32 (ei_Seq inst + 1) else seq, set_at deps q d, True)
          }
          else row_attributes r q cs (seq, deps, changed)
        })"

fun rows_attributes :: "Replica \<Rightarrow> int \<Rightarrow> Command list \<Rightarrow> int list \<Rightarrow> attributes \<Rightarrow> attributes option" where
  "rows_attributes r replica cmds [] a = Some a"
| "rows_attributes r replica cmds (q # qs) a =
     (if ep_Id r \<noteq> replica \<and> q = replica then rows_attributes r replica cmds qs a
      else do { a' \<leftarrow> row_attributes r q cmds a; rows_attributes r replica cmds qs a' })"

fun seq_attributes :: "Replica \<Rightarrow> Command list \<Rightarrow> attributes \<Rightarrow> attributes" where
  "seq_attributes r [] a = a"
| "seq_attributes r (c # cs) (seq, deps, changed) =
     (case ep_maxSeqPerKey r (cmd_K c) of
        None \<Rightarrow> seq_attributes r cs (seq, deps, changed)
      | Some s \<Rightarrow> seq_attributes r cs (if seq \<le> s then (wrap32 (s + 1), deps, True) else (seq, deps, changed)))"

definition updateAttributes :: "Command list \<Rightarrow> int \<Rightarrow> int list \<Rightarrow> int \<Rightarrow> Replica \<Rightarrow> attributes option" where
  "updateAttributes cmds seq deps replica r = do {
     a \<leftarrow> rows_attributes r replica cmds (replicas r) (seq, deps, False);
     Some (seq_attributes r cmds a)
   }"

text \<open>\<^verbatim>\<open>mergeAttributes\<close> over the other replicas' entries; the result says whether all were equal.\<close>

fun merge_deps :: "int list \<Rightarrow> int list \<Rightarrow> int list \<Rightarrow> bool \<Rightarrow> (int list \<times> bool) option" where
  "merge_deps deps2 [] deps1 eq = Some (deps1, eq)"
| "merge_deps deps2 (q # qs) deps1 eq = do {
     d1 \<leftarrow> at deps1 q;
     d2 \<leftarrow> at deps2 q;
     if d1 \<noteq> d2
     then merge_deps deps2 qs (if d2 > d1 then set_at deps1 q d2 else deps1) False
     else merge_deps deps2 qs deps1 eq
   }"

definition mergeAttributes ::
  "int \<Rightarrow> int list \<Rightarrow> int \<Rightarrow> int list \<Rightarrow> Replica \<Rightarrow> attributes option" where
  "mergeAttributes seq1 deps1 seq2 deps2 r = do {
     (deps, eq) \<leftarrow> merge_deps deps2 (filter (\<lambda>q. q \<noteq> ep_Id r) (replicas r)) deps1 (seq1 = seq2);
     Some (if seq2 > seq1 then seq2 else seq1, deps, eq)
   }"

end
