(* ===== verification/Epx_Core.thy ===== *)
theory Epx_Core
  imports Epx_State
begin

text \<open>
  The handlers of the original EPaxos replica (\<^verbatim>\<open>lab/upstream/epaxos/src/epaxos/epaxos.go\<close>): proposals,
  the two phases, commits and recovery, and the step of the main loop that dispatches to them. Checkpoints
  are switched off by a constant of the source (\<^verbatim>\<open>DO_CHECKPOINTING\<close>), so their branch of \<^verbatim>\<open>startPhase1\<close> is
  left out.
\<close>

section \<open>Phase 1\<close>

definition new_lb :: "proposal list option \<Rightarrow> int list \<Rightarrow> LeaderBookkeeping" where
  "new_lb proposals deps =
     \<lparr>lb_clientProposals = proposals, lb_maxRecvBallot = 0, lb_prepareOKs = 0, lb_allEqual = True,
      lb_preAcceptOKs = 0, lb_acceptOKs = 0, lb_nacks = 0, lb_originalDeps = deps,
      lb_committedDeps = no_deps, lb_recoveryInst = None, lb_preparing = False,
      lb_tryingToPreAccept = False, lb_possibleQuorum = [], lb_tpaOKs = 0\<rparr>"

definition new_instance :: "Command list option \<Rightarrow> int \<Rightarrow> int \<Rightarrow> int \<Rightarrow> int list \<Rightarrow> LeaderBookkeeping option \<Rightarrow> Instance" where
  "new_instance cmds ballot status seq deps lb =
     \<lparr>ei_Cmds = cmds, ei_ballot = ballot, ei_Status = status, ei_Seq = seq, ei_Deps = deps, ei_lb = lb,
      ei_Index = 0, ei_Lowlink = 0\<rparr>"

definition raise_maxSeq :: "int \<Rightarrow> Replica \<Rightarrow> Replica" where
  "raise_maxSeq seq r = (if seq \<ge> ep_maxSeq r then r\<lparr>ep_maxSeq := wrap32 (seq + 1)\<rparr> else r)"

definition raise_crt :: "int \<Rightarrow> int \<Rightarrow> Replica \<Rightarrow> Replica option" where
  "raise_crt q i r =
     (if \<not> row_ok r q then None
      else Some (if i \<ge> ep_crtInstance r q
                 then r\<lparr>ep_crtInstance := (ep_crtInstance r)(q := wrap32 (i + 1))\<rparr> else r))"

text \<open>The new instance is written to the replica's own row, whatever \<^verbatim>\<open>replica\<close> is.\<close>

definition startPhase1 ::
  "int \<Rightarrow> int \<Rightarrow> int \<Rightarrow> proposal list option \<Rightarrow> Command list option \<Rightarrow> Replica \<Rightarrow> Replica option" where
  "startPhase1 replica instance ballot proposals cmds r = do {
     (seq, deps, changed) \<leftarrow> updateAttributes (on_wire cmds) 0
        (map (\<lambda>q. if int q < ep_N r then - 1 else 0) [0..<DS]) replica r;
     r1 \<leftarrow> put (ep_Id r) instance
        (new_instance cmds ballot PREACCEPTED seq deps (Some (new_lb proposals deps))) r;
     r2 \<leftarrow> updateConflicts (on_wire cmds) (ep_Id r) instance seq r1;
     r3 \<leftarrow> recordInstanceMetadata (ep_Id r) instance (raise_maxSeq seq r2);
     Some (bcastPreAccept (ep_Id r) instance ballot cmds seq deps (sync (recordCommands cmds r3)))
   }"

text \<open>The proposal and what waits in the channel, up to \<^verbatim>\<open>MAX_BATCH\<close>, become one instance.\<close>

definition handlePropose :: "proposal \<Rightarrow> Replica \<Rightarrow> Replica option" where
  "handlePropose propose r =
     (let batch = propose # take (MAX_BATCH - 1) (ep_ProposeChan r);
          instNo = ep_crtInstance r (ep_Id r);
          r1 = r\<lparr>ep_crtInstance := (ep_crtInstance r)(ep_Id r := wrap32 (instNo + 1)),
                 ep_ProposeChan := drop (MAX_BATCH - 1) (ep_ProposeChan r)\<rparr>
      in startPhase1 (ep_Id r) instNo 0 (Some batch) (Some (map (pr_Command \<circ> cp_Propose) batch)) r1)"

definition checkpoint :: "int \<Rightarrow> int \<Rightarrow> Replica \<Rightarrow> Replica" where
  "checkpoint replica instance r =
     clearHashtables (r\<lparr>ep_latestCPReplica := replica, ep_latestCPInstance := instance\<rparr>)"

fun some_uncommitted :: "int list \<Rightarrow> int list \<Rightarrow> int list \<Rightarrow> bool option" where
  "some_uncommitted deps committed [] = Some False"
| "some_uncommitted deps committed (q # qs) = do {
     d \<leftarrow> at deps q;
     c \<leftarrow> at committed q;
     if d > c then Some True else some_uncommitted deps committed qs
   }"

definition preaccept_reply :: "PreAccept \<Rightarrow> bool \<Rightarrow> int \<Rightarrow> int \<Rightarrow> int list \<Rightarrow> Replica \<Rightarrow> epx_msg" where
  "preaccept_reply m ok ballot seq deps r =
     M_PreAcceptReply \<lparr>par_Replica = pac_Replica m, par_Instance = pac_Instance m, par_OK = ok,
       par_Ballot = ballot, par_Seq = seq, par_Deps = deps, par_CommittedDeps = ep_CommittedUpTo r\<rparr>"

text \<open>A commit or accept overtook the pre-accept: only the commands are taken.\<close>

definition late_preaccept :: "PreAccept \<Rightarrow> Instance \<Rightarrow> Replica \<Rightarrow> Replica option" where
  "late_preaccept m inst r = do {
     r1 \<leftarrow> (if ei_Cmds inst = None
            then do {
              r1 \<leftarrow> put (pac_LeaderId m) (pac_Instance m) (inst\<lparr>ei_Cmds := Some (pac_Command m)\<rparr>) r;
              updateConflicts (pac_Command m) (pac_Replica m) (pac_Instance m) (pac_Seq m) r1
            }
            else Some r);
     Some (sync (recordCommands (Some (pac_Command m)) r1))
   }"

text \<open>The end of \<^verbatim>\<open>handlePreAccept\<close>, once the instance has its new attributes.\<close>

definition preaccepted :: "PreAccept \<Rightarrow> int \<Rightarrow> int list \<Rightarrow> bool \<Rightarrow> bool \<Rightarrow> Replica \<Rightarrow> Replica option" where
  "preaccepted m seq deps changed uncommittedDeps r = do {
     r1 \<leftarrow> updateConflicts (pac_Command m) (pac_Replica m) (pac_Instance m) (pac_Seq m) r;
     r2 \<leftarrow> recordInstanceMetadata (pac_Replica m) (pac_Instance m) r1;
     let r3 = sync (recordCommands (Some (pac_Command m)) r2);
     let r4 = (if pac_Command m = [] then checkpoint (pac_Replica m) (pac_Instance m) r3 else r3);
     if changed \<or> uncommittedDeps \<or> pac_Replica m \<noteq> pac_LeaderId m \<or> \<not> isInitialBallot (pac_Ballot m)
     then SendMsg (pac_LeaderId m) (preaccept_reply m True (pac_Ballot m) seq deps r4) r4
     else SendMsg (pac_LeaderId m) (M_PreAcceptOK (pac_Instance m)) r4
   }"

definition handlePreAccept :: "PreAccept \<Rightarrow> Replica \<Rightarrow> Replica option" where
  "handlePreAccept m r0 = do {
     found \<leftarrow> look r0 (pac_LeaderId m) (pac_Instance m);
     let r = raise_maxSeq (pac_Seq m) r0;
     if found_with (\<lambda>inst. ei_Status inst = COMMITTED \<or> ei_Status inst = ACCEPTED) found
     then late_preaccept m (the found) r
     else do {
       r1 \<leftarrow> raise_crt (pac_Replica m) (pac_Instance m) r;
       (seq, deps, changed) \<leftarrow> updateAttributes (pac_Command m) (pac_Seq m) (pac_Deps m) (pac_Replica m) r1;
       uncommittedDeps \<leftarrow> some_uncommitted deps (ep_CommittedUpTo r1) (replicas r1);
       let status = (if changed then PREACCEPTED else PREACCEPTED_EQ);
       case found of
         Some inst \<Rightarrow>
           if pac_Ballot m < ei_ballot inst
           then SendMsg (pac_LeaderId m)
                  (preaccept_reply m False (ei_ballot inst) (ei_Seq inst) (ei_Deps inst) r1) r1
           else do {
             r2 \<leftarrow> put (pac_LeaderId m) (pac_Instance m)
                    (inst\<lparr>ei_Cmds := Some (pac_Command m), ei_Seq := seq, ei_Deps := deps,
                          ei_ballot := pac_Ballot m, ei_Status := status\<rparr>) r1;
             preaccepted m seq deps changed uncommittedDeps r2
           }
       | None \<Rightarrow> do {
           r2 \<leftarrow> put (pac_Replica m) (pac_Instance m)
                  (new_instance (Some (pac_Command m)) (pac_Ballot m) status seq deps None) r1;
           preaccepted m seq deps changed uncommittedDeps r2
         }
     }
   }"

text \<open>Raises the leader's view of what is committed, entry by entry, and says whether every dependency is.\<close>

fun committed_deps ::
  "int list \<Rightarrow> int list \<Rightarrow> int list \<Rightarrow> int list \<Rightarrow> int list \<Rightarrow> bool \<Rightarrow> (int list \<times> bool) option" where
  "committed_deps seen done deps [] cd allCommitted = Some (cd, allCommitted)"
| "committed_deps seen done deps (q # qs) cd allCommitted = do {
     c \<leftarrow> at cd q;
     s \<leftarrow> at seen q;
     u \<leftarrow> at done q;
     d \<leftarrow> at deps q;
     let c' = max (max c s) u;
     committed_deps seen done deps qs (set_at cd q c') (allCommitted \<and> \<not> c' < d)
   }"

definition clients_all_clear :: "LeaderBookkeeping \<Rightarrow> Replica \<Rightarrow> Replica" where
  "clients_all_clear lb r =
     (case lb_clientProposals lb of
        None \<Rightarrow> r
      | Some ps \<Rightarrow>
          if ep_Dreply r then r
          else out (map (\<lambda>p. ReplyTS (cp_Reply p)
                 \<lparr>ts_OK = 1, ts_CommandId = pr_CommandId (cp_Propose p), ts_Value = NIL,
                  ts_Timestamp = pr_Timestamp (cp_Propose p)\<rparr>) ps) r)"

text \<open>The leader commits: its clients, its log, the other replicas.\<close>

definition commit_instance :: "int \<Rightarrow> int \<Rightarrow> Instance \<Rightarrow> LeaderBookkeeping \<Rightarrow> Replica \<Rightarrow> Replica option" where
  "commit_instance q i inst lb r = do {
     r1 \<leftarrow> put q i (inst\<lparr>ei_Status := COMMITTED, ei_lb := Some lb\<rparr>) r;
     r2 \<leftarrow> updateCommitted q r1;
     r3 \<leftarrow> recordInstanceMetadata q i (clients_all_clear lb r2);
     Some (bcastCommit q i (ei_Cmds inst) (ei_Seq inst) (ei_Deps inst) (sync r3))
   }"

definition slow_path :: "int \<Rightarrow> int \<Rightarrow> Instance \<Rightarrow> LeaderBookkeeping \<Rightarrow> bool \<Rightarrow> Replica \<Rightarrow> Replica option" where
  "slow_path q i inst lb allCommitted r = do {
     r1 \<leftarrow> put q i (inst\<lparr>ei_Status := ACCEPTED, ei_lb := Some lb\<rparr>) r;
     Some (bcastAccept q i (ei_ballot inst) (int (length (on_wire (ei_Cmds inst)))) (ei_Seq inst) (ei_Deps inst)
       (r1\<lparr>ep_weird := (if allCommitted then ep_weird r else ep_weird r + 1), ep_slow := ep_slow r + 1\<rparr>))
   }"

text \<open>The decision after a positive answer.\<close>

definition decide_path :: "int \<Rightarrow> int \<Rightarrow> Instance \<Rightarrow> LeaderBookkeeping \<Rightarrow> bool \<Rightarrow> Replica \<Rightarrow> Replica option" where
  "decide_path q i inst lb allCommitted r =
     (if lb_preAcceptOKs lb \<ge> ep_N r div 2 \<and> lb_allEqual lb \<and> allCommitted \<and> isInitialBallot (ei_ballot inst)
      then commit_instance q i inst lb (r\<lparr>ep_happy := ep_happy r + 1\<rparr>)
      else if lb_preAcceptOKs lb \<ge> ep_N r div 2 then slow_path q i inst lb allCommitted r
      else put q i (inst\<lparr>ei_lb := Some lb\<rparr>) r)"

definition nack :: "int \<Rightarrow> LeaderBookkeeping \<Rightarrow> LeaderBookkeeping" where
  "nack ballot lb = lb\<lparr>lb_nacks := lb_nacks lb + 1,
     lb_maxRecvBallot := (if ballot > lb_maxRecvBallot lb then ballot else lb_maxRecvBallot lb)\<rparr>"

definition handlePreAcceptReply :: "PreAcceptReply \<Rightarrow> Replica \<Rightarrow> Replica option" where
  "handlePreAcceptReply m r = do {
     slot \<leftarrow> look r (par_Replica m) (par_Instance m);
     inst \<leftarrow> slot;
     if ei_Status inst \<noteq> PREACCEPTED \<or> ei_ballot inst \<noteq> par_Ballot m then Some r
     else do {
       lb \<leftarrow> ei_lb inst;
       if \<not> par_OK m
       then put (par_Replica m) (par_Instance m) (inst\<lparr>ei_lb := Some (nack (par_Ballot m) lb)\<rparr>) r
       else do {
         let oks = lb_preAcceptOKs lb + 1;
         (seq, deps, eq) \<leftarrow> mergeAttributes (ei_Seq inst) (ei_Deps inst) (par_Seq m) (par_Deps m) r;
         let compared = (ep_N r \<le> 3 \<and> \<not> ep_Thrifty r \<or> oks > 1);
         (cd, allCommitted) \<leftarrow> committed_deps (par_CommittedDeps m) (ep_CommittedUpTo r) deps (replicas r)
            (lb_committedDeps lb) True;
         let lb1 = lb\<lparr>lb_preAcceptOKs := oks, lb_committedDeps := cd,
                      lb_allEqual := (if compared then lb_allEqual lb \<and> eq else lb_allEqual lb)\<rparr>;
         decide_path (par_Replica m) (par_Instance m) (inst\<lparr>ei_Seq := seq, ei_Deps := deps\<rparr>) lb1 allCommitted
           (r\<lparr>ep_conflicted := (if compared \<and> \<not> eq then ep_conflicted r + 1 else ep_conflicted r)\<rparr>)
       }
     }
   }"

definition handlePreAcceptOK :: "int \<Rightarrow> Replica \<Rightarrow> Replica option" where
  "handlePreAcceptOK instance r = do {
     slot \<leftarrow> look r (ep_Id r) instance;
     inst \<leftarrow> slot;
     if ei_Status inst \<noteq> PREACCEPTED \<or> \<not> isInitialBallot (ei_ballot inst) then Some r
     else do {
       lb \<leftarrow> ei_lb inst;
       (cd, allCommitted) \<leftarrow> committed_deps (lb_originalDeps lb) (ep_CommittedUpTo r) (ei_Deps inst) (replicas r)
          (lb_committedDeps lb) True;
       decide_path (ep_Id r) instance inst
         (lb\<lparr>lb_preAcceptOKs := lb_preAcceptOKs lb + 1, lb_committedDeps := cd\<rparr>) allCommitted r
     }
   }"

section \<open>Phase 2 and commit\<close>

definition accept_reply :: "Accept \<Rightarrow> bool \<Rightarrow> int \<Rightarrow> epx_msg" where
  "accept_reply m ok ballot =
     M_AcceptReply \<lparr>acr_Replica = ac_Replica m, acr_Instance = ac_Instance m, acr_OK = ok, acr_Ballot = ballot\<rparr>"

definition handleAccept :: "Accept \<Rightarrow> Replica \<Rightarrow> Replica option" where
  "handleAccept m r0 = do {
     found \<leftarrow> look r0 (ac_LeaderId m) (ac_Instance m);
     let r = raise_maxSeq (ac_Seq m) r0;
     if found_with decided found then Some r
     else do {
       r1 \<leftarrow> raise_crt (ac_LeaderId m) (ac_Instance m) r;
       if found_with (\<lambda>inst. ac_Ballot m < ei_ballot inst) found
       then SendMsg (ac_LeaderId m) (accept_reply m False (ei_ballot (the found))) r1
       else do {
         r2 \<leftarrow> (case found of
                  Some inst \<Rightarrow>
                    put (ac_LeaderId m) (ac_Instance m)
                      (inst\<lparr>ei_Status := ACCEPTED, ei_Seq := ac_Seq m, ei_Deps := ac_Deps m\<rparr>) r1
                | None \<Rightarrow> do {
                    r2 \<leftarrow> put (ac_LeaderId m) (ac_Instance m)
                       (new_instance None (ac_Ballot m) ACCEPTED (ac_Seq m) (ac_Deps m) None) r1;
                    Some (if ac_Count m = 0 then checkpoint (ac_Replica m) (ac_Instance m) r2 else r2)
                  });
         r3 \<leftarrow> recordInstanceMetadata (ac_Replica m) (ac_Instance m) r2;
         SendMsg (ac_LeaderId m) (accept_reply m True (ac_Ballot m)) (sync r3)
       }
     }
   }"

definition handleAcceptReply :: "AcceptReply \<Rightarrow> Replica \<Rightarrow> Replica option" where
  "handleAcceptReply m r = do {
     slot \<leftarrow> look r (acr_Replica m) (acr_Instance m);
     inst \<leftarrow> slot;
     if ei_Status inst \<noteq> ACCEPTED \<or> ei_ballot inst \<noteq> acr_Ballot m then Some r
     else do {
       lb \<leftarrow> ei_lb inst;
       if \<not> acr_OK m
       then put (acr_Replica m) (acr_Instance m) (inst\<lparr>ei_lb := Some (nack (acr_Ballot m) lb)\<rparr>) r
       else do {
         let lb1 = lb\<lparr>lb_acceptOKs := lb_acceptOKs lb + 1\<rparr>;
         if lb_acceptOKs lb1 + 1 > ep_N r div 2
         then commit_instance (acr_Replica m) (acr_Instance m) inst lb1 r
         else put (acr_Replica m) (acr_Instance m) (inst\<lparr>ei_lb := Some lb1\<rparr>) r
       }
     }
   }"

text \<open>Proposals whose instance was taken by another command go back into the channel.\<close>

definition requeue :: "LeaderBookkeeping option \<Rightarrow> Replica \<Rightarrow> Replica" where
  "requeue lb r = (case lb of
     None \<Rightarrow> r
   | Some l \<Rightarrow> (case lb_clientProposals l of None \<Rightarrow> r | Some ps \<Rightarrow> r\<lparr>ep_ProposeChan := ep_ProposeChan r @ ps\<rparr>))"

definition has_proposals :: "LeaderBookkeeping option \<Rightarrow> bool" where
  "has_proposals lb = (case lb of None \<Rightarrow> False | Some l \<Rightarrow> lb_clientProposals l \<noteq> None)"

definition handleCommit :: "Commit \<Rightarrow> Replica \<Rightarrow> Replica option" where
  "handleCommit m r0 = do {
     found \<leftarrow> look r0 (cm_Replica m) (cm_Instance m);
     r \<leftarrow> raise_crt (cm_Replica m) (cm_Instance m) (raise_maxSeq (cm_Seq m) r0);
     r2 \<leftarrow> (case found of
              Some inst \<Rightarrow>
                (let again = (has_proposals (ei_lb inst) \<and> cm_Command m = []);
                     r1 = (if again then requeue (ei_lb inst) r else r)
                 in put (cm_Replica m) (cm_Instance m)
                      (inst\<lparr>ei_lb := (if again then None else ei_lb inst),
                            ei_Seq := cm_Seq m, ei_Deps := cm_Deps m, ei_Status := COMMITTED\<rparr>) r1)
            | None \<Rightarrow> do {
                r1 \<leftarrow> put (cm_Replica m) (cm_Instance m)
                   (new_instance (Some (cm_Command m)) 0 COMMITTED (cm_Seq m) (cm_Deps m) None) r;
                r2 \<leftarrow> updateConflicts (cm_Command m) (cm_Replica m) (cm_Instance m) (cm_Seq m) r1;
                Some (if cm_Command m = [] then checkpoint (cm_Replica m) (cm_Instance m) r2 else r2)
              });
     r3 \<leftarrow> updateCommitted (cm_Replica m) r2;
     r4 \<leftarrow> recordInstanceMetadata (cm_Replica m) (cm_Instance m) r3;
     Some (recordCommands (Some (cm_Command m)) r4)
   }"

definition handleCommitShort :: "CommitShort \<Rightarrow> Replica \<Rightarrow> Replica option" where
  "handleCommitShort m r0 = do {
     found \<leftarrow> look r0 (cs_Replica m) (cs_Instance m);
     r \<leftarrow> raise_crt (cs_Replica m) (cs_Instance m) r0;
     r2 \<leftarrow> (case found of
              Some inst \<Rightarrow>
                (let again = has_proposals (ei_lb inst);
                     r1 = (if again then requeue (ei_lb inst) r else r)
                 in put (cs_Replica m) (cs_Instance m)
                      (inst\<lparr>ei_lb := (if again then None else ei_lb inst),
                            ei_Seq := cs_Seq m, ei_Deps := cs_Deps m, ei_Status := COMMITTED\<rparr>) r1)
            | None \<Rightarrow> do {
                r1 \<leftarrow> put (cs_Replica m) (cs_Instance m)
                   (new_instance None 0 COMMITTED (cs_Seq m) (cs_Deps m) None) r;
                Some (if cs_Count m = 0 then checkpoint (cs_Replica m) (cs_Instance m) r1 else r1)
              });
     r3 \<leftarrow> updateCommitted (cs_Replica m) r2;
     recordInstanceMetadata (cs_Replica m) (cs_Instance m) r3
   }"

end
