(* ===== verification/Epx_Recovery.thy ===== *)
theory Epx_Recovery
  imports Epx_Core
begin

text \<open>
  Recovery in the original EPaxos replica (\<^verbatim>\<open>epaxos.go\<close>, "recovery actions") and the step of its main loop.
  The code changes an instance through a pointer; when a handler replaces the instance in its slot, later
  changes go to the old object and are lost, which is why the order of \<open>put\<close> and \<open>startPhase1\<close> matters.
\<close>

section \<open>Prepare\<close>

definition recovery_lb :: "proposal list option \<Rightarrow> LeaderBookkeeping" where
  "recovery_lb proposals =
     \<lparr>lb_clientProposals = proposals, lb_maxRecvBallot = - 1, lb_prepareOKs = 0, lb_allEqual = False,
      lb_preAcceptOKs = 0, lb_acceptOKs = 0, lb_nacks = 0, lb_originalDeps = zero_deps, lb_committedDeps = [],
      lb_recoveryInst = None, lb_preparing = True, lb_tryingToPreAccept = False, lb_possibleQuorum = [],
      lb_tpaOKs = 0\<rparr>"

definition recovery_of :: "Command list option \<Rightarrow> int \<Rightarrow> int \<Rightarrow> int list \<Rightarrow> int \<Rightarrow> bool \<Rightarrow> RecoveryInstance" where
  "recovery_of cmds status seq deps count responded =
     \<lparr>ri_cmds = cmds, ri_status = status, ri_seq = seq, ri_deps = deps, ri_preAcceptCount = count,
      ri_leaderResponded = responded\<rparr>"

definition startRecoveryForInstance :: "int \<Rightarrow> int \<Rightarrow> Replica \<Rightarrow> Replica option" where
  "startRecoveryForInstance replica instance r = do {
     slot \<leftarrow> look r replica instance;
     let inst = (case slot of None \<Rightarrow> new_instance None 0 NO_STATUS 0 zero_deps None | Some i \<Rightarrow> i);
     let lb = recovery_lb (case ei_lb inst of None \<Rightarrow> None | Some l \<Rightarrow> lb_clientProposals l);
     let lb1 = (if ei_Status inst = ACCEPTED
                then lb\<lparr>lb_recoveryInst := Some (recovery_of (ei_Cmds inst) (ei_Status inst) (ei_Seq inst)
                          (ei_Deps inst) 0 False), lb_maxRecvBallot := ei_ballot inst\<rparr>
                else if ei_Status inst \<ge> PREACCEPTED
                then lb\<lparr>lb_recoveryInst := Some (recovery_of (ei_Cmds inst) (ei_Status inst) (ei_Seq inst)
                          (ei_Deps inst) 1 (ep_Id r = replica))\<rparr>
                else lb);
     let ballot = makeBallotLargerThan r (ei_ballot inst);
     r1 \<leftarrow> put replica instance (inst\<lparr>ei_ballot := ballot, ei_lb := Some lb1\<rparr>) r;
     Some (bcastPrepare replica instance ballot r1)
   }"

definition handlePrepare :: "Prepare \<Rightarrow> Replica \<Rightarrow> Replica option" where
  "handlePrepare m r = do {
     slot \<leftarrow> look r (pp_Replica m) (pp_Instance m);
     let reply = (\<lambda>ok ballot status cmds seq deps.
       M_PrepareReply \<lparr>ppr_AcceptorId = ep_Id r, ppr_Replica = pp_Replica m, ppr_Instance = pp_Instance m,
         ppr_OK = ok, ppr_Ballot = ballot, ppr_Status = status, ppr_Command = on_wire cmds, ppr_Seq = seq,
         ppr_Deps = deps\<rparr>);
     case slot of
       None \<Rightarrow> do {
         r1 \<leftarrow> put (pp_Replica m) (pp_Instance m) (new_instance None (pp_Ballot m) NO_STATUS 0 zero_deps None) r;
         SendMsg (pp_LeaderId m) (reply True (- 1) NO_STATUS None (- 1) zero_deps) r1
       }
     | Some inst \<Rightarrow>
         (let ok = \<not> pp_Ballot m < ei_ballot inst;
              inst1 = (if ok then inst\<lparr>ei_ballot := pp_Ballot m\<rparr> else inst)
          in do {
            r1 \<leftarrow> put (pp_Replica m) (pp_Instance m) inst1 r;
            SendMsg (pp_LeaderId m)
              (reply ok (ei_ballot inst1) (ei_Status inst1) (ei_Cmds inst1) (ei_Seq inst1) (ei_Deps inst1)) r1
          })
   }"

section \<open>Conflicts of a pre-accept\<close>

text \<open>The rows of the instance space from \<^verbatim>\<open>ExecedUpTo\<close> on. The outer option is a panic (the first index
  may be -1), the inner one the conflicting instance.\<close>

fun conflict_in_row ::
  "Replica \<Rightarrow> Command list \<Rightarrow> int \<Rightarrow> int \<Rightarrow> int \<Rightarrow> int list \<Rightarrow> int \<Rightarrow> int list \<Rightarrow> (int \<times> int) option option" where
  "conflict_in_row r cmds replica instance seq deps q [] = Some None"
| "conflict_in_row r cmds replica instance seq deps q (i # is) =
     (if replica = q \<and> instance = i then Some None
      else do {
        dq \<leftarrow> at deps q;
        if i = dq then conflict_in_row r cmds replica instance seq deps q is
        else do {
          slot \<leftarrow> look r q i;
          case slot of
            None \<Rightarrow> conflict_in_row r cmds replica instance seq deps q is
          | Some inst \<Rightarrow>
              if on_wire (ei_Cmds inst) = [] then conflict_in_row r cmds replica instance seq deps q is
              else do {
                dr \<leftarrow> at (ei_Deps inst) replica;
                if dr \<ge> instance then conflict_in_row r cmds replica instance seq deps q is
                else if ConflictBatch (on_wire (ei_Cmds inst)) cmds
                  \<and> (i > dq \<or> i < dq \<and> ei_Seq inst \<ge> seq \<and> (q \<noteq> replica \<or> ei_Status inst > PREACCEPTED_EQ))
                then Some (Some (q, i))
                else conflict_in_row r cmds replica instance seq deps q is
              }
        }
      })"

fun conflict_in_rows ::
  "Replica \<Rightarrow> Command list \<Rightarrow> int \<Rightarrow> int \<Rightarrow> int \<Rightarrow> int list \<Rightarrow> int list \<Rightarrow> (int \<times> int) option option" where
  "conflict_in_rows r cmds replica instance seq deps [] = Some None"
| "conflict_in_rows r cmds replica instance seq deps (q # qs) = do {
     c \<leftarrow> conflict_in_row r cmds replica instance seq deps q [ep_ExecedUpTo r q..ep_crtInstance r q - 1];
     case c of
       Some x \<Rightarrow> Some (Some x)
     | None \<Rightarrow> conflict_in_rows r cmds replica instance seq deps qs
   }"

text \<open>The comparison with the attributes of an instance already pre-accepted reads the variable \<^verbatim>\<open>tpa\<close>, not
  the arguments.\<close>

definition findPreAcceptConflicts ::
  "Command list \<Rightarrow> int \<Rightarrow> int \<Rightarrow> int \<Rightarrow> int list \<Rightarrow> Replica \<Rightarrow> (int \<times> int) option option" where
  "findPreAcceptConflicts cmds replica instance seq deps r = do {
     slot \<leftarrow> look r replica instance;
     case slot of
       Some inst \<Rightarrow>
         if on_wire (ei_Cmds inst) \<noteq> [] \<and> ei_Status inst \<ge> ACCEPTED then Some (Some (replica, instance))
         else if on_wire (ei_Cmds inst) \<noteq> [] \<and> ei_Seq inst = pac_Seq (ep_tpa r) \<and> ei_Deps inst = pac_Deps (ep_tpa r)
         then Some None
         else conflict_in_rows r cmds replica instance seq deps (replicas r)
     | None \<Rightarrow> conflict_in_rows r cmds replica instance seq deps (replicas r)
   }"

definition status_of :: "Replica \<Rightarrow> int \<Rightarrow> int \<Rightarrow> int option" where
  "status_of r q i = do { slot \<leftarrow> look r q i; inst \<leftarrow> slot; Some (ei_Status inst) }"

section \<open>Prepare replies\<close>

definition preaccept_status :: "int \<Rightarrow> bool" where
  "preaccept_status st \<longleftrightarrow> st = PREACCEPTED \<or> st = PREACCEPTED_EQ"

text \<open>What an answer adds to the knowledge about the instance; \<open>inst\<close> is the replica's own copy.\<close>

definition learn_accepted :: "PrepareReply \<Rightarrow> LeaderBookkeeping \<Rightarrow> LeaderBookkeeping" where
  "learn_accepted m lb =
     (if ppr_Status m = ACCEPTED \<and> (lb_recoveryInst lb = None \<or> lb_maxRecvBallot lb < ppr_Ballot m)
      then lb\<lparr>lb_recoveryInst := Some (recovery_of (Some (ppr_Command m)) (ppr_Status m) (ppr_Seq m) (ppr_Deps m) 0 False),
              lb_maxRecvBallot := ppr_Ballot m\<rparr>
      else lb)"

definition learns_preaccepted :: "PrepareReply \<Rightarrow> LeaderBookkeeping \<Rightarrow> bool" where
  "learns_preaccepted m lb \<longleftrightarrow>
     preaccept_status (ppr_Status m)
     \<and> (case lb_recoveryInst lb of None \<Rightarrow> True | Some ir \<Rightarrow> ri_status ir < ACCEPTED)"

definition learn_preaccepted :: "PrepareReply \<Rightarrow> Instance \<Rightarrow> LeaderBookkeeping \<Rightarrow> LeaderBookkeeping" where
  "learn_preaccepted m inst lb =
     (let fresh = recovery_of (Some (ppr_Command m)) (ppr_Status m) (ppr_Seq m) (ppr_Deps m) 1 False;
          ir = (case lb_recoveryInst lb of
                  None \<Rightarrow> fresh
                | Some ir \<Rightarrow>
                    if ppr_Seq m = ei_Seq inst \<and> ppr_Deps m = ei_Deps inst
                    then ir\<lparr>ri_preAcceptCount := ri_preAcceptCount ir + 1\<rparr>
                    else if ppr_Status m = PREACCEPTED_EQ then fresh else ir)
      in lb\<lparr>lb_recoveryInst := Some (if ppr_AcceptorId m = ppr_Replica m then ir\<lparr>ri_leaderResponded := True\<rparr> else ir)\<rparr>)"

text \<open>A majority answered and some replica knows the instance.\<close>

definition finish_known ::
  "int \<Rightarrow> int \<Rightarrow> Instance \<Rightarrow> LeaderBookkeeping \<Rightarrow> RecoveryInstance \<Rightarrow> Replica \<Rightarrow> Replica option" where
  "finish_known q i inst lb ir r =
     (let restart = (\<lambda>lb. do {
            r1 \<leftarrow> put q i (inst\<lparr>ei_lb := Some lb\<rparr>) r;
            startPhase1 q i (ei_ballot inst) (lb_clientProposals lb) (ri_cmds ir) r1
          })
      in
      if ri_status ir = ACCEPTED
         \<or> \<not> ri_leaderResponded ir \<and> ri_preAcceptCount ir \<ge> ep_N r div 2
            \<and> (ep_Thrifty r \<or> ri_status ir = PREACCEPTED_EQ)
      then do {
        r1 \<leftarrow> put q i (inst\<lparr>ei_Cmds := ri_cmds ir, ei_Seq := ri_seq ir, ei_Deps := ri_deps ir,
                  ei_Status := ACCEPTED, ei_lb := Some (lb\<lparr>lb_preparing := False\<rparr>)\<rparr>) r;
        Some (bcastAccept q i (ei_ballot inst) (int (length (on_wire (ri_cmds ir)))) (ri_seq ir) (ri_deps ir) r1)
      }
      else if \<not> ri_leaderResponded ir \<and> ri_preAcceptCount ir \<ge> (ep_N r div 2 + 1) div 2
      then do {
        let lb1 = lb\<lparr>lb_preAcceptOKs := 0, lb_nacks := 0,
                     lb_possibleQuorum := replicate (nat (ep_N r)) True\<rparr>;
        conf \<leftarrow> findPreAcceptConflicts (on_wire (ri_cmds ir)) q i (ri_seq ir) (ri_deps ir) r;
        case conf of
          Some (cq, ci) \<Rightarrow> do {
            st \<leftarrow> status_of r cq ci;
            if st \<ge> COMMITTED then restart lb1
            else do {
              let lb2 = lb1\<lparr>lb_nacks := 1, lb_possibleQuorum := set_at (lb_possibleQuorum lb1) (ep_Id r) False,
                            lb_preparing := False, lb_tryingToPreAccept := True\<rparr>;
              r1 \<leftarrow> put q i (inst\<lparr>ei_lb := Some lb2\<rparr>) r;
              Some (bcastTryPreAccept q i (ei_ballot inst) (ei_Cmds inst) (ei_Seq inst) (ei_Deps inst) r1)
            }
          }
        | None \<Rightarrow> do {
            let lb2 = lb1\<lparr>lb_preAcceptOKs := 1, lb_preparing := False, lb_tryingToPreAccept := True\<rparr>;
            r1 \<leftarrow> put q i (inst\<lparr>ei_Cmds := ri_cmds ir, ei_Seq := ri_seq ir, ei_Deps := ri_deps ir,
                      ei_Status := PREACCEPTED, ei_lb := Some lb2\<rparr>) r;
            Some (bcastTryPreAccept q i (ei_ballot inst) (ri_cmds ir) (ri_seq ir) (ri_deps ir) r1)
          }
      }
      else restart (lb\<lparr>lb_preparing := False\<rparr>))"

text \<open>A majority answered and none knows the instance: a NO-OP.\<close>

definition finish_noop :: "int \<Rightarrow> int \<Rightarrow> Instance \<Rightarrow> LeaderBookkeeping \<Rightarrow> Replica \<Rightarrow> Replica option" where
  "finish_noop q i inst lb r = do {
     let noop_deps = set_at zero_deps q (i - 1);
     r1 \<leftarrow> put q i (new_instance None (ei_ballot inst) ACCEPTED 0 noop_deps (Some (lb\<lparr>lb_preparing := False\<rparr>))) r;
     Some (bcastAccept q i (ei_ballot inst) 0 0 noop_deps r1)
   }"

definition handlePrepareReply :: "PrepareReply \<Rightarrow> Replica \<Rightarrow> Replica option" where
  "handlePrepareReply m r = do {
     let q = ppr_Replica m;
     let i = ppr_Instance m;
     slot \<leftarrow> look r q i;
     inst \<leftarrow> slot;
     case ei_lb inst of
       None \<Rightarrow> Some r
     | Some lb0 \<Rightarrow>
         if \<not> lb_preparing lb0 then Some r
         else if \<not> ppr_OK m then put q i (inst\<lparr>ei_lb := Some (lb0\<lparr>lb_nacks := lb_nacks lb0 + 1\<rparr>)\<rparr>) r
         else if ppr_Status m = COMMITTED \<or> ppr_Status m = EXECUTED
         then do {
           r1 \<leftarrow> put q i (new_instance (Some (ppr_Command m)) (ei_ballot inst) COMMITTED (ppr_Seq m) (ppr_Deps m) None) r;
           Some (bcastCommit q i (ei_Cmds inst) (ppr_Seq m) (ppr_Deps m) r1)
         }
         else (let lb1 = learn_accepted m (lb0\<lparr>lb_prepareOKs := lb_prepareOKs lb0 + 1\<rparr>);
                   lb2 = (if learns_preaccepted m lb1 then learn_preaccepted m inst lb1 else lb1)
               in if learns_preaccepted m lb1 \<and> ppr_AcceptorId m = ppr_Replica m
                     \<or> lb_prepareOKs lb2 < ep_N r div 2
                  then put q i (inst\<lparr>ei_lb := Some lb2\<rparr>) r
                  else (case lb_recoveryInst lb2 of
                          Some ir \<Rightarrow> finish_known q i inst lb2 ir r
                        | None \<Rightarrow> finish_noop q i inst lb2 r))
   }"

section \<open>TryPreAccept\<close>

definition tpa_reply :: "PreAccept \<Rightarrow> bool \<Rightarrow> int \<Rightarrow> int \<Rightarrow> int \<Rightarrow> int \<Rightarrow> Replica \<Rightarrow> epx_msg" where
  "tpa_reply m ok ballot confRep confInst confStatus r =
     M_TryPreAcceptReply \<lparr>tpr_AcceptorId = ep_Id r, tpr_Replica = pac_Replica m, tpr_Instance = pac_Instance m,
       tpr_OK = ok, tpr_Ballot = ballot, tpr_ConflictReplica = confRep, tpr_ConflictInstance = confInst,
       tpr_ConflictStatus = confStatus\<rparr>"

text \<open>After the answer about a too small ballot the handler goes on. The last answer reads the ballot of
  the instance found at the beginning.\<close>

definition handleTryPreAccept :: "PreAccept \<Rightarrow> Replica \<Rightarrow> Replica option" where
  "handleTryPreAccept m r = do {
     slot \<leftarrow> look r (pac_Replica m) (pac_Instance m);
     r1 \<leftarrow> (case slot of
              Some inst \<Rightarrow>
                if ei_ballot inst > pac_Ballot m
                then SendMsg (pac_LeaderId m)
                       (tpa_reply m False (ei_ballot inst) (pac_Replica m) (pac_Instance m) (ei_Status inst) r) r
                else Some r
            | None \<Rightarrow> Some r);
     conf \<leftarrow> findPreAcceptConflicts (pac_Command m) (pac_Replica m) (pac_Instance m) (pac_Seq m) (pac_Deps m) r1;
     case conf of
       Some (cq, ci) \<Rightarrow> do {
         inst \<leftarrow> slot;
         st \<leftarrow> status_of r1 cq ci;
         SendMsg (pac_LeaderId m) (tpa_reply m False (ei_ballot inst) cq ci st r1) r1
       }
     | None \<Rightarrow> do {
         r2 \<leftarrow> raise_crt (pac_Replica m) (pac_Instance m) r1;
         r3 \<leftarrow> put (pac_Replica m) (pac_Instance m)
            (case slot of
               Some inst \<Rightarrow> inst\<lparr>ei_Cmds := Some (pac_Command m), ei_Deps := pac_Deps m, ei_Seq := pac_Seq m,
                                 ei_Status := PREACCEPTED, ei_ballot := pac_Ballot m\<rparr>
             | None \<Rightarrow> new_instance (Some (pac_Command m)) (pac_Ballot m) PREACCEPTED (pac_Seq m) (pac_Deps m) None) r2;
         inst \<leftarrow> slot;
         SendMsg (pac_LeaderId m) (tpa_reply m True (pac_Ballot m) 0 0 0 r3) r3
       }
   }"

definition updateDeferred :: "int \<times> int \<Rightarrow> int \<times> int \<Rightarrow> Replica \<Rightarrow> Replica" where
  "updateDeferred by_inst for_inst r = r\<lparr>ep_deferMap := (ep_deferMap r)(for_inst \<mapsto> by_inst)\<rparr>"

definition deferredByInstance :: "int \<times> int \<Rightarrow> Replica \<Rightarrow> (int \<times> int) option" where
  "deferredByInstance inst r = ep_deferMap r inst"

text \<open>The loop that counts the replicas outside the possible quorum tests the same entry every time.\<close>

definition notInQuorum :: "bool list \<Rightarrow> int \<Rightarrow> Replica \<Rightarrow> int option" where
  "notInQuorum quorum acceptor r = do {
     b \<leftarrow> at quorum acceptor;
     Some (if b then 0 else ep_N r)
   }"

definition handleTryPreAcceptReply :: "TryPreAcceptReply \<Rightarrow> Replica \<Rightarrow> Replica option" where
  "handleTryPreAcceptReply m r = do {
     let q = tpr_Replica m;
     let i = tpr_Instance m;
     slot \<leftarrow> look r q i;
     case slot of
       None \<Rightarrow> Some r
     | Some inst \<Rightarrow>
       (case ei_lb inst of
          None \<Rightarrow> Some r
        | Some lb \<Rightarrow>
          (case lb_recoveryInst lb of
             None \<Rightarrow> Some r
           | Some ir \<Rightarrow>
             if \<not> lb_tryingToPreAccept lb then Some r
             else if tpr_OK m
             then (let lb1 = lb\<lparr>lb_preAcceptOKs := lb_preAcceptOKs lb + 1, lb_tpaOKs := lb_tpaOKs lb + 1\<rparr> in
                   if lb_preAcceptOKs lb1 \<ge> ep_N r div 2
                   then do {
                     r1 \<leftarrow> put q i (inst\<lparr>ei_Cmds := ri_cmds ir, ei_Seq := ri_seq ir, ei_Deps := ri_deps ir,
                               ei_Status := ACCEPTED,
                               ei_lb := Some (lb1\<lparr>lb_tryingToPreAccept := False, lb_acceptOKs := 0\<rparr>)\<rparr>) r;
                     Some (bcastAccept q i (ei_ballot inst) (int (length (on_wire (ri_cmds ir)))) (ri_seq ir)
                             (ri_deps ir) r1)
                   }
                   else put q i (inst\<lparr>ei_lb := Some lb1\<rparr>) r)
             else (let lb1 = lb\<lparr>lb_nacks := lb_nacks lb + 1\<rparr> in
                   if tpr_Ballot m > ei_ballot inst then put q i (inst\<lparr>ei_lb := Some lb1\<rparr>) r
                   else (let lb2 = lb1\<lparr>lb_tpaOKs := lb_tpaOKs lb1 + 1\<rparr> in
                   if tpr_ConflictReplica m = q \<and> tpr_ConflictInstance m = i
                   then put q i (inst\<lparr>ei_lb := Some (lb2\<lparr>lb_tryingToPreAccept := False\<rparr>)\<rparr>) r
                   else do {
                     a \<leftarrow> at (lb_possibleQuorum lb2) (tpr_AcceptorId m);
                     c \<leftarrow> at (lb_possibleQuorum lb2) (tpr_ConflictReplica m);
                     let quorum = set_at (set_at (lb_possibleQuorum lb2) (tpr_AcceptorId m) False)
                                    (tpr_ConflictReplica m) False;
                     n \<leftarrow> notInQuorum quorum (tpr_AcceptorId m) r;
                     let abandon1 = (tpr_ConflictStatus m \<ge> COMMITTED \<or> n > ep_N r div 2);
                     abandon2 \<leftarrow> (if n = ep_N r div 2
                        then (case deferredByInstance (q, i) r of
                                None \<Rightarrow> Some False
                              | Some (dq, di) \<Rightarrow> at quorum dq)
                        else Some False);
                     let defer = (lb_tpaOKs lb2 \<ge> ep_N r div 2);
                     let lb3 = lb2\<lparr>lb_possibleQuorum := quorum,
                        lb_tryingToPreAccept := (lb_tryingToPreAccept lb2 \<and> \<not> abandon1 \<and> \<not> abandon2 \<and> \<not> defer)\<rparr>;
                     r1 \<leftarrow> put q i (inst\<lparr>ei_lb := Some lb3\<rparr>) r;
                     let again = (\<lambda>r. startPhase1 q i (ei_ballot inst) (lb_clientProposals lb) (ri_cmds ir) r);
                     r2 \<leftarrow> (if abandon1 then again r1 else Some r1);
                     r3 \<leftarrow> (if abandon2 then again r2 else Some r2);
                     Some (if defer
                           then updateDeferred (q, i) (tpr_ConflictReplica m, tpr_ConflictInstance m) r3 else r3)
                   }))))
   }"

section \<open>The main loop\<close>

text \<open>An event of the loop: a client's proposal arrives in the channel, the loop takes the first waiting
  proposal, a message of a peer arrives, or the execution thread asks for a recovery. The loop pauses
  taking proposals until its fast clock ticks; that only restricts when \<open>Take_Propose\<close> happens.\<close>

datatype epx_event = Arrive proposal | Take_Propose | Deliver epx_msg | Recover int int

definition handle_msg :: "epx_msg \<Rightarrow> Replica \<Rightarrow> Replica option" where
  "handle_msg m r =
     (case m of
        M_Prepare x \<Rightarrow> handlePrepare x r
      | M_PrepareReply x \<Rightarrow> handlePrepareReply x r
      | M_PreAccept x \<Rightarrow> handlePreAccept x r
      | M_PreAcceptReply x \<Rightarrow> handlePreAcceptReply x r
      | M_PreAcceptOK x \<Rightarrow> handlePreAcceptOK x r
      | M_Accept x \<Rightarrow> handleAccept x r
      | M_AcceptReply x \<Rightarrow> handleAcceptReply x r
      | M_Commit x \<Rightarrow> handleCommit x r
      | M_CommitShort x \<Rightarrow> handleCommitShort x r
      | M_TryPreAccept x \<Rightarrow> handleTryPreAccept x r
      | M_TryPreAcceptReply x \<Rightarrow> handleTryPreAcceptReply x r)"

definition epx_step :: "epx_event \<Rightarrow> Replica \<Rightarrow> Replica option" where
  "epx_step e r =
     (case e of
        Arrive p \<Rightarrow> Some (r\<lparr>ep_ProposeChan := ep_ProposeChan r @ [p]\<rparr>)
      | Take_Propose \<Rightarrow>
          (case ep_ProposeChan r of
             [] \<Rightarrow> Some r
           | p # ps \<Rightarrow> handlePropose p (r\<lparr>ep_ProposeChan := ps\<rparr>))
      | Deliver m \<Rightarrow> handle_msg m r
      | Recover q i \<Rightarrow> startRecoveryForInstance q i r)"

text \<open>\<^verbatim>\<open>run\<close> begins by ordering the peers of replica 0.\<close>

definition starting_replica :: "int \<Rightarrow> int \<Rightarrow> bool \<Rightarrow> bool \<Rightarrow> bool \<Rightarrow> Replica" where
  "starting_replica rid n thrifty dreply durable =
     (let r = NewReplica rid n thrifty dreply durable in
      if rid = 0 then UpdatePreferredPeerOrder [0..n div 2] r else r)"

end
