(* ===== verification/Epx_Exec.thy ===== *)
theory Epx_Exec
  imports Epx_Core "HOL-Library.Multiset"
begin

text \<open>
  The execution thread of the original EPaxos replica (\<^verbatim>\<open>epaxos-exec.go\<close> and \<^verbatim>\<open>executeCommands\<close> in
  \<^verbatim>\<open>epaxos.go\<close>). The thread waits in place, polling, for an instance that is missing, without commands or
  not committed: the result \<open>Waits\<close> names the instance it cannot get past in the given state. \<open>srt\<close> is
  \<^verbatim>\<open>sort.Sort\<close>, which leaves the order of equal elements open. The recursion is as deep as there are
  unvisited instances, which the fuel counts.
\<close>

section \<open>Results\<close>

type_synonym iid = "int \<times> int"

datatype 'a exec_result = Ran 'a | Waits iid | Panicked | Out_of_fuel

fun then_run :: "'a exec_result \<Rightarrow> ('a \<Rightarrow> 'b exec_result) \<Rightarrow> 'b exec_result" where
  "then_run (Ran x) f = f x"
| "then_run (Waits w) f = Waits w"
| "then_run Panicked f = Panicked"
| "then_run Out_of_fuel f = Out_of_fuel"

lemma then_run_Ran_iff: "then_run x f = Ran y \<longleftrightarrow> (\<exists>z. x = Ran z \<and> f z = Ran y)"
  by (cases x) auto

section \<open>Executing a component\<close>

type_synonym sorter = "(iid \<Rightarrow> int) \<Rightarrow> iid list \<Rightarrow> iid list"

definition sorts_by_seq :: "sorter \<Rightarrow> bool" where
  "sorts_by_seq srt \<longleftrightarrow> (\<forall>f xs. mset (srt f xs) = mset xs \<and> sorted (map f (srt f xs)))"

definition inst_of :: "Replica \<Rightarrow> iid \<Rightarrow> Instance option" where
  "inst_of r v = ep_InstanceSpace r (fst v) (snd v)"

definition set_inst :: "iid \<Rightarrow> Instance \<Rightarrow> Replica \<Rightarrow> Replica" where
  "set_inst v inst r =
     r\<lparr>ep_InstanceSpace := (ep_InstanceSpace r)(fst v := (ep_InstanceSpace r (fst v))(snd v := Some inst))\<rparr>"

definition upd_inst :: "iid \<Rightarrow> (Instance \<Rightarrow> Instance) \<Rightarrow> Replica \<Rightarrow> Replica" where
  "upd_inst v f r = (case inst_of r v of None \<Rightarrow> r | Some inst \<Rightarrow> set_inst v (f inst) r)"

definition seq_of :: "Replica \<Rightarrow> iid \<Rightarrow> int" where
  "seq_of r v = (case inst_of r v of None \<Rightarrow> 0 | Some inst \<Rightarrow> ei_Seq inst)"

text \<open>The commands of an instance, from position \<open>idx\<close> on.\<close>

fun execute_cmds :: "LeaderBookkeeping option \<Rightarrow> int \<Rightarrow> Command list \<Rightarrow> Replica \<Rightarrow> Replica option" where
  "execute_cmds lb idx [] r = Some r"
| "execute_cmds lb idx (c # cs) r =
     (let (val, st) = Execute c (ep_State r); r1 = r\<lparr>ep_State := st, ep_appliedN := ep_appliedN r + 1\<rparr> in
      case (if ep_Dreply r1 then Option.bind lb lb_clientProposals else None) of
        None \<Rightarrow> execute_cmds lb (idx + 1) cs r1
      | Some ps \<Rightarrow>
          (case at ps idx of
             None \<Rightarrow> None
           | Some p \<Rightarrow> execute_cmds lb (idx + 1) cs
               (out [ReplyTS (cp_Reply p) \<lparr>ts_OK = 1, ts_CommandId = pr_CommandId (cp_Propose p), ts_Value = val,
                       ts_Timestamp = pr_Timestamp (cp_Propose p)\<rparr>] r1)))"

definition execute_inst :: "iid \<Rightarrow> Replica \<Rightarrow> Replica exec_result" where
  "execute_inst w r =
     (case inst_of r w of
        None \<Rightarrow> Panicked
      | Some inst \<Rightarrow>
          (case ei_Cmds inst of
             None \<Rightarrow> Waits w
           | Some cs \<Rightarrow>
               (case execute_cmds (ei_lb inst) 0 cs r of
                  None \<Rightarrow> Panicked
                | Some r1 \<Rightarrow> Ran (set_inst w (inst\<lparr>ei_Status := EXECUTED\<rparr>) r1))))"

fun execute_list :: "iid list \<Rightarrow> Replica \<Rightarrow> Replica exec_result" where
  "execute_list [] r = Ran r"
| "execute_list (w # ws) r = then_run (execute_inst w r) (execute_list ws)"

section \<open>Strongly connected components\<close>

record exec_state =
  xs_r :: Replica
  xs_stack :: "iid list"
  xs_index :: int

text \<open>The instances \<open>v\<close> depends on and that are not known to be executed, in the order of the loops.\<close>

definition dep_list :: "Replica \<Rightarrow> iid \<Rightarrow> iid list" where
  "dep_list r v =
     (case inst_of r v of
        None \<Rightarrow> []
      | Some inst \<Rightarrow>
          concat (map (\<lambda>q. map (Pair q) [ep_ExecedUpTo r q + 1..ei_Deps inst ! nat q]) (replicas r)))"

definition enter :: "iid \<Rightarrow> exec_state \<Rightarrow> exec_state" where
  "enter v s =
     \<lparr>xs_r = upd_inst v (\<lambda>inst. inst\<lparr>ei_Index := xs_index s, ei_Lowlink := xs_index s\<rparr>) (xs_r s),
      xs_stack = xs_stack s @ [v], xs_index = xs_index s + 1\<rparr>"

definition lower :: "iid \<Rightarrow> int \<Rightarrow> exec_state \<Rightarrow> exec_state" where
  "lower v i s =
     s\<lparr>xs_r := upd_inst v (\<lambda>inst. if i < ei_Lowlink inst then inst\<lparr>ei_Lowlink := i\<rparr> else inst) (xs_r s)\<rparr>"

definition leave :: "sorter \<Rightarrow> nat \<Rightarrow> iid \<Rightarrow> exec_state \<Rightarrow> exec_state exec_result" where
  "leave srt l v s =
     (case inst_of (xs_r s) v of
        None \<Rightarrow> Panicked
      | Some inst \<Rightarrow>
          if ei_Lowlink inst = ei_Index inst
          then then_run (execute_list (srt (seq_of (xs_r s)) (drop l (xs_stack s))) (xs_r s))
                 (\<lambda>r. Ran (s\<lparr>xs_r := r, xs_stack := take l (xs_stack s)\<rparr>))
          else Ran s)"

text \<open>What the loop finds at the dependency \<open>w\<close> of \<open>v\<close>.\<close>

datatype dep_view = D_Waits | D_Executed | D_New | D_Visited int | D_Panic

definition view_dep :: "Replica \<Rightarrow> iid \<Rightarrow> iid \<Rightarrow> dep_view" where
  "view_dep r v w =
     (case look r (fst w) (snd w) of
        None \<Rightarrow> D_Panic
      | Some None \<Rightarrow> D_Waits
      | Some (Some wi) \<Rightarrow>
          if ei_Cmds wi = None \<or> Option.bind (inst_of r v) ei_Cmds = None then D_Waits
          else if ei_Status wi = EXECUTED then D_Executed
          else if ei_Status wi \<noteq> COMMITTED then D_Waits
          else if ei_Index wi = 0 then D_New else D_Visited (ei_Index wi))"

definition lowlink_of :: "Replica \<Rightarrow> iid \<Rightarrow> int" where
  "lowlink_of r v = (case inst_of r v of None \<Rightarrow> 0 | Some inst \<Rightarrow> ei_Lowlink inst)"

fun strongconnect :: "sorter \<Rightarrow> nat \<Rightarrow> iid \<Rightarrow> exec_state \<Rightarrow> exec_state exec_result"
  and follow_deps :: "sorter \<Rightarrow> nat \<Rightarrow> iid \<Rightarrow> iid list \<Rightarrow> exec_state \<Rightarrow> exec_state exec_result" where
  "strongconnect srt 0 v s = Out_of_fuel"
| "strongconnect srt (Suc n) v s =
     then_run (follow_deps srt n v (dep_list (xs_r s) v) (enter v s)) (leave srt (length (xs_stack s)) v)"
| "follow_deps srt n v [] s = Ran s"
| "follow_deps srt n v (w # ws) s =
     (case view_dep (xs_r s) v w of
        D_Panic \<Rightarrow> Panicked
      | D_Waits \<Rightarrow> Waits w
      | D_Executed \<Rightarrow> follow_deps srt n v ws s
      | D_New \<Rightarrow> then_run (strongconnect srt n w s) (\<lambda>s1. follow_deps srt n v ws (lower v (lowlink_of (xs_r s1) w) s1))
      | D_Visited i \<Rightarrow> follow_deps srt n v ws (lower v i s))"

definition findSCC :: "sorter \<Rightarrow> nat \<Rightarrow> iid \<Rightarrow> Replica \<Rightarrow> Replica exec_result" where
  "findSCC srt n root r =
     then_run (strongconnect srt n root \<lparr>xs_r = r, xs_stack = [], xs_index = 1\<rparr>) (\<lambda>s. Ran (xs_r s))"

definition executeCommand :: "sorter \<Rightarrow> nat \<Rightarrow> iid \<Rightarrow> Replica \<Rightarrow> (bool \<times> Replica) exec_result" where
  "executeCommand srt n v r =
     (case inst_of r v of
        None \<Rightarrow> Ran (False, r)
      | Some inst \<Rightarrow>
          if ei_Status inst = EXECUTED then Ran (True, r)
          else if ei_Status inst \<noteq> COMMITTED then Ran (False, r)
          else then_run (findSCC srt n v r) (\<lambda>r1. Ran (True, r1)))"

section \<open>The execution thread\<close>

text \<open>What the thread remembers: per replica the instance it is stuck at, for how long, and the
  recoveries it asked for.\<close>

record exec_thread =
  et_r :: Replica
  et_problem :: "int \<Rightarrow> int"
  et_timeout :: "int \<Rightarrow> int"
  et_recover :: "iid list"
  et_executed :: bool

definition SLEEP_TIME_NS :: int where "SLEEP_TIME_NS = 1000000"
definition COMMIT_GRACE_PERIOD :: int where "COMMIT_GRACE_PERIOD = 10 * 1000000000"

definition advance :: "int \<Rightarrow> int \<Rightarrow> Replica \<Rightarrow> Replica" where
  "advance q i r =
     (if i = ep_ExecedUpTo r q + 1 then r\<lparr>ep_ExecedUpTo := (ep_ExecedUpTo r)(q := i)\<rparr> else r)"

definition note_problem :: "int \<Rightarrow> int \<Rightarrow> exec_thread \<Rightarrow> exec_thread" where
  "note_problem q i t =
     (if i = et_problem t q
      then (let waited = et_timeout t q + SLEEP_TIME_NS in
            if waited \<ge> COMMIT_GRACE_PERIOD
            then t\<lparr>et_recover := et_recover t @ [(q, i)], et_timeout := (et_timeout t)(q := 0)\<rparr>
            else t\<lparr>et_timeout := (et_timeout t)(q := waited)\<rparr>)
      else t\<lparr>et_problem := (et_problem t)(q := i), et_timeout := (et_timeout t)(q := 0)\<rparr>)"

fun exec_row :: "sorter \<Rightarrow> nat \<Rightarrow> int \<Rightarrow> int list \<Rightarrow> exec_thread \<Rightarrow> exec_thread exec_result" where
  "exec_row srt n q [] t = Ran t"
| "exec_row srt n q (i # is) t =
     (case look (et_r t) q i of
        None \<Rightarrow> Panicked
      | Some None \<Rightarrow> exec_row srt n q is (note_problem q i t)
      | Some (Some inst) \<Rightarrow>
          if ei_Status inst = EXECUTED then exec_row srt n q is (t\<lparr>et_r := advance q i (et_r t)\<rparr>)
          else if ei_Status inst \<noteq> COMMITTED then Ran (note_problem q i t)
          else then_run (executeCommand srt n (q, i) (et_r t)) (\<lambda>(ok, r).
                 exec_row srt n q is
                   (if ok then t\<lparr>et_r := advance q i r, et_executed := True\<rparr> else t\<lparr>et_r := r\<rparr>)))"

fun exec_rows :: "sorter \<Rightarrow> nat \<Rightarrow> int list \<Rightarrow> exec_thread \<Rightarrow> exec_thread exec_result" where
  "exec_rows srt n [] t = Ran t"
| "exec_rows srt n (q # qs) t =
     then_run (exec_row srt n q [ep_ExecedUpTo (et_r t) q + 1..ep_crtInstance (et_r t) q - 1] t)
       (exec_rows srt n qs)"

text \<open>One round of the endless loop.\<close>

definition exec_round :: "sorter \<Rightarrow> nat \<Rightarrow> exec_thread \<Rightarrow> exec_thread exec_result" where
  "exec_round srt n t = exec_rows srt n (replicas (et_r t)) (t\<lparr>et_executed := False\<rparr>)"

definition start_thread :: "Replica \<Rightarrow> exec_thread" where
  "start_thread r = \<lparr>et_r = r, et_problem = (\<lambda>_. - 1), et_timeout = (\<lambda>_. 0), et_recover = [], et_executed = False\<rparr>"

end
