(* ===== verification/Epx_Wire.thy ===== *)
theory Epx_Wire
  imports Epx_State
begin

text \<open>
  The inter-replica wire format of the original EPaxos (\<^verbatim>\<open>epaxosprotomarsh.go\<close>): \<^verbatim>\<open>Marshal\<close> and
  \<^verbatim>\<open>Unmarshal\<close> of the eleven messages. \<^verbatim>\<open>Unmarshal\<close> is called on a new object by the only caller, and every
  field is set before it returns nil, so its model is a reader of the message. The interface
  \<open>message_codec\<close> says what a reader of a written message gets; ten messages arrive as they were sent, a
  \<^verbatim>\<open>PreAcceptReply\<close> does not.
\<close>

section \<open>Readers\<close>

text \<open>\<open>Panic\<close> is \<^verbatim>\<open>make\<close> with a negative length.\<close>

datatype read_error = Short io_error | Overflow | Panic

type_synonym 'a reader = "bytes \<Rightarrow> (read_error + 'a) \<times> bytes"

definition andThen :: "'a reader \<Rightarrow> ('a \<Rightarrow> 'b reader) \<Rightarrow> 'b reader" where
  "andThen m f r = (case m r of (Inl e, r1) \<Rightarrow> (Inl e, r1) | (Inr x, r1) \<Rightarrow> f x r1)"

definition read_ok :: "'a \<Rightarrow> 'a reader" where
  "read_ok x r = (Inr x, r)"

text \<open>\<^verbatim>\<open>io.ReadAtLeast\<close> of a whole buffer.\<close>

definition read_block :: "nat \<Rightarrow> bytes reader" where
  "read_block n r = (case readFull n r of (Inl e, r1) \<Rightarrow> (Inl (Short e), r1) | (Inr bs, r1) \<Rightarrow> (Inr bs, r1))"

text \<open>\<^verbatim>\<open>binary.PutVarint\<close> and \<^verbatim>\<open>binary.ReadVarint\<close> of the standard library: groups of seven bits, the low
  ones first, of the number with its sign moved to the last bit.\<close>

fun PutUvarint :: "nat \<Rightarrow> bytes" where
  "PutUvarint x = (if x < 128 then [of_nat x] else of_nat (x mod 128 + 128) # PutUvarint (x div 128))"

declare PutUvarint.simps [simp del]

definition PutVarint :: "int \<Rightarrow> bytes" where
  "PutVarint x = PutUvarint (nat (if x < 0 then - 2 * x - 1 else 2 * x))"

fun ReadUvarint_loop :: "nat \<Rightarrow> nat \<Rightarrow> nat reader" where
  "ReadUvarint_loop i x [] =
     (if i \<ge> 10 then (Inl Overflow, []) else (Inl (Short (if i > 0 then UnexpectedEOF else EOF)), []))"
| "ReadUvarint_loop i x (b # r) =
     (if i \<ge> 10 then (Inl Overflow, b # r)
      else if unat b < 128 then
        (if i = 9 \<and> unat b > 1 then (Inl Overflow, r) else (Inr (x + unat b * 2 ^ (7 * i)), r))
      else ReadUvarint_loop (Suc i) (x + (unat b - 128) * 2 ^ (7 * i)) r)"

definition ReadVarint :: "int reader" where
  "ReadVarint = andThen (ReadUvarint_loop 0 0)
     (\<lambda>ux. read_ok (if odd ux then - int (ux div 2) - 1 else int (ux div 2)))"

section \<open>Parts of messages\<close>

definition of32 :: "nat \<Rightarrow> bytes \<Rightarrow> int" where
  "of32 k bs = sint (le_word (take 4 (drop k bs)) :: u32)"

definition byte_at :: "nat \<Rightarrow> bytes \<Rightarrow> byte" where
  "byte_at k bs = bs ! k"

definition deps_at :: "nat \<Rightarrow> bytes \<Rightarrow> int list" where
  "deps_at k bs = map (\<lambda>j. of32 (k + 4 * j) bs) [0..<DS]"

definition put_deps :: "int list \<Rightarrow> bytes" where
  "put_deps ds = concat (map le32_of ds)"

text \<open>A boolean travels as \<^verbatim>\<open>TRUE\<close> or \<^verbatim>\<open>FALSE\<close>; the handlers ask whether it is \<^verbatim>\<open>FALSE\<close>.\<close>

definition ok_byte :: "bool \<Rightarrow> byte" where
  "ok_byte b = (if b then 1 else 0)"

text \<open>The commands: their number, then one after another. The errors of \<^verbatim>\<open>Command.Unmarshal\<close> are dropped; it
  leaves the fields it did not reach zero.\<close>

definition put_commands :: "Command list \<Rightarrow> bytes" where
  "put_commands cs = PutVarint (int (length cs)) @ concat (map Command_Marshal cs)"

fun read_commands :: "nat \<Rightarrow> bytes \<Rightarrow> Command list \<times> bytes" where
  "read_commands 0 r = ([], r)"
| "read_commands (Suc n) r =
     (case Command_Unmarshal zero_Command r of
        (_, c, r1) \<Rightarrow> (case read_commands n r1 of (cs, r2) \<Rightarrow> (c # cs, r2)))"

definition command_slice :: "Command list reader" where
  "command_slice = andThen ReadVarint
     (\<lambda>alen1 r. if alen1 < 0 then (Inl Panic, r)
                else (case read_commands (nat alen1) r of (cs, r1) \<Rightarrow> (Inr cs, r1)))"

section \<open>Marshal and Unmarshal\<close>

definition PreAccept_Marshal :: "PreAccept \<Rightarrow> bytes" where
  "PreAccept_Marshal t =
     le32_of (pac_LeaderId t) @ le32_of (pac_Replica t) @ le32_of (pac_Instance t) @ le32_of (pac_Ballot t)
     @ put_commands (pac_Command t) @ le32_of (pac_Seq t) @ put_deps (pac_Deps t)"

definition PreAccept_Unmarshal :: "PreAccept reader" where
  "PreAccept_Unmarshal =
     andThen (read_block 16) (\<lambda>bs. andThen command_slice (\<lambda>cs. andThen (read_block 40) (\<lambda>bs2.
       read_ok \<lparr>pac_LeaderId = of32 0 bs, pac_Replica = of32 4 bs, pac_Instance = of32 8 bs,
            pac_Ballot = of32 12 bs, pac_Command = cs, pac_Seq = of32 0 bs2, pac_Deps = deps_at 4 bs2\<rparr>)))"

definition TryPreAccept_Marshal :: "PreAccept \<Rightarrow> bytes" where
  "TryPreAccept_Marshal t =
     le32_of (pac_LeaderId t) @ le32_of (pac_Replica t) @ le32_of (pac_Instance t) @ le32_of (pac_Ballot t)
     @ put_commands (pac_Command t) @ le32_of (pac_Seq t) @ put_deps (pac_Deps t)"

definition TryPreAccept_Unmarshal :: "PreAccept reader" where
  "TryPreAccept_Unmarshal =
     andThen (read_block 16) (\<lambda>bs. andThen command_slice (\<lambda>cs. andThen (read_block 40) (\<lambda>bs2.
       read_ok \<lparr>pac_LeaderId = of32 0 bs, pac_Replica = of32 4 bs, pac_Instance = of32 8 bs,
            pac_Ballot = of32 12 bs, pac_Command = cs, pac_Seq = of32 0 bs2, pac_Deps = deps_at 4 bs2\<rparr>)))"

text \<open>\<^verbatim>\<open>PreAcceptReply\<close> fills its buffer by offsets. The dependencies are written from 17 on and need 36
  bytes; the committed dependencies are written from 37 on, over the last four of them.\<close>

definition put_at :: "nat \<Rightarrow> bytes \<Rightarrow> bytes \<Rightarrow> bytes" where
  "put_at k xs b = take k b @ xs @ drop (k + length xs) b"

definition PreAcceptReply_Marshal :: "PreAcceptReply \<Rightarrow> bytes" where
  "PreAcceptReply_Marshal t =
     (let b0 = replicate 73 0;
          b1 = put_at 0 (le32_of (par_Replica t)) b0;
          b2 = put_at 4 (le32_of (par_Instance t)) b1;
          b3 = put_at 8 [ok_byte (par_OK t)] b2;
          b4 = put_at 9 (le32_of (par_Ballot t)) b3;
          b5 = put_at 13 (le32_of (par_Seq t)) b4;
          b6 = put_at 17 (put_deps (par_Deps t)) b5
      in put_at 37 (put_deps (par_CommittedDeps t)) b6)"

definition PreAcceptReply_Unmarshal :: "PreAcceptReply reader" where
  "PreAcceptReply_Unmarshal =
     andThen (read_block 73) (\<lambda>bs.
       read_ok \<lparr>par_Replica = of32 0 bs, par_Instance = of32 4 bs, par_OK = (byte_at 8 bs \<noteq> 0),
            par_Ballot = of32 9 bs, par_Seq = of32 13 bs, par_Deps = deps_at 17 bs,
            par_CommittedDeps = deps_at 37 bs\<rparr>)"

definition TryPreAcceptReply_Marshal :: "TryPreAcceptReply \<Rightarrow> bytes" where
  "TryPreAcceptReply_Marshal t =
     le32_of (tpr_AcceptorId t) @ le32_of (tpr_Replica t) @ le32_of (tpr_Instance t) @ [ok_byte (tpr_OK t)]
     @ le32_of (tpr_Ballot t) @ le32_of (tpr_ConflictReplica t) @ le32_of (tpr_ConflictInstance t)
     @ [word_of_int (tpr_ConflictStatus t)]"

definition TryPreAcceptReply_Unmarshal :: "TryPreAcceptReply reader" where
  "TryPreAcceptReply_Unmarshal =
     andThen (read_block 26) (\<lambda>bs.
       read_ok \<lparr>tpr_AcceptorId = of32 0 bs, tpr_Replica = of32 4 bs, tpr_Instance = of32 8 bs,
            tpr_OK = (byte_at 12 bs \<noteq> 0), tpr_Ballot = of32 13 bs, tpr_ConflictReplica = of32 17 bs,
            tpr_ConflictInstance = of32 21 bs, tpr_ConflictStatus = sint (byte_at 25 bs)\<rparr>)"

definition CommitShort_Marshal :: "CommitShort \<Rightarrow> bytes" where
  "CommitShort_Marshal t =
     le32_of (cs_LeaderId t) @ le32_of (cs_Replica t) @ le32_of (cs_Instance t) @ le32_of (cs_Count t)
     @ le32_of (cs_Seq t) @ put_deps (cs_Deps t)"

definition CommitShort_Unmarshal :: "CommitShort reader" where
  "CommitShort_Unmarshal =
     andThen (read_block 56) (\<lambda>bs.
       read_ok \<lparr>cs_LeaderId = of32 0 bs, cs_Replica = of32 4 bs, cs_Instance = of32 8 bs, cs_Count = of32 12 bs,
            cs_Seq = of32 16 bs, cs_Deps = deps_at 20 bs\<rparr>)"

definition PreAcceptOK_Marshal :: "int \<Rightarrow> bytes" where
  "PreAcceptOK_Marshal i = le32_of i"

definition PreAcceptOK_Unmarshal :: "int reader" where
  "PreAcceptOK_Unmarshal = andThen (read_block 4) (\<lambda>bs. read_ok (of32 0 bs))"

definition PrepareReply_Marshal :: "PrepareReply \<Rightarrow> bytes" where
  "PrepareReply_Marshal t =
     le32_of (ppr_AcceptorId t) @ le32_of (ppr_Replica t) @ le32_of (ppr_Instance t) @ [ok_byte (ppr_OK t)]
     @ le32_of (ppr_Ballot t) @ [word_of_int (ppr_Status t)]
     @ put_commands (ppr_Command t) @ le32_of (ppr_Seq t) @ put_deps (ppr_Deps t)"

definition PrepareReply_Unmarshal :: "PrepareReply reader" where
  "PrepareReply_Unmarshal =
     andThen (read_block 18) (\<lambda>bs. andThen command_slice (\<lambda>cs. andThen (read_block 40) (\<lambda>bs2.
       read_ok \<lparr>ppr_AcceptorId = of32 0 bs, ppr_Replica = of32 4 bs, ppr_Instance = of32 8 bs,
            ppr_OK = (byte_at 12 bs \<noteq> 0), ppr_Ballot = of32 13 bs, ppr_Status = sint (byte_at 17 bs),
            ppr_Command = cs, ppr_Seq = of32 0 bs2, ppr_Deps = deps_at 4 bs2\<rparr>)))"

definition Commit_Marshal :: "Commit \<Rightarrow> bytes" where
  "Commit_Marshal t =
     le32_of (cm_LeaderId t) @ le32_of (cm_Replica t) @ le32_of (cm_Instance t)
     @ put_commands (cm_Command t) @ le32_of (cm_Seq t) @ put_deps (cm_Deps t)"

definition Commit_Unmarshal :: "Commit reader" where
  "Commit_Unmarshal =
     andThen (read_block 12) (\<lambda>bs. andThen command_slice (\<lambda>cs. andThen (read_block 40) (\<lambda>bs2.
       read_ok \<lparr>cm_LeaderId = of32 0 bs, cm_Replica = of32 4 bs, cm_Instance = of32 8 bs,
            cm_Command = cs, cm_Seq = of32 0 bs2, cm_Deps = deps_at 4 bs2\<rparr>)))"

definition AcceptReply_Marshal :: "AcceptReply \<Rightarrow> bytes" where
  "AcceptReply_Marshal t =
     le32_of (acr_Replica t) @ le32_of (acr_Instance t) @ [ok_byte (acr_OK t)] @ le32_of (acr_Ballot t)"

definition AcceptReply_Unmarshal :: "AcceptReply reader" where
  "AcceptReply_Unmarshal =
     andThen (read_block 13) (\<lambda>bs.
       read_ok \<lparr>acr_Replica = of32 0 bs, acr_Instance = of32 4 bs, acr_OK = (byte_at 8 bs \<noteq> 0),
            acr_Ballot = of32 9 bs\<rparr>)"

definition Accept_Marshal :: "Accept \<Rightarrow> bytes" where
  "Accept_Marshal t =
     le32_of (ac_LeaderId t) @ le32_of (ac_Replica t) @ le32_of (ac_Instance t) @ le32_of (ac_Ballot t)
     @ le32_of (ac_Count t) @ le32_of (ac_Seq t) @ put_deps (ac_Deps t)"

definition Accept_Unmarshal :: "Accept reader" where
  "Accept_Unmarshal =
     andThen (read_block 60) (\<lambda>bs.
       read_ok \<lparr>ac_LeaderId = of32 0 bs, ac_Replica = of32 4 bs, ac_Instance = of32 8 bs, ac_Ballot = of32 12 bs,
            ac_Count = of32 16 bs, ac_Seq = of32 20 bs, ac_Deps = deps_at 24 bs\<rparr>)"

definition Prepare_Marshal :: "Prepare \<Rightarrow> bytes" where
  "Prepare_Marshal t =
     le32_of (pp_LeaderId t) @ le32_of (pp_Replica t) @ le32_of (pp_Instance t) @ le32_of (pp_Ballot t)"

definition Prepare_Unmarshal :: "Prepare reader" where
  "Prepare_Unmarshal =
     andThen (read_block 16) (\<lambda>bs.
       read_ok \<lparr>pp_LeaderId = of32 0 bs, pp_Replica = of32 4 bs, pp_Instance = of32 8 bs, pp_Ballot = of32 12 bs\<rparr>)"

section \<open>Which messages fit\<close>

definition fits32 :: "int \<Rightarrow> bool" where
  "fits32 x \<longleftrightarrow> - (2 ^ 31) \<le> x \<and> x < 2 ^ 31"

definition fits8 :: "int \<Rightarrow> bool" where
  "fits8 x \<longleftrightarrow> - 128 \<le> x \<and> x < 128"

definition deps_fit :: "int list \<Rightarrow> bool" where
  "deps_fit ds \<longleftrightarrow> length ds = DS \<and> list_all fits32 ds"

definition commands_fit :: "Command list \<Rightarrow> bool" where
  "commands_fit cs \<longleftrightarrow> length cs < 2 ^ 63"

fun msg_fits :: "epx_msg \<Rightarrow> bool" where
  "msg_fits (M_Prepare t) \<longleftrightarrow>
     fits32 (pp_LeaderId t) \<and> fits32 (pp_Replica t) \<and> fits32 (pp_Instance t) \<and> fits32 (pp_Ballot t)"
| "msg_fits (M_PrepareReply t) \<longleftrightarrow>
     fits32 (ppr_AcceptorId t) \<and> fits32 (ppr_Replica t) \<and> fits32 (ppr_Instance t) \<and> fits32 (ppr_Ballot t)
     \<and> fits8 (ppr_Status t) \<and> commands_fit (ppr_Command t) \<and> fits32 (ppr_Seq t) \<and> deps_fit (ppr_Deps t)"
| "msg_fits (M_PreAccept t) \<longleftrightarrow>
     fits32 (pac_LeaderId t) \<and> fits32 (pac_Replica t) \<and> fits32 (pac_Instance t) \<and> fits32 (pac_Ballot t)
     \<and> commands_fit (pac_Command t) \<and> fits32 (pac_Seq t) \<and> deps_fit (pac_Deps t)"
| "msg_fits (M_PreAcceptReply t) \<longleftrightarrow>
     fits32 (par_Replica t) \<and> fits32 (par_Instance t) \<and> fits32 (par_Ballot t) \<and> fits32 (par_Seq t)
     \<and> deps_fit (par_Deps t) \<and> deps_fit (par_CommittedDeps t)"
| "msg_fits (M_PreAcceptOK i) \<longleftrightarrow> fits32 i"
| "msg_fits (M_Accept t) \<longleftrightarrow>
     fits32 (ac_LeaderId t) \<and> fits32 (ac_Replica t) \<and> fits32 (ac_Instance t) \<and> fits32 (ac_Ballot t)
     \<and> fits32 (ac_Count t) \<and> fits32 (ac_Seq t) \<and> deps_fit (ac_Deps t)"
| "msg_fits (M_AcceptReply t) \<longleftrightarrow> fits32 (acr_Replica t) \<and> fits32 (acr_Instance t) \<and> fits32 (acr_Ballot t)"
| "msg_fits (M_Commit t) \<longleftrightarrow>
     fits32 (cm_LeaderId t) \<and> fits32 (cm_Replica t) \<and> fits32 (cm_Instance t)
     \<and> commands_fit (cm_Command t) \<and> fits32 (cm_Seq t) \<and> deps_fit (cm_Deps t)"
| "msg_fits (M_CommitShort t) \<longleftrightarrow>
     fits32 (cs_LeaderId t) \<and> fits32 (cs_Replica t) \<and> fits32 (cs_Instance t) \<and> fits32 (cs_Count t)
     \<and> fits32 (cs_Seq t) \<and> deps_fit (cs_Deps t)"
| "msg_fits (M_TryPreAccept t) \<longleftrightarrow>
     fits32 (pac_LeaderId t) \<and> fits32 (pac_Replica t) \<and> fits32 (pac_Instance t) \<and> fits32 (pac_Ballot t)
     \<and> commands_fit (pac_Command t) \<and> fits32 (pac_Seq t) \<and> deps_fit (pac_Deps t)"
| "msg_fits (M_TryPreAcceptReply t) \<longleftrightarrow>
     fits32 (tpr_AcceptorId t) \<and> fits32 (tpr_Replica t) \<and> fits32 (tpr_Instance t) \<and> fits32 (tpr_Ballot t)
     \<and> fits32 (tpr_ConflictReplica t) \<and> fits32 (tpr_ConflictInstance t) \<and> fits8 (tpr_ConflictStatus t)"

text \<open>What arrives: of a \<^verbatim>\<open>PreAcceptReply\<close> the dependencies on replicas 5 to 8 are replaced by the
  sender's committed positions of replicas 0 to 3.\<close>

fun arrives :: "epx_msg \<Rightarrow> epx_msg" where
  "arrives (M_PreAcceptReply t) =
     M_PreAcceptReply (t\<lparr>par_Deps := take 5 (par_Deps t) @ take 4 (par_CommittedDeps t)\<rparr>)"
| "arrives m = m"

section \<open>Numbers and blocks\<close>

lemma length_le32_of [simp]: "length (le32_of x) = 4"
  by (simp add: le32_of_def)

lemma length_put_deps [simp]: "length (put_deps ds) = 4 * length ds"
  by (induction ds) (simp_all add: put_deps_def)

lemma signed_word_of_int: "fits32 x \<Longrightarrow> sint (word_of_int x :: u32) = x"
  unfolding fits32_def by transfer (simp add: signed_take_bit_int_eq_self)

lemma signed_byte_of_int: "fits8 x \<Longrightarrow> sint (word_of_int x :: byte) = x"
  unfolding fits8_def by transfer (simp add: signed_take_bit_int_eq_self)

lemma of32_here [wire_simps]: "fits32 x \<Longrightarrow> of32 0 (le32_of x @ r) = x" "fits32 x \<Longrightarrow> of32 0 (le32_of x) = x"
  by (simp_all add: of32_def le32_of_def signed_word_of_int)

lemma of32_there [wire_simps]: "length xs \<le> k \<Longrightarrow> of32 k (xs @ r) = of32 (k - length xs) r"
  by (simp add: of32_def)

lemma of32_cons [wire_simps]: "0 < k \<Longrightarrow> of32 k (b # r) = of32 (k - 1) r"
  by (cases k) (simp_all add: of32_def)

lemma byte_at_here [wire_simps]: "byte_at 0 (b # r) = b"
  by (simp add: byte_at_def)

lemma byte_at_there [wire_simps]: "length xs \<le> k \<Longrightarrow> byte_at k (xs @ r) = byte_at (k - length xs) r"
  by (simp add: byte_at_def nth_append)

lemma byte_at_cons [wire_simps]: "0 < k \<Longrightarrow> byte_at k (b # r) = byte_at (k - 1) r"
  by (cases k) (simp_all add: byte_at_def)

lemma deps_at_there [wire_simps]: "length xs \<le> k \<Longrightarrow> deps_at k (xs @ r) = deps_at (k - length xs) r"
  by (auto simp: deps_at_def of32_there algebra_simps)

lemma deps_at_cons [wire_simps]: "0 < k \<Longrightarrow> deps_at k (b # r) = deps_at (k - 1) r"
  using deps_at_there [of "[b]" k r] by simp

lemma nth_put_deps: "j < length ds \<Longrightarrow> fits32 (ds ! j) \<Longrightarrow> of32 (4 * j) (put_deps ds @ r) = ds ! j"
proof (induction ds arbitrary: j)
  case (Cons d ds)
  then show ?case by (cases j) (simp_all add: put_deps_def of32_here of32_there)
qed simp

lemma deps_at_here [wire_simps]: "deps_fit ds \<Longrightarrow> deps_at 0 (put_deps ds @ r) = ds"
  by (rule nth_equalityI) (auto simp: deps_at_def deps_fit_def nth_put_deps list_all_length)

lemma deps_at_here' [wire_simps]: "deps_fit ds \<Longrightarrow> deps_at 0 (put_deps ds) = ds"
  using deps_at_here [of ds "[]"] by simp

lemma ok_byte_ne [wire_simps]: "(ok_byte b \<noteq> 0) = b" "(ok_byte b = 0) = (\<not> b)"
  by (simp_all add: ok_byte_def)

lemma block_andThen [wire_simps]: "n \<le> length bs \<Longrightarrow> andThen (read_block n) f bs = f (take n bs) (drop n bs)"
  by (simp add: andThen_def read_block_def readFull_def)

lemma read_ok_def' [wire_simps]: "read_ok x r = (Inr x, r)"
  by (simp add: read_ok_def)

section \<open>Commands\<close>

lemma uvarint_byte: "x < 128 \<Longrightarrow> unat (of_nat x :: byte) = x"
  "unat (of_nat (x mod 128 + 128) :: byte) = x mod 128 + 128"
  by (simp_all add: unat_of_nat take_bit_eq_mod del: of_nat_add)

lemma ReadUvarint_PutUvarint:
  "x < 2 ^ (64 - 7 * i) \<Longrightarrow> i \<le> 9 \<Longrightarrow>
     ReadUvarint_loop i a (PutUvarint x @ r) = (Inr (a + x * 2 ^ (7 * i)), r)"
proof (induction x arbitrary: i a rule: PutUvarint.induct)
  case (1 x)
  show ?case
  proof (cases "x < 128")
    case True
    with 1(2,3) show ?thesis by (subst PutUvarint.simps) (auto simp: uvarint_byte)
  next
    case False
    have i: "i < 9" using 1(2,3) False by (cases "i = 9") auto
    have "(2::nat) ^ (64 - 7 * i) = 128 * 2 ^ (64 - 7 * Suc i)"
    proof -
      have e: "64 - 7 * i = 7 + (64 - 7 * Suc i)" using i by presburger
      have "(2::nat) ^ (7 + (64 - 7 * Suc i)) = 128 * 2 ^ (64 - 7 * Suc i)" by (simp only: power_add) simp
      with e show ?thesis by (simp only:)
    qed
    with 1(2) have "x div 128 < 2 ^ (64 - 7 * Suc i)" by (simp add: less_mult_imp_div_less ac_simps)
    from 1(1) [OF False this] i have "ReadUvarint_loop (Suc i) b (PutUvarint (x div 128) @ r)
      = (Inr (b + x div 128 * 2 ^ (7 * Suc i)), r)" for b by simp
    moreover have "x mod 128 * 2 ^ (7 * i) + x div 128 * 2 ^ (7 * Suc i) = x * 2 ^ (7 * i)"
    proof -
      have "x div 128 * 2 ^ (7 * Suc i) = 128 * (x div 128) * 2 ^ (7 * i)" by (simp add: power_add)
      then have "x mod 128 * 2 ^ (7 * i) + x div 128 * 2 ^ (7 * Suc i)
        = (x mod 128 + 128 * (x div 128)) * 2 ^ (7 * i)" by (simp only: distrib_right)
      then show ?thesis by simp
    qed
    ultimately show ?thesis using i False
      by (subst PutUvarint.simps) (simp add: uvarint_byte del: of_nat_add)
  qed
qed

lemma ReadVarint_PutVarint:
  assumes "- (2 ^ 63) \<le> x" and "x < 2 ^ 63"
  shows "ReadVarint (PutVarint x @ r) = (Inr x, r)"
proof -
  define u where "u = nat (if x < 0 then - 2 * x - 1 else 2 * x)"
  have "u < 2 ^ 64" using assms unfolding u_def by (simp add: nat_less_iff)
  then have "ReadUvarint_loop 0 0 (PutUvarint u @ r) = (Inr u, r)"
    using ReadUvarint_PutUvarint [of u 0 0 r] by simp
  moreover have "(if odd u then - int (u div 2) - 1 else int (u div 2)) = x"
  proof (cases "x < 0")
    case True
    then have "int u = 2 * (- x - 1) + 1" by (simp add: u_def)
    then have "odd u" "int u div 2 = - x - 1" by presburger+
    then show ?thesis by (simp add: zdiv_int)
  next
    case False
    then have "int u = 2 * x" by (simp add: u_def)
    then have "even u" "int u div 2 = x" by presburger+
    then show ?thesis by (simp add: zdiv_int)
  qed
  ultimately show ?thesis unfolding ReadVarint_def PutVarint_def u_def [symmetric] by (simp add: andThen_def read_ok_def)
qed

lemma read_commands_concat:
  "read_commands (length cs) (concat (map Command_Marshal cs) @ r) = (cs, r)"
  by (induction cs) (simp_all add: Command_dec_enc)

lemma command_slice_andThen [wire_simps]:
  assumes "commands_fit cs"
  shows "andThen command_slice f (put_commands cs @ r) = f cs r"
proof -
  have "- (2 ^ 63) \<le> int (length cs)" "int (length cs) < 2 ^ 63"
    using assms by (simp_all add: commands_fit_def)
  from ReadVarint_PutVarint [OF this]
  have "ReadVarint (put_commands cs @ r) = (Inr (int (length cs)), concat (map Command_Marshal cs) @ r)"
    by (simp add: put_commands_def)
  then have "command_slice (put_commands cs @ r) = (Inr cs, r)"
    by (simp add: command_slice_def andThen_def read_commands_concat)
  then show ?thesis by (simp add: andThen_def)
qed

section \<open>What a reader of a written message gets\<close>

text \<open>The contract of a \<^verbatim>\<open>Marshal\<close>/\<^verbatim>\<open>Unmarshal\<close> pair: of a message that fits, the reader gets \<open>sent\<close> of
  it and leaves what follows.\<close>

locale message_codec =
  fixes enc :: "'a \<Rightarrow> bytes" and dec :: "'a reader" and fits :: "'a \<Rightarrow> bool" and sent :: "'a \<Rightarrow> 'a"
  assumes dec_enc: "fits x \<Longrightarrow> dec (enc x @ r) = (Inr (sent x), r)"
begin

lemma no_prefix:
  assumes "fits x" and "fits y" and "enc x @ r = enc y @ s"
  shows "sent x = sent y \<and> r = s"
  using dec_enc [OF assms(1), of r] dec_enc [OF assms(2), of s] assms(3) by simp

lemma andThen_dec: "fits x \<Longrightarrow> andThen dec f (enc x @ r) = f (sent x) r"
  by (simp add: andThen_def dec_enc)

end

lemmas fixed_size_defs =
  Prepare_Marshal_def Prepare_Unmarshal_def Accept_Marshal_def Accept_Unmarshal_def
  AcceptReply_Marshal_def AcceptReply_Unmarshal_def CommitShort_Marshal_def CommitShort_Unmarshal_def
  PreAcceptOK_Marshal_def PreAcceptOK_Unmarshal_def TryPreAcceptReply_Marshal_def
  TryPreAcceptReply_Unmarshal_def

lemmas batch_defs =
  PreAccept_Marshal_def PreAccept_Unmarshal_def TryPreAccept_Marshal_def TryPreAccept_Unmarshal_def
  PrepareReply_Marshal_def PrepareReply_Unmarshal_def Commit_Marshal_def Commit_Unmarshal_def

lemma deps_fit_length [simp]: "deps_fit ds \<Longrightarrow> length ds = 9"
  by (simp add: deps_fit_def DS_def)

interpretation prepare: message_codec Prepare_Marshal Prepare_Unmarshal "\<lambda>t. msg_fits (M_Prepare t)" id
  by unfold_locales (simp add: fixed_size_defs wire_simps)

interpretation accept: message_codec Accept_Marshal Accept_Unmarshal "\<lambda>t. msg_fits (M_Accept t)" id
  by unfold_locales (simp add: fixed_size_defs wire_simps)

interpretation accept_reply: message_codec AcceptReply_Marshal AcceptReply_Unmarshal
  "\<lambda>t. msg_fits (M_AcceptReply t)" id
  by unfold_locales (simp add: fixed_size_defs wire_simps)

interpretation commit_short: message_codec CommitShort_Marshal CommitShort_Unmarshal
  "\<lambda>t. msg_fits (M_CommitShort t)" id
  by unfold_locales (simp add: fixed_size_defs wire_simps)

interpretation preaccept_ok: message_codec PreAcceptOK_Marshal PreAcceptOK_Unmarshal
  "\<lambda>t. msg_fits (M_PreAcceptOK t)" id
  by unfold_locales (simp add: fixed_size_defs wire_simps)

interpretation try_preaccept_reply: message_codec TryPreAcceptReply_Marshal TryPreAcceptReply_Unmarshal
  "\<lambda>t. msg_fits (M_TryPreAcceptReply t)" id
  by unfold_locales (simp add: fixed_size_defs wire_simps signed_byte_of_int)

interpretation preaccept: message_codec PreAccept_Marshal PreAccept_Unmarshal
  "\<lambda>t. msg_fits (M_PreAccept t)" id
  by unfold_locales (simp add: batch_defs wire_simps)

interpretation try_preaccept: message_codec TryPreAccept_Marshal TryPreAccept_Unmarshal
  "\<lambda>t. msg_fits (M_TryPreAccept t)" id
  by unfold_locales (simp add: batch_defs wire_simps)

interpretation prepare_reply: message_codec PrepareReply_Marshal PrepareReply_Unmarshal
  "\<lambda>t. msg_fits (M_PrepareReply t)" id
  by unfold_locales (simp add: batch_defs wire_simps signed_byte_of_int)

interpretation commit: message_codec Commit_Marshal Commit_Unmarshal "\<lambda>t. msg_fits (M_Commit t)" id
  by unfold_locales (simp add: batch_defs wire_simps)

text \<open>The overlapping writes of \<^verbatim>\<open>PreAcceptReply\<close>.\<close>

lemma put_at_append: "length a = k \<Longrightarrow> put_at k xs (a @ b) = a @ xs @ drop (length xs) b"
  by (simp add: put_at_def)

definition clobbered :: "PreAcceptReply \<Rightarrow> PreAcceptReply" where
  "clobbered t = t\<lparr>par_Deps := take 5 (par_Deps t) @ take 4 (par_CommittedDeps t)\<rparr>"

lemma take_put_deps: "take (4 * k) (put_deps ds) = put_deps (take k ds)"
proof (induction ds arbitrary: k)
  case (Cons d ds)
  then show ?case by (cases k) (simp_all add: put_deps_def)
qed (simp add: put_deps_def)

lemma put_deps_append: "put_deps (ds @ es) = put_deps ds @ put_deps es"
  by (simp add: put_deps_def)

lemma clobbered_fits: "deps_fit ds \<Longrightarrow> deps_fit es \<Longrightarrow> deps_fit (take 5 ds @ take 4 es)"
  by (auto simp: deps_fit_def DS_def list_all_iff dest: in_set_takeD)

lemma put_at_zeros:
  "length a = k \<Longrightarrow> length xs \<le> m \<Longrightarrow> put_at k xs (a @ replicate m 0) = (a @ xs) @ replicate (m - length xs) 0"
  by (simp add: put_at_append)

lemma PreAcceptReply_bytes:
  assumes "length (par_Deps t) = DS" and "length (par_CommittedDeps t) = DS"
  shows "PreAcceptReply_Marshal t =
     le32_of (par_Replica t) @ le32_of (par_Instance t) @ [ok_byte (par_OK t)] @ le32_of (par_Ballot t)
     @ le32_of (par_Seq t) @ put_deps (take 5 (par_Deps t)) @ put_deps (par_CommittedDeps t)"
proof -
  define a where "a = le32_of (par_Replica t) @ le32_of (par_Instance t) @ [ok_byte (par_OK t)]
     @ le32_of (par_Ballot t) @ le32_of (par_Seq t)"
  have la: "length a = 17" by (simp add: a_def)
  have b1: "put_at 0 (le32_of (par_Replica t)) (replicate 73 0) = le32_of (par_Replica t) @ replicate 69 0"
    using put_at_zeros [of "[]" 0 "le32_of (par_Replica t)" 73] by simp
  have b5: "put_at 13 (le32_of (par_Seq t)) (put_at 9 (le32_of (par_Ballot t)) (put_at 8 [ok_byte (par_OK t)]
     (put_at 4 (le32_of (par_Instance t)) (put_at 0 (le32_of (par_Replica t)) (replicate 73 0))))) = a @ replicate 56 0"
    unfolding b1 a_def by (simp add: put_at_def)
  have b6: "put_at 17 (put_deps (par_Deps t)) (a @ replicate 56 0) = (a @ put_deps (par_Deps t)) @ replicate 20 0"
    using assms la by (simp add: put_at_zeros DS_def)
  have "put_at 37 (put_deps (par_CommittedDeps t)) ((a @ put_deps (par_Deps t)) @ replicate 20 0)
    = a @ take 20 (put_deps (par_Deps t)) @ put_deps (par_CommittedDeps t)"
    using assms la by (simp add: put_at_def DS_def)
  with take_put_deps [of 5 "par_Deps t"] show ?thesis
    by (simp only: PreAcceptReply_Marshal_def Let_def b5 b6) (simp add: a_def)
qed

interpretation preaccept_reply: message_codec PreAcceptReply_Marshal PreAcceptReply_Unmarshal
  "\<lambda>t. msg_fits (M_PreAcceptReply t)" clobbered
proof
  fix t r
  assume t: "msg_fits (M_PreAcceptReply t)"
  then have f: "deps_fit (take 5 (par_Deps t) @ take 4 (par_CommittedDeps t))" by (simp add: clobbered_fits)
  have "put_deps (take 5 (par_Deps t)) @ put_deps (par_CommittedDeps t)
    = put_deps (take 5 (par_Deps t) @ take 4 (par_CommittedDeps t)) @ put_deps (drop 4 (par_CommittedDeps t))"
    using put_deps_append [of "take 4 (par_CommittedDeps t)" "drop 4 (par_CommittedDeps t)"]
    by (simp add: put_deps_append)
  with deps_at_here [OF f, of "put_deps (drop 4 (par_CommittedDeps t))"]
  have d: "deps_at 0 (put_deps (take 5 (par_Deps t)) @ put_deps (par_CommittedDeps t))
    = take 5 (par_Deps t) @ take 4 (par_CommittedDeps t)" by simp
  show "PreAcceptReply_Unmarshal (PreAcceptReply_Marshal t @ r) = (Inr (clobbered t), r)"
    using t d by (simp add: PreAcceptReply_bytes DS_def PreAcceptReply_Unmarshal_def wire_simps clobbered_def)
qed

end
