(* ===== verification/Epx_System.thy ===== *)
theory Epx_System
  imports Epx_Recovery Epx_Exec Epx_Wire
begin

text \<open>
  Replicas of the original EPaxos together: every replica with its main loop and its execution thread, and
  the messages between them. What a replica sent stays in its output; a message is delivered at most once,
  possibly late, out of order or never (each kind of message has its own channel in the receiver), and as it
  arrives over the wire. An
  action is one step of one replica.
\<close>

section \<open>Actions\<close>

text \<open>\<open>sy_taken\<close> holds the positions, sender and place in its output, of the delivered messages.\<close>

record epx_sys =
  sy_node :: "int \<Rightarrow> Replica"
  sy_taken :: "(int \<times> nat) set"

text \<open>\<open>Pass p k q\<close> delivers the \<open>k\<close>-th output of \<open>p\<close>, a message for \<open>q\<close>. \<open>Run_Command q v\<close> is an
  \<^verbatim>\<open>executeCommand\<close> of the thread of \<open>q\<close> that got through, \<open>Advance q v\<close> the update of \<^verbatim>\<open>ExecedUpTo\<close>
  after it.\<close>

datatype epx_action =
    Client int proposal
  | Propose_at int
  | Pass int nat int
  | Start_Recovery int int int
  | Run_Command int iid
  | Advance int iid

definition message_at :: "epx_out list \<Rightarrow> nat \<Rightarrow> int \<Rightarrow> epx_msg option" where
  "message_at os k q =
     (if k < length os then case os ! k of Send d m \<Rightarrow> if d = q then Some m else None | _ \<Rightarrow> None else None)"

definition on_node :: "int \<Rightarrow> (Replica \<Rightarrow> Replica option) \<Rightarrow> epx_sys \<Rightarrow> epx_sys option" where
  "on_node q f S =
     (if row_ok (sy_node S q) q
      then map_option (\<lambda>r. S\<lparr>sy_node := (sy_node S)(q := r)\<rparr>) (f (sy_node S q)) else None)"

definition pass :: "int \<Rightarrow> nat \<Rightarrow> int \<Rightarrow> epx_sys \<Rightarrow> epx_sys option" where
  "pass p k q S =
     (if \<not> row_ok (sy_node S p) p \<or> (p, k) \<in> sy_taken S then None
      else case message_at (ep_out (sy_node S p)) k q of
             None \<Rightarrow> None
           | Some m \<Rightarrow> on_node q (epx_step (Deliver (arrives m))) (S\<lparr>sy_taken := insert (p, k) (sy_taken S)\<rparr>))"

definition run_command :: "sorter \<Rightarrow> nat \<Rightarrow> iid \<Rightarrow> Replica \<Rightarrow> Replica option" where
  "run_command srt n v r = (case executeCommand srt n v r of Ran (ok, r1) \<Rightarrow> Some r1 | _ \<Rightarrow> None)"

definition advance_past :: "iid \<Rightarrow> Replica \<Rightarrow> Replica option" where
  "advance_past v r = (if map_option ei_Status (inst_of r v) = Some EXECUTED
     then Some (advance (fst v) (snd v) r) else None)"

fun sys_do :: "sorter \<Rightarrow> nat \<Rightarrow> epx_action \<Rightarrow> epx_sys \<Rightarrow> epx_sys option" where
  "sys_do srt n (Client q p) S = on_node q (epx_step (Arrive p)) S"
| "sys_do srt n (Propose_at q) S = on_node q (epx_step Take_Propose) S"
| "sys_do srt n (Pass p k q) S = pass p k q S"
| "sys_do srt n (Start_Recovery q rep i) S = on_node q (epx_step (Recover rep i)) S"
| "sys_do srt n (Run_Command q v) S = on_node q (run_command srt n v) S"
| "sys_do srt n (Advance q v) S = on_node q (advance_past v) S"

fun sys_run :: "sorter \<Rightarrow> nat \<Rightarrow> epx_action list \<Rightarrow> epx_sys \<Rightarrow> epx_sys option" where
  "sys_run srt n [] S = Some S"
| "sys_run srt n (a # as) S = (case sys_do srt n a S of None \<Rightarrow> None | Some S1 \<Rightarrow> sys_run srt n as S1)"

definition start_system :: "int \<Rightarrow> bool \<Rightarrow> bool \<Rightarrow> bool \<Rightarrow> epx_sys" where
  "start_system n thrifty dreply durable =
     \<lparr>sy_node = (\<lambda>q. starting_replica q n thrifty dreply durable), sy_taken = {}\<rparr>"

text \<open>No action of the run is a recovery.\<close>

fun no_recovery :: "epx_action list \<Rightarrow> bool" where
  "no_recovery [] = True"
| "no_recovery (Start_Recovery q rep i # as) = False"
| "no_recovery (a # as) = no_recovery as"

definition stable_sort :: sorter where
  "stable_sort f xs = sort_key f xs"

lemma stable_sort_sorts: "sorts_by_seq stable_sort"
  by (simp add: sorts_by_seq_def stable_sort_def)

end
