(* ===== verification/Epx_Effects.thy ===== *)
theory Epx_Effects
  imports Epx_System
begin

text \<open>
  What the handlers of the original EPaxos replica do to the instance space and to the network, for the
  messages of a run without recovery: every handler either leaves both alone or writes one instance and
  sends some messages. The helper functions are shown to be quiet, so that the handlers' effects follow by
  composition.
\<close>

section \<open>Quiet steps and moves\<close>

fun is_send :: "epx_out \<Rightarrow> bool" where
  "is_send (Send d m) = True"
| "is_send o' = False"

text \<open>\<open>p\<close> is the replica itself.\<close>

definition same_static :: "int \<Rightarrow> Replica \<Rightarrow> Replica \<Rightarrow> bool" where
  "same_static p r r' \<longleftrightarrow>
     ep_Id r' = ep_Id r \<and> ep_N r' = ep_N r \<and> ep_PreferredPeerOrder r' = ep_PreferredPeerOrder r
     \<and> ep_Alive r' = ep_Alive r \<and> ep_Thrifty r' = ep_Thrifty r \<and> ep_crtInstance r' p = ep_crtInstance r p"

definition sends_more :: "epx_out list \<Rightarrow> Replica \<Rightarrow> Replica \<Rightarrow> bool" where
  "sends_more ms r r' \<longleftrightarrow> (\<exists>os. ep_out r' = ep_out r @ os \<and> filter is_send os = ms)"

definition quiet :: "int \<Rightarrow> Replica \<Rightarrow> Replica \<Rightarrow> bool" where
  "quiet p r r' \<longleftrightarrow> same_static p r r' \<and> ep_InstanceSpace r' = ep_InstanceSpace r \<and> sends_more [] r r'"

definition moved :: "int \<Rightarrow> int \<Rightarrow> int \<Rightarrow> Instance \<Rightarrow> epx_out list \<Rightarrow> Replica \<Rightarrow> Replica \<Rightarrow> bool" where
  "moved p q i inst ms r r' \<longleftrightarrow>
     same_static p r r'
     \<and> ep_InstanceSpace r' = (ep_InstanceSpace r)(q := (ep_InstanceSpace r q)(i := Some inst))
     \<and> sends_more ms r r'"

lemma same_static_refl [simp, intro]: "same_static p r r"
  by (simp add: same_static_def)

lemma same_static_trans: "same_static p r s \<Longrightarrow> same_static p s t \<Longrightarrow> same_static p r t"
  by (simp add: same_static_def)

lemma sends_more_trans: "sends_more ms r s \<Longrightarrow> sends_more ns s t \<Longrightarrow> sends_more (ms @ ns) r t"
  unfolding sends_more_def by (metis append.assoc filter_append)

lemma quiet_refl [simp, intro]: "quiet p r r"
  by (simp add: quiet_def sends_more_def)

lemma quiet_trans [trans]: "quiet p r s \<Longrightarrow> quiet p s t \<Longrightarrow> quiet p r t"
  using sends_more_trans [of "[]" r s "[]" t] by (auto simp: quiet_def intro: same_static_trans)

lemma quiet_moved: "quiet p r s \<Longrightarrow> moved p q i inst ms s t \<Longrightarrow> moved p q i inst ms r t"
  using sends_more_trans [of "[]" r s ms t] by (auto simp: quiet_def moved_def intro: same_static_trans)

lemma moved_quiet: "moved p q i inst ms r s \<Longrightarrow> quiet p s t \<Longrightarrow> moved p q i inst ms r t"
  using sends_more_trans [of ms r s "[]" t] by (auto simp: quiet_def moved_def intro: same_static_trans)

lemma moved_moved:
  "moved p q i inst ms r s \<Longrightarrow> moved p q i inst' ms' s t \<Longrightarrow> moved p q i inst' (ms @ ms') r t"
  using sends_more_trans [of ms r s ms' t] by (auto simp: moved_def intro: same_static_trans)

lemma moved_out:
  assumes "moved p q i inst ms r s" and "filter is_send os = ns"
  shows "moved p q i inst (ms @ ns) r (out os s)"
proof -
  have "sends_more ns s (out os s)" using assms (2) by (auto simp: sends_more_def out_def)
  with assms (1) show ?thesis
    using sends_more_trans [of ms r s ns "out os s"]
    by (auto simp: moved_def same_static_def out_def)
qed

lemma moved_SendMsg: "moved p q i inst ms r s \<Longrightarrow> SendMsg d m s = Some t \<Longrightarrow> moved p q i inst (ms @ [Send d m]) r t"
  by (auto simp: SendMsg_def split: if_splits intro: moved_out)

lemma put_moved: "put q i inst r = Some r' \<Longrightarrow> moved p q i inst [] r r'"
  by (auto simp: put_def moved_def same_static_def sends_more_def split: if_splits)

lemma put_in_space: "put q i inst r = Some r' \<Longrightarrow> 0 \<le> i \<and> i < SPACE_SIZE \<and> 0 \<le> q \<and> q < ep_N r"
  by (auto simp: put_def in_space_def split: if_splits)

lemma look_Some_iff: "look r q i = Some x \<longleftrightarrow> in_space r q i \<and> ep_InstanceSpace r q i = x"
  by (auto simp: look_def)

section \<open>The helper functions are quiet\<close>

lemma quiet_out: "filter is_send os = [] \<Longrightarrow> quiet p r (out os r)"
  by (auto simp: quiet_def same_static_def sends_more_def out_def)

lemma recordInstanceMetadata_quiet: "recordInstanceMetadata q i r = Some r' \<Longrightarrow> quiet p r r'"
  by (auto simp: recordInstanceMetadata_def Option.bind_eq_Some_conv split: if_splits intro: quiet_out)

lemma recordCommands_quiet: "quiet p r (recordCommands cmds r)"
  by (auto simp: recordCommands_def filter_map comp_def split: option.split intro!: quiet_out)

lemma sync_quiet: "quiet p r (sync r)"
  by (auto simp: sync_def intro: quiet_out)

lemma raise_maxSeq_quiet: "quiet p r (raise_maxSeq seq r)"
  by (simp add: raise_maxSeq_def quiet_def same_static_def sends_more_def)

lemma checkpoint_quiet: "quiet p r (checkpoint q i r)"
  by (simp add: checkpoint_def clearHashtables_def quiet_def same_static_def sends_more_def)

lemma raise_crt_quiet: "raise_crt q i r = Some r' \<Longrightarrow> p \<noteq> q \<Longrightarrow> quiet p r r'"
  by (auto simp: raise_crt_def quiet_def same_static_def sends_more_def split: if_splits)

lemma updateCommitted_quiet: "updateCommitted q r = Some r' \<Longrightarrow> quiet p r r'"
  by (auto simp: updateCommitted_def quiet_def same_static_def sends_more_def Option.bind_eq_Some_conv)

lemma note_conflict_quiet: "quiet p r (note_conflict q i seq c r)"
  by (simp add: note_conflict_def quiet_def same_static_def sends_more_def)

lemma fold_note_conflict_quiet: "quiet p r (fold (note_conflict q i seq) cs r)"
  by (induction cs arbitrary: r) (auto intro: quiet_trans [OF note_conflict_quiet])

lemma updateConflicts_quiet: "updateConflicts cs q i seq r = Some r' \<Longrightarrow> quiet p r r'"
  by (auto simp: updateConflicts_def fold_note_conflict_quiet split: if_splits)

lemma clients_all_clear_quiet: "quiet p r (clients_all_clear lb r)"
  by (auto simp: clients_all_clear_def filter_map comp_def split: option.split intro!: quiet_out)

lemma requeue_quiet: "quiet p r (requeue lb r)"
  by (auto simp: requeue_def quiet_def same_static_def sends_more_def split: option.split)

lemma quiet_fields: "quiet p r r' \<Longrightarrow> ep_InstanceSpace r' = ep_InstanceSpace r"
  "quiet p r r' \<Longrightarrow> ep_Id r' = ep_Id r" "quiet p r r' \<Longrightarrow> ep_N r' = ep_N r"
  "quiet p r r' \<Longrightarrow> ep_PreferredPeerOrder r' = ep_PreferredPeerOrder r"
  "quiet p r r' \<Longrightarrow> alive_peers r' = alive_peers r" "quiet p r r' \<Longrightarrow> quorum_peers r' = quorum_peers r"
  by (simp_all add: quiet_def same_static_def alive_peers_def quorum_peers_def)

lemma moved_fields: "moved p q i inst ms r r' \<Longrightarrow> ep_Id r' = ep_Id r" "moved p q i inst ms r r' \<Longrightarrow> ep_N r' = ep_N r"
  "moved p q i inst ms r r' \<Longrightarrow> ep_PreferredPeerOrder r' = ep_PreferredPeerOrder r"
  "moved p q i inst ms r r' \<Longrightarrow> alive_peers r' = alive_peers r"
  "moved p q i inst ms r r' \<Longrightarrow> quorum_peers r' = quorum_peers r"
  by (simp_all add: moved_def same_static_def alive_peers_def quorum_peers_def)

text \<open>What leaves the table of conflicts alone.\<close>

lemma conflicts_frame [simp]:
  "ep_conflicts (out os r) = ep_conflicts r" "ep_conflicts (sync r) = ep_conflicts r"
  "ep_conflicts (recordCommands cmds r) = ep_conflicts r" "ep_conflicts (raise_maxSeq seq r) = ep_conflicts r"
  "ep_conflicts (clients_all_clear lb r) = ep_conflicts r" "ep_conflicts (requeue olb r) = ep_conflicts r"
  "ep_conflicts (bcastPreAccept q i b cs seq deps r) = ep_conflicts r"
  "ep_conflicts (bcastAccept q i b n seq deps r) = ep_conflicts r"
  "ep_conflicts (bcastCommit q i cs seq deps r) = ep_conflicts r"
  by (simp_all add: out_def sync_def recordCommands_def raise_maxSeq_def clients_all_clear_def requeue_def
      bcastPreAccept_def bcastAccept_def bcastCommit_def Let_def split: option.split)

lemma conflicts_frame_Some:
  "put q i inst r = Some r' \<Longrightarrow> ep_conflicts r' = ep_conflicts r"
  "recordInstanceMetadata q i r = Some r' \<Longrightarrow> ep_conflicts r' = ep_conflicts r"
  "updateCommitted q r = Some r' \<Longrightarrow> ep_conflicts r' = ep_conflicts r"
  "raise_crt q i r = Some r' \<Longrightarrow> ep_conflicts r' = ep_conflicts r"
  "SendMsg d m r = Some r' \<Longrightarrow> ep_conflicts r' = ep_conflicts r"
  by (auto simp: put_def recordInstanceMetadata_def updateCommitted_def raise_crt_def SendMsg_def out_def
      Option.bind_eq_Some_conv split: if_splits)

section \<open>Sending to all\<close>

definition bcast_peers :: "Replica \<Rightarrow> int list" where
  "bcast_peers r = take (nat (quorum_peers r)) (alive_peers r)"

definition preaccept_of :: "int \<Rightarrow> int \<Rightarrow> int \<Rightarrow> Command list \<Rightarrow> int \<Rightarrow> int list \<Rightarrow> PreAccept" where
  "preaccept_of p i ballot cmds seq deps =
     \<lparr>pac_LeaderId = p, pac_Replica = p, pac_Instance = i, pac_Ballot = ballot, pac_Command = cmds,
      pac_Seq = seq, pac_Deps = deps\<rparr>"

lemma filter_is_send_map [simp]: "filter is_send (map (\<lambda>q. Send q m) qs) = map (\<lambda>q. Send q m) qs"
  by (simp add: filter_map comp_def)

lemma moved_bcast:
  assumes "moved p q i inst ms r s"
  shows "moved p q i inst (ms @ map (\<lambda>d. Send d m) ds) r (out (map (\<lambda>d. Send d m) ds) s)"
  by (rule moved_out [OF assms]) simp

lemma moved_bcastPreAccept:
  assumes "moved p q i inst ms r s" and "ep_Id r = p"
  shows "moved p q i inst
    (ms @ map (\<lambda>d. Send d (M_PreAccept (preaccept_of p a b (on_wire cmds) seq deps\<lparr>pac_Replica := x\<rparr>))) (bcast_peers r))
    r (bcastPreAccept x a b cmds seq deps s)"
proof -
  have "moved p q i inst ms r (s\<lparr>ep_pa := z\<rparr>)" for z
    using assms (1) by (simp add: moved_def same_static_def sends_more_def)
  moreover have "ep_Id s = p" "bcast_peers r = bcast_peers s"
    using assms moved_fields [OF assms (1)] by (simp_all add: bcast_peers_def)
  ultimately show ?thesis
    unfolding bcastPreAccept_def Let_def by (auto simp: bcast_peers_def preaccept_of_def intro: moved_bcast)
qed

lemma moved_bcastAccept:
  assumes "moved p q i inst ms r s" and "ep_Id r = p"
  shows "moved p q i inst
    (ms @ map (\<lambda>d. Send d (M_Accept \<lparr>ac_LeaderId = p, ac_Replica = x, ac_Instance = a, ac_Ballot = b,
       ac_Count = cnt, ac_Seq = seq, ac_Deps = deps\<rparr>)) (bcast_peers r))
    r (bcastAccept x a b cnt seq deps s)"
  unfolding bcastAccept_def Let_def
  using moved_bcast [OF assms(1)] moved_fields [OF assms (1)] assms (2) by (simp add: bcast_peers_def)

lemma moved_bcastCommit:
  assumes "moved p q i inst ms r s" and "ep_Id r = p"
  shows "\<exists>ks. moved p q i inst
    (ms @ map (\<lambda>d. Send d (M_CommitShort \<lparr>cs_LeaderId = p, cs_Replica = x, cs_Instance = a,
       cs_Count = int (length (on_wire cmds)), cs_Seq = seq, cs_Deps = deps\<rparr>)) (take ks (alive_peers r))
     @ map (\<lambda>d. Send d (M_Commit \<lparr>cm_LeaderId = p, cm_Replica = x, cm_Instance = a,
       cm_Command = on_wire cmds, cm_Seq = seq, cm_Deps = deps\<rparr>)) (drop ks (alive_peers r)))
    r (bcastCommit x a cmds seq deps s)"
proof -
  let ?k = "if ep_Thrifty s then nat (ep_N s div 2) else length (alive_peers s)"
  have "bcastCommit x a cmds seq deps s = out (map (\<lambda>d. Send d (M_CommitShort \<lparr>cs_LeaderId = p, cs_Replica = x,
      cs_Instance = a, cs_Count = int (length (on_wire cmds)), cs_Seq = seq, cs_Deps = deps\<rparr>)) (take ?k (alive_peers r))
     @ map (\<lambda>d. Send d (M_Commit \<lparr>cm_LeaderId = p, cm_Replica = x, cm_Instance = a,
       cm_Command = on_wire cmds, cm_Seq = seq, cm_Deps = deps\<rparr>)) (drop ?k (alive_peers r))) s"
    using moved_fields [OF assms (1)] assms (2) by (simp add: bcastCommit_def Let_def)
  then show ?thesis by (intro exI [of _ ?k]) (simp add: moved_out [OF assms (1)])
qed

section \<open>The effects of the handlers\<close>

lemma handlePropose_effect:
  assumes "handlePropose pr r = Some r'" and "ep_Id r = p" and "ep_crtInstance r p = i" and "0 \<le> i"
  obtains cmds seq deps changed ps c rs where
    "cmds \<noteq> []" and "i < SPACE_SIZE" and "ep_crtInstance r' p = i + 1"
    and "rs = r\<lparr>ep_crtInstance := (ep_crtInstance r)(p := i + 1), ep_ProposeChan := c\<rparr>"
    and "updateAttributes cmds 0 (map (\<lambda>q. if int q < ep_N r then - 1 else 0) [0..<DS]) p rs
           = Some (seq, deps, changed)"
    and "moved p p i (new_instance (Some cmds) 0 PREACCEPTED seq deps (Some (new_lb (Some ps) deps)))
           (map (\<lambda>d. Send d (M_PreAccept (preaccept_of p i 0 cmds seq deps))) (bcast_peers r)) rs r'"
    and "\<exists>r2 r3. updateConflicts cmds p i seq r2 = Some r3 \<and> ep_conflicts r2 = ep_conflicts r
           \<and> ep_conflicts r' = ep_conflicts r3"
proof -
  let ?batch = "pr # take (MAX_BATCH - 1) (ep_ProposeChan r)"
  let ?cmds = "map (pr_Command \<circ> cp_Propose) ?batch"
  let ?c = "drop (MAX_BATCH - 1) (ep_ProposeChan r)"
  let ?w = "r\<lparr>ep_crtInstance := (ep_crtInstance r)(p := wrap32 (i + 1)), ep_ProposeChan := ?c\<rparr>"
  have s: "startPhase1 p i 0 (Some ?batch) (Some ?cmds) ?w = Some r'"
    using assms by (simp add: handlePropose_def Let_def)
  have w: "ep_Id ?w = p" using assms by simp
  from s obtain seq deps changed r1 r2 r3 where
    u: "updateAttributes ?cmds 0 (map (\<lambda>q. if int q < ep_N r then - 1 else 0) [0..<DS]) p ?w
          = Some (seq, deps, changed)"
    and pt: "put p i (new_instance (Some ?cmds) 0 PREACCEPTED seq deps (Some (new_lb (Some ?batch) deps))) ?w = Some r1"
    and uc: "updateConflicts ?cmds p i seq r1 = Some r2"
    and rm: "recordInstanceMetadata p i (raise_maxSeq seq r2) = Some r3"
    and r': "r' = bcastPreAccept p i 0 (Some ?cmds) seq deps (sync (recordCommands (Some ?cmds) r3))"
    using assms (2) by (auto simp: startPhase1_def on_wire_def Option.bind_eq_Some_conv simp del: list.map)
  have b: "i < SPACE_SIZE" using put_in_space [OF pt] by simp
  with assms (4) have wr: "wrap32 (i + 1) = i + 1" by (intro wrap32_id) (simp_all add: SPACE_SIZE_def)
  have q: "quiet p r1 (sync (recordCommands (Some ?cmds) r3))"
    by (rule quiet_trans [OF updateConflicts_quiet [OF uc] quiet_trans [OF raise_maxSeq_quiet
        quiet_trans [OF recordInstanceMetadata_quiet [OF rm] quiet_trans [OF recordCommands_quiet sync_quiet]]]])
  have m: "moved p p i (new_instance (Some ?cmds) 0 PREACCEPTED seq deps (Some (new_lb (Some ?batch) deps)))
           (map (\<lambda>d. Send d (M_PreAccept (preaccept_of p i 0 ?cmds seq deps))) (bcast_peers ?w)) ?w r'"
    unfolding r'
    using moved_bcastPreAccept [OF moved_quiet [OF put_moved [OF pt] q] w,
      where a = i and b = 0 and cmds = "Some ?cmds" and seq = seq and deps = deps and x = p]
    by (simp add: on_wire_def preaccept_of_def)
  have cf: "ep_conflicts r1 = ep_conflicts r" "ep_conflicts r' = ep_conflicts r2"
    using conflicts_frame_Some (1) [OF pt] conflicts_frame_Some (2) [OF rm] unfolding r' by simp_all
  have crt: "ep_crtInstance r' p = i + 1" using m wr by (simp add: moved_def same_static_def)
  have bp: "bcast_peers ?w = bcast_peers r"
    by (simp add: bcast_peers_def alive_peers_def quorum_peers_def)
  show thesis
  proof (rule that [where cmds = ?cmds and rs = ?w and c = ?c and ps = ?batch])
    show "?w = r\<lparr>ep_crtInstance := (ep_crtInstance r)(p := i + 1), ep_ProposeChan := ?c\<rparr>" using wr by simp
    show "\<exists>r2 r3. updateConflicts ?cmds p i seq r2 = Some r3 \<and> ep_conflicts r2 = ep_conflicts r
        \<and> ep_conflicts r' = ep_conflicts r3"
      using uc cf by blast
    show "moved p p i (new_instance (Some ?cmds) 0 PREACCEPTED seq deps (Some (new_lb (Some ?batch) deps)))
        (map (\<lambda>d. Send d (M_PreAccept (preaccept_of p i 0 ?cmds seq deps))) (bcast_peers r)) ?w r'"
      using m unfolding bp .
  qed (use b crt u in simp_all)
qed

text \<open>The table of conflicts gains the commands of an instance.\<close>

definition conflicts_noted :: "Command list \<Rightarrow> int \<Rightarrow> int \<Rightarrow> Replica \<Rightarrow> Replica \<Rightarrow> bool" where
  "conflicts_noted cs q i r r' \<longleftrightarrow>
     (\<exists>seq r1 r2. ep_conflicts r1 = ep_conflicts r \<and> updateConflicts cs q i seq r1 = Some r2
        \<and> ep_conflicts r' = ep_conflicts r2)"

lemma conflicts_notedI:
  "updateConflicts cs q i seq r1 = Some r2 \<Longrightarrow> ep_conflicts r1 = ep_conflicts r \<Longrightarrow>
     ep_conflicts r' = ep_conflicts r2 \<Longrightarrow> conflicts_noted cs q i r r'"
  unfolding conflicts_noted_def by blast

lemma preaccepted_effect:
  assumes h: "preaccepted m seq deps changed un s = Some r'" and mv: "moved p q i inst [] r s"
    and m: "pac_LeaderId m = q" "pac_Replica m = q" "pac_Instance m = i" "pac_Ballot m = 0" "pac_Command m \<noteq> []"
  obtains msg where "moved p q i inst [Send q msg] r r'" and "conflicts_noted (pac_Command m) q i s r'"
    and "(\<exists>cd. msg = M_PreAcceptReply \<lparr>par_Replica = q, par_Instance = i, par_OK = True, par_Ballot = 0,
            par_Seq = seq, par_Deps = deps, par_CommittedDeps = cd\<rparr>)
         \<or> msg = M_PreAcceptOK i \<and> \<not> changed"
proof -
  from h [unfolded preaccepted_def m(1-4) Let_def if_not_P [OF m(5)]] obtain r1 r2 where
    uc: "updateConflicts (pac_Command m) q i (pac_Seq m) s = Some r1"
    and rm: "recordInstanceMetadata q i r1 = Some r2"
    and fin: "(if changed \<or> un \<or> \<not> isInitialBallot 0
       then SendMsg q (preaccept_reply m True 0 seq deps (sync (recordCommands (Some (pac_Command m)) r2)))
              (sync (recordCommands (Some (pac_Command m)) r2))
       else SendMsg q (M_PreAcceptOK i) (sync (recordCommands (Some (pac_Command m)) r2))) = Some r'"
    by (auto simp: Option.bind_eq_Some_conv Let_def)
  let ?r4 = "sync (recordCommands (Some (pac_Command m)) r2)"
  from fin obtain msg where sd: "SendMsg q msg ?r4 = Some r'"
    and msg: "msg = preaccept_reply m True 0 seq deps ?r4 \<or> msg = M_PreAcceptOK i \<and> \<not> changed"
    by (auto simp: Let_def split: if_splits)
  have qt: "quiet p s ?r4"
    by (rule quiet_trans [OF updateConflicts_quiet [OF uc] quiet_trans [OF recordInstanceMetadata_quiet [OF rm]
        quiet_trans [OF recordCommands_quiet sync_quiet]]])
  have mvd: "moved p q i inst [Send q msg] r r'"
    using moved_SendMsg [OF moved_quiet [OF mv qt] sd] by simp
  have cf: "conflicts_noted (pac_Command m) q i s r'"
    by (rule conflicts_notedI [OF uc])
      (simp_all add: conflicts_frame_Some (5) [OF sd] conflicts_frame_Some (2) [OF rm])
  show thesis
    by (rule that [OF mvd cf]) (use msg m in \<open>auto simp: preaccept_reply_def\<close>)
qed

lemma handlePreAccept_effect:
  assumes h: "handlePreAccept m r = Some r'" and qp: "q \<noteq> p"
    and m: "pac_LeaderId m = q" "pac_Replica m = q" "pac_Instance m = i" "pac_Ballot m = 0" "pac_Command m \<noteq> []"
    and b: "\<And>inst. ep_InstanceSpace r q i = Some inst \<Longrightarrow> ei_ballot inst = 0"
  obtains (known) "quiet p r r'" and "ep_conflicts r' = ep_conflicts r"
  | (late) inst where "ep_InstanceSpace r q i = Some inst" and "ei_Cmds inst = None"
      and "moved p q i (inst\<lparr>ei_Cmds := Some (pac_Command m)\<rparr>) [] r r'"
      and "conflicts_noted (pac_Command m) q i r r'"
  | (vote) r1 seq deps changed status inst msg where
      "quiet p r r1" and "ep_conflicts r1 = ep_conflicts r" and "ep_Id r1 = ep_Id r"
      and "updateAttributes (pac_Command m) (pac_Seq m) (pac_Deps m) q r1 = Some (seq, deps, changed)"
      and "\<not> found_with (\<lambda>inst. ei_Status inst = COMMITTED \<or> ei_Status inst = ACCEPTED) (ep_InstanceSpace r q i)"
      and "status = PREACCEPTED \<or> status = PREACCEPTED_EQ"
      and "inst = (case ep_InstanceSpace r q i of
             None \<Rightarrow> new_instance (Some (pac_Command m)) 0 status seq deps None
           | Some inst \<Rightarrow> inst\<lparr>ei_Cmds := Some (pac_Command m), ei_Seq := seq, ei_Deps := deps, ei_ballot := 0,
               ei_Status := status\<rparr>)"
      and "moved p q i inst [Send q msg] r r'"
      and "(\<exists>cd. msg = M_PreAcceptReply \<lparr>par_Replica = q, par_Instance = i, par_OK = True, par_Ballot = 0,
              par_Seq = seq, par_Deps = deps, par_CommittedDeps = cd\<rparr>)
           \<or> msg = M_PreAcceptOK i \<and> \<not> changed"
      and "conflicts_noted (pac_Command m) q i r r'"
proof -
  let ?found = "ep_InstanceSpace r q i"
  let ?late = "found_with (\<lambda>inst. ei_Status inst = COMMITTED \<or> ei_Status inst = ACCEPTED) ?found"
  let ?r = "raise_maxSeq (pac_Seq m) r"
  have sp: "in_space r q i" using h m by (auto simp: handlePreAccept_def look_def Option.bind_eq_Some_conv split: if_splits)
  show thesis
  proof (cases ?late)
    case True
    then obtain inst where f: "?found = Some inst" by (cases ?found) auto
    with h m True sp have l: "late_preaccept m inst ?r = Some r'"
      by (simp add: handlePreAccept_def look_def Let_def)
    show thesis
    proof (cases "ei_Cmds inst = None")
      case True
      with l m obtain r1 r2 where pt: "put q i (inst\<lparr>ei_Cmds := Some (pac_Command m)\<rparr>) ?r = Some r1"
        and uc: "updateConflicts (pac_Command m) q i (pac_Seq m) r1 = Some r2"
        and r': "r' = sync (recordCommands (Some (pac_Command m)) r2)"
        by (auto simp: late_preaccept_def Option.bind_eq_Some_conv)
      have mv: "moved p q i (inst\<lparr>ei_Cmds := Some (pac_Command m)\<rparr>) [] r r'"
        unfolding r' by (rule quiet_moved [OF raise_maxSeq_quiet moved_quiet [OF put_moved [OF pt]
            quiet_trans [OF updateConflicts_quiet [OF uc] quiet_trans [OF recordCommands_quiet sync_quiet]]]])
      have cf: "conflicts_noted (pac_Command m) q i r r'"
        by (rule conflicts_notedI [OF uc]) (simp_all add: r' conflicts_frame_Some (1) [OF pt])
      show thesis by (rule late [OF f True mv cf])
    next
      case False
      with l have r': "r' = sync (recordCommands (Some (pac_Command m)) ?r)" by (simp add: late_preaccept_def)
      have "quiet p r r'"
        unfolding r' by (rule quiet_trans [OF raise_maxSeq_quiet quiet_trans [OF recordCommands_quiet sync_quiet]])
      then show thesis by (rule known) (simp add: r')
    qed
  next
    case False
    with h [unfolded handlePreAccept_def m] sp obtain r1 seq deps changed un where rc: "raise_crt q i ?r = Some r1"
      and ua: "updateAttributes (pac_Command m) (pac_Seq m) (pac_Deps m) q r1 = Some (seq, deps, changed)"
      and rest: "(let status = (if changed then PREACCEPTED else PREACCEPTED_EQ) in
         case ?found of
           Some inst \<Rightarrow>
             if 0 < ei_ballot inst
             then SendMsg q (preaccept_reply m False (ei_ballot inst) (ei_Seq inst) (ei_Deps inst) r1) r1
             else do {
               r2 \<leftarrow> put q i
                      (inst\<lparr>ei_Cmds := Some (pac_Command m), ei_Seq := seq, ei_Deps := deps,
                            ei_ballot := 0, ei_Status := status\<rparr>) r1;
               preaccepted m seq deps changed un r2
             }
         | None \<Rightarrow> do {
             r2 \<leftarrow> put q i (new_instance (Some (pac_Command m)) 0 status seq deps None) r1;
             preaccepted m seq deps changed un r2
           }) = Some r'"
      by (auto simp: look_def Let_def Option.bind_eq_Some_conv)
    let ?status = "if changed then PREACCEPTED else PREACCEPTED_EQ"
    define inst where "inst = (case ?found of
             None \<Rightarrow> new_instance (Some (pac_Command m)) 0 ?status seq deps None
           | Some inst \<Rightarrow> inst\<lparr>ei_Cmds := Some (pac_Command m), ei_Seq := seq, ei_Deps := deps, ei_ballot := 0,
               ei_Status := ?status\<rparr>)"
    from rest b obtain r2 where pt: "put q i inst r1 = Some r2" and pa: "preaccepted m seq deps changed un r2 = Some r'"
      by (cases ?found) (auto simp: inst_def Let_def Option.bind_eq_Some_conv)
    have q1: "quiet p r r1"
      by (rule quiet_trans [OF raise_maxSeq_quiet raise_crt_quiet [OF rc]]) (use qp in simp)
    have c1: "ep_conflicts r1 = ep_conflicts r" by (simp add: conflicts_frame_Some (4) [OF rc])
    from preaccepted_effect [OF pa quiet_moved [OF q1 put_moved [OF pt]] m] obtain msg where
      mv: "moved p q i inst [Send q msg] r r'" and cf: "conflicts_noted (pac_Command m) q i r2 r'"
      and ms: "(\<exists>cd. msg = M_PreAcceptReply \<lparr>par_Replica = q, par_Instance = i, par_OK = True, par_Ballot = 0,
              par_Seq = seq, par_Deps = deps, par_CommittedDeps = cd\<rparr>) \<or> msg = M_PreAcceptOK i \<and> \<not> changed" .
    have cf': "conflicts_noted (pac_Command m) q i r r'"
      using cf c1 by (simp add: conflicts_noted_def conflicts_frame_Some (1) [OF pt])
    show thesis
      by (rule vote [OF q1 c1 quiet_fields (2) [OF q1] ua False _ inst_def mv ms cf']) simp
  qed
qed

subsection \<open>The leader's decision\<close>

definition accept_of :: "int \<Rightarrow> int \<Rightarrow> Instance \<Rightarrow> epx_msg" where
  "accept_of p i inst = M_Accept \<lparr>ac_LeaderId = p, ac_Replica = p, ac_Instance = i, ac_Ballot = ei_ballot inst,
     ac_Count = int (length (on_wire (ei_Cmds inst))), ac_Seq = ei_Seq inst, ac_Deps = ei_Deps inst\<rparr>"

definition commit_of :: "int \<Rightarrow> int \<Rightarrow> Instance \<Rightarrow> epx_msg" where
  "commit_of p i inst = M_Commit \<lparr>cm_LeaderId = p, cm_Replica = p, cm_Instance = i,
     cm_Command = on_wire (ei_Cmds inst), cm_Seq = ei_Seq inst, cm_Deps = ei_Deps inst\<rparr>"

definition commit_short_of :: "int \<Rightarrow> int \<Rightarrow> Instance \<Rightarrow> epx_msg" where
  "commit_short_of p i inst = M_CommitShort \<lparr>cs_LeaderId = p, cs_Replica = p, cs_Instance = i,
     cs_Count = int (length (on_wire (ei_Cmds inst))), cs_Seq = ei_Seq inst, cs_Deps = ei_Deps inst\<rparr>"

definition sends_to :: "epx_out list \<Rightarrow> int list \<Rightarrow> epx_msg set \<Rightarrow> bool" where
  "sends_to ms ds M \<longleftrightarrow> (\<forall>o' \<in> set ms. \<exists>d \<in> set ds. \<exists>x \<in> M. o' = Send d x)"

lemma sends_to_map: "set ds' \<subseteq> set ds \<Longrightarrow> x \<in> M \<Longrightarrow> sends_to (map (\<lambda>d. Send d x) ds') ds M"
  by (auto simp: sends_to_def)

lemma sends_to_append: "sends_to ms ds M \<Longrightarrow> sends_to ns ds M \<Longrightarrow> sends_to (ms @ ns) ds M"
  by (auto simp: sends_to_def)

lemma commit_instance_effect:
  assumes h: "commit_instance p i inst lb r = Some r'" and p: "ep_Id r = p"
  obtains ms where "moved p p i (inst\<lparr>ei_Status := COMMITTED, ei_lb := Some lb\<rparr>) ms r r'"
    and "sends_to ms (alive_peers r) {commit_of p i inst, commit_short_of p i inst}"
    and "ep_conflicts r' = ep_conflicts r"
proof -
  let ?inst = "inst\<lparr>ei_Status := COMMITTED, ei_lb := Some lb\<rparr>"
  from h obtain r1 r2 r3 where pt: "put p i ?inst r = Some r1" and uc: "updateCommitted p r1 = Some r2"
    and rm: "recordInstanceMetadata p i (clients_all_clear lb r2) = Some r3"
    and r': "r' = bcastCommit p i (ei_Cmds inst) (ei_Seq inst) (ei_Deps inst) (sync r3)"
    by (auto simp: commit_instance_def Option.bind_eq_Some_conv)
  have mv: "moved p p i ?inst [] r (sync r3)"
    by (rule moved_quiet [OF put_moved [OF pt] quiet_trans [OF updateCommitted_quiet [OF uc]
        quiet_trans [OF clients_all_clear_quiet quiet_trans [OF recordInstanceMetadata_quiet [OF rm] sync_quiet]]]])
  from moved_bcastCommit [OF mv p] obtain ks where
    "moved p p i ?inst (map (\<lambda>d. Send d (commit_short_of p i inst)) (take ks (alive_peers r))
       @ map (\<lambda>d. Send d (commit_of p i inst)) (drop ks (alive_peers r))) r r'"
    unfolding r' commit_of_def commit_short_of_def append_Nil by blast
  moreover have "sends_to (map (\<lambda>d. Send d (commit_short_of p i inst)) (take ks (alive_peers r))
       @ map (\<lambda>d. Send d (commit_of p i inst)) (drop ks (alive_peers r))) (alive_peers r)
       {commit_of p i inst, commit_short_of p i inst}"
    by (intro sends_to_append sends_to_map set_take_subset set_drop_subset) simp_all
  ultimately obtain ms where
    ms: "moved p p i ?inst ms r r'" "sends_to ms (alive_peers r) {commit_of p i inst, commit_short_of p i inst}"
    by blast
  show thesis
    by (rule that [OF ms])
      (simp add: r' conflicts_frame_Some (2) [OF rm] conflicts_frame_Some (3) [OF uc] conflicts_frame_Some (1) [OF pt])
qed

lemma decide_path_effect:
  assumes h: "decide_path p i inst lb ac r = Some r'" and p: "ep_Id r = p"
  obtains status ms where "moved p p i (inst\<lparr>ei_Status := status, ei_lb := Some lb\<rparr>) ms r r'"
    and "ep_conflicts r' = ep_conflicts r"
    and "status = COMMITTED \<and> sends_to ms (alive_peers r) {commit_of p i inst, commit_short_of p i inst}
           \<and> ep_N r div 2 \<le> lb_preAcceptOKs lb
         \<or> status = ACCEPTED \<and> sends_to ms (alive_peers r) {accept_of p i inst} \<and> ep_N r div 2 \<le> lb_preAcceptOKs lb
         \<or> status = ei_Status inst \<and> ms = []"
proof -
  consider (fast) "commit_instance p i inst lb (r\<lparr>ep_happy := ep_happy r + 1\<rparr>) = Some r'"
      "ep_N r div 2 \<le> lb_preAcceptOKs lb"
    | (slow) "slow_path p i inst lb ac r = Some r'" "ep_N r div 2 \<le> lb_preAcceptOKs lb"
    | (wait) "put p i (inst\<lparr>ei_lb := Some lb\<rparr>) r = Some r'"
    using h by (auto simp: decide_path_def split: if_splits)
  then show thesis
  proof cases
    case fast
    let ?h = "r\<lparr>ep_happy := ep_happy r + 1\<rparr>"
    have q: "quiet p r ?h" by (simp add: quiet_def same_static_def sends_more_def)
    have id: "ep_Id ?h = p" using p by simp
    from commit_instance_effect [OF fast (1) id] obtain ms where
      m: "moved p p i (inst\<lparr>ei_Status := COMMITTED, ei_lb := Some lb\<rparr>) ms ?h r'"
      "sends_to ms (alive_peers ?h) {commit_of p i inst, commit_short_of p i inst}" "ep_conflicts r' = ep_conflicts ?h" .
    show thesis
      by (rule that [OF quiet_moved [OF q m(1)]]) (use m fast (2) quiet_fields (5) [OF q] in simp_all)
  next
    case slow
    then obtain r1 where pt: "put p i (inst\<lparr>ei_Status := ACCEPTED, ei_lb := Some lb\<rparr>) r = Some r1"
      and r': "r' = bcastAccept p i (ei_ballot inst) (int (length (on_wire (ei_Cmds inst)))) (ei_Seq inst) (ei_Deps inst)
        (r1\<lparr>ep_weird := (if ac then ep_weird r else ep_weird r + 1), ep_slow := ep_slow r + 1\<rparr>)"
      by (auto simp: slow_path_def Option.bind_eq_Some_conv)
    let ?r2 = "r1\<lparr>ep_weird := (if ac then ep_weird r else ep_weird r + 1), ep_slow := ep_slow r + 1\<rparr>"
    have q: "quiet p r1 ?r2" by (simp add: quiet_def same_static_def sends_more_def)
    have b: "set (bcast_peers r) \<subseteq> set (alive_peers r)" by (simp add: bcast_peers_def set_take_subset)
    have mv: "moved p p i (inst\<lparr>ei_Status := ACCEPTED, ei_lb := Some lb\<rparr>)
        (map (\<lambda>d. Send d (accept_of p i inst)) (bcast_peers r)) r r'"
      using moved_bcastAccept [OF moved_quiet [OF put_moved [OF pt] q] p] unfolding r' accept_of_def append_Nil .
    have st: "sends_to (map (\<lambda>d. Send d (accept_of p i inst)) (bcast_peers r)) (alive_peers r) {accept_of p i inst}"
      by (rule sends_to_map [OF b]) simp
    have cf: "ep_conflicts r' = ep_conflicts r" by (simp add: r' conflicts_frame_Some (1) [OF pt])
    show thesis by (rule that [OF mv cf]) (use st slow (2) in simp)
  next
    case wait
    have "inst\<lparr>ei_Status := ei_Status inst, ei_lb := Some lb\<rparr> = inst\<lparr>ei_lb := Some lb\<rparr>" by simp
    with put_moved [OF wait, of p]
    have mv: "moved p p i (inst\<lparr>ei_Status := ei_Status inst, ei_lb := Some lb\<rparr>) [] r r'" by simp
    show thesis by (rule that [OF mv]) (simp_all add: conflicts_frame_Some (1) [OF wait])
  qed
qed

lemma handlePreAcceptReply_effect:
  assumes h: "handlePreAcceptReply m r = Some r'" and p: "ep_Id r = p" and m: "par_Replica m = p" "par_Instance m = i"
  obtains (ignored) "r' = r"
  | (nack) inst lb where "ep_InstanceSpace r p i = Some inst" and "ei_lb inst = Some lb" and "\<not> par_OK m"
      and "moved p p i (inst\<lparr>ei_lb := Some (nack (par_Ballot m) lb)\<rparr>) [] r r'" and "ep_conflicts r' = ep_conflicts r"
  | (ok) inst lb lb' seq deps eq status ms where "ep_InstanceSpace r p i = Some inst" and "ei_lb inst = Some lb"
      and "par_OK m" and "ei_Status inst = PREACCEPTED"
      and "mergeAttributes (ei_Seq inst) (ei_Deps inst) (par_Seq m) (par_Deps m) r = Some (seq, deps, eq)"
      and "lb_preAcceptOKs lb' = lb_preAcceptOKs lb + 1" and "lb_originalDeps lb' = lb_originalDeps lb"
      and "moved p p i (inst\<lparr>ei_Seq := seq, ei_Deps := deps, ei_Status := status, ei_lb := Some lb'\<rparr>) ms r r'"
      and "ep_conflicts r' = ep_conflicts r"
      and "status = COMMITTED \<and> sends_to ms (alive_peers r) {commit_of p i (inst\<lparr>ei_Seq := seq, ei_Deps := deps\<rparr>),
              commit_short_of p i (inst\<lparr>ei_Seq := seq, ei_Deps := deps\<rparr>)} \<and> ep_N r div 2 \<le> lb_preAcceptOKs lb'
         \<or> status = ACCEPTED \<and> sends_to ms (alive_peers r) {accept_of p i (inst\<lparr>ei_Seq := seq, ei_Deps := deps\<rparr>)}
             \<and> ep_N r div 2 \<le> lb_preAcceptOKs lb'
         \<or> status = PREACCEPTED \<and> ms = []"
proof -
  from h [unfolded handlePreAcceptReply_def m] obtain inst where
    sp: "ep_InstanceSpace r p i = Some inst" by (auto simp: look_def Option.bind_eq_Some_conv split: if_splits)
  let ?compared = "\<lambda>lb :: LeaderBookkeeping. ep_N r \<le> 3 \<and> \<not> ep_Thrifty r \<or> lb_preAcceptOKs lb + 1 > 1"
  consider (1) "r' = r"
    | (2) lb where "ei_lb inst = Some lb" "\<not> par_OK m" "put p i (inst\<lparr>ei_lb := Some (nack (par_Ballot m) lb)\<rparr>) r = Some r'"
    | (3) lb seq deps eq cd ac where "ei_lb inst = Some lb" "par_OK m" "ei_Status inst = PREACCEPTED"
      "mergeAttributes (ei_Seq inst) (ei_Deps inst) (par_Seq m) (par_Deps m) r = Some (seq, deps, eq)"
      "decide_path p i (inst\<lparr>ei_Seq := seq, ei_Deps := deps\<rparr>)
         (lb\<lparr>lb_preAcceptOKs := lb_preAcceptOKs lb + 1, lb_committedDeps := cd,
             lb_allEqual := (if ?compared lb then lb_allEqual lb \<and> eq else lb_allEqual lb)\<rparr>) ac
         (r\<lparr>ep_conflicted := (if ?compared lb \<and> \<not> eq then ep_conflicted r + 1 else ep_conflicted r)\<rparr>) = Some r'"
  proof (cases "ei_Status inst \<noteq> PREACCEPTED \<or> ei_ballot inst \<noteq> par_Ballot m")
    case True
    with h [unfolded handlePreAcceptReply_def m] sp have "r' = r" by (auto simp: look_def split: if_splits)
    then show thesis by (rule that(1))
  next
    case False
    with h [unfolded handlePreAcceptReply_def m] sp obtain lb where l: "ei_lb inst = Some lb"
      by (auto simp: look_def Option.bind_eq_Some_conv split: if_splits)
    show thesis
    proof (cases "par_OK m")
      case True
      with False h [unfolded handlePreAcceptReply_def m Let_def] sp l show thesis
        by (auto simp: look_def Option.bind_eq_Some_conv intro: that(3) split: if_split_asm)
    next
      case no: False
      with False h [unfolded handlePreAcceptReply_def m] sp l show thesis
        by (auto simp: look_def intro: that(2) split: if_split_asm)
    qed
  qed
  then show thesis
  proof cases
    case 1
    then show thesis by (rule ignored)
  next
    case (2 lb)
    show thesis by (rule nack [OF sp 2(1,2) put_moved [OF 2(3)]]) (simp add: conflicts_frame_Some (1) [OF 2(3)])
  next
    case (3 lb seq deps eq cd ac)
    let ?inst = "inst\<lparr>ei_Seq := seq, ei_Deps := deps\<rparr>"
    define lb' where "lb' = lb\<lparr>lb_preAcceptOKs := lb_preAcceptOKs lb + 1, lb_committedDeps := cd,
      lb_allEqual := (if ?compared lb then lb_allEqual lb \<and> eq else lb_allEqual lb)\<rparr>"
    define r1 where "r1 = r\<lparr>ep_conflicted := (if ?compared lb \<and> \<not> eq then ep_conflicted r + 1 else ep_conflicted r)\<rparr>"
    have d: "decide_path p i ?inst lb' ac r1 = Some r'"
      using 3 (5) unfolding lb'_def r1_def .
    have lb': "lb_preAcceptOKs lb' = lb_preAcceptOKs lb + 1" "lb_originalDeps lb' = lb_originalDeps lb"
      by (simp_all add: lb'_def)
    have r1: "quiet p r r1" "ep_conflicts r1 = ep_conflicts r"
      by (simp_all add: r1_def quiet_def same_static_def sends_more_def)
    have id: "ep_Id r1 = p" using quiet_fields (2) [OF r1(1)] p by simp
    from decide_path_effect [OF d id] obtain status ms where
      mv: "moved p p i (?inst\<lparr>ei_Status := status, ei_lb := Some lb'\<rparr>) ms r1 r'" and cf: "ep_conflicts r' = ep_conflicts r1"
      and st: "status = COMMITTED \<and> sends_to ms (alive_peers r1) {commit_of p i ?inst, commit_short_of p i ?inst}
           \<and> ep_N r1 div 2 \<le> lb_preAcceptOKs lb'
         \<or> status = ACCEPTED \<and> sends_to ms (alive_peers r1) {accept_of p i ?inst} \<and> ep_N r1 div 2 \<le> lb_preAcceptOKs lb'
         \<or> status = ei_Status ?inst \<and> ms = []" .
    have mv': "moved p p i (inst\<lparr>ei_Seq := seq, ei_Deps := deps, ei_Status := status, ei_lb := Some lb'\<rparr>) ms r r'"
      using quiet_moved [OF r1(1) mv] by simp
    show thesis
      by (rule ok [OF sp 3(1-4) lb' mv']) (use cf r1 (2) st 3(3) quiet_fields (3,5) [OF r1(1)] in simp_all)
  qed
qed

lemma handlePreAcceptOK_effect:
  assumes h: "handlePreAcceptOK i r = Some r'" and p: "ep_Id r = p"
  obtains (ignored) "r' = r"
  | (ok) inst lb lb' status ms where "ep_InstanceSpace r p i = Some inst" and "ei_lb inst = Some lb"
      and "ei_Status inst = PREACCEPTED"
      and "lb_preAcceptOKs lb' = lb_preAcceptOKs lb + 1" and "lb_originalDeps lb' = lb_originalDeps lb"
      and "moved p p i (inst\<lparr>ei_Status := status, ei_lb := Some lb'\<rparr>) ms r r'"
      and "ep_conflicts r' = ep_conflicts r"
      and "status = COMMITTED \<and> sends_to ms (alive_peers r) {commit_of p i inst, commit_short_of p i inst}
             \<and> ep_N r div 2 \<le> lb_preAcceptOKs lb'
         \<or> status = ACCEPTED \<and> sends_to ms (alive_peers r) {accept_of p i inst} \<and> ep_N r div 2 \<le> lb_preAcceptOKs lb'
         \<or> status = PREACCEPTED \<and> ms = []"
proof -
  from h p obtain inst where
    sp: "ep_InstanceSpace r p i = Some inst"
    by (auto simp: handlePreAcceptOK_def look_def Option.bind_eq_Some_conv split: if_splits)
  consider "r' = r" | lb cd ac where "ei_lb inst = Some lb" "ei_Status inst = PREACCEPTED"
      "decide_path p i inst (lb\<lparr>lb_preAcceptOKs := lb_preAcceptOKs lb + 1, lb_committedDeps := cd\<rparr>) ac r = Some r'"
    using h [unfolded handlePreAcceptOK_def p] sp
    by (auto simp: look_def Option.bind_eq_Some_conv Let_def split: if_splits)
  then show thesis
  proof cases
    case 1
    then show thesis by (rule ignored)
  next
    case (2 lb cd ac)
    let ?lb = "lb\<lparr>lb_preAcceptOKs := lb_preAcceptOKs lb + 1, lb_committedDeps := cd\<rparr>"
    from decide_path_effect [OF 2(3) p] obtain status ms where
      "moved p p i (inst\<lparr>ei_Status := status, ei_lb := Some ?lb\<rparr>) ms r r'" "ep_conflicts r' = ep_conflicts r"
      "status = COMMITTED \<and> sends_to ms (alive_peers r) {commit_of p i inst, commit_short_of p i inst}
           \<and> ep_N r div 2 \<le> lb_preAcceptOKs ?lb
         \<or> status = ACCEPTED \<and> sends_to ms (alive_peers r) {accept_of p i inst} \<and> ep_N r div 2 \<le> lb_preAcceptOKs ?lb
         \<or> status = ei_Status inst \<and> ms = []" .
    with 2 (2) show thesis by (intro ok [OF sp 2(1,2), of ?lb]) simp_all
  qed
qed

subsection \<open>Accept and commit\<close>

lemma handleAccept_effect:
  assumes h: "handleAccept m r = Some r'" and qp: "q \<noteq> p"
    and m: "ac_LeaderId m = q" "ac_Replica m = q" "ac_Instance m = i" "ac_Ballot m = 0" and c: "ac_Count m \<noteq> 0"
    and b: "\<And>inst. ep_InstanceSpace r q i = Some inst \<Longrightarrow> ei_ballot inst = 0"
  obtains (ignored) "quiet p r r'" and "ep_conflicts r' = ep_conflicts r"
  | (ok) inst where "\<not> found_with decided (ep_InstanceSpace r q i)"
      and "inst = (case ep_InstanceSpace r q i of
             None \<Rightarrow> new_instance None 0 ACCEPTED (ac_Seq m) (ac_Deps m) None
           | Some inst \<Rightarrow> inst\<lparr>ei_Status := ACCEPTED, ei_Seq := ac_Seq m, ei_Deps := ac_Deps m\<rparr>)"
      and "moved p q i inst [Send q (accept_reply m True 0)] r r'" and "ep_conflicts r' = ep_conflicts r"
proof -
  let ?found = "ep_InstanceSpace r q i" and ?r = "raise_maxSeq (ac_Seq m) r"
  have sp: "in_space r q i" using h m by (auto simp: handleAccept_def look_def Option.bind_eq_Some_conv split: if_splits)
  show thesis
  proof (cases "found_with decided ?found")
    case True
    with h m sp have "r' = ?r" by (simp add: handleAccept_def look_def Let_def)
    then show thesis using ignored raise_maxSeq_quiet by simp
  next
    case False
    define inst where "inst = (case ?found of
             None \<Rightarrow> new_instance None 0 ACCEPTED (ac_Seq m) (ac_Deps m) None
           | Some inst \<Rightarrow> inst\<lparr>ei_Status := ACCEPTED, ei_Seq := ac_Seq m, ei_Deps := ac_Deps m\<rparr>)"
    have nb: "\<not> found_with (\<lambda>inst. 0 < ei_ballot inst) ?found" using b by (auto simp: found_with_def split: option.split)
    from h [unfolded handleAccept_def m] sp False nb c obtain r1 r2 r3 where rc: "raise_crt q i ?r = Some r1"
      and pt: "put q i inst r1 = Some r2" and rm: "recordInstanceMetadata q i r2 = Some r3"
      and sd: "SendMsg q (accept_reply m True 0) (sync r3) = Some r'"
      by (cases ?found) (auto simp: look_def Let_def Option.bind_eq_Some_conv inst_def)
    have mv: "moved p q i inst [] r (sync r3)"
      by (rule quiet_moved [OF quiet_trans [OF raise_maxSeq_quiet raise_crt_quiet [OF rc qp [symmetric]]]
          moved_quiet [OF put_moved [OF pt] quiet_trans [OF recordInstanceMetadata_quiet [OF rm] sync_quiet]]])
    have cf: "ep_conflicts r' = ep_conflicts r"
      by (simp add: conflicts_frame_Some (5) [OF sd] conflicts_frame_Some (2) [OF rm] conflicts_frame_Some (1) [OF pt]
          conflicts_frame_Some (4) [OF rc])
    show thesis using moved_SendMsg [OF mv sd] by (intro ok [OF False inst_def _ cf]) simp
  qed
qed

lemma handleAcceptReply_effect:
  assumes h: "handleAcceptReply m r = Some r'" and p: "ep_Id r = p" and m: "acr_Replica m = p" "acr_Instance m = i"
  obtains (ignored) "r' = r"
  | (moves) inst lb lb' status ms where "ep_InstanceSpace r p i = Some inst" and "ei_lb inst = Some lb"
      and "ei_Status inst = ACCEPTED" and "lb_preAcceptOKs lb' = lb_preAcceptOKs lb"
      and "lb_originalDeps lb' = lb_originalDeps lb"
      and "moved p p i (inst\<lparr>ei_Status := status, ei_lb := Some lb'\<rparr>) ms r r'" and "ep_conflicts r' = ep_conflicts r"
      and "status = COMMITTED \<and> sends_to ms (alive_peers r) {commit_of p i inst, commit_short_of p i inst}
         \<or> status = ACCEPTED \<and> ms = []"
proof -
  from h [unfolded handleAcceptReply_def m] obtain inst where
    sp: "ep_InstanceSpace r p i = Some inst" by (auto simp: look_def Option.bind_eq_Some_conv split: if_splits)
  consider "r' = r"
    | lb where "ei_Status inst = ACCEPTED" "ei_lb inst = Some lb"
        "put p i (inst\<lparr>ei_lb := Some (nack (acr_Ballot m) lb)\<rparr>) r = Some r'"
    | lb where "ei_Status inst = ACCEPTED" "ei_lb inst = Some lb"
        "commit_instance p i inst (lb\<lparr>lb_acceptOKs := lb_acceptOKs lb + 1\<rparr>) r = Some r'"
    | lb where "ei_Status inst = ACCEPTED" "ei_lb inst = Some lb"
        "put p i (inst\<lparr>ei_lb := Some (lb\<lparr>lb_acceptOKs := lb_acceptOKs lb + 1\<rparr>)\<rparr>) r = Some r'"
    using h [unfolded handleAcceptReply_def m] sp
    by (auto simp: look_def Option.bind_eq_Some_conv Let_def split: if_splits)
  then show thesis
  proof cases
    case 1
    then show thesis by (rule ignored)
  next
    case (2 lb)
    have "inst\<lparr>ei_Status := ACCEPTED, ei_lb := Some l\<rparr> = inst\<lparr>ei_lb := Some l\<rparr>" for l using 2(1) by simp
    with put_moved [OF 2(3), of p] show thesis
      by (intro moves [OF sp 2(2,1), of "nack (acr_Ballot m) lb" ACCEPTED "[]"])
        (simp_all add: nack_def conflicts_frame_Some (1) [OF 2(3)])
  next
    case (3 lb)
    from commit_instance_effect [OF 3(3) p] obtain ms where
      mv: "moved p p i (inst\<lparr>ei_Status := COMMITTED, ei_lb := Some (lb\<lparr>lb_acceptOKs := lb_acceptOKs lb + 1\<rparr>)\<rparr>) ms r r'"
      and st: "sends_to ms (alive_peers r) {commit_of p i inst, commit_short_of p i inst}"
      and cf: "ep_conflicts r' = ep_conflicts r" .
    show thesis by (rule moves [OF sp 3(2,1) _ _ mv cf]) (use st in simp_all)
  next
    case (4 lb)
    have "inst\<lparr>ei_Status := ACCEPTED, ei_lb := Some l\<rparr> = inst\<lparr>ei_lb := Some l\<rparr>" for l using 4(1) by simp
    with put_moved [OF 4(3), of p] show thesis
      by (intro moves [OF sp 4(2,1), of "lb\<lparr>lb_acceptOKs := lb_acceptOKs lb + 1\<rparr>" ACCEPTED "[]"])
        (simp_all add: conflicts_frame_Some (1) [OF 4(3)])
  qed
qed

lemma handleCommit_effect:
  assumes h: "handleCommit m r = Some r'" and qp: "q \<noteq> p"
    and m: "cm_Replica m = q" "cm_Instance m = i" and c: "cm_Command m \<noteq> []"
  obtains inst where
    "inst = (case ep_InstanceSpace r q i of
             None \<Rightarrow> new_instance (Some (cm_Command m)) 0 COMMITTED (cm_Seq m) (cm_Deps m) None
           | Some inst \<Rightarrow> inst\<lparr>ei_Seq := cm_Seq m, ei_Deps := cm_Deps m, ei_Status := COMMITTED\<rparr>)"
    and "moved p q i inst [] r r'"
    and "ep_conflicts r' = ep_conflicts r \<or> conflicts_noted (cm_Command m) q i r r'"
proof -
  let ?found = "ep_InstanceSpace r q i" and ?r = "raise_maxSeq (cm_Seq m) r"
  have sp: "in_space r q i" using h m by (auto simp: handleCommit_def look_def Option.bind_eq_Some_conv split: if_splits)
  define inst where "inst = (case ?found of
             None \<Rightarrow> new_instance (Some (cm_Command m)) 0 COMMITTED (cm_Seq m) (cm_Deps m) None
           | Some inst \<Rightarrow> inst\<lparr>ei_Seq := cm_Seq m, ei_Deps := cm_Deps m, ei_Status := COMMITTED\<rparr>)"
  have same: "x\<lparr>ei_lb := ei_lb x, ei_Seq := s, ei_Deps := d, ei_Status := t\<rparr>
      = x\<lparr>ei_Seq := s, ei_Deps := d, ei_Status := t\<rparr>" for x :: Instance and s d t by simp
  from h [unfolded handleCommit_def m] sp c obtain r1 r2 r3 r4 r5 where rc: "raise_crt q i ?r = Some r1"
    and pt: "put q i inst r1 = Some r2"
    and c3: "case ?found of None \<Rightarrow> updateConflicts (cm_Command m) q i (cm_Seq m) r2 = Some r3 | Some x \<Rightarrow> r3 = r2"
    and uc: "updateCommitted q r3 = Some r4" and rm: "recordInstanceMetadata q i r4 = Some r5"
    and r': "r' = recordCommands (Some (cm_Command m)) r5"
    by (cases ?found) (auto simp: look_def Let_def Option.bind_eq_Some_conv inst_def same)
  from c3 have r3: "r3 = r2 \<or> updateConflicts (cm_Command m) q i (cm_Seq m) r2 = Some r3"
    by (auto split: option.splits)
  have q3: "quiet p r2 r3" using r3 updateConflicts_quiet by auto
  have mv: "moved p q i inst [] r r'"
    unfolding r'
    by (rule quiet_moved [OF quiet_trans [OF raise_maxSeq_quiet raise_crt_quiet [OF rc qp [symmetric]]]
        moved_quiet [OF put_moved [OF pt] quiet_trans [OF q3 quiet_trans [OF updateCommitted_quiet [OF uc]
        quiet_trans [OF recordInstanceMetadata_quiet [OF rm] recordCommands_quiet]]]]])
  have c2: "ep_conflicts r2 = ep_conflicts r" and c5: "ep_conflicts r' = ep_conflicts r3"
    by (simp_all add: r' conflicts_frame_Some (1) [OF pt] conflicts_frame_Some (4) [OF rc]
        conflicts_frame_Some (2) [OF rm] conflicts_frame_Some (3) [OF uc])
  from r3 have "ep_conflicts r' = ep_conflicts r \<or> conflicts_noted (cm_Command m) q i r r'"
    using c2 c5 conflicts_notedI by metis
  with mv show thesis by (rule that [OF inst_def])
qed

lemma handleCommitShort_effect:
  assumes h: "handleCommitShort m r = Some r'" and qp: "q \<noteq> p"
    and m: "cs_Replica m = q" "cs_Instance m = i" and c: "cs_Count m \<noteq> 0"
    and lb: "\<And>inst. ep_InstanceSpace r q i = Some inst \<Longrightarrow> ei_lb inst = None"
  obtains inst where
    "inst = (case ep_InstanceSpace r q i of
             None \<Rightarrow> new_instance None 0 COMMITTED (cs_Seq m) (cs_Deps m) None
           | Some inst \<Rightarrow> inst\<lparr>ei_Seq := cs_Seq m, ei_Deps := cs_Deps m, ei_Status := COMMITTED\<rparr>)"
    and "moved p q i inst [] r r'" and "ep_conflicts r' = ep_conflicts r"
proof -
  let ?found = "ep_InstanceSpace r q i"
  have sp: "in_space r q i" using h m by (auto simp: handleCommitShort_def look_def Option.bind_eq_Some_conv split: if_splits)
  define inst where "inst = (case ?found of
             None \<Rightarrow> new_instance None 0 COMMITTED (cs_Seq m) (cs_Deps m) None
           | Some inst \<Rightarrow> inst\<lparr>ei_Seq := cs_Seq m, ei_Deps := cs_Deps m, ei_Status := COMMITTED\<rparr>)"
  have same: "x\<lparr>ei_lb := ei_lb x, ei_Seq := s, ei_Deps := d, ei_Status := t\<rparr>
      = x\<lparr>ei_Seq := s, ei_Deps := d, ei_Status := t\<rparr>" for x :: Instance and s d t by simp
  have np: "\<not> found_with (\<lambda>x. has_proposals (ei_lb x)) ?found"
    using lb by (auto simp: found_with_def has_proposals_def split: option.split)
  from h [unfolded handleCommitShort_def m] sp c np obtain r1 r2 r4 where rc: "raise_crt q i r = Some r1"
    and pt: "put q i inst r1 = Some r2" and uc: "updateCommitted q r2 = Some r4"
    and rm: "recordInstanceMetadata q i r4 = Some r'"
    by (cases ?found) (auto simp: look_def Let_def Option.bind_eq_Some_conv inst_def same)
  have mv: "moved p q i inst [] r r'"
    by (rule quiet_moved [OF raise_crt_quiet [OF rc qp [symmetric]] moved_quiet [OF put_moved [OF pt]
        quiet_trans [OF updateCommitted_quiet [OF uc] recordInstanceMetadata_quiet [OF rm]]]])
  show thesis
    by (rule that [OF inst_def mv])
      (simp add: conflicts_frame_Some (1) [OF pt] conflicts_frame_Some (4) [OF rc]
        conflicts_frame_Some (2) [OF rm] conflicts_frame_Some (3) [OF uc])
qed

end
