(* ===== verification/Epx_Leader.thy ===== *)
theory Epx_Leader
  imports Epx_Effects
begin

text \<open>
  The invariant of an original EPaxos replica in runs without recovery: what a replica records as committed
  is what the instance's leader decided. The invariant of a replica speaks of the leaders' copies of the
  instances (\<open>lead\<close>): what is sent and what is recorded about an instance of another replica agrees with
  its leader's copy, which only evolves.
\<close>

section \<open>The leader's copy\<close>

definition settled :: "Instance \<Rightarrow> bool" where
  "settled inst \<longleftrightarrow> ei_Status inst = ACCEPTED \<or> decided inst"

definition deps_le :: "int list \<Rightarrow> int list \<Rightarrow> bool" where
  "deps_le ds ds' \<longleftrightarrow> length ds' = length ds \<and> (\<forall>j < length ds. ds ! j \<le> ds' ! j)"

definition evolves :: "Instance \<Rightarrow> Instance \<Rightarrow> bool" where
  "evolves L L' \<longleftrightarrow>
     ei_Cmds L' = ei_Cmds L
     \<and> (\<exists>lb lb'. ei_lb L = Some lb \<and> ei_lb L' = Some lb' \<and> lb_originalDeps lb' = lb_originalDeps lb)
     \<and> (settled L \<longrightarrow> settled L' \<and> ei_Seq L' = ei_Seq L \<and> ei_Deps L' = ei_Deps L)
     \<and> (decided L \<longrightarrow> decided L') \<and> deps_le (ei_Deps L) (ei_Deps L')"

type_synonym leaders = "int \<Rightarrow> int \<Rightarrow> Instance option"

definition leads_to :: "leaders \<Rightarrow> leaders \<Rightarrow> bool" where
  "leads_to lead lead' \<longleftrightarrow> (\<forall>q i L. lead q i = Some L \<longrightarrow> (\<exists>L'. lead' q i = Some L' \<and> evolves L L'))"

definition own_ok :: "Instance \<Rightarrow> bool" where
  "own_ok inst \<longleftrightarrow> ei_ballot inst = 0 \<and> (\<exists>c cs. ei_Cmds inst = Some (c # cs)) \<and> (\<exists>lb. ei_lb inst = Some lb)"

text \<open>A copy at another replica.\<close>

definition slot_ok :: "leaders \<Rightarrow> int \<Rightarrow> int \<Rightarrow> Instance \<Rightarrow> bool" where
  "slot_ok lead q i inst \<longleftrightarrow>
     ei_ballot inst = 0 \<and> ei_lb inst = None
     \<and> (\<exists>L. lead q i = Some L \<and> (\<forall>cs. ei_Cmds inst = Some cs \<longrightarrow> ei_Cmds L = Some cs)
          \<and> (decided inst \<longrightarrow> decided L \<and> ei_Seq inst = ei_Seq L \<and> ei_Deps inst = ei_Deps L))"

fun msg_ok :: "leaders \<Rightarrow> int \<Rightarrow> int \<Rightarrow> epx_msg \<Rightarrow> bool" where
  "msg_ok lead p d (M_PreAccept x) \<longleftrightarrow>
     pac_LeaderId x = p \<and> pac_Replica x = p \<and> pac_Ballot x = 0 \<and> pac_Command x \<noteq> []
     \<and> (\<exists>L. lead p (pac_Instance x) = Some L \<and> ei_Cmds L = Some (pac_Command x))"
| "msg_ok lead p d (M_PreAcceptReply x) \<longleftrightarrow> par_Replica x = d"
| "msg_ok lead p d (M_PreAcceptOK i) \<longleftrightarrow> True"
| "msg_ok lead p d (M_Accept x) \<longleftrightarrow>
     ac_LeaderId x = p \<and> ac_Replica x = p \<and> ac_Ballot x = 0 \<and> ac_Count x \<noteq> 0
     \<and> (\<exists>L. lead p (ac_Instance x) = Some L \<and> settled L \<and> ei_Seq L = ac_Seq x \<and> ei_Deps L = ac_Deps x)"
| "msg_ok lead p d (M_AcceptReply x) \<longleftrightarrow> acr_Replica x = d"
| "msg_ok lead p d (M_Commit x) \<longleftrightarrow>
     cm_Replica x = p \<and> cm_Command x \<noteq> []
     \<and> (\<exists>L. lead p (cm_Instance x) = Some L \<and> decided L \<and> ei_Cmds L = Some (cm_Command x)
          \<and> ei_Seq L = cm_Seq x \<and> ei_Deps L = cm_Deps x)"
| "msg_ok lead p d (M_CommitShort x) \<longleftrightarrow>
     cs_Replica x = p \<and> cs_Count x \<noteq> 0
     \<and> (\<exists>L. lead p (cs_Instance x) = Some L \<and> decided L \<and> ei_Seq L = cs_Seq x \<and> ei_Deps L = cs_Deps x)"
| "msg_ok lead p d m \<longleftrightarrow> False"

lemma msg_ok_arrives [simp]: "msg_ok lead p d (arrives m) = msg_ok lead p d m"
  by (cases m) simp_all

definition sent_ok :: "int \<Rightarrow> leaders \<Rightarrow> int \<Rightarrow> epx_out list \<Rightarrow> bool" where
  "sent_ok n lead p os \<longleftrightarrow> (\<forall>d m. Send d m \<in> set os \<longrightarrow> d \<noteq> p \<and> 0 \<le> d \<and> d < n \<and> msg_ok lead p d m)"

definition node_ok :: "int \<Rightarrow> leaders \<Rightarrow> int \<Rightarrow> Replica \<Rightarrow> bool" where
  "node_ok n lead p r \<longleftrightarrow>
     ep_Id r = p \<and> ep_N r = n \<and> set (alive_peers r) \<subseteq> {0..<n} - {p}
     \<and> lead p = ep_InstanceSpace r p
     \<and> 0 \<le> ep_crtInstance r p
     \<and> (\<forall>i inst. ep_InstanceSpace r p i = Some inst \<longrightarrow> own_ok inst \<and> i < ep_crtInstance r p)
     \<and> (\<forall>q i inst. q \<noteq> p \<longrightarrow> ep_InstanceSpace r q i = Some inst \<longrightarrow> slot_ok lead q i inst)
     \<and> sent_ok n lead p (ep_out r)"

section \<open>Evolution\<close>

lemma deps_le_refl [simp]: "deps_le ds ds"
  by (simp add: deps_le_def)

lemma deps_le_trans: "deps_le a b \<Longrightarrow> deps_le b c \<Longrightarrow> deps_le a c"
  unfolding deps_le_def by (metis order_trans)

lemma evolves_refl: "own_ok L \<Longrightarrow> evolves L L"
  by (auto simp: evolves_def own_ok_def)

lemma slot_ok_mono:
  assumes "leads_to lead lead'" and "slot_ok lead q i inst"
  shows "slot_ok lead' q i inst"
proof -
  from assms (2) obtain L where L: "lead q i = Some L" "ei_ballot inst = 0" "ei_lb inst = None"
    "\<forall>cs. ei_Cmds inst = Some cs \<longrightarrow> ei_Cmds L = Some cs"
    "decided inst \<longrightarrow> decided L \<and> ei_Seq inst = ei_Seq L \<and> ei_Deps inst = ei_Deps L"
    by (auto simp: slot_ok_def)
  from assms (1) L(1) obtain L' where "lead' q i = Some L'" "evolves L L'" unfolding leads_to_def by blast
  with L show ?thesis by (auto simp: slot_ok_def evolves_def settled_def)
qed

lemma msg_ok_mono:
  assumes "leads_to lead lead'" and "msg_ok lead p d m"
  shows "msg_ok lead' p d m"
proof -
  have ev: "\<exists>L'. lead' q i = Some L' \<and> evolves L L'" if "lead q i = Some L" for q i L
    using assms (1) that by (simp add: leads_to_def)
  show ?thesis
    using assms (2) by (cases m) (auto dest!: ev simp: evolves_def settled_def)
qed

lemma sent_ok_mono: "leads_to lead lead' \<Longrightarrow> sent_ok n lead p os \<Longrightarrow> sent_ok n lead' p os"
  unfolding sent_ok_def using msg_ok_mono by blast

lemma node_ok_mono:
  "leads_to lead lead' \<Longrightarrow> lead' p = lead p \<Longrightarrow> node_ok n lead p r \<Longrightarrow> node_ok n lead' p r"
  unfolding node_ok_def by (auto intro: slot_ok_mono sent_ok_mono)

lemma sent_ok_more:
  assumes "sent_ok n lead p (ep_out r)" and "sends_more ms r r'" and "sent_ok n lead p ms"
  shows "sent_ok n lead p (ep_out r')"
proof -
  from assms (2) obtain os where os: "ep_out r' = ep_out r @ os" "filter is_send os = ms"
    by (auto simp: sends_more_def)
  have "Send d m \<in> set ms" if "Send d m \<in> set os" for d m
    using that os (2) by (auto simp flip: os(2))
  with assms (1,3) show ?thesis unfolding sent_ok_def os (1) by (auto, blast+)
qed

lemma alive_peers_static: "same_static p r r' \<Longrightarrow> alive_peers r' = alive_peers r"
  by (simp add: same_static_def alive_peers_def)

section \<open>Steps of a replica\<close>

definition step_ok :: "int \<Rightarrow> leaders \<Rightarrow> int \<Rightarrow> Replica \<Rightarrow> bool" where
  "step_ok n lead p r' \<longleftrightarrow>
     (let lead' = lead(p := ep_InstanceSpace r' p) in node_ok n lead' p r' \<and> leads_to lead lead')"

text \<open>The other leaders' copies are well formed.\<close>

definition leaders_ok :: "leaders \<Rightarrow> bool" where
  "leaders_ok lead \<longleftrightarrow> (\<forall>q i L. lead q i = Some L \<longrightarrow> own_ok L)"

lemma step_ok_own:
  assumes ok: "node_ok n lead p r" and lo: "leaders_ok lead"
    and st: "ep_Id r' = ep_Id r" "ep_N r' = ep_N r" "alive_peers r' = alive_peers r"
    and crt: "0 \<le> ep_crtInstance r' p"
    and own: "\<And>i inst. ep_InstanceSpace r' p i = Some inst \<Longrightarrow> own_ok inst \<and> i < ep_crtInstance r' p"
    and ev: "\<And>i L. ep_InstanceSpace r p i = Some L \<Longrightarrow> \<exists>L'. ep_InstanceSpace r' p i = Some L' \<and> evolves L L'"
    and slots: "\<And>q i inst. q \<noteq> p \<Longrightarrow> ep_InstanceSpace r' q i = Some inst \<Longrightarrow>
       slot_ok (lead(p := ep_InstanceSpace r' p)) q i inst"
    and sm: "sends_more ms r r'" and ms: "sent_ok n (lead(p := ep_InstanceSpace r' p)) p ms"
  shows "step_ok n lead p r'"
proof -
  let ?lead = "lead(p := ep_InstanceSpace r' p)"
  have l: "lead p = ep_InstanceSpace r p" using ok by (simp add: node_ok_def)
  have lt: "leads_to lead ?lead"
    unfolding leads_to_def
  proof (intro allI impI)
    fix q i L assume "lead q i = Some L"
    then show "\<exists>L'. ?lead q i = Some L' \<and> evolves L L'"
      using ev [of i L] l lo evolves_refl [of L] by (cases "q = p") (auto simp: leaders_ok_def)
  qed
  have "sent_ok n ?lead p (ep_out r')"
    by (rule sent_ok_more [OF sent_ok_mono [OF lt] sm ms]) (use ok in \<open>simp add: node_ok_def\<close>)
  with ok own slots st crt have "node_ok n ?lead p r'" by (auto simp: node_ok_def)
  with lt show ?thesis by (simp add: step_ok_def)
qed

lemma leads_to_refl: "leaders_ok lead \<Longrightarrow> leads_to lead lead"
  using evolves_refl by (auto simp: leads_to_def leaders_ok_def)

lemma step_ok_quiet:
  assumes ok: "node_ok n lead p r" and lo: "leaders_ok lead" and q: "quiet p r r'"
  shows "step_ok n lead p r'"
proof -
  have l: "lead(p := ep_InstanceSpace r' p) = lead"
    using ok quiet_fields (1) [OF q] by (auto simp: node_ok_def)
  have "sent_ok n lead p (ep_out r')"
    by (rule sent_ok_more [of n lead p r "[]"]) (use ok q in \<open>auto simp: node_ok_def quiet_def sent_ok_def\<close>)
  with ok q have "node_ok n lead p r'"
    by (auto simp: node_ok_def quiet_def same_static_def alive_peers_def)
  with leads_to_refl [OF lo] show ?thesis unfolding step_ok_def l Let_def by simp
qed

lemma step_ok_foreign:
  assumes ok: "node_ok n lead p r" and lo: "leaders_ok lead" and mv: "moved p q i inst ms r r'" and qp: "q \<noteq> p"
    and slot: "slot_ok lead q i inst" and ms: "sent_ok n lead p ms"
  shows "step_ok n lead p r'"
proof -
  have l: "lead(p := ep_InstanceSpace r' p) = lead"
    using ok mv qp by (auto simp: node_ok_def moved_def)
  have "sent_ok n lead p (ep_out r')"
    by (rule sent_ok_more [of n lead p r ms]) (use ok mv ms in \<open>auto simp: node_ok_def moved_def\<close>)
  with ok mv slot qp have "node_ok n lead p r'"
    by (auto simp: node_ok_def moved_def same_static_def alive_peers_def split: if_splits)
  with leads_to_refl [OF lo] show ?thesis unfolding step_ok_def l Let_def by simp
qed

lemma step_ok_own_slot:
  assumes ok: "node_ok n lead p r" and lo: "leaders_ok lead" and mv: "moved p p i L' ms r r'"
    and L: "ep_InstanceSpace r p i = Some L" and ev: "evolves L L'" and own: "own_ok L'"
    and ms: "\<And>lead'. lead' p i = Some L' \<Longrightarrow> sent_ok n lead' p ms"
  shows "step_ok n lead p r'"
proof (rule step_ok_own [OF ok lo])
  show "ep_Id r' = ep_Id r" "ep_N r' = ep_N r" "alive_peers r' = alive_peers r"
    using moved_fields [OF mv] by simp_all
  show "0 \<le> ep_crtInstance r' p" using ok mv by (simp add: node_ok_def moved_def same_static_def)
  show "own_ok inst \<and> j < ep_crtInstance r' p" if "ep_InstanceSpace r' p j = Some inst" for j inst
    using that ok mv own L by (auto simp: node_ok_def moved_def same_static_def split: if_splits)
  show "\<exists>L'. ep_InstanceSpace r' p j = Some L' \<and> evolves M L'" if "ep_InstanceSpace r p j = Some M" for j M
    using that ok mv L ev evolves_refl [of M] by (auto simp: node_ok_def moved_def)
  show "sends_more ms r r'" using mv by (simp add: moved_def)
  let ?lead = "lead(p := ep_InstanceSpace r' p)"
  show "sent_ok n ?lead p ms" by (rule ms) (use mv in \<open>simp add: moved_def\<close>)
  fix q j inst assume qj: "q \<noteq> p" "ep_InstanceSpace r' q j = Some inst"
  then have "slot_ok lead q j inst" using ok mv by (simp add: node_ok_def moved_def)
  with qj (1) show "slot_ok ?lead q j inst" by (simp add: slot_ok_def)
qed

section \<open>The handlers\<close>

lemma merge_deps_le: "merge_deps d2 qs d1 e = Some (ds, eq) \<Longrightarrow> deps_le d1 ds"
proof (induction d2 qs d1 e rule: merge_deps.induct)
  case (2 d2 q qs d1 e)
  let ?d1 = "if d2 ! nat q > d1 ! nat q then set_at d1 q (d2 ! nat q) else d1"
  have "d1 ! j \<le> d1[nat q := d2 ! nat q] ! j" if "d1 ! nat q < d2 ! nat q" "j < length d1" for j
    using that by (cases "j = nat q") auto
  then have "deps_le d1 ?d1" by (auto simp: deps_le_def set_at_def)
  moreover have "deps_le ?d1 ds \<or> deps_le d1 ds"
    using 2 by (auto simp: Option.bind_eq_Some_conv at_def split: if_splits)
  ultimately show ?case using deps_le_trans by blast
qed simp

lemma mergeAttributes_le: "mergeAttributes s1 d1 s2 d2 r = Some (seq, deps, eq) \<Longrightarrow> deps_le d1 deps"
  by (auto simp: mergeAttributes_def Option.bind_eq_Some_conv dest: merge_deps_le)

lemma status_consts [simp]:
  "PREACCEPTED \<noteq> ACCEPTED" "PREACCEPTED \<noteq> COMMITTED" "PREACCEPTED \<noteq> EXECUTED" "ACCEPTED \<noteq> COMMITTED"
  "ACCEPTED \<noteq> EXECUTED" "COMMITTED \<noteq> EXECUTED" "PREACCEPTED_EQ \<noteq> ACCEPTED" "PREACCEPTED_EQ \<noteq> COMMITTED"
  "PREACCEPTED_EQ \<noteq> EXECUTED"
  by (simp_all add: status_defs)

lemma sent_ok_sends_to:
  assumes "sends_to ms (alive_peers r) M" and "set (alive_peers r) \<subseteq> {0..<n} - {p}"
    and "\<And>x d. x \<in> M \<Longrightarrow> msg_ok lead p d x"
  shows "sent_ok n lead p ms"
  using assms unfolding sends_to_def sent_ok_def by fastforce

lemma commit_msgs_ok:
  assumes "lead p i = Some L'" and "decided L'" and "own_ok inst" and "ei_Cmds L' = ei_Cmds inst"
    and "ei_Seq L' = ei_Seq inst" and "ei_Deps L' = ei_Deps inst" and "x \<in> {commit_of p i inst, commit_short_of p i inst}"
  shows "msg_ok lead p d x"
  using assms by (auto simp: commit_of_def commit_short_of_def own_ok_def on_wire_def)

lemma accept_msg_ok:
  assumes "lead p i = Some L'" and "settled L'" and "own_ok inst"
    and "ei_Seq L' = ei_Seq inst" and "ei_Deps L' = ei_Deps inst" and "x \<in> {accept_of p i inst}"
  shows "msg_ok lead p d x"
  using assms by (auto simp: accept_of_def own_ok_def on_wire_def)

lemma node_ok_own: "node_ok n lead p r \<Longrightarrow> ep_InstanceSpace r p i = Some inst \<Longrightarrow> own_ok inst"
  by (simp add: node_ok_def)

lemma node_ok_slot: "node_ok n lead p r \<Longrightarrow> q \<noteq> p \<Longrightarrow> ep_InstanceSpace r q i = Some inst \<Longrightarrow> slot_ok lead q i inst"
  by (simp add: node_ok_def)

text \<open>The leader's decision, whatever made it: the attributes it may have merged, then the new status.\<close>

lemma step_ok_decision:
  assumes ok: "node_ok n lead p r" and lo: "leaders_ok lead" and L: "ep_InstanceSpace r p i = Some inst"
    and lb: "ei_lb inst = Some lb" "lb_originalDeps lb' = lb_originalDeps lb"
    and st: "\<not> decided inst" "settled inst \<Longrightarrow> ei_Seq inst' = ei_Seq inst \<and> ei_Deps inst' = ei_Deps inst"
    and le: "deps_le (ei_Deps inst) (ei_Deps inst')"
    and inst': "ei_Cmds inst' = ei_Cmds inst" "ei_ballot inst' = ei_ballot inst"
    and mv: "moved p p i (inst'\<lparr>ei_Status := status, ei_lb := Some lb'\<rparr>) ms r r'"
    and d: "status = COMMITTED \<and> sends_to ms (alive_peers r) {commit_of p i inst', commit_short_of p i inst'}
      \<or> status = ACCEPTED \<and> sends_to ms (alive_peers r) {accept_of p i inst'}
      \<or> status = ei_Status inst \<and> ms = []"
  shows "step_ok n lead p r'"
proof (rule step_ok_own_slot [OF ok lo mv L])
  let ?L = "inst'\<lparr>ei_Status := status, ei_lb := Some lb'\<rparr>"
  have own: "own_ok inst" by (rule node_ok_own [OF ok L])
  then show "own_ok ?L" using inst' by (auto simp: own_ok_def)
  show "evolves inst ?L"
    using lb st le inst' d by (auto simp: evolves_def settled_def decided_def)
  have own': "own_ok inst'" if "ei_lb inst' = Some b" for b using own inst' that by (auto simp: own_ok_def)
  have cmds: "\<exists>c cs. ei_Cmds inst' = Some (c # cs)" "ei_ballot inst' = 0" using own inst' by (auto simp: own_ok_def)
  fix lead' :: leaders assume l: "lead' p i = Some ?L"
  have peers: "set (alive_peers r) \<subseteq> {0..<n} - {p}" using ok by (simp add: node_ok_def)
  from d show "sent_ok n lead' p ms"
  proof (elim disjE conjE)
    assume "status = COMMITTED" "sends_to ms (alive_peers r) {commit_of p i inst', commit_short_of p i inst'}"
    then show ?thesis
      by (elim sent_ok_sends_to) (use peers l cmds in
        \<open>auto simp: commit_of_def commit_short_of_def on_wire_def decided_def\<close>)
  next
    assume "status = ACCEPTED" "sends_to ms (alive_peers r) {accept_of p i inst'}"
    then show ?thesis
      by (elim sent_ok_sends_to) (use peers l cmds in \<open>auto simp: accept_of_def on_wire_def settled_def\<close>)
  qed (simp add: sent_ok_def)
qed

lemma step_ok_PreAcceptReply:
  assumes ok: "node_ok n lead p r" and lo: "leaders_ok lead" and h: "handlePreAcceptReply m r = Some r'"
    and m: "par_Replica m = p"
  shows "step_ok n lead p r'"
proof -
  have id: "ep_Id r = p" using ok by (simp add: node_ok_def)
  show ?thesis
    using h id m refl
  proof (cases rule: handlePreAcceptReply_effect)
    case ignored
    then show ?thesis using step_ok_quiet [OF ok lo] by simp
  next
    case (nack inst lb)
    show ?thesis
      by (rule step_ok_own_slot [OF ok lo nack(4,1)])
        (use node_ok_own [OF ok nack(1)] nack(2) in
          \<open>auto simp: evolves_def own_ok_def sent_ok_def nack_def settled_def decided_def\<close>)
  next
    case (ok inst lb lb' seq deps eq status ms)
    show ?thesis
      by (rule step_ok_decision [OF assms (1,2) ok(1,2,7), where inst' = "inst\<lparr>ei_Seq := seq, ei_Deps := deps\<rparr>" and
            status = status and ms = ms])
        (use ok mergeAttributes_le [OF ok(5)] in \<open>auto simp: settled_def decided_def\<close>)
  qed
qed

lemma step_ok_PreAcceptOK:
  assumes ok: "node_ok n lead p r" and lo: "leaders_ok lead" and h: "handlePreAcceptOK i r = Some r'"
  shows "step_ok n lead p r'"
proof -
  have id: "ep_Id r = p" using ok by (simp add: node_ok_def)
  show ?thesis
    using h id
  proof (cases rule: handlePreAcceptOK_effect)
    case ignored
    then show ?thesis using step_ok_quiet [OF ok lo] by simp
  next
    case (ok inst lb lb' status ms)
    show ?thesis
      by (rule step_ok_decision [OF assms (1,2) ok(1,2,5), where inst' = inst and status = status and ms = ms])
        (use ok in \<open>auto simp: settled_def decided_def\<close>)
  qed
qed

lemma step_ok_AcceptReply:
  assumes ok: "node_ok n lead p r" and lo: "leaders_ok lead" and h: "handleAcceptReply m r = Some r'"
    and m: "acr_Replica m = p"
  shows "step_ok n lead p r'"
proof -
  have id: "ep_Id r = p" using ok by (simp add: node_ok_def)
  show ?thesis
    using h id m refl
  proof (cases rule: handleAcceptReply_effect)
    case ignored
    then show ?thesis using step_ok_quiet [OF ok lo] by simp
  next
    case (moves inst lb lb' status ms)
    show ?thesis
      by (rule step_ok_decision [OF assms (1,2) moves(1,2,5), where inst' = inst and status = status and ms = ms])
        (use moves in \<open>auto simp: settled_def decided_def\<close>)
  qed
qed

text \<open>At the other replicas.\<close>

lemma step_ok_PreAccept:
  assumes ok: "node_ok n lead p r" and lo: "leaders_ok lead" and h: "handlePreAccept m r = Some r'"
    and q: "q \<noteq> p" "0 \<le> q" "q < n" and m: "msg_ok lead q p (M_PreAccept m)"
  shows "step_ok n lead p r'"
proof -
  from m obtain L where x: "pac_LeaderId m = q" "pac_Replica m = q" "pac_Ballot m = 0" "pac_Command m \<noteq> []"
    and L: "lead q (pac_Instance m) = Some L" "ei_Cmds L = Some (pac_Command m)" by auto
  have b: "ei_ballot inst = 0" if "ep_InstanceSpace r q (pac_Instance m) = Some inst" for inst
    using node_ok_slot [OF ok q(1) that] by (simp add: slot_ok_def)
  show ?thesis
  proof (cases rule: handlePreAccept_effect [OF h q(1) x(1,2) refl x(3,4) b, case_names _ known late vote])
    case known
    then show ?thesis by (intro step_ok_quiet [OF ok lo])
  next
    case (late inst)
    show ?thesis
      by (rule step_ok_foreign [OF ok lo late(3) q(1)])
        (use node_ok_slot [OF ok q(1) late(1)] L in \<open>auto simp: slot_ok_def decided_def sent_ok_def\<close>)
  next
    case (vote r1 seq deps changed status inst msg)
    have nd: "\<not> decided inst" using vote(6,7) by (auto simp: decided_def new_instance_def split: option.splits)
    have "slot_ok lead q (pac_Instance m) inst"
    proof (cases "ep_InstanceSpace r q (pac_Instance m)")
      case None
      with L nd vote(7) show ?thesis by (simp add: slot_ok_def new_instance_def)
    next
      case (Some inst0)
      with L nd vote(7) node_ok_slot [OF ok q(1) Some] show ?thesis by (simp add: slot_ok_def)
    qed
    moreover have "sent_ok n lead p [Send q msg]" using vote(9) q by (auto simp: sent_ok_def)
    ultimately show ?thesis by (rule step_ok_foreign [OF ok lo vote(8) q(1)])
  qed
qed

lemma step_ok_Accept:
  assumes ok: "node_ok n lead p r" and lo: "leaders_ok lead" and h: "handleAccept m r = Some r'"
    and q: "q \<noteq> p" "0 \<le> q" "q < n" and m: "msg_ok lead q p (M_Accept m)"
  shows "step_ok n lead p r'"
proof -
  from m obtain L where x: "ac_LeaderId m = q" "ac_Replica m = q" "ac_Ballot m = 0" "ac_Count m \<noteq> 0"
    and L: "lead q (ac_Instance m) = Some L" by auto
  have b: "ei_ballot inst = 0" if "ep_InstanceSpace r q (ac_Instance m) = Some inst" for inst
    using node_ok_slot [OF ok q(1) that] by (simp add: slot_ok_def)
  show ?thesis
  proof (cases rule: handleAccept_effect [OF h q(1) x(1,2) refl x(3,4) b, case_names _ ignored ok])
    case ignored
    then show ?thesis by (intro step_ok_quiet [OF ok lo])
  next
    case (ok inst)
    have nd: "\<not> decided inst" using ok(2) by (auto simp: decided_def new_instance_def split: option.splits)
    have "slot_ok lead q (ac_Instance m) inst"
      using node_ok_slot [OF assms (1) q(1), of "ac_Instance m"] L nd ok(2)
      by (auto simp: slot_ok_def new_instance_def split: option.splits)
    moreover have "sent_ok n lead p [Send q (accept_reply m True 0)]" using q x by (auto simp: sent_ok_def accept_reply_def)
    ultimately show ?thesis by (rule step_ok_foreign [OF assms (1) lo ok(3) q(1)])
  qed
qed

lemma step_ok_Commit:
  assumes ok: "node_ok n lead p r" and lo: "leaders_ok lead" and h: "handleCommit m r = Some r'"
    and q: "q \<noteq> p" and m: "msg_ok lead q p (M_Commit m)"
  shows "step_ok n lead p r'"
proof -
  from m obtain L where x: "cm_Replica m = q" "cm_Command m \<noteq> []"
    and L: "lead q (cm_Instance m) = Some L" "decided L" "ei_Cmds L = Some (cm_Command m)"
      "ei_Seq L = cm_Seq m" "ei_Deps L = cm_Deps m" by auto
  from handleCommit_effect [OF h q x(1) refl x(2)] obtain inst where
    inst: "inst = (case ep_InstanceSpace r q (cm_Instance m) of
             None \<Rightarrow> new_instance (Some (cm_Command m)) 0 COMMITTED (cm_Seq m) (cm_Deps m) None
           | Some inst \<Rightarrow> inst\<lparr>ei_Seq := cm_Seq m, ei_Deps := cm_Deps m, ei_Status := COMMITTED\<rparr>)"
    and mv: "moved p q (cm_Instance m) inst [] r r'" .
  have "slot_ok lead q (cm_Instance m) inst"
    using node_ok_slot [OF ok q, of "cm_Instance m"] L inst
    by (auto simp: slot_ok_def new_instance_def split: option.splits)
  then show ?thesis by (rule step_ok_foreign [OF ok lo mv q]) (simp add: sent_ok_def)
qed

lemma step_ok_CommitShort:
  assumes ok: "node_ok n lead p r" and lo: "leaders_ok lead" and h: "handleCommitShort m r = Some r'"
    and q: "q \<noteq> p" and m: "msg_ok lead q p (M_CommitShort m)"
  shows "step_ok n lead p r'"
proof -
  from m obtain L where x: "cs_Replica m = q" "cs_Count m \<noteq> 0"
    and L: "lead q (cs_Instance m) = Some L" "decided L" "ei_Seq L = cs_Seq m" "ei_Deps L = cs_Deps m" by auto
  have lb: "ei_lb inst = None" if "ep_InstanceSpace r q (cs_Instance m) = Some inst" for inst
    using node_ok_slot [OF ok q that] by (simp add: slot_ok_def)
  from handleCommitShort_effect [OF h q x(1) refl x(2) lb] obtain inst where
    inst: "inst = (case ep_InstanceSpace r q (cs_Instance m) of
             None \<Rightarrow> new_instance None 0 COMMITTED (cs_Seq m) (cs_Deps m) None
           | Some inst \<Rightarrow> inst\<lparr>ei_Seq := cs_Seq m, ei_Deps := cs_Deps m, ei_Status := COMMITTED\<rparr>)"
    and mv: "moved p q (cs_Instance m) inst [] r r'" .
  have "slot_ok lead q (cs_Instance m) inst"
    using node_ok_slot [OF ok q, of "cs_Instance m"] L inst
    by (auto simp: slot_ok_def new_instance_def split: option.splits)
  then show ?thesis by (rule step_ok_foreign [OF ok lo mv q]) (simp add: sent_ok_def)
qed

section \<open>Proposals\<close>

lemma step_ok_Propose:
  assumes ok: "node_ok n lead p r" and lo: "leaders_ok lead" and h: "handlePropose pr r = Some r'"
  shows "step_ok n lead p r'"
proof -
  let ?i = "ep_crtInstance r p"
  have id: "ep_Id r = p" and i0: "0 \<le> ?i" using ok by (simp_all add: node_ok_def)
  from handlePropose_effect [OF h id refl i0] obtain cmds seq deps changed ps c rs where
    cm: "cmds \<noteq> []" and crt: "ep_crtInstance r' p = ?i + 1"
    and rs: "rs = r\<lparr>ep_crtInstance := (ep_crtInstance r)(p := ?i + 1), ep_ProposeChan := c\<rparr>"
    and mv: "moved p p ?i (new_instance (Some cmds) 0 PREACCEPTED seq deps (Some (new_lb (Some ps) deps)))
           (map (\<lambda>d. Send d (M_PreAccept (preaccept_of p ?i 0 cmds seq deps))) (bcast_peers r)) rs r'" .
  let ?L = "new_instance (Some cmds) 0 PREACCEPTED seq deps (Some (new_lb (Some ps) deps))"
  have none: "ep_InstanceSpace r p j = None" if "?i \<le> j" for j
    using ok that unfolding node_ok_def by (cases "ep_InstanceSpace r p j") (simp, meson not_le)
  have sp: "ep_InstanceSpace r' = (ep_InstanceSpace r)(p := (ep_InstanceSpace r p)(?i := Some ?L))"
    using mv rs by (simp add: moved_def)
  show ?thesis
  proof (rule step_ok_own [OF ok lo])
    show "ep_Id r' = ep_Id r" "ep_N r' = ep_N r" "alive_peers r' = alive_peers r"
      using moved_fields [OF mv] rs by (simp_all add: alive_peers_def)
    show "0 \<le> ep_crtInstance r' p" using crt i0 by simp
    show "own_ok inst \<and> j < ep_crtInstance r' p" if "ep_InstanceSpace r' p j = Some inst" for j inst
    proof (cases "j = ?i")
      case True
      with that sp cm show ?thesis by (cases cmds) (auto simp: own_ok_def new_instance_def crt)
    next
      case False
      with that sp ok show ?thesis by (force simp: node_ok_def crt)
    qed
    show "\<exists>L'. ep_InstanceSpace r' p j = Some L' \<and> evolves M L'" if "ep_InstanceSpace r p j = Some M" for j M
      using that none [of j] sp node_ok_own [OF ok that] by (auto simp: evolves_refl)
    show "slot_ok (lead(p := ep_InstanceSpace r' p)) q j inst" if "q \<noteq> p" "ep_InstanceSpace r' q j = Some inst" for q j inst
      using node_ok_slot [OF ok that(1), of j inst] that sp by (simp add: slot_ok_def)
    show "sends_more (map (\<lambda>d. Send d (M_PreAccept (preaccept_of p ?i 0 cmds seq deps))) (bcast_peers r)) r r'"
      using mv rs by (simp add: moved_def sends_more_def)
    have "set (bcast_peers r) \<subseteq> {0..<n} - {p}"
      using ok subset_trans [OF set_take_subset] unfolding bcast_peers_def node_ok_def by metis
    then show "sent_ok n (lead(p := ep_InstanceSpace r' p)) p
        (map (\<lambda>d. Send d (M_PreAccept (preaccept_of p ?i 0 cmds seq deps))) (bcast_peers r))"
      using cm sp by (auto simp: sent_ok_def preaccept_of_def new_instance_def)
  qed
qed

end
