(* ===== verification/Epx_Attributes.thy ===== *)
theory Epx_Attributes
  imports Epx_Leader
begin

text \<open>
  What the helper functions of the original EPaxos replica compute: attributes of a new instance cover the
  recorded conflicts (of a single command), merging gives upper bounds, recorded conflicts only grow.
\<close>

section \<open>Recorded conflicts\<close>

definition grows :: "(int \<Rightarrow> u64 \<rightharpoonup> int) \<Rightarrow> (int \<Rightarrow> u64 \<rightharpoonup> int) \<Rightarrow> bool" where
  "grows C C' \<longleftrightarrow> (\<forall>q k e. C q k = Some e \<longrightarrow> (\<exists>e'. C' q k = Some e' \<and> e \<le> e'))"

lemma grows_refl [simp]: "grows C C"
  by (simp add: grows_def)

lemma grows_trans: "grows A B \<Longrightarrow> grows B C \<Longrightarrow> grows A C"
  unfolding grows_def by (meson order_trans)

lemma note_conflict_grows: "grows (ep_conflicts r) (ep_conflicts (note_conflict q i seq c r))"
  by (auto simp: grows_def note_conflict_def raise_entry_def split: option.splits)

lemma note_conflict_notes: "\<exists>e. ep_conflicts (note_conflict q i seq c r) q (cmd_K c) = Some e \<and> i \<le> e"
  by (auto simp: note_conflict_def raise_entry_def split: option.splits)

lemma fold_note_grows: "grows (ep_conflicts r) (ep_conflicts (fold (note_conflict q i seq) cs r))"
  by (induction cs arbitrary: r) (auto intro: grows_trans [OF note_conflict_grows])

lemma fold_note_notes:
  "c \<in> set cs \<Longrightarrow> \<exists>e. ep_conflicts (fold (note_conflict q i seq) cs r) q (cmd_K c) = Some e \<and> i \<le> e"
proof (induction cs arbitrary: r)
  case (Cons d cs)
  show ?case
  proof (cases "c = d")
    case True
    from note_conflict_notes [of q i seq d r] obtain e where
      "ep_conflicts (note_conflict q i seq d r) q (cmd_K d) = Some e" "i \<le> e" by blast
    with fold_note_grows [of "note_conflict q i seq d r" q i seq cs] True show ?thesis
      unfolding grows_def by (metis fold_simps(2) order_trans)
  next
    case False
    with Cons show ?thesis by simp
  qed
qed simp

lemma conflicts_noted_grows: "conflicts_noted cs q i r r' \<Longrightarrow> grows (ep_conflicts r) (ep_conflicts r')"
  using fold_note_grows by (auto simp: conflicts_noted_def updateConflicts_def split: if_splits) metis

lemma conflicts_noted_notes:
  assumes "conflicts_noted cs q i r r'" and "c \<in> set cs"
  shows "\<exists>e. ep_conflicts r' q (cmd_K c) = Some e \<and> i \<le> e"
  using assms fold_note_notes by (auto simp: conflicts_noted_def updateConflicts_def split: if_splits)

section \<open>New attributes\<close>

lemma set_at_le: "at ds q = Some e \<Longrightarrow> e < d \<Longrightarrow> deps_le ds (set_at ds q d)"
  unfolding deps_le_def set_at_def at_def
  by (auto simp: nth_list_update split: if_splits)

lemma row_attributes_le:
  "row_attributes r q cs (s, ds, ch) = Some (s', ds', ch') \<Longrightarrow> deps_le ds ds' \<and> (\<not> ch' \<longrightarrow> ds' = ds) \<and> (ch \<longrightarrow> ch')"
proof (induction cs arbitrary: s ds ch)
  case (Cons c cs)
  show ?case
  proof (cases "ep_conflicts r q (cmd_K c)")
    case None
    with Cons.prems have "row_attributes r q cs (s, ds, ch) = Some (s', ds', ch')" by simp
    then show ?thesis by (rule Cons.IH)
  next
    case (Some d)
    with Cons.prems obtain dq where dq: "at ds q = Some dq" by (auto simp: Option.bind_eq_Some_conv)
    show ?thesis
    proof (cases "dq < d")
      case True
      with Some dq Cons.prems have "ds' = set_at ds q d" "ch'" by (auto simp: Option.bind_eq_Some_conv)
      with set_at_le [OF dq True] show ?thesis by simp
    next
      case False
      with Some dq Cons.prems have "row_attributes r q cs (s, ds, ch) = Some (s', ds', ch')" by simp
      then show ?thesis by (rule Cons.IH)
    qed
  qed
qed simp

lemma rows_attributes_le:
  "rows_attributes r rep cs qs (s, ds, ch) = Some (s', ds', ch') \<Longrightarrow>
     deps_le ds ds' \<and> (\<not> ch' \<longrightarrow> ds' = ds) \<and> (ch \<longrightarrow> ch')"
proof (induction qs arbitrary: s ds ch)
  case (Cons q qs)
  show ?case
  proof (cases "ep_Id r \<noteq> rep \<and> q = rep")
    case True
    with Cons.prems have "rows_attributes r rep cs qs (s, ds, ch) = Some (s', ds', ch')" by simp
    then show ?thesis by (rule Cons.IH)
  next
    case False
    with Cons.prems obtain s1 ds1 ch1 where
      a: "row_attributes r q cs (s, ds, ch) = Some (s1, ds1, ch1)"
      "rows_attributes r rep cs qs (s1, ds1, ch1) = Some (s', ds', ch')"
      by (auto simp: Option.bind_eq_Some_conv)
    from row_attributes_le [OF a(1)] Cons.IH [OF a(2)] show ?thesis using deps_le_trans by blast
  qed
qed simp

lemma seq_attributes_deps: "\<exists>s' ch'. seq_attributes r cs (s, ds, ch) = (s', ds, ch') \<and> (ch \<longrightarrow> ch')"
proof (induction cs arbitrary: s ch)
  case (Cons c cs)
  show ?case
  proof (cases "ep_maxSeqPerKey r (cmd_K c)")
    case None
    with Cons [of s ch] show ?thesis by simp
  next
    case (Some x)
    with Cons [of s ch] Cons [of "wrap32 (x + 1)" True] show ?thesis by auto
  qed
qed simp

lemma updateAttributes_le:
  assumes "updateAttributes cs s ds rep r = Some (s', ds', ch')"
  shows "deps_le ds ds'" and "\<not> ch' \<Longrightarrow> ds' = ds"
proof -
  from assms obtain s1 ds1 ch1 where a: "rows_attributes r rep cs (replicas r) (s, ds, False) = Some (s1, ds1, ch1)"
    and b: "seq_attributes r cs (s1, ds1, ch1) = (s', ds', ch')"
    by (auto simp: updateAttributes_def Option.bind_eq_Some_conv)
  from seq_attributes_deps [of r cs s1 ds1 ch1] b have "ds' = ds1" "ch1 \<longrightarrow> ch'" by auto
  with rows_attributes_le [OF a] show "deps_le ds ds'" and "\<not> ch' \<Longrightarrow> ds' = ds" by auto
qed

text \<open>A single command: its latest recorded conflict in every row is covered.\<close>

lemma row_attributes_single:
  assumes "row_attributes r q [c] (s, ds, ch) = Some (s', ds', ch')" and "ep_conflicts r q (cmd_K c) = Some e"
    and "0 \<le> q"
  shows "e \<le> ds' ! nat q" and "nat q < length ds'"
  using assms by (auto simp: Option.bind_eq_Some_conv at_def set_at_def split: if_splits)

lemma rows_attributes_single:
  "rows_attributes r rep [c] qs (s, ds, ch) = Some (s', ds', ch') \<Longrightarrow> q \<in> set qs \<Longrightarrow> 0 \<le> q \<Longrightarrow>
     \<not> (ep_Id r \<noteq> rep \<and> q = rep) \<Longrightarrow> ep_conflicts r q (cmd_K c) = Some e \<Longrightarrow> e \<le> ds' ! nat q"
proof (induction qs arbitrary: s ds ch)
  case (Cons x qs)
  show ?case
  proof (cases "ep_Id r \<noteq> rep \<and> x = rep")
    case True
    with Cons show ?thesis by auto
  next
    case False
    with Cons.prems (1) obtain s1 ds1 ch1 where
      a: "row_attributes r x [c] (s, ds, ch) = Some (s1, ds1, ch1)"
      "rows_attributes r rep [c] qs (s1, ds1, ch1) = Some (s', ds', ch')"
      by (auto simp: Option.bind_eq_Some_conv simp del: row_attributes.simps)
    show ?thesis
    proof (cases "x = q")
      case True
      from row_attributes_single [OF a(1) _ ] Cons.prems(3,5) True have "e \<le> ds1 ! nat q" "nat q < length ds1" by auto
      moreover have "deps_le ds1 ds'" using rows_attributes_le [OF a(2)] by simp
      ultimately show ?thesis by (auto simp: deps_le_def)
    next
      case False
      with Cons.prems have "q \<in> set qs" by simp
      from Cons.IH [OF a(2) this Cons.prems(3,4,5)] show ?thesis .
    qed
  qed
qed simp

lemma updateAttributes_single:
  assumes "updateAttributes [c] s ds rep r = Some (s', ds', ch')" and "ep_conflicts r q (cmd_K c) = Some e"
    and "0 \<le> q" and "q < ep_N r" and "q \<noteq> rep \<or> ep_Id r = rep"
  shows "e \<le> ds' ! nat q"
proof -
  from assms (1) obtain s1 ds1 ch1 where a: "rows_attributes r rep [c] (replicas r) (s, ds, False) = Some (s1, ds1, ch1)"
    and b: "seq_attributes r [c] (s1, ds1, ch1) = (s', ds', ch')"
    by (auto simp: updateAttributes_def Option.bind_eq_Some_conv)
  from seq_attributes_deps [of r "[c]" s1 ds1 ch1] b have "ds' = ds1" by auto
  with rows_attributes_single [OF a, of q e] assms (2-5) show ?thesis by (auto simp: replicas_def)
qed

section \<open>Merging\<close>

lemma merge_deps_ge:
  "merge_deps d2 qs d1 e = Some (ds, eq) \<Longrightarrow> q \<in> set qs \<Longrightarrow> 0 \<le> q \<Longrightarrow> d2 ! nat q \<le> ds ! nat q"
proof (induction d2 qs d1 e rule: merge_deps.induct)
  case (2 d2 x qs d1 e)
  from 2(3) obtain a b where a: "at d1 x = Some a" and b: "at d2 x = Some b"
    by (auto simp: Option.bind_eq_Some_conv)
  let ?d1 = "if a \<noteq> b then if b > a then set_at d1 x b else d1 else d1"
  let ?e = "if a \<noteq> b then False else e"
  have m: "merge_deps d2 qs ?d1 ?e = Some (ds, eq)" using 2(3) a b by (auto split: if_splits)
  show ?case
  proof (cases "q \<in> set qs")
    case True
    with 2(1) [OF a b] 2(2) [OF a b] m 2(5) show ?thesis by (auto split: if_splits)
  next
    case False
    with 2(4) have "x = q" by simp
    then have "b \<le> ?d1 ! nat q" "nat q < length ?d1" using a b by (auto simp: at_def set_at_def split: if_splits)
    moreover have "d2 ! nat q = b" using b \<open>x = q\<close> by (auto simp: at_def split: if_splits)
    ultimately show ?thesis using merge_deps_le [OF m] by (auto simp: deps_le_def intro: order_trans)
  qed
qed simp

lemma mergeAttributes_ge:
  assumes "mergeAttributes s1 d1 s2 d2 r = Some (seq, deps, eq)" and "0 \<le> q" and "q < ep_N r" and "q \<noteq> ep_Id r"
  shows "d2 ! nat q \<le> deps ! nat q"
  using assms merge_deps_ge by (auto simp: mergeAttributes_def Option.bind_eq_Some_conv replicas_def)

end
