(* ===== verification/Epx_Faults.thy ===== *)
theory Epx_Faults
  imports Epx_System
begin

text \<open>
  What goes wrong in the original EPaxos replica: runs of three replicas, found while looking for the
  theorems of the other theories and evaluated here, and two dead ends of the code shown in general. The
  runs sort components with a stable sort, which is what \<^verbatim>\<open>sort.Sort\<close> does with fewer than twelve elements.
\<close>

section \<open>Runs of three replicas\<close>

definition put_of :: "u64 \<Rightarrow> u64 \<Rightarrow> proposal" where
  "put_of k v = \<lparr>cp_Propose = \<lparr>pr_CommandId = 0, pr_Command = \<lparr>cmd_Op = PUT, cmd_K = k, cmd_V = v\<rparr>,
     pr_Timestamp = 0\<rparr>, cp_Reply = 0\<rparr>"

definition three :: "epx_action list \<Rightarrow> epx_sys option" where
  "three as = sys_run stable_sort 5 as (start_system 3 False False False)"

definition ends_with :: "epx_action list \<Rightarrow> (epx_sys \<Rightarrow> bool) \<Rightarrow> bool" where
  "ends_with as P = (case three as of None \<Rightarrow> False | Some S \<Rightarrow> P S)"

definition epx_status :: "epx_sys \<Rightarrow> int \<Rightarrow> iid \<Rightarrow> int option" where
  "epx_status S p v = map_option ei_Status (inst_of (sy_node S p) v)"

definition executed_all :: "epx_sys \<Rightarrow> int \<Rightarrow> iid list \<Rightarrow> bool" where
  "executed_all S p vs \<longleftrightarrow> list_all (\<lambda>v. epx_status S p v = Some EXECUTED) vs"

definition commands_at :: "epx_sys \<Rightarrow> int \<Rightarrow> iid \<Rightarrow> Command list option" where
  "commands_at S p v = Option.bind (inst_of (sy_node S p) v) ei_Cmds"

definition stored :: "epx_sys \<Rightarrow> int \<Rightarrow> u64 \<Rightarrow> u64 option" where
  "stored S p k = Store (ep_State (sy_node S p)) k"

definition answers_sent :: "epx_sys \<Rightarrow> int \<Rightarrow> nat" where
  "answers_sent S p = length (filter (\<lambda>o'. case o' of ReplyTS w y \<Rightarrow> True | _ \<Rightarrow> False) (ep_out (sy_node S p)))"

text \<open>Replicas 0 and 1 each take a write to key 7; both pre-accepts meet at every replica. Replica 2 hears
  of the second commit first, so its execution thread enters \<open>(1, 0)\<close> and waits there for \<open>(0, 0)\<close>.\<close>

definition crossing_writes :: "epx_action list" where
  "crossing_writes =
     [Client 0 (put_of 7 10), Client 1 (put_of 7 20), Propose_at 0, Propose_at 1,
      Pass 0 0 1, Pass 1 1 0, Pass 0 1 2, Pass 1 0 2, Pass 1 2 0, Pass 0 2 1,
      Pass 0 4 2, Pass 1 3 2, Pass 2 2 0, Pass 2 3 1, Pass 1 7 0, Pass 1 6 2]"

definition crossing_run :: "epx_action list" where
  "crossing_run = crossing_writes @ [Pass 0 7 2, Run_Command 0 (0, 0), Run_Command 2 (1, 0)]"

lemma crossing_waits:
  "ends_with crossing_writes (\<lambda>S.
     case executeCommand stable_sort 5 (1, 0) (sy_node S 2) of Waits v \<Rightarrow> v = (0, 0) | _ \<Rightarrow> False)"
  by code_simp


text \<open>Three writes through replica 0, answered one after the other; then replica 1 takes a batch of three
  writes to the same keys.\<close>

definition batch_after_writes :: "epx_action list" where
  "batch_after_writes =
     [Client 0 (put_of 1 1), Propose_at 0, Pass 0 0 1, Pass 0 1 2, Pass 1 0 0, Pass 0 3 1, Pass 0 4 2,
      Client 0 (put_of 2 2), Propose_at 0, Pass 0 5 1, Pass 0 6 2, Pass 1 1 0, Pass 0 8 1, Pass 0 9 2,
      Client 0 (put_of 3 3), Propose_at 0, Pass 0 10 1, Pass 0 11 2, Pass 1 2 0, Pass 0 13 1]
     @ [Client 1 (put_of 1 9), Client 1 (put_of 2 9), Client 1 (put_of 3 9), Propose_at 1,
        Pass 1 3 2, Pass 2 3 1, Pass 1 5 2, Pass 2 4 1, Pass 1 10 2]"

definition batch_run :: "epx_action list" where
  "batch_run = batch_after_writes
     @ [Run_Command 1 (0, 0), Run_Command 1 (0, 1), Run_Command 1 (0, 2), Run_Command 1 (1, 0),
        Run_Command 2 (1, 0), Pass 0 14 2, Run_Command 2 (0, 2)]"


text \<open>Replica 1 commits and executes its own write; later it recovers an instance of replica 0, whose leader
  and the third replica both answer.\<close>

definition own_write :: "epx_action list" where
  "own_write =
     [Client 1 (put_of 1 9), Propose_at 1, Pass 1 0 2, Pass 2 0 1, Pass 1 3 2, Pass 1 4 0, Run_Command 1 (1, 0),
      Client 0 (put_of 2 5), Propose_at 0, Pass 0 0 1]"

definition recovering_run :: "epx_action list" where
  "recovering_run = own_write @ [Start_Recovery 1 0 0, Pass 1 7 0, Pass 0 2 1, Pass 1 6 2, Pass 2 1 1]"

text \<open>Recovery overwrites an unrelated instance: starting phase 1 again for an instance of replica 0,
  replica 1 stores it in its own row, in place of its own instance of that number, which is already executed
  and answered. The executed write is replaced by the recovered command, in the state of a new pre-accept.\<close>

theorem recovery_overwrites_own_instance:
  "ends_with own_write (\<lambda>S. answers_sent S 1 = 1 \<and> epx_status S 1 (1, 0) = Some EXECUTED
       \<and> map_option (map cmd_K) (commands_at S 1 (1, 0)) = Some [1])
   \<and> ends_with recovering_run (\<lambda>S. epx_status S 1 (1, 0) = Some PREACCEPTED
       \<and> map_option (map cmd_K) (commands_at S 1 (1, 0)) = Some [2]
       \<and> epx_status S 2 (1, 0) = Some COMMITTED
       \<and> map_option (map cmd_K) (commands_at S 2 (1, 0)) = Some [1])"
  by code_simp

section \<open>Dead ends\<close>

lemma look_inst_of: "look r q i = Some x \<Longrightarrow> inst_of r (q, i) = x"
  by (auto simp: look_def inst_of_def split: if_splits)

lemma upd_inst_same: "inst_of r v = Some inst \<Longrightarrow> inst_of (upd_inst v f r) v = Some (f inst)"
  by (simp add: upd_inst_def set_inst_def inst_of_def)

lemma sorts_single: "sorts_by_seq srt \<Longrightarrow> srt f [v] = [v]"
  using mset_single_iff [of "srt f [v]" v] by (simp add: sorts_by_seq_def)

text \<open>The first thing the walk does with an instance without commands is to wait.\<close>

lemma strongconnect_empty:
  assumes "sorts_by_seq srt" and v: "inst_of (xs_r s) v = Some inst" and "ei_Cmds inst = None"
  shows "strongconnect srt n v s \<noteq> Ran t"
proof (cases n)
  case (Suc m)
  let ?s = "enter v s"
  have e: "inst_of (xs_r ?s) v = Some (inst\<lparr>ei_Index := xs_index s, ei_Lowlink := xs_index s\<rparr>)"
    using upd_inst_same [OF v] by (simp add: enter_def)
  show ?thesis
  proof (cases "dep_list (xs_r s) v")
    case Nil
    have "xs_stack ?s = xs_stack s @ [v]" by (simp add: enter_def)
    then have "leave srt (length (xs_stack s)) v ?s = Waits v"
      using e assms (3) sorts_single [OF assms (1)] by (simp add: leave_def execute_inst_def)
    with Nil Suc show ?thesis by simp
  next
    case (Cons w ws)
    have "view_dep (xs_r ?s) v w \<in> {D_Panic, D_Waits}"
      using e assms (3) by (simp add: view_dep_def split: option.split)
    with Cons Suc show ?thesis by auto
  qed
qed simp


definition seen_in_prepare :: Replica where
  "seen_in_prepare = the (handlePrepare \<lparr>pp_LeaderId = 1, pp_Replica = 0, pp_Instance = 0, pp_Ballot = 17\<rparr>
     (starting_replica 2 3 False False False))"

definition a_commit :: Commit where
  "a_commit = \<lparr>cm_LeaderId = 0, cm_Replica = 0, cm_Instance = 0,
     cm_Command = [\<lparr>cmd_Op = PUT, cmd_K = 7, cmd_V = 10\<rparr>], cm_Seq = 0, cm_Deps = no_deps\<rparr>"

lemma a_commit_evaluated:
  "(case look seen_in_prepare 0 0 of Some (Some inst) \<Rightarrow> ei_Cmds inst = None | _ \<Rightarrow> False)
   \<and> \<not> Option.is_none (handleCommit a_commit seen_in_prepare)"
  by code_simp


text \<open>A replica that has not seen an instance panics when it is asked to pre-accept it in a recovery: the
  handler reads the ballot of the missing instance for its answer, on the branch with a conflict and on the
  one without.\<close>

theorem try_preaccept_panics_on_unseen:
  assumes "look r (pac_Replica m) (pac_Instance m) = Some None"
  shows "handleTryPreAccept m r = None"
  using assms by (auto simp: handleTryPreAccept_def Option.bind_eq_None_conv split: option.splits)

theorem try_preaccept_panics_on_unseen_witness:
  "handleTryPreAccept zero_pa (starting_replica 2 3 False False False) = None"
  by (rule try_preaccept_panics_on_unseen) code_simp

end
