(* ===== verification/Epx_Agree.thy ===== *)
theory Epx_Agree
  imports Epx_Leader Epx_Faults
begin

text \<open>
  Agreement of the original EPaxos replicas in runs without recovery: execution keeps the invariant of
  \<^verbatim>\<open>Epx_Leader\<close>, every action of the system does, and committed instances agree.
\<close>

section \<open>Execution\<close>

text \<open>Executing changes an instance only in its status, from decided to executed, and in the marks of the
  walk.\<close>

definition marks_only :: "Instance \<Rightarrow> Instance \<Rightarrow> bool" where
  "marks_only a b \<longleftrightarrow>
     ei_Cmds b = ei_Cmds a \<and> ei_ballot b = ei_ballot a \<and> ei_Seq b = ei_Seq a \<and> ei_Deps b = ei_Deps a
     \<and> ei_lb b = ei_lb a \<and> (ei_Status b = ei_Status a \<or> decided a \<and> ei_Status b = EXECUTED)"

definition exec_rel :: "Replica \<Rightarrow> Replica \<Rightarrow> bool" where
  "exec_rel r r' \<longleftrightarrow>
     (\<forall>p. same_static p r r') \<and> sends_more [] r r' \<and> ep_conflicts r' = ep_conflicts r
     \<and> (\<forall>q i. rel_option marks_only (ep_InstanceSpace r q i) (ep_InstanceSpace r' q i))"

lemma marks_only_refl [simp]: "marks_only a a"
  by (simp add: marks_only_def)

lemma marks_only_trans: "marks_only a b \<Longrightarrow> marks_only b c \<Longrightarrow> marks_only a c"
  by (auto simp: marks_only_def decided_def)

lemma exec_rel_refl [simp]: "exec_rel r r"
  by (simp add: exec_rel_def sends_more_def option.rel_refl)

lemma exec_rel_trans:
  assumes "exec_rel r s" and "exec_rel s t"
  shows "exec_rel r t"
proof -
  have "rel_option marks_only (ep_InstanceSpace r q i) (ep_InstanceSpace t q i)" for q i
  proof -
    have "rel_option marks_only (ep_InstanceSpace r q i) (ep_InstanceSpace s q i)"
      "rel_option marks_only (ep_InstanceSpace s q i) (ep_InstanceSpace t q i)"
      using assms by (simp_all add: exec_rel_def)
    then show ?thesis
      by (cases "ep_InstanceSpace r q i"; cases "ep_InstanceSpace s q i"; cases "ep_InstanceSpace t q i")
        (auto intro: marks_only_trans)
  qed
  then show ?thesis
    using assms sends_more_trans [of "[]" r s "[]" t] unfolding exec_rel_def
    by (auto intro: same_static_trans)
qed

lemma exec_rel_set_inst:
  assumes "inst_of r v = Some a" and "marks_only a b"
  shows "exec_rel r (set_inst v b r)"
  using assms by (auto simp: exec_rel_def set_inst_def inst_of_def same_static_def sends_more_def option.rel_refl)

lemma exec_rel_upd_inst: "(\<And>a. inst_of r v = Some a \<Longrightarrow> marks_only a (f a)) \<Longrightarrow> exec_rel r (upd_inst v f r)"
  by (auto simp: upd_inst_def intro: exec_rel_set_inst split: option.split)

definition decided_at :: "Replica \<Rightarrow> iid \<Rightarrow> bool" where
  "decided_at r v \<longleftrightarrow> (\<exists>inst. inst_of r v = Some inst \<and> decided inst)"

lemma decided_at_mono:
  assumes "exec_rel r s" and "decided_at r v"
  shows "decided_at s v"
proof -
  from assms (2) obtain inst where i: "inst_of r v = Some inst" "decided inst" by (auto simp: decided_at_def)
  with assms (1) have "rel_option marks_only (Some inst) (inst_of s v)"
    unfolding exec_rel_def inst_of_def by metis
  then obtain b where "inst_of s v = Some b" "marks_only inst b" by (cases "inst_of s v") auto
  with i show ?thesis by (auto simp: decided_at_def marks_only_def decided_def)
qed

lemma execute_cmds_rel:
  "execute_cmds lb idx cs r = Some r' \<Longrightarrow> exec_rel r r' \<and> ep_InstanceSpace r' = ep_InstanceSpace r"
proof (induction lb idx cs r rule: execute_cmds.induct)
  case (2 lb idx c cs r)
  obtain val st where e: "Execute c (ep_State r) = (val, st)" by fastforce
  let ?r1 = "r\<lparr>ep_State := st, ep_appliedN := ep_appliedN r + 1\<rparr>"
  from 2(3) e obtain o' where "execute_cmds lb (idx + 1) cs (out o' ?r1) = Some r'" and o': "filter is_send o' = []"
    and "exec_rel (out o' ?r1) r' \<and> ep_InstanceSpace r' = ep_InstanceSpace (out o' ?r1)"
  proof (cases "if ep_Dreply ?r1 then Option.bind lb lb_clientProposals else None")
    case None
    with 2(1) [OF refl e [symmetric] refl None] 2(3) e show thesis
      by (intro that [of "[]"]) (auto simp: Let_def out_def)
  next
    case (Some ps)
    with 2(3) e obtain p where p: "at ps idx = Some p" by (auto simp: Let_def split: option.splits)
    with Some 2(3) e 2(2) [OF refl e [symmetric] refl Some p] show thesis
      by (intro that [of "[ReplyTS (cp_Reply p) \<lparr>ts_OK = 1, ts_CommandId = pr_CommandId (cp_Propose p),
            ts_Value = val, ts_Timestamp = pr_Timestamp (cp_Propose p)\<rparr>]"]) (auto simp: Let_def)
  qed
  moreover have "exec_rel r (out o' ?r1)"
    using o' by (auto simp: exec_rel_def same_static_def sends_more_def out_def option.rel_refl)
  ultimately show ?case using exec_rel_trans by (auto simp: out_def)
qed simp

lemma execute_inst_rel:
  assumes h: "execute_inst w r = Ran r'" and d: "decided_at r w"
  shows "exec_rel r r'"
proof -
  from h obtain inst cs r1 where i: "inst_of r w = Some inst" and c: "execute_cmds (ei_lb inst) 0 cs r = Some r1"
    and r': "r' = set_inst w (inst\<lparr>ei_Status := EXECUTED\<rparr>) r1"
    by (auto simp: execute_inst_def split: option.splits)
  from execute_cmds_rel [OF c] have r1: "exec_rel r r1" "ep_InstanceSpace r1 = ep_InstanceSpace r" by simp_all
  have "exec_rel r1 r'"
    unfolding r' by (rule exec_rel_set_inst) (use i d r1(2) in \<open>auto simp: inst_of_def decided_at_def marks_only_def\<close>)
  with r1(1) show ?thesis by (rule exec_rel_trans)
qed

lemma execute_list_rel:
  "execute_list ws r = Ran r' \<Longrightarrow> (\<And>w. w \<in> set ws \<Longrightarrow> decided_at r w) \<Longrightarrow> exec_rel r r'"
proof (induction ws arbitrary: r)
  case (Cons w ws)
  then obtain r1 where r1: "execute_inst w r = Ran r1" "execute_list ws r1 = Ran r'"
    by (auto simp: then_run_Ran_iff)
  from execute_inst_rel [OF r1(1)] Cons.prems (2) have e: "exec_rel r r1" by simp
  have "exec_rel r1 r'" by (rule Cons.IH [OF r1(2)]) (use Cons.prems (2) decided_at_mono [OF e] in auto)
  with e show ?case by (rule exec_rel_trans)
qed simp

lemma view_dep_decided: "view_dep r v w = D_New \<Longrightarrow> decided_at r w"
  by (auto simp: view_dep_def look_Some_iff inst_of_def decided_at_def decided_def split: option.splits if_splits)

text \<open>What the walk keeps: everything on its stack is decided.\<close>

definition walk_ok :: "exec_state \<Rightarrow> bool" where
  "walk_ok s \<longleftrightarrow> (\<forall>v \<in> set (xs_stack s). decided_at (xs_r s) v)"

lemma enter_rel: "exec_rel (xs_r s) (xs_r (enter v s))"
  unfolding enter_def by (simp, rule exec_rel_upd_inst) (simp add: marks_only_def)

lemma lower_rel: "exec_rel (xs_r s) (xs_r (lower v i s))"
  unfolding lower_def by (simp, rule exec_rel_upd_inst) (simp add: marks_only_def)

lemma walk_ok_lower:
  assumes "walk_ok s"
  shows "walk_ok (lower v i s)"
proof -
  have "xs_stack (lower v i s) = xs_stack s" by (simp add: lower_def)
  with assms show ?thesis using decided_at_mono [OF lower_rel] unfolding walk_ok_def by metis
qed

lemma leave_rel:
  assumes srt: "sorts_by_seq srt" and h: "leave srt l v s = Ran t" and ok: "walk_ok s"
  shows "exec_rel (xs_r s) (xs_r t)" and "walk_ok t"
proof -
  from h obtain inst where i: "inst_of (xs_r s) v = Some inst" by (auto simp: leave_def split: option.splits)
  have "exec_rel (xs_r s) (xs_r t) \<and> walk_ok t"
  proof (cases "ei_Lowlink inst = ei_Index inst")
    case True
    with h i obtain r where e: "execute_list (srt (seq_of (xs_r s)) (drop l (xs_stack s))) (xs_r s) = Ran r"
      and t: "t = s\<lparr>xs_r := r, xs_stack := take l (xs_stack s)\<rparr>"
      by (auto simp: leave_def then_run_Ran_iff)
    have "set (srt (seq_of (xs_r s)) (drop l (xs_stack s))) \<subseteq> set (xs_stack s)"
      using srt set_drop_subset unfolding sorts_by_seq_def by (metis set_mset_mset)
    with ok have "exec_rel (xs_r s) r" by (intro execute_list_rel [OF e]) (auto simp: walk_ok_def)
    with t ok decided_at_mono [OF this] show ?thesis by (auto simp: walk_ok_def dest: in_set_takeD)
  next
    case False
    with h i ok show ?thesis by (simp add: leave_def)
  qed
  then show "exec_rel (xs_r s) (xs_r t)" "walk_ok t" by simp_all
qed

lemma walk_rel:
  "strongconnect srt n v s = Ran t \<Longrightarrow> sorts_by_seq srt \<Longrightarrow> walk_ok s \<Longrightarrow> decided_at (xs_r s) v \<Longrightarrow>
     exec_rel (xs_r s) (xs_r t) \<and> walk_ok t"
  "follow_deps srt n v ws s = Ran t \<Longrightarrow> sorts_by_seq srt \<Longrightarrow> walk_ok s \<Longrightarrow>
     exec_rel (xs_r s) (xs_r t) \<and> walk_ok t"
proof (induction srt n v s and srt n v ws s arbitrary: t and t rule: strongconnect_follow_deps.induct)
  case (2 srt n v s)
  then obtain s1 where s1: "follow_deps srt n v (dep_list (xs_r s) v) (enter v s) = Ran s1"
    and lv: "leave srt (length (xs_stack s)) v s1 = Ran t" by (auto simp: then_run_Ran_iff)
  have e: "exec_rel (xs_r s) (xs_r (enter v s))" by (rule enter_rel)
  have "walk_ok (enter v s)"
    using 2(4,5) decided_at_mono [OF e] unfolding walk_ok_def by (simp add: enter_def)
  with 2(1) [OF s1 2(3)] have i: "exec_rel (xs_r (enter v s)) (xs_r s1)" "walk_ok s1" by simp_all
  from leave_rel [OF 2(3) lv i(2)] have "exec_rel (xs_r s1) (xs_r t)" "walk_ok t" .
  with e i show ?case using exec_rel_trans by blast
next
  case (4 srt n v w ws s)
  show ?case
  proof (cases "view_dep (xs_r s) v w")
    case D_New
    with 4(5) obtain s1 where s1: "strongconnect srt n w s = Ran s1"
      and f: "follow_deps srt n v ws (lower v (lowlink_of (xs_r s1) w) s1) = Ran t" by (auto simp: then_run_Ran_iff)
    let ?s2 = "lower v (lowlink_of (xs_r s1) w) s1"
    from 4(2) [OF D_New s1 4(6,7) view_dep_decided [OF D_New]] have "exec_rel (xs_r s) (xs_r s1)" "walk_ok s1" by simp_all
    moreover have "exec_rel (xs_r ?s2) (xs_r t)" "walk_ok t"
      using 4(3) [OF D_New f 4(6) walk_ok_lower [OF \<open>walk_ok s1\<close>]] by simp_all
    ultimately show ?thesis using lower_rel exec_rel_trans by blast
  next
    case (D_Visited i)
    with 4(5) have f: "follow_deps srt n v ws (lower v i s) = Ran t" by simp
    from 4(4) [OF D_Visited f 4(6) walk_ok_lower [OF 4(7)]] show ?thesis using lower_rel exec_rel_trans by blast
  qed (use 4 in auto)
qed simp_all

lemma run_command_rel:
  assumes "run_command srt n v r = Some r'" and srt: "sorts_by_seq srt"
  shows "exec_rel r r'"
proof -
  from assms (1) obtain ok where e: "executeCommand srt n v r = Ran (ok, r')"
    by (auto simp: run_command_def split: exec_result.splits)
  then consider "r' = r" | inst s where "inst_of r v = Some inst" "ei_Status inst = COMMITTED"
      "strongconnect srt n v \<lparr>xs_r = r, xs_stack = [], xs_index = 1\<rparr> = Ran s" "r' = xs_r s"
    by (auto simp: executeCommand_def findSCC_def then_run_Ran_iff split: option.splits if_split_asm)
  then show ?thesis
  proof cases
    case 2
    have "walk_ok \<lparr>xs_r = r, xs_stack = [], xs_index = 1\<rparr>" by (simp add: walk_ok_def)
    moreover have "decided_at r v" using 2(1,2) by (simp add: decided_at_def decided_def)
    ultimately show ?thesis using walk_rel (1) [OF 2(3) srt] 2(4) by simp
  qed simp
qed

lemma marks_only_evolves: "marks_only a b \<Longrightarrow> own_ok a \<Longrightarrow> evolves a b \<and> own_ok b"
  by (auto simp: marks_only_def own_ok_def evolves_def settled_def decided_def)

lemma marks_only_slot: "marks_only a b \<Longrightarrow> slot_ok lead q i a \<Longrightarrow> slot_ok lead q i b"
  by (auto simp: marks_only_def slot_ok_def decided_def)

lemma exec_rel_slot:
  assumes "exec_rel r r'"
  shows "ep_InstanceSpace r q i = Some a \<Longrightarrow> \<exists>b. ep_InstanceSpace r' q i = Some b \<and> marks_only a b"
    and "ep_InstanceSpace r' q i = Some b \<Longrightarrow> \<exists>a. ep_InstanceSpace r q i = Some a \<and> marks_only a b"
proof -
  have "rel_option marks_only (ep_InstanceSpace r q i) (ep_InstanceSpace r' q i)"
    using assms by (simp add: exec_rel_def)
  then show "ep_InstanceSpace r q i = Some a \<Longrightarrow> \<exists>b. ep_InstanceSpace r' q i = Some b \<and> marks_only a b"
    and "ep_InstanceSpace r' q i = Some b \<Longrightarrow> \<exists>a. ep_InstanceSpace r q i = Some a \<and> marks_only a b"
    by (auto simp: option_rel_Some1 option_rel_Some2)
qed

lemma step_ok_exec:
  assumes ok: "node_ok n lead p r" and lo: "leaders_ok lead" and e: "exec_rel r r'"
  shows "step_ok n lead p r'"
proof (rule step_ok_own [OF ok lo])
  have st: "same_static p r r'" using e by (simp add: exec_rel_def)
  show "ep_Id r' = ep_Id r" "ep_N r' = ep_N r" "alive_peers r' = alive_peers r"
    using st by (simp_all add: same_static_def alive_peers_def)
  show "0 \<le> ep_crtInstance r' p" using ok st by (simp add: node_ok_def same_static_def)
  show "own_ok b \<and> i < ep_crtInstance r' p" if "ep_InstanceSpace r' p i = Some b" for i b
  proof -
    from exec_rel_slot (2) [OF e that] obtain a where a: "ep_InstanceSpace r p i = Some a" "marks_only a b" by blast
    with ok have "own_ok a \<and> i < ep_crtInstance r p" by (simp add: node_ok_def)
    with a(2) marks_only_evolves st show ?thesis by (simp add: same_static_def)
  qed
  show "\<exists>L'. ep_InstanceSpace r' p i = Some L' \<and> evolves L L'" if "ep_InstanceSpace r p i = Some L" for i L
    using exec_rel_slot (1) [OF e that] marks_only_evolves node_ok_own [OF ok that] by blast
  show "slot_ok (lead(p := ep_InstanceSpace r' p)) q i b" if "q \<noteq> p" "ep_InstanceSpace r' q i = Some b" for q i b
  proof -
    from exec_rel_slot (2) [OF e that(2)] obtain a where a: "ep_InstanceSpace r q i = Some a" "marks_only a b" by blast
    from marks_only_slot [OF a(2) node_ok_slot [OF ok that(1) a(1)]] that(1) show ?thesis by (simp add: slot_ok_def)
  qed
  show "sends_more [] r r'" using e by (simp add: exec_rel_def)
qed (simp add: sent_ok_def)

section \<open>The system\<close>

definition leads :: "int \<Rightarrow> epx_sys \<Rightarrow> leaders" where
  "leads n S = (\<lambda>q i. if 0 \<le> q \<and> q < n then ep_InstanceSpace (sy_node S q) q i else None)"

definition sys_ok :: "int \<Rightarrow> epx_sys \<Rightarrow> bool" where
  "sys_ok n S \<longleftrightarrow>
     (\<forall>p. ep_N (sy_node S p) = n) \<and> (\<forall>p. 0 \<le> p \<longrightarrow> p < n \<longrightarrow> node_ok n (leads n S) p (sy_node S p))"

lemma sys_leaders_ok: "sys_ok n S \<Longrightarrow> leaders_ok (leads n S)"
  by (auto simp: sys_ok_def leaders_ok_def leads_def node_ok_def split: if_splits)

lemma evolves_trans:
  assumes "evolves a b" and "evolves b c" shows "evolves a c"
proof -
  from assms have "deps_le (ei_Deps a) (ei_Deps b)" "deps_le (ei_Deps b) (ei_Deps c)" by (simp_all add: evolves_def)
  then have "deps_le (ei_Deps a) (ei_Deps c)" by (rule deps_le_trans)
  with assms show ?thesis by (auto simp: evolves_def)
qed

lemma leads_to_trans: "leads_to a b \<Longrightarrow> leads_to b c \<Longrightarrow> leads_to a c"
  unfolding leads_to_def using evolves_trans by blast

lemma on_node_ok:
  assumes S: "sys_ok n S" and h: "on_node q f S = Some S'"
    and f: "\<And>r'. 0 \<le> q \<Longrightarrow> q < n \<Longrightarrow> f (sy_node S q) = Some r' \<Longrightarrow> step_ok n (leads n S) q r'"
  shows "sys_ok n S' \<and> leads_to (leads n S) (leads n S')"
proof -
  have N: "ep_N (sy_node S q) = n" using S by (simp add: sys_ok_def)
  from h N obtain r' where q: "0 \<le> q" "q < n" and r': "f (sy_node S q) = Some r'"
    and S': "S' = S\<lparr>sy_node := (sy_node S)(q := r')\<rparr>"
    by (auto simp: on_node_def row_ok_def split: if_splits)
  let ?lead = "(leads n S)(q := ep_InstanceSpace r' q)"
  have l: "leads n S' = ?lead" using q by (intro ext) (simp add: S' leads_def)
  have st: "node_ok n ?lead q r'" "leads_to (leads n S) ?lead"
    using f [OF q r'] by (simp_all add: step_ok_def Let_def)
  have "node_ok n ?lead p (sy_node S p)" if "p \<noteq> q" "0 \<le> p" "p < n" for p
    by (rule node_ok_mono [OF st(2)]) (use that S in \<open>simp_all add: sys_ok_def\<close>)
  with st l S show ?thesis by (auto simp: sys_ok_def S' node_ok_def)
qed

lemma node_ok_chan: "node_ok n lead p (r\<lparr>ep_ProposeChan := c\<rparr>) = node_ok n lead p r"
  by (simp add: node_ok_def alive_peers_def)

lemma step_ok_Deliver:
  assumes ok: "node_ok n lead p r" and lo: "leaders_ok lead" and h: "epx_step (Deliver m) r = Some r'"
    and q: "q \<noteq> p" "0 \<le> q" "q < n" and m: "msg_ok lead q p m"
  shows "step_ok n lead p r'"
proof -
  note step = h [unfolded epx_step_def, simplified, unfolded handle_msg_def]
  show ?thesis
  proof (cases m)
    case (M_PreAccept x)
    with step m show ?thesis using step_ok_PreAccept [OF ok lo _ q] by simp
  next
    case (M_PreAcceptReply x)
    with step m show ?thesis using step_ok_PreAcceptReply [OF ok lo] by simp
  next
    case (M_PreAcceptOK x)
    with step m show ?thesis using step_ok_PreAcceptOK [OF ok lo] by simp
  next
    case (M_Accept x)
    with step m show ?thesis using step_ok_Accept [OF ok lo _ q] by simp
  next
    case (M_AcceptReply x)
    with step m show ?thesis using step_ok_AcceptReply [OF ok lo] by simp
  next
    case (M_Commit x)
    with step m show ?thesis using step_ok_Commit [OF ok lo _ q(1)] by simp
  next
    case (M_CommitShort x)
    with step m show ?thesis using step_ok_CommitShort [OF ok lo _ q(1)] by simp
  qed (use m in simp_all)
qed

lemma sys_do_ok:
  assumes S: "sys_ok n S" and srt: "sorts_by_seq srt" and h: "sys_do srt k a S = Some S'"
    and nr: "\<And>q rep i. a \<noteq> Start_Recovery q rep i"
  shows "sys_ok n S' \<and> leads_to (leads n S) (leads n S')"
proof -
  have lo: "leaders_ok (leads n S)" by (rule sys_leaders_ok [OF S])
  have ok: "node_ok n (leads n S) q (sy_node S q)" if "0 \<le> q" "q < n" for q
    using S that by (simp add: sys_ok_def)
  show ?thesis
  proof (cases a)
    case (Client q p)
    with h have "on_node q (epx_step (Arrive p)) S = Some S'" by simp
    then show ?thesis
      by (rule on_node_ok [OF S])
        (auto simp: epx_step_def intro!: step_ok_quiet [OF ok lo] simp: quiet_def same_static_def sends_more_def)
  next
    case (Propose_at q)
    with h have o': "on_node q (epx_step Take_Propose) S = Some S'" by simp
    show ?thesis
    proof (rule on_node_ok [OF S o'])
      fix r' assume q: "0 \<le> q" "q < n" and e: "epx_step Take_Propose (sy_node S q) = Some r'"
      show "step_ok n (leads n S) q r'"
      proof (cases "ep_ProposeChan (sy_node S q)")
        case Nil
        with e show ?thesis using step_ok_quiet [OF ok [OF q] lo] by (simp add: epx_step_def)
      next
        case (Cons x xs)
        with e have "handlePropose x (sy_node S q\<lparr>ep_ProposeChan := xs\<rparr>) = Some r'" by (simp add: epx_step_def)
        then show ?thesis by (intro step_ok_Propose [OF _ lo]) (simp_all add: node_ok_chan ok q)
      qed
    qed
  next
    case (Pass p i q)
    let ?S = "S\<lparr>sy_taken := insert (p, i) (sy_taken S)\<rparr>"
    have N: "ep_N (sy_node S p) = n" using S by (simp add: sys_ok_def)
    from Pass h N obtain m where p: "0 \<le> p" "p < n" and m: "message_at (ep_out (sy_node S p)) i q = Some m"
      and o': "on_node q (epx_step (Deliver (arrives m))) ?S = Some S'"
      by (auto simp: pass_def row_ok_def split: if_splits option.splits)
    have l2: "leads n ?S = leads n S" by (intro ext) (simp add: leads_def)
    with S have S2: "sys_ok n ?S" by (simp add: sys_ok_def)
    from m have "Send q m \<in> set (ep_out (sy_node S p))"
      by (auto simp: message_at_def split: if_splits epx_out.splits dest: nth_mem)
    with ok [OF p] have qm: "q \<noteq> p" "msg_ok (leads n S) p q (arrives m)"
      by (auto simp: node_ok_def sent_ok_def)
    have "sys_ok n S' \<and> leads_to (leads n ?S) (leads n S')"
    proof (rule on_node_ok [OF S2 o'])
      fix r' assume q: "0 \<le> q" "q < n" and e: "epx_step (Deliver (arrives m)) (sy_node ?S q) = Some r'"
      show "step_ok n (leads n ?S) q r'"
        unfolding l2 by (rule step_ok_Deliver [OF ok [OF q] lo _ _ p qm(2)]) (use e qm in simp_all)
    qed
    then show ?thesis by (simp add: l2)
  next
    case (Run_Command q v)
    with h have o': "on_node q (run_command srt k v) S = Some S'" by simp
    show ?thesis by (rule on_node_ok [OF S o']) (rule step_ok_exec [OF ok lo run_command_rel [OF _ srt]])
  next
    case (Advance q v)
    with h have o': "on_node q (advance_past v) S = Some S'" by simp
    show ?thesis
      by (rule on_node_ok [OF S o'])
        (auto simp: advance_past_def advance_def quiet_def same_static_def sends_more_def
          intro!: step_ok_quiet [OF ok lo] split: if_splits)
  qed (use nr in simp)
qed

lemma no_recovery_Cons: "no_recovery (a # as) \<longleftrightarrow> (\<forall>q rep i. a \<noteq> Start_Recovery q rep i) \<and> no_recovery as"
  by (cases a) auto

lemma sys_run_ok:
  "sys_run srt k as S = Some S' \<Longrightarrow> sys_ok n S \<Longrightarrow> sorts_by_seq srt \<Longrightarrow> no_recovery as \<Longrightarrow>
     sys_ok n S' \<and> leads_to (leads n S) (leads n S')"
proof (induction as arbitrary: S)
  case Nil
  then show ?case using leads_to_refl [OF sys_leaders_ok] by simp
next
  case (Cons a as)
  then obtain S1 where S1: "sys_do srt k a S = Some S1" "sys_run srt k as S1 = Some S'" by (auto split: option.splits)
  have "sys_ok n S1 \<and> leads_to (leads n S) (leads n S1)"
    using sys_do_ok [OF Cons.prems(2,3) S1(1)] Cons.prems(4) by (simp add: no_recovery_Cons)
  with Cons.IH [OF S1(2) _ Cons.prems(3)] Cons.prems (4) show ?case
    using leads_to_trans by (auto simp: no_recovery_Cons)
qed

lemma start_peers:
  assumes "0 < n"
  shows "set (alive_peers (starting_replica p n thrifty dreply durable)) \<subseteq> {0..<n} - {p}"
proof -
  let ?ring = "map (\<lambda>i. (p + 1 + i) mod n) [0..n - 1]"
  have ring: "set ?ring \<subseteq> {0..<n}" using assms by auto
  have fold_set: "set (fold (\<lambda>p a. if p \<in> set a then a else a @ [p]) xs ys) = set xs \<union> set ys" for xs ys :: "int list"
    by (induction xs arbitrary: ys) auto
  have "set (ep_PreferredPeerOrder (starting_replica p n thrifty dreply durable)) \<subseteq> {0..<n}"
    using ring assms
    by (auto simp: starting_replica_def NewReplica_def UpdatePreferredPeerOrder_def fold_set Let_def)
  moreover have "ep_Alive (starting_replica p n thrifty dreply durable) = (\<lambda>q. q \<noteq> p)"
    by (simp add: starting_replica_def NewReplica_def UpdatePreferredPeerOrder_def Let_def)
  ultimately show ?thesis unfolding alive_peers_def using set_take_subset by fastforce
qed

lemma start_fields:
  "ep_Id (starting_replica p n t d u) = p" "ep_N (starting_replica p n t d u) = n"
  "ep_InstanceSpace (starting_replica p n t d u) = (\<lambda>_ _. None)" "ep_out (starting_replica p n t d u) = []"
  "ep_crtInstance (starting_replica p n t d u) = (\<lambda>_. 0)"
  by (simp_all add: starting_replica_def NewReplica_def UpdatePreferredPeerOrder_def Let_def)

lemma start_ok: "0 < n \<Longrightarrow> sys_ok n (start_system n thrifty dreply durable)"
  using start_peers [of n] unfolding sys_ok_def node_ok_def leads_def start_system_def sent_ok_def
  by (simp add: start_fields)

text \<open>A decided copy is the leader's.\<close>

lemma decided_copy:
  assumes S: "sys_ok n S" and p: "0 \<le> p" "p < n" and a: "inst_of (sy_node S p) (q, i) = Some a" "decided a"
  shows "\<exists>L. leads n S q i = Some L \<and> decided L \<and> ei_Seq a = ei_Seq L \<and> ei_Deps a = ei_Deps L
    \<and> (\<forall>cs. ei_Cmds a = Some cs \<longrightarrow> ei_Cmds L = Some cs)"
proof (cases "q = p")
  case True
  with p a show ?thesis by (auto simp: leads_def inst_of_def)
next
  case False
  have "node_ok n (leads n S) p (sy_node S p)" using S p by (simp add: sys_ok_def)
  from node_ok_slot [OF this False, of i a] a have "slot_ok (leads n S) q i a" by (simp add: inst_of_def)
  with a(2) show ?thesis by (auto simp: slot_ok_def)
qed

section \<open>Agreement\<close>

text \<open>C3: Agreement without recovery: at any two moments of a run, in which messages are lost, delayed and
  reordered and the replicas execute what they like, two replicas that hold an instance as committed hold the
  same sequence number, the same dependencies and, where both know them, the same commands. A commit is
  never taken back or changed.\<close>

theorem committed_instances_agree:
  assumes "0 < n" and "sorts_by_seq srt"
    and "sys_run srt k as (start_system n thrifty dreply durable) = Some S" and "no_recovery as"
    and "sys_run srt k later S = Some S'" and "no_recovery later"
    and "0 \<le> p" and "p < n" and "inst_of (sy_node S p) v = Some a" and "decided a"
    and "0 \<le> q" and "q < n" and "inst_of (sy_node S' q) v = Some b" and "decided b"
  shows "ei_Seq a = ei_Seq b \<and> ei_Deps a = ei_Deps b
    \<and> (ei_Cmds a = None \<or> ei_Cmds b = None \<or> ei_Cmds a = ei_Cmds b)"
proof -
  have S: "sys_ok n S" using sys_run_ok [OF assms(3) start_ok [OF assms(1)] assms (2,4)] by simp
  with sys_run_ok [OF assms (5) S assms (2,6)] have S': "sys_ok n S'" "leads_to (leads n S) (leads n S')" by simp_all
  obtain x i where v: "v = (x, i)" by (cases v)
  from decided_copy [OF S assms(7,8) assms(9,10) [unfolded v]] obtain L where
    L: "leads n S x i = Some L" "decided L" "ei_Seq a = ei_Seq L" "ei_Deps a = ei_Deps L"
      "\<forall>cs. ei_Cmds a = Some cs \<longrightarrow> ei_Cmds L = Some cs" by blast
  from decided_copy [OF S'(1) assms(11,12) assms(13,14) [unfolded v]] obtain M where
    M: "leads n S' x i = Some M" "ei_Seq b = ei_Seq M" "ei_Deps b = ei_Deps M"
      "\<forall>cs. ei_Cmds b = Some cs \<longrightarrow> ei_Cmds M = Some cs" by blast
  from S'(2) L(1) M(1) have "evolves L M" unfolding leads_to_def by (metis option.inject)
  with L M show ?thesis by (cases "ei_Cmds a"; cases "ei_Cmds b") (auto simp: evolves_def settled_def)
qed
lemma crossing_commits:
  "no_recovery crossing_writes \<and> ends_with crossing_writes (\<lambda>S.
     case (inst_of (sy_node S 0) (1, 0), inst_of (sy_node S 1) (1, 0)) of
       (Some a, Some b) \<Rightarrow> decided a \<and> decided b | _ \<Rightarrow> False)"
  by code_simp

theorem committed_instances_agree_witness:
  "\<exists>S a b. three crossing_writes = Some S \<and> inst_of (sy_node S 0) (1, 0) = Some a
     \<and> inst_of (sy_node S 1) (1, 0) = Some b \<and> decided a \<and> decided b
     \<and> ei_Seq a = ei_Seq b \<and> ei_Deps a = ei_Deps b"
proof -
  from crossing_commits obtain S a b where S: "three crossing_writes = Some S" and nr: "no_recovery crossing_writes"
    and a: "inst_of (sy_node S 0) (1, 0) = Some a" "decided a" and b: "inst_of (sy_node S 1) (1, 0) = Some b" "decided b"
    by (auto simp: ends_with_def split: option.splits)
  have n: "0 < (3::int)" "sys_run stable_sort 5 [] S = Some S" "no_recovery []" "0 \<le> (0::int)" "0 < (3::int)"
    "0 \<le> (1::int)" "1 < (3::int)" by simp_all
  from committed_instances_agree [OF n(1) stable_sort_sorts S [unfolded three_def] nr n(2,3,4,5) a n(6,7) b]
  show ?thesis using S a b by blast
qed

end
