(* ===== verification/Epx_Votes.thy ===== *)
theory Epx_Votes
  imports Epx_Attributes Epx_Agree
begin

text \<open>
  The steps of an original EPaxos replica as its votes see them: a step creates an instance and asks for
  votes, casts a vote, counts one, or does neither and only learns conflicts and statuses.
\<close>

section \<open>Asking and voting\<close>

fun vote_inst :: "epx_msg \<Rightarrow> int option" where
  "vote_inst (M_PreAcceptReply m) = (if par_OK m then Some (par_Instance m) else None)"
| "vote_inst (M_PreAcceptOK i) = Some i"
| "vote_inst m = None"

fun ask_inst :: "epx_msg \<Rightarrow> int option" where
  "ask_inst (M_PreAccept m) = Some (pac_Instance m)"
| "ask_inst m = None"

definition voted :: "Replica \<Rightarrow> nat \<Rightarrow> int \<Rightarrow> int \<Rightarrow> epx_msg \<Rightarrow> bool" where
  "voted r k p i m \<longleftrightarrow> k < length (ep_out r) \<and> ep_out r ! k = Send p m \<and> vote_inst m = Some i"

definition asked :: "Replica \<Rightarrow> nat \<Rightarrow> int \<Rightarrow> int \<Rightarrow> epx_msg \<Rightarrow> bool" where
  "asked r k d i m \<longleftrightarrow> k < length (ep_out r) \<and> ep_out r ! k = Send d m \<and> ask_inst m = Some i"

fun silent :: "epx_out \<Rightarrow> bool" where
  "silent (Send d m) \<longleftrightarrow> vote_inst m = None \<and> ask_inst m = None"
| "silent o' \<longleftrightarrow> True"

lemma sent_more:
  assumes "sends_more ms r r'" and "k < length (ep_out r')" and "ep_out r' ! k = Send d m"
  shows "k < length (ep_out r) \<and> ep_out r ! k = Send d m \<or> length (ep_out r) \<le> k \<and> Send d m \<in> set ms"
proof -
  from assms(1) obtain os where os: "ep_out r' = ep_out r @ os" "filter is_send os = ms" by (auto simp: sends_more_def)
  show ?thesis
  proof (cases "k < length (ep_out r)")
    case True
    with assms(3) os(1) show ?thesis by (simp add: nth_append)
  next
    case False
    with assms(2,3) os(1) have "Send d m \<in> set os" by (auto simp: nth_append) (metis nth_mem add_diff_inverse_nat nat_add_left_cancel_less)
    with os(2) False show ?thesis by auto
  qed
qed

lemma sent_kept: "sends_more ms r r' \<Longrightarrow> k < length (ep_out r) \<Longrightarrow> k < length (ep_out r') \<and> ep_out r' ! k = ep_out r ! k"
  by (auto simp: sends_more_def nth_append)

lemma voted_kept: "sends_more ms r r' \<Longrightarrow> voted r k p i m \<Longrightarrow> voted r' k p i m"
  using sent_kept unfolding voted_def by metis

lemma asked_kept: "sends_more ms r r' \<Longrightarrow> asked r k p i m \<Longrightarrow> asked r' k p i m"
  using sent_kept unfolding asked_def by metis

lemma voted_more:
  "sends_more ms r r' \<Longrightarrow> voted r' k p i m \<Longrightarrow>
     voted r k p i m \<or> length (ep_out r) \<le> k \<and> Send p m \<in> set ms \<and> vote_inst m = Some i"
  using sent_more unfolding voted_def by blast

lemma asked_more:
  "sends_more ms r r' \<Longrightarrow> asked r' k p i m \<Longrightarrow>
     asked r k p i m \<or> length (ep_out r) \<le> k \<and> Send p m \<in> set ms \<and> ask_inst m = Some i"
  using sent_more unfolding asked_def by blast

lemma distinct_filter_nth:
  "distinct (filter P xs) \<Longrightarrow> i < length xs \<Longrightarrow> j < length xs \<Longrightarrow> xs ! i = xs ! j \<Longrightarrow> P (xs ! i) \<Longrightarrow> i = j"
proof (induction xs arbitrary: i j)
  case (Cons x xs)
  have "x \<notin> set xs" if "P x" using Cons.prems(1) that by simp
  with Cons show ?case by (cases i; cases j) (auto split: if_splits)
qed simp

text \<open>A batch of different messages is sent once each.\<close>

lemma sent_once:
  assumes "sends_more ms r r'" and "distinct ms" and "length (ep_out r) \<le> k" and "length (ep_out r) \<le> j"
    and "k < length (ep_out r')" and "j < length (ep_out r')" and "ep_out r' ! k = Send d m" and "ep_out r' ! j = Send d m"
  shows "k = j"
proof -
  from assms(1) obtain os where os: "ep_out r' = ep_out r @ os" "filter is_send os = ms" by (auto simp: sends_more_def)
  let ?n = "length (ep_out r)"
  have "os ! (k - ?n) = Send d m" "os ! (j - ?n) = Send d m" "k - ?n < length os" "j - ?n < length os"
    using assms(3-8) os(1) by (auto simp: nth_append)
  with distinct_filter_nth [of is_send os "k - ?n" "j - ?n"] assms(2) os(2) have "k - ?n = j - ?n" by simp
  with assms(3,4) show ?thesis by simp
qed

lemma silent_keeps:
  assumes "sends_more ms r r'" and "list_all silent ms"
  shows "voted r' k p i m \<longleftrightarrow> voted r k p i m" and "asked r' k p i m \<longleftrightarrow> asked r k p i m"
proof -
  have s: "vote_inst m = None \<and> ask_inst m = None" if "Send p m \<in> set ms"
    using assms(2) that by (auto simp: list_all_iff dest!: bspec)
  show "voted r' k p i m \<longleftrightarrow> voted r k p i m"
    using voted_more [OF assms(1)] voted_kept [OF assms(1)] s by fastforce
  show "asked r' k p i m \<longleftrightarrow> asked r k p i m"
    using asked_more [OF assms(1)] asked_kept [OF assms(1)] s by fastforce
qed

section \<open>Kinds of steps\<close>

definition oks_of :: "Instance \<Rightarrow> int option" where
  "oks_of L = map_option lb_preAcceptOKs (ei_lb L)"

definition orig_of :: "Instance \<Rightarrow> int list option" where
  "orig_of L = map_option lb_originalDeps (ei_lb L)"

definition calm :: "Instance \<Rightarrow> Instance \<Rightarrow> bool" where
  "calm L L' \<longleftrightarrow> ei_Cmds L' = ei_Cmds L \<and> ei_Deps L' = ei_Deps L \<and> (settled L' \<longrightarrow> settled L)
     \<and> orig_of L' = orig_of L \<and> oks_of L' = oks_of L"

lemma calm_refl [simp]: "calm L L"
  by (simp add: calm_def)

definition plain :: "int \<Rightarrow> Replica \<Rightarrow> Replica \<Rightarrow> bool" where
  "plain x r r' \<longleftrightarrow>
     (\<exists>ms. sends_more ms r r' \<and> list_all silent ms) \<and> grows (ep_conflicts r) (ep_conflicts r')
     \<and> (\<forall>i. rel_option calm (ep_InstanceSpace r x i) (ep_InstanceSpace r' x i))
     \<and> alive_peers r' = alive_peers r"

definition voting :: "int \<Rightarrow> int \<Rightarrow> int \<Rightarrow> PreAccept \<Rightarrow> Replica \<Rightarrow> Replica \<Rightarrow> bool" where
  "voting n x q a r r' \<longleftrightarrow>
     (\<exists>m ds. sends_more [Send q m] r r' \<and> vote_inst m = Some (pac_Instance a)
        \<and> ds = (case m of M_PreAcceptReply y \<Rightarrow> par_Deps y | _ \<Rightarrow> pac_Deps a) \<and> deps_le (pac_Deps a) ds
        \<and> (\<forall>c p e. pac_Command a = [c] \<longrightarrow> 0 \<le> p \<longrightarrow> p < n \<longrightarrow> p \<noteq> q \<longrightarrow>
              ep_conflicts r p (cmd_K c) = Some e \<longrightarrow> e \<le> ds ! nat p))
     \<and> conflicts_noted (pac_Command a) q (pac_Instance a) r r'
     \<and> ep_InstanceSpace r' x = ep_InstanceSpace r x \<and> alive_peers r' = alive_peers r"

definition counting :: "int \<Rightarrow> int \<Rightarrow> int \<Rightarrow> epx_msg \<Rightarrow> Replica \<Rightarrow> Replica \<Rightarrow> bool" where
  "counting n x i m r r' \<longleftrightarrow>
     (\<exists>L L' k. ep_InstanceSpace r x i = Some L \<and> ep_InstanceSpace r' x = (ep_InstanceSpace r x)(i := Some L')
        \<and> \<not> settled L \<and> ei_Cmds L' = ei_Cmds L \<and> orig_of L' = orig_of L
        \<and> oks_of L = Some k \<and> oks_of L' = Some (k + 1) \<and> (settled L' \<longrightarrow> n div 2 \<le> k + 1)
        \<and> deps_le (ei_Deps L) (ei_Deps L')
        \<and> (case m of M_PreAcceptReply y \<Rightarrow>
             \<forall>q. 0 \<le> q \<longrightarrow> q < n \<longrightarrow> q \<noteq> x \<longrightarrow> par_Deps y ! nat q \<le> ei_Deps L' ! nat q | _ \<Rightarrow> True))
     \<and> vote_inst m = Some i
     \<and> (\<exists>ms. sends_more ms r r' \<and> list_all silent ms) \<and> ep_conflicts r' = ep_conflicts r
     \<and> alive_peers r' = alive_peers r"

definition creating :: "int \<Rightarrow> int \<Rightarrow> Replica \<Rightarrow> Replica \<Rightarrow> bool" where
  "creating n x r r' \<longleftrightarrow>
     (\<exists>i L cs ds a. ep_InstanceSpace r x i = None \<and> ep_InstanceSpace r' x = (ep_InstanceSpace r x)(i := Some L)
        \<and> ei_Cmds L = Some cs \<and> ei_Deps L = ds \<and> orig_of L = Some ds \<and> oks_of L = Some 0 \<and> \<not> settled L
        \<and> length ds = DS
        \<and> sends_more (map (\<lambda>d. Send d (M_PreAccept a)) (bcast_peers r)) r r'
        \<and> pac_Instance a = i \<and> pac_Deps a = ds \<and> conflicts_noted cs x i r r'
        \<and> (\<forall>c p e. cs = [c] \<longrightarrow> 0 \<le> p \<longrightarrow> p < n \<longrightarrow> ep_conflicts r p (cmd_K c) = Some e \<longrightarrow> e \<le> ds ! nat p))
     \<and> alive_peers r' = alive_peers r"

section \<open>Which handler makes which step\<close>

lemma plain_quiet: "quiet x r r' \<Longrightarrow> grows (ep_conflicts r) (ep_conflicts r') \<Longrightarrow> plain x r r'"
  unfolding plain_def quiet_def by (auto simp: option.rel_refl same_static_def alive_peers_def intro: exI [of _ "[]"])

lemma plain_foreign:
  "moved x q i inst ms r r' \<Longrightarrow> q \<noteq> x \<Longrightarrow> list_all silent ms \<Longrightarrow> grows (ep_conflicts r) (ep_conflicts r') \<Longrightarrow>
     plain x r r'"
  unfolding plain_def moved_def by (auto simp: option.rel_refl same_static_def alive_peers_def)

lemma plain_own:
  "moved x x i L' ms r r' \<Longrightarrow> ep_InstanceSpace r x i = Some L \<Longrightarrow> calm L L' \<Longrightarrow> list_all silent ms \<Longrightarrow>
     grows (ep_conflicts r) (ep_conflicts r') \<Longrightarrow> plain x r r'"
  unfolding plain_def moved_def by (auto simp: option.rel_refl same_static_def alive_peers_def)

lemma marks_only_calm: "marks_only a b \<Longrightarrow> calm a b"
  by (auto simp: marks_only_def calm_def orig_of_def oks_of_def settled_def decided_def)

lemma plain_exec: "exec_rel r r' \<Longrightarrow> plain x r r'"
  unfolding exec_rel_def plain_def
  by (auto simp: same_static_def alive_peers_def intro: exI [of _ "[]"] option.rel_mono_strong marks_only_calm)

lemma silent_sends_to:
  assumes "sends_to ms ds M" and "\<And>x. x \<in> M \<Longrightarrow> vote_inst x = None \<and> ask_inst x = None"
  shows "list_all silent ms"
  using assms unfolding sends_to_def list_all_iff by fastforce

lemma silent_commit: "sends_to ms ds {commit_of p i inst, commit_short_of p i inst} \<Longrightarrow> list_all silent ms"
  by (erule silent_sends_to) (auto simp: commit_of_def commit_short_of_def)

lemma silent_accept: "sends_to ms ds {accept_of p i inst} \<Longrightarrow> list_all silent ms"
  by (erule silent_sends_to) (auto simp: accept_of_def)

lemma silent_decision:
  assumes "status = COMMITTED \<and> sends_to ms ds {commit_of p i inst, commit_short_of p i inst} \<and> A
    \<or> status = ACCEPTED \<and> sends_to ms ds {accept_of p i inst} \<and> B \<or> C \<and> ms = []"
  shows "list_all silent ms"
  using assms silent_commit silent_accept by auto

lemma handlePreAccept_kind:
  assumes ok: "node_ok n lead x r" and h: "handlePreAccept a r = Some r'" and q: "q \<noteq> x"
    and m: "msg_ok lead q x (M_PreAccept a)"
  shows "plain x r r' \<or> voting n x q a r r'"
proof -
  from m have y: "pac_LeaderId a = q" "pac_Replica a = q" "pac_Ballot a = 0" "pac_Command a \<noteq> []" by auto
  have b: "ei_ballot inst = 0" if "ep_InstanceSpace r q (pac_Instance a) = Some inst" for inst
    using node_ok_slot [OF ok q that] by (simp add: slot_ok_def)
  show ?thesis
  proof (cases rule: handlePreAccept_effect [OF h q y(1,2) refl y(3,4) b, case_names _ known late vote])
    case known
    then show ?thesis by (simp add: plain_quiet)
  next
    case (late inst)
    then show ?thesis using plain_foreign [OF late(3) q _ conflicts_noted_grows [OF late(4)]] by simp
  next
    case (vote r1 seq deps changed status inst msg)
    let ?ds = "case msg of M_PreAcceptReply y \<Rightarrow> par_Deps y | _ \<Rightarrow> pac_Deps a"
    have le: "deps_le (pac_Deps a) deps" and d: "?ds = deps"
      using updateAttributes_le [OF vote(4)] vote(9) by auto
    have N: "ep_N r1 = n" using ok quiet_fields (3) [OF vote(1)] by (simp add: node_ok_def)
    have c: "e \<le> deps ! nat p" if "pac_Command a = [c]" "0 \<le> p" "p < n" "p \<noteq> q" "ep_conflicts r p (cmd_K c) = Some e" for c p e
      using updateAttributes_single [of c "pac_Seq a" "pac_Deps a" q r1 seq deps changed p e] vote(2,4) that N by simp
    have "sends_more [Send q msg] r r'" "ep_InstanceSpace r' x = ep_InstanceSpace r x" "alive_peers r' = alive_peers r"
      using vote(8) q moved_fields (4) [OF vote(8)] by (simp_all add: moved_def)
    moreover have "vote_inst msg = Some (pac_Instance a)" using vote(9) by auto
    ultimately have "voting n x q a r r'"
      unfolding voting_def using le c vote(10) d by (intro conjI exI [of _ msg] exI [of _ deps]) auto
    then show ?thesis by simp
  qed
qed

lemma handlePreAcceptReply_kind:
  assumes ok: "node_ok n lead x r" and h: "handlePreAcceptReply m r = Some r'" and m: "par_Replica m = x"
  shows "plain x r r' \<or> counting n x (par_Instance m) (M_PreAcceptReply m) r r'"
proof -
  have id: "ep_Id r = x" and N: "ep_N r = n" using ok by (simp_all add: node_ok_def)
  show ?thesis
    using h id m refl
  proof (cases rule: handlePreAcceptReply_effect)
    case ignored
    then show ?thesis using plain_quiet [of x r r] by simp
  next
    case (nack inst lb)
    have "calm inst (inst\<lparr>ei_lb := Some (nack (par_Ballot m) lb)\<rparr>)"
      using nack(2) by (simp add: calm_def orig_of_def oks_of_def nack_def settled_def decided_def)
    with plain_own [OF nack(4,1)] nack(5) show ?thesis by simp
  next
    case (ok inst lb lb' seq deps eq status ms)
    let ?L = "inst\<lparr>ei_Seq := seq, ei_Deps := deps, ei_Status := status, ei_lb := Some lb'\<rparr>"
    have le: "deps_le (ei_Deps inst) deps" by (rule mergeAttributes_le [OF ok(5)])
    have ge: "par_Deps m ! nat q \<le> deps ! nat q" if "0 \<le> q" "q < n" "q \<noteq> x" for q
      using mergeAttributes_ge [OF ok(5), of q] that id N by simp
    have "settled ?L \<Longrightarrow> n div 2 \<le> lb_preAcceptOKs lb + 1" using ok(6,10) N by (auto simp: settled_def decided_def status_defs)
    moreover have "\<not> settled inst" using ok(4) by (auto simp: settled_def decided_def)
    moreover have "list_all silent ms" by (rule silent_decision [OF ok(10)])
    ultimately have "counting n x (par_Instance m) (M_PreAcceptReply m) r r'"
      unfolding counting_def using ok(1,2,3,6,7,8,9) le ge moved_fields (4) [OF ok(8)]
      by (intro conjI exI [of _ inst] exI [of _ ?L] exI [of _ "lb_preAcceptOKs lb"])
        (auto simp: moved_def orig_of_def oks_of_def)
    then show ?thesis by simp
  qed
qed

lemma handlePreAcceptOK_kind:
  assumes ok: "node_ok n lead x r" and h: "handlePreAcceptOK i r = Some r'"
  shows "plain x r r' \<or> counting n x i (M_PreAcceptOK i) r r'"
proof -
  have id: "ep_Id r = x" and N: "ep_N r = n" using ok by (simp_all add: node_ok_def)
  show ?thesis
    using h id
  proof (cases rule: handlePreAcceptOK_effect)
    case ignored
    then show ?thesis using plain_quiet [of x r r] by simp
  next
    case (ok inst lb lb' status ms)
    let ?L = "inst\<lparr>ei_Status := status, ei_lb := Some lb'\<rparr>"
    have "settled ?L \<Longrightarrow> n div 2 \<le> lb_preAcceptOKs lb + 1" using ok(4,8) N by (auto simp: settled_def decided_def status_defs)
    moreover have "\<not> settled inst" using ok(3) by (auto simp: settled_def decided_def)
    moreover have "list_all silent ms" by (rule silent_decision [OF ok(8)])
    ultimately have "counting n x i (M_PreAcceptOK i) r r'"
      unfolding counting_def using ok(1,2,4,5,6,7) moved_fields (4) [OF ok(6)]
      by (intro conjI exI [of _ inst] exI [of _ ?L] exI [of _ "lb_preAcceptOKs lb"])
        (auto simp: moved_def orig_of_def oks_of_def)
    then show ?thesis by simp
  qed
qed

lemma handleAcceptReply_plain:
  assumes ok: "node_ok n lead x r" and h: "handleAcceptReply m r = Some r'" and m: "acr_Replica m = x"
  shows "plain x r r'"
proof -
  have id: "ep_Id r = x" using ok by (simp add: node_ok_def)
  show ?thesis
    using h id m refl
  proof (cases rule: handleAcceptReply_effect)
    case ignored
    then show ?thesis using plain_quiet [of x r r] by simp
  next
    case (moves inst lb lb' status ms)
    have "calm inst (inst\<lparr>ei_Status := status, ei_lb := Some lb'\<rparr>)"
      using moves(2-5) by (simp add: calm_def orig_of_def oks_of_def settled_def)
    moreover have "list_all silent ms" using moves(8) silent_commit by auto
    ultimately show ?thesis using plain_own [OF moves(6,1)] moves(7) by simp
  qed
qed

lemma handleAccept_plain:
  assumes ok: "node_ok n lead x r" and h: "handleAccept m r = Some r'" and q: "q \<noteq> x"
    and m: "msg_ok lead q x (M_Accept m)"
  shows "plain x r r'"
proof -
  from m have y: "ac_LeaderId m = q" "ac_Replica m = q" "ac_Ballot m = 0" "ac_Count m \<noteq> 0" by auto
  have b: "ei_ballot inst = 0" if "ep_InstanceSpace r q (ac_Instance m) = Some inst" for inst
    using node_ok_slot [OF ok q that] by (simp add: slot_ok_def)
  show ?thesis
  proof (cases rule: handleAccept_effect [OF h q y(1,2) refl y(3,4) b, case_names _ ignored ok])
    case ignored
    then show ?thesis by (simp add: plain_quiet)
  next
    case (ok inst)
    then show ?thesis using plain_foreign [OF ok(3) q] by (simp add: accept_reply_def)
  qed
qed

lemma handleCommit_plain:
  assumes h: "handleCommit m r = Some r'" and q: "q \<noteq> x" and m: "msg_ok lead q x (M_Commit m)"
  shows "plain x r r'"
proof -
  from m have y: "cm_Replica m = q" "cm_Command m \<noteq> []" by auto
  from handleCommit_effect [OF h q y(1) refl y(2)] obtain inst where
    mv: "moved x q (cm_Instance m) inst [] r r'"
    and c: "ep_conflicts r' = ep_conflicts r \<or> conflicts_noted (cm_Command m) q (cm_Instance m) r r'" .
  have "grows (ep_conflicts r) (ep_conflicts r')" using c conflicts_noted_grows by auto
  with plain_foreign [OF mv q] show ?thesis by simp
qed

lemma handleCommitShort_plain:
  assumes ok: "node_ok n lead x r" and h: "handleCommitShort m r = Some r'" and q: "q \<noteq> x"
    and m: "msg_ok lead q x (M_CommitShort m)"
  shows "plain x r r'"
proof -
  from m have y: "cs_Replica m = q" "cs_Count m \<noteq> 0" by auto
  have lb: "ei_lb inst = None" if "ep_InstanceSpace r q (cs_Instance m) = Some inst" for inst
    using node_ok_slot [OF ok q that] by (simp add: slot_ok_def)
  from handleCommitShort_effect [OF h q y(1) refl y(2) lb] obtain inst where
    "moved x q (cs_Instance m) inst [] r r'" "ep_conflicts r' = ep_conflicts r" .
  with plain_foreign [OF _ q] show ?thesis by simp
qed

lemma handlePropose_creates:
  assumes ok: "node_ok n lead x r" and h: "handlePropose pr r = Some r'"
  shows "creating n x r r'"
proof -
  let ?i = "ep_crtInstance r x"
  have id: "ep_Id r = x" and i0: "0 \<le> ?i" and N: "ep_N r = n" using ok by (simp_all add: node_ok_def)
  from handlePropose_effect [OF h id refl i0] obtain cmds seq deps changed ps c rs where
    rs: "rs = r\<lparr>ep_crtInstance := (ep_crtInstance r)(x := ?i + 1), ep_ProposeChan := c\<rparr>"
    and ua: "updateAttributes cmds 0 (map (\<lambda>q. if int q < ep_N r then - 1 else 0) [0..<DS]) x rs = Some (seq, deps, changed)"
    and mv: "moved x x ?i (new_instance (Some cmds) 0 PREACCEPTED seq deps (Some (new_lb (Some ps) deps)))
           (map (\<lambda>d. Send d (M_PreAccept (preaccept_of x ?i 0 cmds seq deps))) (bcast_peers r)) rs r'"
    and cn: "\<exists>r2 r3. updateConflicts cmds x ?i seq r2 = Some r3 \<and> ep_conflicts r2 = ep_conflicts r
           \<and> ep_conflicts r' = ep_conflicts r3" .
  let ?L = "new_instance (Some cmds) 0 PREACCEPTED seq deps (Some (new_lb (Some ps) deps))"
  have none: "ep_InstanceSpace r x ?i = None"
    using ok unfolding node_ok_def by (cases "ep_InstanceSpace r x ?i") (simp, blast)
  have len: "length deps = DS" using updateAttributes_le (1) [OF ua] by (simp add: deps_le_def)
  have cov: "e \<le> deps ! nat p" if "cmds = [k]" "0 \<le> p" "p < n" "ep_conflicts r p (cmd_K k) = Some e" for k p e
    using updateAttributes_single [of k 0 _ x rs seq deps changed p e] ua that rs id N by simp
  have "conflicts_noted cmds x ?i r r'" using cn unfolding conflicts_noted_def by blast
  moreover have "ep_InstanceSpace r' x = (ep_InstanceSpace r x)(?i := Some ?L)" "alive_peers r' = alive_peers r"
    and "sends_more (map (\<lambda>d. Send d (M_PreAccept (preaccept_of x ?i 0 cmds seq deps))) (bcast_peers r)) r r'"
    using mv rs moved_fields (4) [OF mv] by (simp_all add: moved_def alive_peers_def sends_more_def)
  ultimately show ?thesis
    unfolding creating_def using none len cov
    by (intro conjI exI [of _ ?i] exI [of _ ?L] exI [of _ cmds] exI [of _ deps]
        exI [of _ "preaccept_of x ?i 0 cmds seq deps"])
      (auto simp: new_instance_def new_lb_def orig_of_def oks_of_def settled_def decided_def preaccept_of_def)
qed

end
