(* ===== verification/Epx_Quorum.thy ===== *)
theory Epx_Quorum
  imports Epx_Votes
begin

text \<open>
  Why conflicting instances of the original EPaxos end up ordered, as long as nothing is recovered and there
  are at most five replicas: an instance is decided after a majority of the replicas, its leader and the
  voters the leader counted, has compared it with everything of the same key it knew; two majorities meet in
  a replica that compared the two instances, and what this replica found is in the decided dependencies.
\<close>

section \<open>Who took part in an instance\<close>

definition orig :: "leaders \<Rightarrow> int \<Rightarrow> int \<Rightarrow> int list" where
  "orig lead p i = (case Option.bind (lead p i) orig_of of Some ds \<Rightarrow> ds | None \<Rightarrow> [])"

definition cmds_of :: "leaders \<Rightarrow> int \<Rightarrow> int \<Rightarrow> Command list option" where
  "cmds_of lead p i = Option.bind (lead p i) ei_Cmds"

definition vote_deps :: "leaders \<Rightarrow> int \<Rightarrow> int \<Rightarrow> epx_msg \<Rightarrow> int list" where
  "vote_deps lead p i m = (case m of M_PreAcceptReply y \<Rightarrow> par_Deps y | _ \<Rightarrow> orig lead p i)"

text \<open>Replica \<open>x\<close> led the instance \<open>(p, i)\<close> or voted for it, with the dependencies \<open>ds\<close>.\<close>

definition part :: "int \<Rightarrow> epx_sys \<Rightarrow> int \<Rightarrow> int \<Rightarrow> int \<Rightarrow> int list \<Rightarrow> bool" where
  "part n S x p i ds \<longleftrightarrow>
     x = p \<and> leads n S p i \<noteq> None \<and> ds = orig (leads n S) p i
     \<or> x \<noteq> p \<and> (\<exists>k m. voted (sy_node S x) k p i m \<and> ds = vote_deps (leads n S) p i m)"

section \<open>Invariants\<close>

definition asks_ok :: "int \<Rightarrow> epx_sys \<Rightarrow> bool" where
  "asks_ok n S \<longleftrightarrow> (\<forall>p. 0 \<le> p \<longrightarrow> p < n \<longrightarrow>
     (\<forall>k j d i m m'. asked (sy_node S p) k d i m \<longrightarrow> asked (sy_node S p) j d i m' \<longrightarrow> k = j)
     \<and> (\<forall>k d i m. asked (sy_node S p) k d i m \<longrightarrow> (\<exists>a. m = M_PreAccept a \<and> pac_Deps a = orig (leads n S) p i)))"

definition votes_ok :: "int \<Rightarrow> epx_sys \<Rightarrow> bool" where
  "votes_ok n S \<longleftrightarrow> (\<forall>x. 0 \<le> x \<longrightarrow> x < n \<longrightarrow>
     (\<forall>k p i m. voted (sy_node S x) k p i m \<longrightarrow>
        (\<exists>j m'. (p, j) \<in> sy_taken S \<and> asked (sy_node S p) j x i m')
        \<and> deps_le (orig (leads n S) p i) (vote_deps (leads n S) p i m))
     \<and> (\<forall>k j p i m m'. voted (sy_node S x) k p i m \<longrightarrow> voted (sy_node S x) j p i m' \<longrightarrow> k = j))"

definition seen_ok :: "int \<Rightarrow> epx_sys \<Rightarrow> bool" where
  "seen_ok n S \<longleftrightarrow> (\<forall>x p i ds cs c. 0 \<le> x \<longrightarrow> x < n \<longrightarrow> part n S x p i ds \<longrightarrow>
     cmds_of (leads n S) p i = Some cs \<longrightarrow> c \<in> set cs \<longrightarrow>
     (\<exists>e. ep_conflicts (sy_node S x) p (cmd_K c) = Some e \<and> i \<le> e))"

definition pairs_ok :: "int \<Rightarrow> epx_sys \<Rightarrow> bool" where
  "pairs_ok n S \<longleftrightarrow> (\<forall>x p i ds q j ds' c d. 0 \<le> x \<longrightarrow> x < n \<longrightarrow>
     part n S x p i ds \<longrightarrow> part n S x q j ds' \<longrightarrow> (p, i) \<noteq> (q, j) \<longrightarrow> p \<noteq> q \<or> p = x \<longrightarrow>
     cmds_of (leads n S) p i = Some [c] \<longrightarrow> cmds_of (leads n S) q j = Some [d] \<longrightarrow> cmd_K c = cmd_K d \<longrightarrow>
     i \<le> ds' ! nat p \<or> j \<le> ds ! nat q)"

definition counted :: "int \<Rightarrow> epx_sys \<Rightarrow> int \<Rightarrow> int \<Rightarrow> Instance \<Rightarrow> int \<Rightarrow> bool" where
  "counted n S p i L x \<longleftrightarrow> (\<exists>k m. (x, k) \<in> sy_taken S \<and> voted (sy_node S x) k p i m
     \<and> (\<forall>q. 0 \<le> q \<longrightarrow> q < n \<longrightarrow> q \<noteq> p \<longrightarrow> vote_deps (leads n S) p i m ! nat q \<le> ei_Deps L ! nat q))"

definition quorum_of :: "int \<Rightarrow> epx_sys \<Rightarrow> int \<Rightarrow> int \<Rightarrow> Instance \<Rightarrow> int set \<Rightarrow> bool" where
  "quorum_of n S p i L Q \<longleftrightarrow>
     Q \<subseteq> {0..<n} - {p} \<and> (\<exists>k. oks_of L = Some k \<and> k \<le> int (card Q)) \<and> (settled L \<longrightarrow> n div 2 \<le> int (card Q))
     \<and> (\<forall>x \<in> Q. counted n S p i L x)"

definition held :: "int \<Rightarrow> epx_sys \<Rightarrow> int \<Rightarrow> int \<Rightarrow> Instance \<Rightarrow> bool" where
  "held n S p i L \<longleftrightarrow>
     (\<exists>ds. orig_of L = Some ds \<and> length ds = DS \<and> deps_le ds (ei_Deps L)) \<and> (\<exists>Q. quorum_of n S p i L Q)"

definition quorum_ok :: "int \<Rightarrow> epx_sys \<Rightarrow> bool" where
  "quorum_ok n S \<longleftrightarrow> (\<forall>p i L. leads n S p i = Some L \<longrightarrow> held n S p i L)"

definition peers_ok :: "int \<Rightarrow> epx_sys \<Rightarrow> bool" where
  "peers_ok n S \<longleftrightarrow> (\<forall>p. distinct (alive_peers (sy_node S p)))"

definition order_ok :: "int \<Rightarrow> epx_sys \<Rightarrow> bool" where
  "order_ok n S \<longleftrightarrow> sys_ok n S \<and> asks_ok n S \<and> votes_ok n S \<and> seen_ok n S \<and> pairs_ok n S \<and> quorum_ok n S \<and> peers_ok n S"

section \<open>What the invariants say together\<close>

text \<open>The invariants as rules.\<close>

lemma asks_once:
  "asks_ok n S \<Longrightarrow> 0 \<le> p \<Longrightarrow> p < n \<Longrightarrow> asked (sy_node S p) k d i m \<Longrightarrow> asked (sy_node S p) j d i m' \<Longrightarrow> k = j"
  unfolding asks_ok_def by blast

lemma asks_orig:
  "asks_ok n S \<Longrightarrow> 0 \<le> p \<Longrightarrow> p < n \<Longrightarrow> asked (sy_node S p) k d i m \<Longrightarrow>
     \<exists>a. m = M_PreAccept a \<and> pac_Deps a = orig (leads n S) p i"
  unfolding asks_ok_def by blast

lemma votes_asked:
  "votes_ok n S \<Longrightarrow> 0 \<le> x \<Longrightarrow> x < n \<Longrightarrow> voted (sy_node S x) k p i m \<Longrightarrow>
     \<exists>j m'. (p, j) \<in> sy_taken S \<and> asked (sy_node S p) j x i m'"
  unfolding votes_ok_def by blast

lemma votes_above:
  "votes_ok n S \<Longrightarrow> 0 \<le> x \<Longrightarrow> x < n \<Longrightarrow> voted (sy_node S x) k p i m \<Longrightarrow>
     deps_le (orig (leads n S) p i) (vote_deps (leads n S) p i m)"
  unfolding votes_ok_def by blast

lemma votes_once:
  assumes "votes_ok n S" and "0 \<le> x" and "x < n"
    and "voted (sy_node S x) k p i m" and "voted (sy_node S x) j p i m'"
  shows "k = j"
proof -
  have "\<forall>k j p i m m'. voted (sy_node S x) k p i m \<longrightarrow> voted (sy_node S x) j p i m' \<longrightarrow> k = j"
    using assms(1-3) unfolding votes_ok_def by simp
  from this [rule_format, OF assms(4,5)] show ?thesis .
qed

lemma seen_noted:
  "seen_ok n S \<Longrightarrow> 0 \<le> x \<Longrightarrow> x < n \<Longrightarrow> part n S x p i ds \<Longrightarrow> cmds_of (leads n S) p i = Some cs \<Longrightarrow> c \<in> set cs \<Longrightarrow>
     \<exists>e. ep_conflicts (sy_node S x) p (cmd_K c) = Some e \<and> i \<le> e"
  unfolding seen_ok_def by blast

lemma quorum_held: "quorum_ok n S \<Longrightarrow> leads n S p i = Some L \<Longrightarrow> held n S p i L"
  unfolding quorum_ok_def by blast

lemma sys_sent:
  assumes "sys_ok n S" and "0 \<le> p" and "p < n" and "Send d m \<in> set (ep_out (sy_node S p))"
  shows "d \<noteq> p \<and> 0 \<le> d \<and> d < n \<and> msg_ok (leads n S) p d m"
proof -
  have "node_ok n (leads n S) p (sy_node S p)" using assms(1-3) by (simp add: sys_ok_def)
  then have "sent_ok n (leads n S) p (ep_out (sy_node S p))" unfolding node_ok_def by blast
  with assms(4) show ?thesis unfolding sent_ok_def by blast
qed

lemma asked_lead:
  assumes "sys_ok n S" and "0 \<le> p" and "p < n" and "asked (sy_node S p) k d i m"
  obtains a L where "m = M_PreAccept a" and "pac_Instance a = i" and "pac_LeaderId a = p"
    and "leads n S p i = Some L" and "ei_Cmds L = Some (pac_Command a)"
proof -
  have "Send d m \<in> set (ep_out (sy_node S p))" using assms(4) unfolding asked_def by (metis nth_mem)
  from sys_sent [OF assms(1-3) this] have "msg_ok (leads n S) p d m" by simp
  with assms(4) that show thesis by (cases m) (auto simp: asked_def)
qed

lemma voted_range:
  assumes "sys_ok n S" and "0 \<le> x" and "x < n" and "voted (sy_node S x) k p i m"
  shows "p \<noteq> x" and "0 \<le> p" and "p < n"
proof -
  have "Send p m \<in> set (ep_out (sy_node S x))" using assms(4) unfolding voted_def by (metis nth_mem)
  from sys_sent [OF assms(1-3) this] show "p \<noteq> x" "0 \<le> p" "p < n" by simp_all
qed

lemma voted_lead:
  assumes "sys_ok n S" and "votes_ok n S" and "0 \<le> x" and "x < n" and "voted (sy_node S x) k p i m"
  shows "leads n S p i \<noteq> None"
proof -
  from votes_asked [OF assms(2-5)] obtain j m' where "asked (sy_node S p) j x i m'" by blast
  with asked_lead [OF assms(1) voted_range(2,3) [OF assms(1,3,4,5)]] show ?thesis by (metis option.distinct(1))
qed

lemma leads_range: "leads n S p i = Some L \<Longrightarrow> 0 \<le> p \<and> p < n"
  by (simp add: leads_def split: if_splits)

lemma part_lead:
  assumes "sys_ok n S" and "votes_ok n S" and "0 \<le> x" and "x < n" and "part n S x p i ds"
  shows "leads n S p i \<noteq> None" and "0 \<le> p" and "p < n"
proof -
  show "leads n S p i \<noteq> None" using assms voted_lead unfolding part_def by blast
  then show "0 \<le> p" "p < n" using leads_range by blast+
qed

section \<open>Steps that cast no vote and create nothing\<close>

definition like :: "Instance \<Rightarrow> Instance \<Rightarrow> bool" where
  "like L L' \<longleftrightarrow> ei_Cmds L' = ei_Cmds L \<and> orig_of L' = orig_of L"

definition same_votes :: "int \<Rightarrow> epx_sys \<Rightarrow> epx_sys \<Rightarrow> bool" where
  "same_votes n S S' \<longleftrightarrow>
     (\<forall>p i. rel_option like (leads n S p i) (leads n S' p i))
     \<and> (\<forall>x k p i m. voted (sy_node S' x) k p i m \<longleftrightarrow> voted (sy_node S x) k p i m)
     \<and> (\<forall>x k p i m. asked (sy_node S' x) k p i m \<longleftrightarrow> asked (sy_node S x) k p i m)
     \<and> sy_taken S \<subseteq> sy_taken S'
     \<and> (\<forall>x. grows (ep_conflicts (sy_node S x)) (ep_conflicts (sy_node S' x)))
     \<and> (\<forall>x. alive_peers (sy_node S' x) = alive_peers (sy_node S x))"

lemma same_votes_eqs:
  assumes "same_votes n S S'"
  shows "orig (leads n S') = orig (leads n S)" and "cmds_of (leads n S') = cmds_of (leads n S)"
    and "vote_deps (leads n S') = vote_deps (leads n S)" and "part n S' = part n S"
proof -
  have l: "rel_option like (leads n S p i) (leads n S' p i)" for p i using assms by (simp add: same_votes_def)
  show o: "orig (leads n S') = orig (leads n S)"
  proof (intro ext)
    fix p i show "orig (leads n S') p i = orig (leads n S) p i"
      using l [of p i] by (cases "leads n S p i"; cases "leads n S' p i") (auto simp: orig_def like_def)
  qed
  show "cmds_of (leads n S') = cmds_of (leads n S)"
  proof (intro ext)
    fix p i show "cmds_of (leads n S') p i = cmds_of (leads n S) p i"
      using l [of p i] by (cases "leads n S p i"; cases "leads n S' p i") (auto simp: cmds_of_def like_def)
  qed
  show v: "vote_deps (leads n S') = vote_deps (leads n S)" by (intro ext) (simp add: vote_deps_def o split: epx_msg.split)
  have "leads n S' p i = None \<longleftrightarrow> leads n S p i = None" for p i
    using l [of p i] by (cases "leads n S p i"; cases "leads n S' p i") auto
  with assms show "part n S' = part n S" by (intro ext) (simp add: part_def same_votes_def o v)
qed

lemma same_votes_keeps:
  assumes "same_votes n S S'" and "order_ok n S"
  shows "asks_ok n S'" and "votes_ok n S'" and "seen_ok n S'" and "pairs_ok n S'" and "peers_ok n S'"
proof -
  note e = same_votes_eqs [OF assms(1)]
  show "asks_ok n S'" using assms unfolding asks_ok_def order_ok_def same_votes_def e by simp
  have v: "voted (sy_node S' x) = voted (sy_node S x)" and a: "asked (sy_node S' x) = asked (sy_node S x)"
    and T: "sy_taken S \<subseteq> sy_taken S'" for x
    using assms(1) by (auto simp: same_votes_def fun_eq_iff)
  show "votes_ok n S'" using assms(2) T unfolding votes_ok_def order_ok_def e v a by (meson subsetD)
  show "pairs_ok n S'" using assms unfolding pairs_ok_def order_ok_def same_votes_def e by simp
  show "peers_ok n S'" using assms unfolding peers_ok_def order_ok_def same_votes_def e by simp
  show "seen_ok n S'"
    unfolding seen_ok_def e
  proof (intro allI impI)
    fix x p i ds cs c
    assume "0 \<le> x" "x < n" "part n S x p i ds" "cmds_of (leads n S) p i = Some cs" "c \<in> set cs"
    with assms(2) obtain e where "ep_conflicts (sy_node S x) p (cmd_K c) = Some e" "i \<le> e"
      unfolding order_ok_def seen_ok_def by blast
    moreover have "grows (ep_conflicts (sy_node S x)) (ep_conflicts (sy_node S' x))"
      using assms(1) by (simp add: same_votes_def)
    ultimately show "\<exists>e. ep_conflicts (sy_node S' x) p (cmd_K c) = Some e \<and> i \<le> e"
      unfolding grows_def by (meson order_trans)
  qed
qed

lemma counted_kept:
  assumes "counted n S p i L x" and "ei_Deps L' = ei_Deps L" and "sy_taken S \<subseteq> sy_taken S'"
    and "\<And>k m. voted (sy_node S x) k p i m \<Longrightarrow> voted (sy_node S' x) k p i m"
    and "vote_deps (leads n S') p i = vote_deps (leads n S) p i"
  shows "counted n S' p i L' x"
  using assms unfolding counted_def by (metis subsetD)

section \<open>A replica joins an instance\<close>

text \<open>The step adds one participation, of \<open>x\<close> in the instance \<open>(q, i)\<close> of the commands \<open>cs\<close>, with dependencies
  that cover what \<open>x\<close> knew; it is casting a vote or creating an instance.\<close>

definition joins :: "int \<Rightarrow> epx_sys \<Rightarrow> epx_sys \<Rightarrow> int \<Rightarrow> int \<Rightarrow> int \<Rightarrow> int list \<Rightarrow> Command list \<Rightarrow> bool" where
  "joins n S S' x q i ds cs \<longleftrightarrow>
     (\<forall>y p j d. 0 \<le> y \<longrightarrow> y < n \<longrightarrow> part n S' y p j d \<longrightarrow>
        part n S y p j d \<and> leads n S p j \<noteq> None \<or> y = x \<and> p = q \<and> j = i \<and> d = ds)
     \<and> (\<forall>p j. leads n S p j \<noteq> None \<longrightarrow> cmds_of (leads n S') p j = cmds_of (leads n S) p j)
     \<and> cmds_of (leads n S') q i = Some cs
     \<and> (\<forall>y. grows (ep_conflicts (sy_node S y)) (ep_conflicts (sy_node S' y)))
     \<and> (\<forall>c \<in> set cs. \<exists>e. ep_conflicts (sy_node S' x) q (cmd_K c) = Some e \<and> i \<le> e)
     \<and> (\<forall>c p e. cs = [c] \<longrightarrow> 0 \<le> p \<longrightarrow> p < n \<longrightarrow> p \<noteq> q \<or> q = x \<longrightarrow>
          ep_conflicts (sy_node S x) p (cmd_K c) = Some e \<longrightarrow> e \<le> ds ! nat p)"

lemma joins_part:
  "joins n S S' x q i ds cs \<Longrightarrow> 0 \<le> y \<Longrightarrow> y < n \<Longrightarrow> part n S' y p j d \<Longrightarrow>
     part n S y p j d \<and> cmds_of (leads n S') p j = cmds_of (leads n S) p j \<or> y = x \<and> p = q \<and> j = i \<and> d = ds"
  unfolding joins_def by blast

lemma joins_seen:
  assumes j: "joins n S S' x q i ds cs" and so: "seen_ok n S"
  shows "seen_ok n S'"
  unfolding seen_ok_def
proof (intro allI impI)
  fix y p k d cs' c
  assume y: "0 \<le> y" "y < n" and pt: "part n S' y p k d" and cm: "cmds_of (leads n S') p k = Some cs'" "c \<in> set cs'"
  from joins_part [OF j y pt] show "\<exists>e. ep_conflicts (sy_node S' y) p (cmd_K c) = Some e \<and> k \<le> e"
  proof (elim disjE conjE)
    assume "part n S y p k d" "cmds_of (leads n S') p k = cmds_of (leads n S) p k"
    with seen_noted [OF so y] cm obtain e where "ep_conflicts (sy_node S y) p (cmd_K c) = Some e" "k \<le> e" by metis
    moreover have "grows (ep_conflicts (sy_node S y)) (ep_conflicts (sy_node S' y))" using j by (simp add: joins_def)
    ultimately show ?thesis unfolding grows_def by (meson order_trans)
  next
    assume "y = x" "p = q" "k = i"
    with j cm show ?thesis by (simp add: joins_def)
  qed
qed

lemma joins_pairs:
  assumes j: "joins n S S' x q i ds cs" and S: "sys_ok n S" and vo: "votes_ok n S" and so: "seen_ok n S"
    and po: "pairs_ok n S" and x: "0 \<le> x" "x < n"
  shows "pairs_ok n S'"
proof -
  have new: "k \<le> ds ! nat p" if h: "part n S x p k d" "cmds_of (leads n S) p k = Some [c]"
      "cmds_of (leads n S') q i = Some [c']" "cmd_K c = cmd_K c'" "p \<noteq> q \<or> q = x" for p k d c c'
  proof -
    from seen_noted [OF so x h(1,2), of c] obtain e where "ep_conflicts (sy_node S x) p (cmd_K c) = Some e" "k \<le> e" by auto
    moreover have "cs = [c']" using j h(3) by (simp add: joins_def)
    moreover have "\<forall>c p e. cs = [c] \<longrightarrow> 0 \<le> p \<longrightarrow> p < n \<longrightarrow> p \<noteq> q \<or> q = x \<longrightarrow>
        ep_conflicts (sy_node S x) p (cmd_K c) = Some e \<longrightarrow> e \<le> ds ! nat p"
      using j by (simp add: joins_def)
    ultimately have "e \<le> ds ! nat p" using part_lead(2,3) [OF S vo x h(1)] h(4,5) by simp
    with \<open>k \<le> e\<close> show ?thesis by simp
  qed
  show ?thesis
    unfolding pairs_ok_def
  proof (intro allI impI)
    fix y p k d p' k' d' c c'
    assume y: "0 \<le> y" "y < n" and h: "part n S' y p k d" "part n S' y p' k' d'" "(p, k) \<noteq> (p', k')" "p \<noteq> p' \<or> p = y"
      "cmds_of (leads n S') p k = Some [c]" "cmds_of (leads n S') p' k' = Some [c']" "cmd_K c = cmd_K c'"
    from joins_part [OF j y h(1)] joins_part [OF j y h(2)] h(3) consider
        "part n S y p k d" "cmds_of (leads n S) p k = Some [c]" "part n S y p' k' d'" "cmds_of (leads n S) p' k' = Some [c']"
      | "part n S x p k d" "cmds_of (leads n S) p k = Some [c]" "y = x" "p' = q" "k' = i" "d' = ds"
      | "part n S x p' k' d'" "cmds_of (leads n S) p' k' = Some [c']" "y = x" "p = q" "k = i" "d = ds"
      using h(5,6) by metis
    then show "k \<le> d' ! nat p \<or> k' \<le> d ! nat p'"
    proof cases
      case 1
      with po y h(3,4,7) show ?thesis unfolding pairs_ok_def by blast
    next
      case 2
      with new [OF 2(1,2), of c'] h show ?thesis by auto
    next
      case 3
      with new [OF 3(1,2), of c] h show ?thesis by auto
    qed
  qed
qed

section \<open>A step of one replica\<close>

definition updated :: "epx_sys \<Rightarrow> int \<Rightarrow> Replica \<Rightarrow> (int \<times> nat) set \<Rightarrow> epx_sys" where
  "updated S x r' T = S\<lparr>sy_node := (sy_node S)(x := r'), sy_taken := T\<rparr>"

lemma updated_sel [simp]:
  "sy_node (updated S x r' T) = (sy_node S)(x := r')" "sy_taken (updated S x r' T) = T"
  by (simp_all add: updated_def)

lemma leads_updated:
  "0 \<le> x \<Longrightarrow> x < n \<Longrightarrow> leads n (updated S x r' T) = (leads n S)(x := ep_InstanceSpace r' x)"
  by (intro ext) (simp add: leads_def)

lemma leads_row: "0 \<le> x \<Longrightarrow> x < n \<Longrightarrow> leads n S x = ep_InstanceSpace (sy_node S x) x"
  by (intro ext) (simp add: leads_def)

lemma like_refl [simp]: "like L L"
  by (simp add: like_def)

lemma same_votes_updated:
  assumes x: "0 \<le> x" "x < n" and ms: "sends_more ms (sy_node S x) r'" "list_all silent ms"
    and g: "grows (ep_conflicts (sy_node S x)) (ep_conflicts r')"
    and l: "\<And>i. rel_option like (ep_InstanceSpace (sy_node S x) x i) (ep_InstanceSpace r' x i)"
    and a: "alive_peers r' = alive_peers (sy_node S x)" and T: "sy_taken S \<subseteq> T"
  shows "same_votes n S (updated S x r' T)"
  unfolding same_votes_def leads_updated [OF x]
  using silent_keeps [OF ms] g l a T leads_row [OF x, of S] by (auto simp: option.rel_refl)

lemma quorum_of_kept:
  assumes "quorum_of n S p i L Q" and "oks_of L' = oks_of L" and "ei_Deps L' = ei_Deps L" and "settled L' \<Longrightarrow> settled L"
    and "sy_taken S \<subseteq> sy_taken S'" and "\<And>x k m. voted (sy_node S x) k p i m \<Longrightarrow> voted (sy_node S' x) k p i m"
    and "vote_deps (leads n S') p i = vote_deps (leads n S) p i"
  shows "quorum_of n S' p i L' Q"
proof -
  have "counted n S' p i L' x" if "counted n S p i L x" for x
    using counted_kept [OF that assms(3,5) assms(6) assms(7)] by blast
  with assms(1,2,4) show ?thesis unfolding quorum_of_def by auto
qed

lemma held_kept:
  assumes "held n S p i L" and "calm L L'" and "sy_taken S \<subseteq> sy_taken S'"
    and "\<And>x k m. voted (sy_node S x) k p i m \<Longrightarrow> voted (sy_node S' x) k p i m"
    and "vote_deps (leads n S') p i = vote_deps (leads n S) p i"
  shows "held n S' p i L'"
  using assms quorum_of_kept [of n S p i L _ L' S'] unfolding held_def calm_def by metis

lemma order_plain:
  assumes ok: "order_ok n S" and x: "0 \<le> x" "x < n" and pl: "plain x (sy_node S x) r'" and T: "sy_taken S \<subseteq> T"
    and s: "sys_ok n (updated S x r' T)"
  shows "order_ok n (updated S x r' T)"
proof -
  let ?S = "updated S x r' T"
  from pl obtain ms where ms: "sends_more ms (sy_node S x) r'" "list_all silent ms"
    and g: "grows (ep_conflicts (sy_node S x)) (ep_conflicts r')" "alive_peers r' = alive_peers (sy_node S x)"
    and c: "\<And>i. rel_option calm (ep_InstanceSpace (sy_node S x) x i) (ep_InstanceSpace r' x i)"
    unfolding plain_def by blast
  have "rel_option like (ep_InstanceSpace (sy_node S x) x i) (ep_InstanceSpace r' x i)" for i
    by (rule option.rel_mono_strong [OF c]) (simp add: calm_def like_def)
  from same_votes_updated [OF x ms g(1) this g(2) T] have sv: "same_votes n S ?S" .
  have "quorum_ok n ?S"
    unfolding quorum_ok_def
  proof (intro allI impI)
    fix p i L' assume L': "leads n ?S p i = Some L'"
    obtain L where L: "leads n S p i = Some L" "calm L L'"
    proof (cases "p = x")
      case True
      with L' c [of i] that show thesis
        by (auto simp: leads_updated [OF x] leads_row [OF x] option_rel_Some2)
    next
      case False
      with L' that show thesis by (simp add: leads_updated [OF x])
    qed
    have "held n S p i L" using ok L(1) by (simp add: order_ok_def quorum_held)
    then show "held n ?S p i L'"
      by (rule held_kept [OF _ L(2)]) (use sv T same_votes_eqs(3) [OF sv] in \<open>auto simp: same_votes_def\<close>)
  qed
  with same_votes_keeps [OF sv ok] s show ?thesis by (simp add: order_ok_def)
qed

section \<open>Counting a vote\<close>

lemma vote_inst_arrives: "vote_inst (arrives m) = vote_inst m"
  by (cases m) simp_all

text \<open>The vote that is counted: its dependencies are in the leader's new copy, for the rows of a cluster of
  five.\<close>

lemma vote_covered:
  assumes n5: "n \<le> 5" and le: "deps_le (orig lead p i) (vote_deps lead p i m)" and len: "length (orig lead p i) = DS"
    and L': "deps_le (orig lead p i) (ei_Deps L')"
    and mm: "case arrives m of M_PreAcceptReply z \<Rightarrow>
        \<forall>q. 0 \<le> q \<longrightarrow> q < n \<longrightarrow> q \<noteq> p \<longrightarrow> par_Deps z ! nat q \<le> ei_Deps L' ! nat q | _ \<Rightarrow> True"
    and q: "0 \<le> q" "q < n" "q \<noteq> p"
  shows "vote_deps lead p i m ! nat q \<le> ei_Deps L' ! nat q"
proof (cases "\<exists>z. m = M_PreAcceptReply z")
  case True
  then obtain z where z: "m = M_PreAcceptReply z" by blast
  have "length (par_Deps z) = DS" using le len z by (simp add: deps_le_def vote_deps_def)
  moreover have "nat q < 5" using q n5 by linarith
  moreover have "(take 5 (par_Deps z) @ take 4 (par_CommittedDeps z)) ! nat q \<le> ei_Deps L' ! nat q"
    using mm q z by simp
  ultimately show ?thesis using z by (simp add: vote_deps_def nth_append DS_def)
next
  case False
  then have "vote_deps lead p i m = orig lead p i" by (cases m) (auto simp: vote_deps_def)
  moreover have "nat q < length (orig lead p i)" using q n5 len by (simp add: DS_def)
  ultimately show ?thesis using L' unfolding deps_le_def by simp
qed

lemma quorum_of_add:
  assumes Q: "quorum_of n S p i L Q" and k: "oks_of L = Some k" "oks_of L' = Some (k + 1)"
    and st: "settled L' \<longrightarrow> n div 2 \<le> k + 1" and y: "y \<notin> Q" "0 \<le> y" "y < n" "y \<noteq> p"
    and old: "\<And>z. z \<in> Q \<Longrightarrow> counted n S' p i L' z" and new: "counted n S' p i L' y"
  shows "quorum_of n S' p i L' (insert y Q)"
proof -
  have fin: "finite Q" using Q finite_subset [of Q "{0..<n} - {p}"] by (simp add: quorum_of_def)
  have "Q \<subseteq> {0..<n} - {p}" "k \<le> int (card Q)" using Q k by (auto simp: quorum_of_def)
  moreover have "int (card (insert y Q)) = int (card Q) + 1" using fin y by simp
  ultimately show ?thesis
    unfolding quorum_of_def using k(2) st y(2-4) old new by (intro conjI ballI exI [of _ "k + 1"]) auto
qed

lemma held_counting:
  assumes ok: "order_ok n S" and n5: "n \<le> 5" and L: "leads n S p i = Some L"
    and L': "orig_of L' = orig_of L" "oks_of L = Some o'" "oks_of L' = Some (o' + 1)"
      "settled L' \<longrightarrow> n div 2 \<le> o' + 1" "deps_le (ei_Deps L) (ei_Deps L')"
    and mm: "case arrives m of M_PreAcceptReply z \<Rightarrow>
        \<forall>q. 0 \<le> q \<longrightarrow> q < n \<longrightarrow> q \<noteq> p \<longrightarrow> par_Deps z ! nat q \<le> ei_Deps L' ! nat q | _ \<Rightarrow> True"
    and y: "0 \<le> y" "y < n" and fresh: "(y, k) \<notin> sy_taken S" and v: "voted (sy_node S y) k p i m"
    and sv: "same_votes n S S'" and T: "(y, k) \<in> sy_taken S'"
  shows "held n S' p i L'"
proof -
  have S: "sys_ok n S" and vo: "votes_ok n S" using ok by (simp_all add: order_ok_def)
  have "held n S p i L" using ok L by (simp add: order_ok_def quorum_held)
  then obtain ds Q where ds: "orig_of L = Some ds" "length ds = DS" "deps_le ds (ei_Deps L)"
    and Q: "quorum_of n S p i L Q" unfolding held_def by blast
  have or: "orig (leads n S) p i = ds" using L ds(1) by (simp add: orig_def)
  have dl: "deps_le ds (ei_Deps L')" using ds(3) L'(5) by (rule deps_le_trans)
  have up: "b \<le> ei_Deps L' ! nat q" if "b \<le> ei_Deps L ! nat q" "q < n" for b q
  proof -
    have "nat q < length (ei_Deps L)" using that(2) ds n5 by (simp add: DS_def deps_le_def)
    with L'(5) have "ei_Deps L ! nat q \<le> ei_Deps L' ! nat q" unfolding deps_le_def by blast
    with that(1) show ?thesis by linarith
  qed
  have vk: "voted (sy_node S' z) j p i m' = voted (sy_node S z) j p i m'" and T': "sy_taken S \<subseteq> sy_taken S'" for z j m'
    using sv by (simp_all add: same_votes_def)
  note vd = same_votes_eqs(3) [OF sv]
  have old: "counted n S' p i L' z" if z: "z \<in> Q" for z
  proof -
    from Q z obtain j m' where "(z, j) \<in> sy_taken S" "voted (sy_node S z) j p i m'"
      and "\<forall>q. 0 \<le> q \<longrightarrow> q < n \<longrightarrow> q \<noteq> p \<longrightarrow> vote_deps (leads n S) p i m' ! nat q \<le> ei_Deps L ! nat q"
      unfolding quorum_of_def counted_def by blast
    with up T' show ?thesis unfolding counted_def vd vk by (intro exI [of _ j] exI [of _ m']) auto
  qed
  have "vote_deps (leads n S) p i m ! nat q \<le> ei_Deps L' ! nat q" if "0 \<le> q" "q < n" "q \<noteq> p" for q
    by (rule vote_covered [OF n5 votes_above [OF vo y v] _ _ mm that]) (simp_all add: or ds dl)
  with v T have new: "counted n S' p i L' y" unfolding counted_def vd vk by blast
  have yQ: "y \<notin> Q"
  proof
    assume "y \<in> Q"
    with Q obtain j m' where "(y, j) \<in> sy_taken S" "voted (sy_node S y) j p i m'"
      unfolding quorum_of_def counted_def by blast
    with votes_once [OF vo y v] fresh show False by blast
  qed
  from quorum_of_add [OF Q L'(2,3,4) yQ y _ old new] voted_range(1) [OF S y v] L'(1) ds dl
  show ?thesis unfolding held_def by auto
qed

lemma order_counting:
  assumes ok: "order_ok n S" and n5: "n \<le> 5" and x: "0 \<le> x" "x < n"
    and c: "counting n x i (arrives m) (sy_node S x) r'"
    and y: "0 \<le> y" "y < n" and fresh: "(y, k) \<notin> sy_taken S"
    and sent: "k < length (ep_out (sy_node S y))" "ep_out (sy_node S y) ! k = Send x m"
    and s: "sys_ok n (updated S x r' (insert (y, k) (sy_taken S)))"
  shows "order_ok n (updated S x r' (insert (y, k) (sy_taken S)))"
proof -
  let ?S = "updated S x r' (insert (y, k) (sy_taken S))"
  from c obtain L L' o' ms where L: "ep_InstanceSpace (sy_node S x) x i = Some L"
    and row: "ep_InstanceSpace r' x = (ep_InstanceSpace (sy_node S x) x)(i := Some L')" "ei_Cmds L' = ei_Cmds L"
    and L': "orig_of L' = orig_of L" "oks_of L = Some o'" "oks_of L' = Some (o' + 1)"
      "settled L' \<longrightarrow> n div 2 \<le> o' + 1" "deps_le (ei_Deps L) (ei_Deps L')"
    and mm: "case arrives m of M_PreAcceptReply z \<Rightarrow>
        \<forall>q. 0 \<le> q \<longrightarrow> q < n \<longrightarrow> q \<noteq> x \<longrightarrow> par_Deps z ! nat q \<le> ei_Deps L' ! nat q | _ \<Rightarrow> True"
    and vi: "vote_inst (arrives m) = Some i"
    and ms: "sends_more ms (sy_node S x) r'" "list_all silent ms" and cf: "ep_conflicts r' = ep_conflicts (sy_node S x)"
    and al: "alive_peers r' = alive_peers (sy_node S x)"
    unfolding counting_def by (elim conjE exE) blast
  have "rel_option like (ep_InstanceSpace (sy_node S x) x j) (ep_InstanceSpace r' x j)" for j
    using L row L'(1) by (auto simp: like_def option.rel_refl)
  from same_votes_updated [OF x ms _ this al] cf have sv: "same_votes n S ?S" by auto
  have Lx: "leads n S x i = Some L" using L by (simp add: leads_row [OF x])
  have v: "voted (sy_node S y) k x i m" using sent vi by (simp add: voted_def vote_inst_arrives)
  have hx: "held n ?S x i L'" by (rule held_counting [OF ok n5 Lx L' mm y fresh v sv]) simp
  have "quorum_ok n ?S"
    unfolding quorum_ok_def
  proof (intro allI impI)
    fix p j M assume M: "leads n ?S p j = Some M"
    show "held n ?S p j M"
    proof (cases "(p, j) = (x, i)")
      case True
      with M row have "M = L'" by (simp add: leads_updated [OF x])
      with True hx show ?thesis by simp
    next
      case False
      with M row have "leads n S p j = Some M" by (auto simp: leads_updated [OF x] leads_row [OF x] split: if_splits)
      with ok have "held n S p j M" by (simp add: order_ok_def quorum_held)
      then show ?thesis
        by (rule held_kept [OF _ calm_refl]) (use sv same_votes_eqs(3) [OF sv] in \<open>auto simp: same_votes_def\<close>)
    qed
  qed
  with same_votes_keeps [OF sv ok] s show ?thesis by (simp add: order_ok_def)
qed

end
