(* ===== verification/Epx_Link.thy ===== *)
theory Epx_Link
  imports Epx_Wire
begin

text \<open>
  The connection from one original EPaxos replica to another (\<^verbatim>\<open>genericsmr.go\<close>): messages are marshalled
  into a bounded queue behind their code, one goroutine per peer writes the queue to the connection, and the
  peer's listener reads codes and messages back, for as long as it gets no error.
\<close>

section \<open>Message codes\<close>

text \<open>\<^verbatim>\<open>RegisterRPC\<close> gives out codes in the order of the calls in \<^verbatim>\<open>NewReplica\<close>, from one past the last code
  of the base protocol.\<close>

definition first_rpcCode :: nat where
  "first_rpcCode = unat GENERIC_SMR_BEACON_REPLY + 1"

definition as_msg :: "('a \<Rightarrow> 'b) \<Rightarrow> 'a reader \<Rightarrow> 'b reader" where
  "as_msg f m = andThen m (\<lambda>t. read_ok (f t))"

definition registered :: "epx_msg reader list" where
  "registered =
     [as_msg M_Prepare Prepare_Unmarshal, as_msg M_PrepareReply PrepareReply_Unmarshal,
      as_msg M_PreAccept PreAccept_Unmarshal, as_msg M_PreAcceptReply PreAcceptReply_Unmarshal,
      as_msg M_PreAcceptOK PreAcceptOK_Unmarshal, as_msg M_Accept Accept_Unmarshal,
      as_msg M_AcceptReply AcceptReply_Unmarshal, as_msg M_Commit Commit_Unmarshal,
      as_msg M_CommitShort CommitShort_Unmarshal, as_msg M_TryPreAccept TryPreAccept_Unmarshal,
      as_msg M_TryPreAcceptReply TryPreAcceptReply_Unmarshal]"

definition rpcTable :: "byte \<Rightarrow> epx_msg reader option" where
  "rpcTable c =
     (if first_rpcCode \<le> unat c \<and> unat c < first_rpcCode + length registered
      then Some (registered ! (unat c - first_rpcCode)) else None)"

fun rpc_position :: "epx_msg \<Rightarrow> nat" where
  "rpc_position (M_Prepare t) = 0"
| "rpc_position (M_PrepareReply t) = 1"
| "rpc_position (M_PreAccept t) = 2"
| "rpc_position (M_PreAcceptReply t) = 3"
| "rpc_position (M_PreAcceptOK i) = 4"
| "rpc_position (M_Accept t) = 5"
| "rpc_position (M_AcceptReply t) = 6"
| "rpc_position (M_Commit t) = 7"
| "rpc_position (M_CommitShort t) = 8"
| "rpc_position (M_TryPreAccept t) = 9"
| "rpc_position (M_TryPreAcceptReply t) = 10"

definition rpc_code :: "epx_msg \<Rightarrow> byte" where
  "rpc_code m = of_nat (first_rpcCode + rpc_position m)"

fun msg_Marshal :: "epx_msg \<Rightarrow> bytes" where
  "msg_Marshal (M_Prepare t) = Prepare_Marshal t"
| "msg_Marshal (M_PrepareReply t) = PrepareReply_Marshal t"
| "msg_Marshal (M_PreAccept t) = PreAccept_Marshal t"
| "msg_Marshal (M_PreAcceptReply t) = PreAcceptReply_Marshal t"
| "msg_Marshal (M_PreAcceptOK i) = PreAcceptOK_Marshal i"
| "msg_Marshal (M_Accept t) = Accept_Marshal t"
| "msg_Marshal (M_AcceptReply t) = AcceptReply_Marshal t"
| "msg_Marshal (M_Commit t) = Commit_Marshal t"
| "msg_Marshal (M_CommitShort t) = CommitShort_Marshal t"
| "msg_Marshal (M_TryPreAccept t) = TryPreAccept_Marshal t"
| "msg_Marshal (M_TryPreAcceptReply t) = TryPreAcceptReply_Marshal t"

text \<open>Two kinds of beacon share the connection.\<close>

datatype peer_msg = Protocol epx_msg | Beacon_of u64 | BeaconReply_of u64

section \<open>The sending side\<close>

definition outboxCap :: nat where "outboxCap = 1024"

record peer_link =
  pl_outbox :: "bytes list"
  pl_written :: bytes

fun peer_frame :: "peer_msg \<Rightarrow> bytes" where
  "peer_frame (Protocol m) = rpc_code m # msg_Marshal m"
| "peer_frame (Beacon_of ts) = GENERIC_SMR_BEACON # Beacon_Marshal \<lparr>bc_Timestamp = ts\<rparr>"
| "peer_frame (BeaconReply_of ts) = GENERIC_SMR_BEACON_REPLY # BeaconReply_Marshal \<lparr>bcr_Timestamp = ts\<rparr>"

text \<open>\<^verbatim>\<open>enqueue\<close> marshals at once, and waits (here: cannot step) while the queue is full.\<close>

definition enqueue :: "peer_msg \<Rightarrow> peer_link \<Rightarrow> peer_link option" where
  "enqueue m l =
     (if length (pl_outbox l) < outboxCap then Some (l\<lparr>pl_outbox := pl_outbox l @ [peer_frame m]\<rparr>) else None)"

text \<open>One turn of \<^verbatim>\<open>sender\<close>: the first message of the queue is written and flushed.\<close>

definition peer_sender :: "peer_link \<Rightarrow> peer_link option" where
  "peer_sender l = (case pl_outbox l of [] \<Rightarrow> None
     | om # oms \<Rightarrow> Some (l\<lparr>pl_outbox := oms, pl_written := pl_written l @ om\<rparr>))"

datatype link_step = Queue peer_msg | Write_One

fun link_do :: "link_step \<Rightarrow> peer_link \<Rightarrow> peer_link option" where
  "link_do (Queue m) l = enqueue m l"
| "link_do Write_One l = peer_sender l"

fun link_run :: "link_step list \<Rightarrow> peer_link \<Rightarrow> peer_link option" where
  "link_run [] l = Some l"
| "link_run (s # ss) l = Option.bind (link_do s l) (link_run ss)"

definition new_link :: peer_link where
  "new_link = \<lparr>pl_outbox = [], pl_written = []\<rparr>"

fun msgs_queued :: "link_step list \<Rightarrow> peer_msg list" where
  "msgs_queued [] = []"
| "msgs_queued (Queue m # ss) = m # msgs_queued ss"
| "msgs_queued (Write_One # ss) = msgs_queued ss"

fun writes_done :: "link_step list \<Rightarrow> nat" where
  "writes_done [] = 0"
| "writes_done (Queue m # ss) = writes_done ss"
| "writes_done (Write_One # ss) = Suc (writes_done ss)"

section \<open>The listener\<close>

text \<open>One turn of \<^verbatim>\<open>replicaListener\<close> after the code is read; an unknown code is reported and skipped, without
  the message that follows it.\<close>

definition wire_error :: "(io_error option \<times> 'a \<times> bytes) \<Rightarrow> (read_error + 'a) \<times> bytes" where
  "wire_error = (\<lambda>(e, x, r). (case e of None \<Rightarrow> Inr x | Some e \<Rightarrow> Inl (Short e), r))"

definition hear :: "byte \<Rightarrow> peer_msg option reader" where
  "hear c =
     (if c = GENERIC_SMR_BEACON
      then as_msg (\<lambda>b. Some (Beacon_of (bc_Timestamp b))) (\<lambda>r. wire_error (Beacon_Unmarshal \<lparr>bc_Timestamp = 0\<rparr> r))
      else if c = GENERIC_SMR_BEACON_REPLY
      then as_msg (\<lambda>b. Some (BeaconReply_of (bcr_Timestamp b)))
             (\<lambda>r. wire_error (BeaconReply_Unmarshal \<lparr>bcr_Timestamp = 0\<rparr> r))
      else case rpcTable c of
             Some u \<Rightarrow> as_msg (\<lambda>m. Some (Protocol m)) u
           | None \<Rightarrow> read_ok None)"

text \<open>Readers never give back more than they were given, so the loop ends with the stream.\<close>

definition consumes :: "'a reader \<Rightarrow> bool" where
  "consumes m \<longleftrightarrow> (\<forall>r. length (snd (m r)) \<le> length r)"

lemma consumes_andThen [intro]: "consumes m \<Longrightarrow> (\<And>x. consumes (f x)) \<Longrightarrow> consumes (andThen m f)"
  unfolding consumes_def andThen_def by (auto split: prod.splits sum.splits) (metis order_trans snd_conv)+

lemma consumes_got [intro, simp]: "consumes (read_ok x)"
  by (simp add: consumes_def read_ok_def)

lemma consumes_block [intro, simp]: "consumes (read_block n)"
  by (simp add: consumes_def read_block_def readFull_def)

lemma consumes_ReadUvarint: "length (snd (ReadUvarint_loop i x r)) \<le> length r"
proof (induction i x r rule: ReadUvarint_loop.induct)
  case (2 i x b r)
  then show ?case by (auto simp: le_SucI)
qed simp

lemma Command_Unmarshal_consumes: "Command_Unmarshal t r = (e, c, r') \<Longrightarrow> length r' \<le> length r"
  by (auto simp: Command_Unmarshal_def readFull_def Let_def split: if_splits)

lemma read_commands_consumes: "length (snd (read_commands n r)) \<le> length r"
proof (induction n arbitrary: r)
  case (Suc n)
  obtain e c r1 where c: "Command_Unmarshal zero_Command r = (e, c, r1)" by (cases "Command_Unmarshal zero_Command r")
  with Suc [of r1] Command_Unmarshal_consumes [OF c] show ?case by (auto split: prod.splits)
qed simp

lemma consumes_command_slice [intro, simp]: "consumes command_slice"
proof -
  have "consumes ReadVarint"
    unfolding ReadVarint_def by (intro consumes_andThen consumes_got) (simp add: consumes_def consumes_ReadUvarint)
  then show ?thesis unfolding command_slice_def
    by (rule consumes_andThen) (auto simp: consumes_def split: prod.splits, metis read_commands_consumes snd_conv)
qed

lemma consumes_as_msg [intro]: "consumes m \<Longrightarrow> consumes (as_msg f m)"
  unfolding as_msg_def by (intro consumes_andThen consumes_got)

lemma consumes_registered: "u \<in> set registered \<Longrightarrow> consumes u"
  by (auto simp: registered_def fixed_size_defs batch_defs PreAcceptReply_Unmarshal_def
    intro!: consumes_as_msg consumes_andThen)

lemma consumes_hear: "consumes (hear c)"
proof -
  have "consumes (\<lambda>r. wire_error (Beacon_Unmarshal t r))" for t
    by (auto simp: consumes_def wire_error_def Beacon_Unmarshal_def read_word_def readFull_def)
  moreover have "consumes (\<lambda>r. wire_error (BeaconReply_Unmarshal t r))" for t
    by (auto simp: consumes_def wire_error_def BeaconReply_Unmarshal_def read_word_def readFull_def)
  moreover have "consumes u" if "rpcTable c = Some u" for u
    using that by (auto simp: rpcTable_def split: if_splits intro!: consumes_registered nth_mem)
  ultimately show ?thesis by (auto simp: hear_def split: option.splits)
qed

lemma hear_shrinks: "hear c r = (x, r1) \<Longrightarrow> length r1 \<le> length r"
  using consumes_hear [of c] unfolding consumes_def by (metis snd_conv)

function replicaListener :: "bytes \<Rightarrow> peer_msg list \<times> read_error" where
  "replicaListener [] = ([], Short EOF)"
| "replicaListener (c # r) =
     (case hear c r of
        (Inl e, r1) \<Rightarrow> ([], e)
      | (Inr None, r1) \<Rightarrow> replicaListener r1
      | (Inr (Some m), r1) \<Rightarrow> (case replicaListener r1 of (ms, e) \<Rightarrow> (m # ms, e)))"
  by pat_completeness auto
termination
  by (relation "measure length") (auto dest!: hear_shrinks [OF sym])

section \<open>What the listener hears\<close>

fun hears :: "peer_msg \<Rightarrow> peer_msg" where
  "hears (Protocol m) = Protocol (arrives m)"
| "hears m = m"

fun peer_msg_fits :: "peer_msg \<Rightarrow> bool" where
  "peer_msg_fits (Protocol m) \<longleftrightarrow> msg_fits m"
| "peer_msg_fits m \<longleftrightarrow> True"

lemma rpcTable_code: "rpcTable (rpc_code m) = Some (registered ! rpc_position m)"
  "rpc_code m \<noteq> GENERIC_SMR_BEACON" "rpc_code m \<noteq> GENERIC_SMR_BEACON_REPLY"
  by (cases m; simp add: rpcTable_def rpc_code_def first_rpcCode_def registered_def
    GENERIC_SMR_BEACON_def GENERIC_SMR_BEACON_REPLY_def)+

lemma registered_reads:
  "msg_fits m \<Longrightarrow> (registered ! rpc_position m) (msg_Marshal m @ r) = (Inr (arrives m), r)"
  by (cases m) (simp_all add: registered_def as_msg_def read_ok_def clobbered_def
    prepare.andThen_dec prepare_reply.andThen_dec preaccept.andThen_dec preaccept_reply.andThen_dec
    preaccept_ok.andThen_dec accept.andThen_dec accept_reply.andThen_dec commit.andThen_dec
    commit_short.andThen_dec try_preaccept.andThen_dec try_preaccept_reply.andThen_dec)

lemma hear_frame:
  "peer_msg_fits m \<Longrightarrow> \<exists>c body. peer_frame m = c # body \<and> hear c (body @ r) = (Inr (Some (hears m)), r)"
proof (cases m)
  case (Protocol x)
  assume "peer_msg_fits m"
  with Protocol show ?thesis by (simp add: hear_def rpcTable_code as_msg_def andThen_def registered_reads read_ok_def)
next
  case (Beacon_of ts)
  then show ?thesis
    by (simp add: hear_def as_msg_def andThen_def wire_error_def read_ok_def)
next
  case (BeaconReply_of ts)
  then show ?thesis
    by (simp add: hear_def as_msg_def andThen_def wire_error_def read_ok_def
      GENERIC_SMR_BEACON_def GENERIC_SMR_BEACON_REPLY_def)
qed

lemma replicaListener_frame:
  assumes "peer_msg_fits m"
  shows "replicaListener (peer_frame m @ r) = (case replicaListener r of (ms, e) \<Rightarrow> (hears m # ms, e))"
proof -
  from hear_frame [OF assms, of r] obtain c body where
    "peer_frame m = c # body" "hear c (body @ r) = (Inr (Some (hears m)), r)" by blast
  then show ?thesis by simp
qed

lemma replicaListener_frames:
  "list_all peer_msg_fits ms \<Longrightarrow> replicaListener (concat (map peer_frame ms)) = (map hears ms, Short EOF)"
  by (induction ms) (simp_all add: replicaListener_frame)

lemma link_run_frames:
  "link_run ss l = Some l' \<Longrightarrow> pl_outbox l = map peer_frame ms \<Longrightarrow>
     writes_done ss \<le> length (ms @ msgs_queued ss)
     \<and> pl_written l' = pl_written l @ concat (map peer_frame (take (writes_done ss) (ms @ msgs_queued ss)))"
proof (induction ss arbitrary: l ms)
  case (Cons s ss)
  then obtain l1 where l1: "link_do s l = Some l1" "link_run ss l1 = Some l'" by (auto simp: Option.bind_eq_Some_conv)
  show ?case
  proof (cases s)
    case (Queue m)
    with l1(1) Cons.prems(2) have "pl_outbox l1 = map peer_frame (ms @ [m])" "pl_written l1 = pl_written l"
      by (auto simp: enqueue_def split: if_splits)
    with Cons.IH [OF l1(2), of "ms @ [m]"] Queue show ?thesis by simp
  next
    case Write_One
    with l1(1) Cons.prems(2) obtain m ms1 where "ms = m # ms1" "pl_outbox l1 = map peer_frame ms1"
      "pl_written l1 = pl_written l @ peer_frame m"
      by (auto simp: peer_sender_def split: list.splits)
    with Cons.IH [OF l1(2), of ms1] Write_One show ?thesis by simp
  qed
qed simp

text \<open>C19: A peer hears what was queued for it, in order: whatever the interleaving of queueing and writing,
  the listener reads from what has been written so far the first messages that were queued, one for each
  write, and nothing else; every message is as it was sent, only a \<^verbatim>\<open>PreAcceptReply\<close> has the dependencies on
  replicas 5 to 8 replaced by committed positions of replicas 0 to 3.\<close>

theorem peer_hears_in_order:
  assumes "link_run ss new_link = Some l" and "list_all peer_msg_fits (msgs_queued ss)"
  shows "writes_done ss \<le> length (msgs_queued ss)
    \<and> replicaListener (pl_written l) = (map hears (take (writes_done ss) (msgs_queued ss)), Short EOF)"
proof -
  have "list_all peer_msg_fits (take (writes_done ss) (msgs_queued ss))"
    using assms(2) by (auto simp: list_all_iff dest: in_set_takeD)
  from replicaListener_frames [OF this] link_run_frames [OF assms(1), of "[]"]
  show ?thesis by (simp add: new_link_def)
qed

definition sample_steps :: "link_step list" where
  "sample_steps =
     [Queue (Protocol (M_Accept \<lparr>ac_LeaderId = 0, ac_Replica = 0, ac_Instance = 3, ac_Ballot = 0, ac_Count = 1,
        ac_Seq = 2, ac_Deps = no_deps\<rparr>)), Queue (Beacon_of 77), Write_One]"

theorem peer_hears_in_order_witness:
  "\<exists>l. link_run sample_steps new_link = Some l
     \<and> fst (replicaListener (pl_written l)) = [hears (hd (msgs_queued sample_steps))]"
proof -
  have "list_all peer_msg_fits (msgs_queued sample_steps)"
    by (simp add: sample_steps_def fits32_def deps_fit_def no_deps_def DS_def list_all_iff)
  moreover obtain l where l: "link_run sample_steps new_link = Some l"
    by (simp add: sample_steps_def enqueue_def peer_sender_def new_link_def outboxCap_def)
  ultimately show ?thesis using peer_hears_in_order [OF l]
    by (simp add: sample_steps_def)
qed

section \<open>Announced sizes\<close>

text \<open>\<^verbatim>\<open>BinarySize\<close>: the size of the messages that have a fixed one.\<close>

fun BinarySize :: "epx_msg \<Rightarrow> nat option" where
  "BinarySize (M_PreAcceptReply t) = Some 73"
| "BinarySize (M_TryPreAcceptReply t) = Some 26"
| "BinarySize (M_CommitShort t) = Some 56"
| "BinarySize (M_PreAcceptOK i) = Some 4"
| "BinarySize (M_AcceptReply t) = Some 13"
| "BinarySize (M_Accept t) = Some 60"
| "BinarySize (M_Prepare t) = Some 16"
| "BinarySize m = None"

lemma BinarySize_is_size: "msg_fits m \<Longrightarrow> BinarySize m = Some n \<Longrightarrow> length (msg_Marshal m) = n"
  by (cases m) (auto simp: fixed_size_defs PreAcceptReply_bytes DS_def)

section \<open>The client's side\<close>

text \<open>One turn of \<^verbatim>\<open>clientListener\<close>: proposals go to the replica's channel; reads are parsed and dropped, and so
  is a code it does not know, without what follows it.\<close>

definition hear_client :: "byte \<Rightarrow> Propose option reader" where
  "hear_client c =
     (if c = PROPOSE then as_msg Some (\<lambda>r. wire_error (Propose_Unmarshal zero_Propose r))
      else if c = READ
      then as_msg (\<lambda>x. None) (\<lambda>r. wire_error (Read_Unmarshal \<lparr>rd_CommandId = 0, rd_Key = 0\<rparr> r))
      else if c = PROPOSE_AND_READ
      then as_msg (\<lambda>x. None)
             (\<lambda>r. wire_error (ProposeAndRead_Unmarshal \<lparr>par_CommandId = 0, par_Command = zero_Command, par_Key = 0\<rparr> r))
      else read_ok None)"

lemma consumes_wire_error:
  "(\<And>e x r r'. u r = (e, x, r') \<Longrightarrow> length r' \<le> length r) \<Longrightarrow> consumes (\<lambda>r. wire_error (u r))"
  unfolding consumes_def wire_error_def by (auto split: prod.splits)

lemma client_messages_consume:
  "Propose_Unmarshal t r = (e, x, r') \<Longrightarrow> length r' \<le> length r"
  "Read_Unmarshal t1 r = (e, x1, r') \<Longrightarrow> length r' \<le> length r"
  "ProposeAndRead_Unmarshal t2 r = (e, x2, r') \<Longrightarrow> length r' \<le> length r"
  by (auto simp: Propose_Unmarshal_def Read_Unmarshal_def ProposeAndRead_Unmarshal_def Key_Unmarshal_def
    read_word_def readFull_def Let_def Command_Unmarshal_def split: if_splits prod.splits)

lemma hear_client_shrinks: "hear_client c r = (x, r1) \<Longrightarrow> length r1 \<le> length r"
proof -
  have "consumes (hear_client c)"
    by (auto simp: hear_client_def intro!: consumes_as_msg consumes_wire_error dest: client_messages_consume)
  then show "hear_client c r = (x, r1) \<Longrightarrow> length r1 \<le> length r" unfolding consumes_def by (metis snd_conv)
qed

function clientListener :: "bytes \<Rightarrow> Propose list \<times> read_error" where
  "clientListener [] = ([], Short EOF)"
| "clientListener (c # r) =
     (case hear_client c r of
        (Inl e, r1) \<Rightarrow> ([], e)
      | (Inr None, r1) \<Rightarrow> clientListener r1
      | (Inr (Some p), r1) \<Rightarrow> (case clientListener r1 of (ps, e) \<Rightarrow> (p # ps, e)))"
  by pat_completeness auto
termination
  by (relation "measure length") (auto dest!: hear_client_shrinks [OF sym])

text \<open>The client writes \<^verbatim>\<open>PROPOSE\<close> and the proposal; the replica gets the client's proposals in order.\<close>

lemma clientListener_proposals:
  "clientListener (concat (map (\<lambda>p. PROPOSE # Propose_Marshal p) ps)) = (ps, Short EOF)"
  by (induction ps) (simp_all add: hear_client_def as_msg_def andThen_def wire_error_def read_ok_def Propose_dec_enc)

end
