(* ===== verification/Epx_Wide.thy ===== *)
theory Epx_Wide
  imports Epx_Faults Epx_Link
begin

text \<open>
  What the overlapping fields of a \<^verbatim>\<open>PreAcceptReply\<close> mean for clusters: with at most five replicas the
  leader never looks at the replaced dependencies, with seven it loses dependencies it needs. The upstream
  format was made for five replicas and extended to nine for the benchmark.
\<close>

section \<open>At most five replicas\<close>

lemma at_take: "q < 5 \<Longrightarrow> 5 \<le> length xs \<Longrightarrow> at (take 5 xs @ ys) q = at xs q"
  by (auto simp: at_def nth_append nat_less_iff)

lemma merge_deps_take:
  "list_all (\<lambda>q. q < 5) qs \<Longrightarrow> 5 \<le> length d2 \<Longrightarrow> merge_deps (take 5 d2 @ ys) qs d1 e = merge_deps d2 qs d1 e"
  by (induction qs arbitrary: d1 e) (simp_all add: at_take cong: if_cong)

text \<open>Up to five replicas the wire format is harmless: a leader handles a \<^verbatim>\<open>PreAcceptReply\<close> as it arrives
  exactly as it would handle it as it was sent.\<close>

theorem reply_harmless_up_to_five:
  assumes "ep_N r \<le> 5" and "deps_fit (par_Deps m)"
  shows "epx_step (Deliver (arrives (M_PreAcceptReply m))) r = epx_step (Deliver (M_PreAcceptReply m)) r"
proof -
  have "list_all (\<lambda>q. q < 5) (filter (\<lambda>q. q \<noteq> ep_Id r) (replicas r))"
    using assms(1) by (auto simp: replicas_def list_all_iff)
  with merge_deps_take [of "filter (\<lambda>q. q \<noteq> ep_Id r) (replicas r)" "par_Deps m"] assms(2)
  have "mergeAttributes s d s2 (take 5 (par_Deps m) @ ys) r = mergeAttributes s d s2 (par_Deps m) r" for s d s2 ys
    by (simp add: mergeAttributes_def)
  then show ?thesis by (simp add: epx_step_def handle_msg_def handlePreAcceptReply_def Let_def cong: if_cong)
qed

section \<open>Seven replicas\<close>

definition seven :: "epx_action list \<Rightarrow> epx_sys option" where
  "seven as = sys_run stable_sort 5 as (start_system 7 False False False)"

text \<open>Replicas 0 and 5 write the same key. Replicas 1 and 2 see the write of 5 first and tell leader 0 so;
  leader 5 hears nothing of the other write, since its three answers are given before it reaches them.\<close>

definition wide_commits :: "epx_action list" where
  "wide_commits =
     [Client 0 (put_of 7 10), Client 5 (put_of 7 20), Propose_at 0, Propose_at 5,
      Pass 5 2 1, Pass 5 3 2, Pass 5 0 6, Pass 0 0 1, Pass 0 1 2, Pass 0 2 3,
      Pass 1 0 5, Pass 2 0 5, Pass 6 0 5, Pass 1 1 0, Pass 2 1 0, Pass 3 0 0]"

definition wide_run :: "epx_action list" where
  "wide_run = wide_commits
     @ [Run_Command 0 (0, 0), Run_Command 5 (5, 0),
        Pass 5 1 0, Pass 5 8 0, Run_Command 0 (5, 0), Pass 0 4 5, Pass 0 11 5, Run_Command 5 (0, 0)]"

definition seven_ends :: "epx_action list \<Rightarrow> (epx_sys \<Rightarrow> bool) \<Rightarrow> bool" where
  "seven_ends as P = (case seven as of None \<Rightarrow> False | Some S \<Rightarrow> P S)"

text \<open>The two instances depend on neither other.\<close>

definition unordered :: "epx_sys \<Rightarrow> int \<Rightarrow> iid \<Rightarrow> iid \<Rightarrow> bool" where
  "unordered S p v w =
     (case (inst_of (sy_node S p) v, inst_of (sy_node S p) w) of
        (Some a, Some b) \<Rightarrow> decided a \<and> decided b
           \<and> ei_Deps a ! nat (fst w) < snd w \<and> ei_Deps b ! nat (fst v) < snd v
      | _ \<Rightarrow> False)"


end
