(* ===== verification/Epx_Order.thy ===== *)
theory Epx_Order
  imports Epx_Quorum Epx_Wide
begin

text \<open>
  Casting votes and creating instances keep the invariants of \<^verbatim>\<open>Epx_Quorum\<close>, so they hold in every run without
  recovery, and two committed instances of one key are ordered by their dependencies.
\<close>

section \<open>Casting a vote\<close>

lemma cast_kept:
  "sends_more ms (sy_node S x) r' \<Longrightarrow> voted (sy_node S y) j p i z \<Longrightarrow> voted (sy_node (updated S x r' T) y) j p i z"
  using voted_kept by (cases "y = x") auto

lemma cast_more:
  assumes "sends_more [Send q m] (sy_node S x) r'" and "vote_inst m = Some i"
    and "voted (sy_node (updated S x r' T) y) j p k z"
  shows "voted (sy_node S y) j p k z \<or> y = x \<and> p = q \<and> k = i \<and> z = m \<and> length (ep_out (sy_node S x)) \<le> j"
  using assms voted_more [OF assms(1), of j p k z] by (cases "y = x") auto

lemma cast_asks:
  assumes sm: "sends_more [Send q m] (sy_node S x) r'" and vi: "vote_inst m = Some i"
  shows "asked (sy_node (updated S x r' T) y) = asked (sy_node S y)"
proof -
  have "ask_inst m = None" using vi by (cases m) auto
  then have "asked r' j d i z \<longleftrightarrow> asked (sy_node S x) j d i z" for j d i z
    using asked_more [OF sm] asked_kept [OF sm] by fastforce
  then show ?thesis by (auto simp: fun_eq_iff)
qed

text \<open>A vote follows an unanswered request, so there was none before.\<close>

lemma not_yet_voted:
  assumes "asks_ok n S" and "votes_ok n S" and "0 \<le> x" and "x < n" and "0 \<le> q" and "q < n"
    and "asked (sy_node S q) k x i m" and "(q, k) \<notin> sy_taken S"
  shows "\<not> voted (sy_node S x) j q i z"
proof
  assume "voted (sy_node S x) j q i z"
  from votes_asked [OF assms(2,3,4) this] obtain j' m' where "(q, j') \<in> sy_taken S" "asked (sy_node S q) j' x i m'"
    by blast
  with asks_once [OF assms(1,5,6) _ assms(7)] assms(8) show False by blast
qed

lemma cast_votes_ok:
  assumes ao: "asks_ok n S" and vo: "votes_ok n S" and x: "0 \<le> x" "x < n" and q: "0 \<le> q" "q < n"
    and sm: "sends_more [Send q m] (sy_node S x) r'" and vi: "vote_inst m = Some i"
    and ask: "asked (sy_node S q) k x i z0" and fresh: "(q, k) \<notin> sy_taken S"
    and ld: "leads n (updated S x r' (insert (q, k) (sy_taken S))) = leads n S"
    and le: "deps_le (orig (leads n S) q i) (vote_deps (leads n S) q i m)"
  shows "votes_ok n (updated S x r' (insert (q, k) (sy_taken S)))"
  unfolding votes_ok_def ld cast_asks [OF sm vi]
proof (intro allI impI conjI)
  let ?S = "updated S x r' (insert (q, k) (sy_taken S))"
  fix y j p l z assume y: "0 \<le> y" "y < n" and v: "voted (sy_node ?S y) j p l z"
  note more = cast_more [OF sm vi]
  show "\<exists>j m'. (p, j) \<in> sy_taken ?S \<and> asked (sy_node S p) j y l m'"
    using more [OF v] votes_asked [OF vo y, of j p l z] ask by auto
  show "deps_le (orig (leads n S) p l) (vote_deps (leads n S) p l z)"
    using more [OF v] votes_above [OF vo y, of j p l z] le by auto
  fix j' z' assume v': "voted (sy_node ?S y) j' p l z'"
  show "j = j'"
  proof (cases "y = x \<and> p = q \<and> l = i")
    case True
    with more [OF v] more [OF v'] not_yet_voted [OF ao vo x q ask fresh] have "z = m" "z' = m"
      "length (ep_out (sy_node S x)) \<le> j" "length (ep_out (sy_node S x)) \<le> j'" by auto
    with v v' True sent_once [OF sm, of j j' q m] show ?thesis by (auto simp: voted_def)
  next
    case False
    with more [OF v] more [OF v'] votes_once [OF vo y] show ?thesis by blast
  qed
qed

lemma order_voting:
  assumes ok: "order_ok n S" and x: "0 \<le> x" "x < n" and q: "0 \<le> q" "q < n" "q \<noteq> x"
    and vt: "voting n x q a (sy_node S x) r'" and fresh: "(q, k) \<notin> sy_taken S"
    and sent: "k < length (ep_out (sy_node S q))" "ep_out (sy_node S q) ! k = Send x (M_PreAccept a)"
    and s: "sys_ok n (updated S x r' (insert (q, k) (sy_taken S)))"
  shows "order_ok n (updated S x r' (insert (q, k) (sy_taken S)))"
proof -
  let ?S = "updated S x r' (insert (q, k) (sy_taken S))" and ?i = "pac_Instance a"
  have S: "sys_ok n S" and ao: "asks_ok n S" and vo: "votes_ok n S" and so: "seen_ok n S" and po: "pairs_ok n S"
    using ok by (simp_all add: order_ok_def)
  from vt obtain m ds where sm: "sends_more [Send q m] (sy_node S x) r'" and vi: "vote_inst m = Some ?i"
    and ds: "ds = (case m of M_PreAcceptReply y \<Rightarrow> par_Deps y | _ \<Rightarrow> pac_Deps a)" and le: "deps_le (pac_Deps a) ds"
    and cov: "\<And>c p e. pac_Command a = [c] \<Longrightarrow> 0 \<le> p \<Longrightarrow> p < n \<Longrightarrow> p \<noteq> q \<Longrightarrow>
              ep_conflicts (sy_node S x) p (cmd_K c) = Some e \<Longrightarrow> e \<le> ds ! nat p"
    and cn: "conflicts_noted (pac_Command a) q ?i (sy_node S x) r'"
    and row: "ep_InstanceSpace r' x = ep_InstanceSpace (sy_node S x) x" and al: "alive_peers r' = alive_peers (sy_node S x)"
    unfolding voting_def by (elim conjE exE) blast
  have ld: "leads n ?S = leads n S" using row by (simp add: leads_updated [OF x] fun_upd_idem leads_row [OF x])
  have ask: "asked (sy_node S q) k x ?i (M_PreAccept a)" using sent by (simp add: asked_def)
  obtain L a' where "M_PreAccept a = M_PreAccept a'" "leads n S q ?i = Some L" "ei_Cmds L = Some (pac_Command a')"
    by (rule asked_lead [OF S q(1,2) ask]) (rule that)
  then have cm: "cmds_of (leads n S) q ?i = Some (pac_Command a)" by (simp add: cmds_of_def)
  from asks_orig [OF ao q(1,2) ask] have "pac_Deps a = orig (leads n S) q ?i" by simp
  with ds le have vd: "vote_deps (leads n S) q ?i m = ds" "deps_le (orig (leads n S) q ?i) ds"
    by (auto simp: vote_deps_def split: epx_msg.splits)
  have parts: "part n S y p j d \<or> y = x \<and> p = q \<and> j = ?i \<and> d = ds" if "part n ?S y p j d" for y p j d
    using that cast_more [OF sm vi] vd(1) unfolding part_def ld by blast
  have parts': "part n S y p j d \<and> leads n S p j \<noteq> None \<or> y = x \<and> p = q \<and> j = ?i \<and> d = ds"
    if "0 \<le> y" "y < n" "part n ?S y p j d" for y p j d
    using parts [OF that(3)] part_lead(1) [OF S vo that(1,2)] by metis
  have jn: "joins n S ?S x q ?i ds (pac_Command a)"
    unfolding joins_def ld
  proof (intro conjI)
    show "\<forall>y p j d. 0 \<le> y \<longrightarrow> y < n \<longrightarrow> part n ?S y p j d \<longrightarrow>
        part n S y p j d \<and> leads n S p j \<noteq> None \<or> y = x \<and> p = q \<and> j = ?i \<and> d = ds"
      by (intro allI impI parts')
  qed (use cm conflicts_noted_grows [OF cn] conflicts_noted_notes [OF cn] cov q(3) in auto)
  have "quorum_ok n ?S"
    unfolding quorum_ok_def ld
  proof (intro allI impI)
    fix p j L assume "leads n S p j = Some L"
    with ok have "held n S p j L" by (simp add: order_ok_def quorum_held)
    then show "held n ?S p j L"
      by (rule held_kept [OF _ calm_refl]) (use cast_kept [OF sm] in \<open>auto simp: ld\<close>)
  qed
  moreover have "asks_ok n ?S" using ao unfolding asks_ok_def cast_asks [OF sm vi] ld .
  moreover have "votes_ok n ?S" by (rule cast_votes_ok [OF ao vo x q(1,2) sm vi ask fresh ld]) (simp add: vd)
  moreover have "peers_ok n ?S" using ok al by (simp add: order_ok_def peers_ok_def)
  ultimately show ?thesis using s joins_seen [OF jn so] joins_pairs [OF jn S vo so po x] by (simp add: order_ok_def)
qed

section \<open>Creating an instance\<close>

lemma create_asks_ok:
  assumes S: "sys_ok n S" and ao: "asks_ok n S" and x: "0 \<le> x" "x < n" and fresh: "leads n S x i = None"
    and sm: "sends_more (map (\<lambda>d. Send d (M_PreAccept a)) ps) (sy_node S x) r'" and dp: "distinct ps"
    and a: "pac_Instance a = i" "pac_Deps a = orig (leads n (updated S x r' T)) x i"
    and other: "\<And>p j. leads n S p j \<noteq> None \<Longrightarrow> orig (leads n (updated S x r' T)) p j = orig (leads n S) p j"
  shows "asks_ok n (updated S x r' T)"
  unfolding asks_ok_def
proof (intro allI impI conjI)
  let ?S = "updated S x r' T"
  have more: "asked (sy_node S y) k d j m \<or> y = x \<and> j = i \<and> m = M_PreAccept a \<and> length (ep_out (sy_node S x)) \<le> k"
    if "asked (sy_node ?S y) k d j m" for y k d j m
    using that asked_more [OF sm, of k d j m] a(1) by (cases "y = x") auto
  fix p k d j m assume p: "0 \<le> p" "p < n" and k: "asked (sy_node ?S p) k d j m"
  have lead: "leads n S p j \<noteq> None" if "asked (sy_node S p) k d j m" for k d j m
    using asked_lead [OF S p that] by (metis option.distinct(1))
  from more [OF k] show "\<exists>a. m = M_PreAccept a \<and> pac_Deps a = orig (leads n ?S) p j"
    using asks_orig [OF ao p, of k d j m] other lead a(2) by auto
  fix k' m' assume k': "asked (sy_node ?S p) k' d j m'"
  show "k = k'"
  proof (cases "p = x \<and> j = i")
    case True
    with more [OF k] more [OF k'] lead fresh have n: "m = M_PreAccept a" "m' = M_PreAccept a"
      "length (ep_out (sy_node S x)) \<le> k" "length (ep_out (sy_node S x)) \<le> k'" by blast+
    have "distinct (map (\<lambda>d. Send d (M_PreAccept a)) ps)" using dp by (simp add: distinct_map inj_on_def)
    from sent_once [OF sm this n(3,4)] k k' True n(1,2) show ?thesis by (auto simp: asked_def)
  next
    case False
    with more [OF k] more [OF k'] asks_once [OF ao p] show ?thesis by blast
  qed
qed

lemma create_votes_ok:
  assumes S: "sys_ok n S" and vo: "votes_ok n S"
    and v: "\<And>y. voted (sy_node S' y) = voted (sy_node S y)" and t: "sy_taken S' = sy_taken S"
    and ak: "\<And>y k d j m. asked (sy_node S y) k d j m \<Longrightarrow> asked (sy_node S' y) k d j m"
    and other: "\<And>p j. leads n S p j \<noteq> None \<Longrightarrow>
      orig (leads n S') p j = orig (leads n S) p j \<and> vote_deps (leads n S') p j = vote_deps (leads n S) p j"
  shows "votes_ok n S'"
  unfolding votes_ok_def v t
proof (intro allI impI conjI)
  fix y j p k m assume y: "0 \<le> y" "y < n" and m: "voted (sy_node S y) j p k m"
  from votes_asked [OF vo y m] ak show "\<exists>j m'. (p, j) \<in> sy_taken S \<and> asked (sy_node S' p) j y k m'" by blast
  show "deps_le (orig (leads n S') p k) (vote_deps (leads n S') p k m)"
    using votes_above [OF vo y m] other [OF voted_lead [OF S vo y m]] by simp
  fix j' m' assume "voted (sy_node S y) j' p k m'"
  with votes_once [OF vo y m] show "j = j'" by blast
qed

lemma create_quorum_ok:
  assumes qo: "quorum_ok n S" and v: "\<And>y. voted (sy_node S' y) = voted (sy_node S y)" and t: "sy_taken S' = sy_taken S"
    and L: "orig_of L = Some ds" "length ds = DS" "ei_Deps L = ds" "oks_of L = Some 0" "\<not> settled L"
    and ld: "leads n S' = (\<lambda>p j. if p = x \<and> j = i then Some L else leads n S p j)"
    and other: "\<And>p j. leads n S p j \<noteq> None \<Longrightarrow> vote_deps (leads n S') p j = vote_deps (leads n S) p j"
  shows "quorum_ok n S'"
  unfolding quorum_ok_def
proof (intro allI impI)
  fix p j M assume M: "leads n S' p j = Some M"
  show "held n S' p j M"
  proof (cases "p = x \<and> j = i")
    case True
    with M L have "quorum_of n S' p j M {}" by (simp add: ld quorum_of_def)
    with True M L show ?thesis by (auto simp: held_def ld)
  next
    case False
    with M have M0: "leads n S p j = Some M" by (simp add: ld split: if_splits)
    from quorum_held [OF qo M0] show ?thesis
      by (rule held_kept [OF _ calm_refl]) (use other [of p j] M0 v t in auto)
  qed
qed

lemma order_creating:
  assumes ok: "order_ok n S" and x: "0 \<le> x" "x < n" and cr: "creating n x (sy_node S x) r'"
    and s: "sys_ok n (updated S x r' (sy_taken S))"
  shows "order_ok n (updated S x r' (sy_taken S))"
proof -
  let ?S = "updated S x r' (sy_taken S)" and ?r = "sy_node S x"
  have S: "sys_ok n S" and ao: "asks_ok n S" and vo: "votes_ok n S" and so: "seen_ok n S" and po: "pairs_ok n S"
    and pe: "distinct (bcast_peers ?r)" using ok by (simp_all add: order_ok_def peers_ok_def bcast_peers_def)
  from cr obtain i L cs ds a where none: "ep_InstanceSpace ?r x i = None"
    and row: "ep_InstanceSpace r' x = (ep_InstanceSpace ?r x)(i := Some L)"
    and L: "ei_Cmds L = Some cs" "ei_Deps L = ds" "orig_of L = Some ds" "oks_of L = Some 0" "\<not> settled L" "length ds = DS"
    and sm: "sends_more (map (\<lambda>d. Send d (M_PreAccept a)) (bcast_peers ?r)) ?r r'"
    and a: "pac_Instance a = i" "pac_Deps a = ds" and cn: "conflicts_noted cs x i ?r r'"
    and cov: "\<And>c p e. cs = [c] \<Longrightarrow> 0 \<le> p \<Longrightarrow> p < n \<Longrightarrow> ep_conflicts ?r p (cmd_K c) = Some e \<Longrightarrow> e \<le> ds ! nat p"
    and al: "alive_peers r' = alive_peers ?r"
    unfolding creating_def by (elim conjE exE) blast
  have ld: "leads n ?S = (\<lambda>p j. if p = x \<and> j = i then Some L else leads n S p j)"
    using row by (auto simp: fun_eq_iff leads_updated [OF x] leads_row [OF x])
  have fresh: "leads n S x i = None" using none by (simp add: leads_row [OF x])
  have other: "orig (leads n ?S) p j = orig (leads n S) p j" "cmds_of (leads n ?S) p j = cmds_of (leads n S) p j"
    "vote_deps (leads n ?S) p j = vote_deps (leads n S) p j" if "leads n S p j \<noteq> None" for p j
    using that fresh by (auto simp: ld orig_def cmds_of_def vote_deps_def fun_eq_iff split: epx_msg.splits)
  have mine: "orig (leads n ?S) x i = ds" "cmds_of (leads n ?S) x i = Some cs"
    using L by (simp_all add: ld orig_def cmds_of_def)
  have v: "voted (sy_node ?S y) = voted (sy_node S y)" for y
    using voted_more [OF sm] voted_kept [OF sm] by (fastforce simp: fun_eq_iff)
  have ak: "asked (sy_node ?S y) k d j m" if "asked (sy_node S y) k d j m" for y k d j m
    using that asked_kept [OF sm] by (cases "y = x") simp_all
  have parts: "part n S y p j d \<and> leads n S p j \<noteq> None \<or> y = x \<and> p = x \<and> j = i \<and> d = ds"
    if y: "0 \<le> y" "y < n" and pt: "part n ?S y p j d" for y p j d
  proof (cases "y = p")
    case True
    with pt other [of p j] mine show ?thesis by (cases "leads n S p j") (auto simp: part_def ld split: if_splits)
  next
    case False
    with pt obtain k m where m: "voted (sy_node S y) k p j m" "d = vote_deps (leads n ?S) p j m"
      unfolding part_def v by blast
    with voted_lead [OF S vo y m(1)] other(3) False show ?thesis by (auto simp: part_def)
  qed
  have jn: "joins n S ?S x x i ds cs"
    unfolding joins_def
    using parts other(2) mine(2) conflicts_noted_grows [OF cn] conflicts_noted_notes [OF cn] cov by auto
  have "votes_ok n ?S"
    by (rule create_votes_ok [OF S vo v]) (use ak other in auto)
  moreover have "quorum_ok n ?S"
    by (rule create_quorum_ok [where L = L and ds = ds]) (use ok L ld v other(3) in \<open>simp_all add: order_ok_def\<close>)
  moreover have "asks_ok n ?S"
    by (rule create_asks_ok [OF S ao x fresh sm pe a(1)]) (simp_all add: a mine other)
  moreover have "peers_ok n ?S" using ok al by (simp add: order_ok_def peers_ok_def)
  ultimately show ?thesis using s joins_seen [OF jn so] joins_pairs [OF jn S vo so po x] by (simp add: order_ok_def)
qed

section \<open>Runs\<close>

lemma Deliver_kind:
  assumes ok: "node_ok n lead x r" and h: "epx_step (Deliver m) r = Some r'" and q: "q \<noteq> x" and m: "msg_ok lead q x m"
  shows "plain x r r' \<or> (\<exists>a. m = M_PreAccept a \<and> voting n x q a r r') \<or> (\<exists>i. counting n x i m r r')"
proof (cases m)
  case (M_PreAccept a)
  with h have "handlePreAccept a r = Some r'" by (simp add: epx_step_def handle_msg_def)
  from handlePreAccept_kind [OF ok this q] m M_PreAccept show ?thesis by blast
next
  case (M_PreAcceptReply y)
  with h handlePreAcceptReply_kind [OF ok, of y r'] m show ?thesis by (auto simp: epx_step_def handle_msg_def)
next
  case (M_PreAcceptOK i)
  with h handlePreAcceptOK_kind [OF ok, of i r'] show ?thesis by (auto simp: epx_step_def handle_msg_def)
next
  case (M_Accept y)
  with h handleAccept_plain [OF ok _ q, of y r'] m show ?thesis by (simp add: epx_step_def handle_msg_def)
next
  case (M_AcceptReply y)
  with h handleAcceptReply_plain [OF ok, of y r'] m show ?thesis by (simp add: epx_step_def handle_msg_def)
next
  case (M_Commit y)
  with h handleCommit_plain [of y r r' q x lead] q m show ?thesis by (simp add: epx_step_def handle_msg_def)
next
  case (M_CommitShort y)
  with h handleCommitShort_plain [OF ok _ q, of y r'] m show ?thesis by (simp add: epx_step_def handle_msg_def)
qed (use m in simp_all)

lemma on_node_updated:
  assumes "on_node q f S = Some S'" and "\<And>p. ep_N (sy_node S p) = n"
  obtains r' where "0 \<le> q" and "q < n" and "f (sy_node S q) = Some r'" and "S' = updated S q r' (sy_taken S)"
  using assms by (auto simp: on_node_def row_ok_def updated_def split: if_splits)

lemma creating_chan: "creating n x (r\<lparr>ep_ProposeChan := c\<rparr>) r' = creating n x r r'"
proof -
  have "bcast_peers (r\<lparr>ep_ProposeChan := c\<rparr>) = bcast_peers r" "alive_peers (r\<lparr>ep_ProposeChan := c\<rparr>) = alive_peers r"
    by (simp_all add: bcast_peers_def alive_peers_def quorum_peers_def)
  then show ?thesis by (simp add: creating_def sends_more_def conflicts_noted_def)
qed

lemma order_pass:
  assumes ok: "order_ok n S" and n5: "n \<le> 5" and h: "pass p k q S = Some S'" and s: "sys_ok n S'"
  shows "order_ok n S'"
proof -
  have S: "sys_ok n S" and N: "ep_N (sy_node S p) = n" for p using ok by (simp_all add: order_ok_def sys_ok_def)
  let ?T = "insert (p, k) (sy_taken S)"
  from h N obtain m where p: "0 \<le> p" "p < n" "(p, k) \<notin> sy_taken S"
    and m: "message_at (ep_out (sy_node S p)) k q = Some m"
    and o': "on_node q (epx_step (Deliver (arrives m))) (S\<lparr>sy_taken := ?T\<rparr>) = Some S'"
    by (auto simp: pass_def row_ok_def split: if_splits option.splits)
  from on_node_updated [OF o', of n] N obtain r' where q: "0 \<le> q" "q < n"
    and e: "epx_step (Deliver (arrives m)) (sy_node S q) = Some r'" and S': "S' = updated S q r' ?T"
    by (auto simp: updated_def)
  from m have sent: "k < length (ep_out (sy_node S p))" "ep_out (sy_node S p) ! k = Send q m"
    by (auto simp: message_at_def split: if_splits epx_out.splits)
  then have "Send q m \<in> set (ep_out (sy_node S p))" by (metis nth_mem)
  from sys_sent [OF S p(1,2) this] have qp: "q \<noteq> p" "msg_ok (leads n S) p q (arrives m)" by simp_all
  have "node_ok n (leads n S) q (sy_node S q)" using S q by (simp add: sys_ok_def)
  from Deliver_kind [OF this e qp(1) [symmetric] qp(2)] show ?thesis
  proof (elim disjE exE conjE)
    assume "plain q (sy_node S q) r'"
    from order_plain [OF ok q this] s show ?thesis unfolding S' by blast
  next
    fix a assume a: "arrives m = M_PreAccept a" "voting n q p a (sy_node S q) r'"
    then have "m = M_PreAccept a" by (cases m) simp_all
    with order_voting [OF ok q p(1,2) qp(1) [symmetric] a(2) p(3)] sent s show ?thesis unfolding S' by blast
  next
    fix i assume "counting n q i (arrives m) (sy_node S q) r'"
    from order_counting [OF ok n5 q this p sent] s show ?thesis unfolding S' by blast
  qed
qed

lemma order_do:
  assumes ok: "order_ok n S" and n5: "n \<le> 5" and srt: "sorts_by_seq srt" and h: "sys_do srt k a S = Some S'"
    and nr: "\<And>q rep i. a \<noteq> Start_Recovery q rep i"
  shows "order_ok n S'"
proof -
  have S: "sys_ok n S" and N: "ep_N (sy_node S p) = n" for p using ok by (simp_all add: order_ok_def sys_ok_def)
  have s: "sys_ok n S'" using sys_do_ok [OF S srt h nr] by simp
  have pl: "order_ok n S'" if "on_node q f S = Some S'"
    and "\<And>r'. f (sy_node S q) = Some r' \<Longrightarrow> plain q (sy_node S q) r'" for q f
  proof -
    from on_node_updated [OF that(1) N] obtain r' where "0 \<le> q" "q < n" "f (sy_node S q) = Some r'"
      and S': "S' = updated S q r' (sy_taken S)" .
    with order_plain [OF ok, of q r' "sy_taken S"] that(2) s show ?thesis by simp
  qed
  show ?thesis
  proof (cases a)
    case (Client q p)
    with h show ?thesis
      by (intro pl [of q "epx_step (Arrive p)"])
        (auto simp: epx_step_def intro!: plain_quiet simp: quiet_def same_static_def sends_more_def)
  next
    case (Propose_at q)
    with h have "on_node q (epx_step Take_Propose) S = Some S'" by simp
    from on_node_updated [OF this N] obtain r' where q: "0 \<le> q" "q < n" and e: "epx_step Take_Propose (sy_node S q) = Some r'"
      and S': "S' = updated S q r' (sy_taken S)" .
    have nq: "node_ok n (leads n S) q (sy_node S q)" using S q by (simp add: sys_ok_def)
    show ?thesis
    proof (cases "ep_ProposeChan (sy_node S q)")
      case Nil
      with e have "plain q (sy_node S q) r'" using plain_quiet [OF quiet_refl grows_refl] by (simp add: epx_step_def)
      from order_plain [OF ok q this] s S' show ?thesis by simp
    next
      case (Cons x xs)
      let ?r = "sy_node S q\<lparr>ep_ProposeChan := xs\<rparr>"
      from e Cons have "handlePropose x ?r = Some r'" by (simp add: epx_step_def)
      from handlePropose_creates [OF _ this] nq have "creating n q ?r r'" by (simp add: node_ok_chan)
      then have "creating n q (sy_node S q) r'" by (simp only: creating_chan)
      from order_creating [OF ok q this] s S' show ?thesis by simp
    qed
  next
    case (Pass p i q)
    with h show ?thesis using order_pass [OF ok n5 _ s] by simp
  next
    case (Run_Command q v)
    with h show ?thesis by (intro pl [of q "run_command srt k v"] plain_exec run_command_rel [OF _ srt]) simp_all
  next
    case (Advance q v)
    with h show ?thesis
      by (intro pl [of q "advance_past v"])
        (auto simp: advance_past_def advance_def quiet_def same_static_def sends_more_def
          intro!: plain_quiet split: if_splits)
  qed (use nr in simp)
qed

lemma order_run:
  "sys_run srt k as S = Some S' \<Longrightarrow> order_ok n S \<Longrightarrow> n \<le> 5 \<Longrightarrow> sorts_by_seq srt \<Longrightarrow> no_recovery as \<Longrightarrow> order_ok n S'"
proof (induction as arbitrary: S)
  case (Cons a as)
  from Cons.prems(1) obtain S1 where S1: "sys_do srt k a S = Some S1" "sys_run srt k as S1 = Some S'"
    by (auto split: option.splits)
  from Cons.prems(5) have "order_ok n S1"
    by (intro order_do [OF Cons.prems(2-4) S1(1)]) (auto simp: no_recovery_Cons)
  with Cons.IH [OF S1(2)] Cons.prems show ?case by (simp add: no_recovery_Cons)
qed simp

lemma distinct_fold_add: "distinct a \<Longrightarrow> distinct (fold (\<lambda>p a. if p \<in> set a then a else a @ [p]) ps a)"
  by (induction ps arbitrary: a) auto

lemma distinct_peers:
  assumes "0 < n"
  shows "distinct (ep_PreferredPeerOrder (starting_replica q n thrifty dreply durable))"
proof -
  have "distinct (map (\<lambda>i. (q + 1 + i) mod n) [0..n - 1])"
  proof (simp add: distinct_map inj_on_def, intro ballI impI)
    fix i j assume i: "i \<in> {0..n - 1}" and j: "j \<in> {0..n - 1}" and e: "(q + 1 + i) mod n = (q + 1 + j) mod n"
    then have "n dvd (q + 1 + i) - (q + 1 + j)" by (simp only: mod_eq_dvd_iff)
    then have "i mod n = j mod n" by (simp add: mod_eq_dvd_iff)
    with i j show "i = j" by simp
  qed
  moreover have "distinct (filter (\<lambda>p. p \<noteq> 0) [0..n div 2])" by simp
  ultimately show ?thesis
    by (auto simp: starting_replica_def NewReplica_def UpdatePreferredPeerOrder_def Let_def intro: distinct_fold_add)
qed

lemma order_start:
  assumes "0 < n"
  shows "order_ok n (start_system n thrifty dreply durable)"
proof -
  let ?S = "start_system n thrifty dreply durable"
  have o': "ep_out (sy_node ?S q) = []" "ep_InstanceSpace (sy_node ?S q) x i = None" for q x i
    by (simp_all add: start_system_def starting_replica_def NewReplica_def UpdatePreferredPeerOrder_def Let_def)
  have l: "leads n ?S p i = None" for p i by (simp add: leads_def o')
  have v: "\<not> voted (sy_node ?S q) k p i m" "\<not> asked (sy_node ?S q) k p i m" for q k p i m
    by (simp_all add: voted_def asked_def o')
  have "peers_ok n ?S"
    using distinct_peers [OF assms] by (simp add: peers_ok_def start_system_def alive_peers_def)
  with start_ok [OF assms] l v show ?thesis
    by (simp add: order_ok_def asks_ok_def votes_ok_def seen_ok_def pairs_ok_def quorum_ok_def part_def)
qed

section \<open>Conflicting commits are ordered\<close>

text \<open>Everyone a decided instance counts on took part with dependencies that its leader has.\<close>

lemma quorum_parts:
  assumes ok: "order_ok n S" and n5: "n \<le> 5" and L: "leads n S p i = Some L" and st: "settled L"
  obtains P where "P \<subseteq> {0..<n}" and "n div 2 + 1 \<le> int (card P)"
    and "\<And>x. x \<in> P \<Longrightarrow> \<exists>ds. part n S x p i ds \<and> (\<forall>q. 0 \<le> q \<longrightarrow> q < n \<longrightarrow> q \<noteq> p \<longrightarrow> ds ! nat q \<le> ei_Deps L ! nat q)"
proof -
  from ok L obtain ds Q where ds: "orig_of L = Some ds" "length ds = DS" "deps_le ds (ei_Deps L)"
    and Q: "quorum_of n S p i L Q" unfolding order_ok_def quorum_ok_def held_def by blast
  have p: "0 \<le> p" "p < n" using leads_range [OF L] by simp_all
  have fin: "finite Q" "p \<notin> Q" "Q \<subseteq> {0..<n}" using Q finite_subset [of Q "{0..<n} - {p}"] by (auto simp: quorum_of_def)
  show thesis
  proof (rule that [of "insert p Q"])
    show "insert p Q \<subseteq> {0..<n}" using fin p by simp
    show "n div 2 + 1 \<le> int (card (insert p Q))" using fin Q st by (simp add: quorum_of_def)
    fix x assume x: "x \<in> insert p Q"
    show "\<exists>ds. part n S x p i ds \<and> (\<forall>q. 0 \<le> q \<longrightarrow> q < n \<longrightarrow> q \<noteq> p \<longrightarrow> ds ! nat q \<le> ei_Deps L ! nat q)"
    proof (cases "x = p")
      case True
      have "orig (leads n S) p i = ds" using L ds by (simp add: orig_def)
      with True L have "part n S x p i ds" by (simp add: part_def)
      moreover have "ds ! nat q \<le> ei_Deps L ! nat q" if "q < n" for q
        using ds that n5 by (simp add: deps_le_def DS_def)
      ultimately show ?thesis by blast
    next
      case False
      with x Q have "counted n S p i L x" by (simp add: quorum_of_def)
      with False show ?thesis unfolding counted_def part_def by blast
    qed
  qed
qed

lemma majorities_meet:
  assumes "P \<subseteq> {0..<n}" and "Q \<subseteq> {0..<n}" and "n div 2 + 1 \<le> int (card P)" and "n div 2 + 1 \<le> int (card Q)" and "0 \<le> n"
  obtains x where "x \<in> P" and "x \<in> Q"
proof -
  have f: "finite P" "finite Q" using assms(1,2) finite_subset by blast+
  have "P \<inter> Q \<noteq> {}"
  proof
    assume "P \<inter> Q = {}"
    with f have "card P + card Q = card (P \<union> Q)" by (simp add: card_Un_disjoint)
    also have "\<dots> \<le> card {0..<n}" using assms(1,2) by (intro card_mono) auto
    finally have "card P + card Q \<le> nat n" by simp
    then have "int (card P) + int (card Q) \<le> max n 0" by linarith
    with assms(3,4,5) show False by presburger
  qed
  with that show thesis by blast
qed

lemma settled_pair:
  assumes ok: "order_ok n S" and n5: "n \<le> 5"
    and L: "leads n S p i = Some L" "settled L" "ei_Cmds L = Some [c]"
    and M: "leads n S q j = Some M" "settled M" "ei_Cmds M = Some [d]"
    and ne: "(p, i) \<noteq> (q, j)" and k: "cmd_K c = cmd_K d"
  shows "i \<le> ei_Deps M ! nat p \<or> j \<le> ei_Deps L ! nat q"
proof -
  have po: "pairs_ok n S" using ok by (simp add: order_ok_def)
  have p: "0 \<le> p" "p < n" and q: "0 \<le> q" "q < n" using leads_range [OF L(1)] leads_range [OF M(1)] by simp_all
  have cm: "cmds_of (leads n S) p i = Some [c]" "cmds_of (leads n S) q j = Some [d]" using L M by (simp_all add: cmds_of_def)
  show ?thesis
  proof (cases "p = q")
    case True
    from ok L obtain ds where ds: "orig_of L = Some ds" "length ds = DS" "deps_le ds (ei_Deps L)"
      unfolding order_ok_def quorum_ok_def held_def by blast
    from ok M obtain es where es: "orig_of M = Some es" "length es = DS" "deps_le es (ei_Deps M)"
      unfolding order_ok_def quorum_ok_def held_def by blast
    have "part n S p p i ds" "part n S p q j es" using True L M ds es by (simp_all add: part_def orig_def)
    with po p cm ne k have "i \<le> es ! nat p \<or> j \<le> ds ! nat q" unfolding pairs_ok_def by blast
    moreover have "nat p < length es" "nat q < length ds" using p q n5 ds(2) es(2) by (simp_all add: DS_def)
    ultimately show ?thesis using ds(3) es(3) unfolding deps_le_def by (metis order_trans)
  next
    case False
    from quorum_parts [OF ok n5 L(1,2)] obtain P where P: "P \<subseteq> {0..<n}" "n div 2 + 1 \<le> int (card P)"
      "\<And>x. x \<in> P \<Longrightarrow> \<exists>ds. part n S x p i ds \<and> (\<forall>q. 0 \<le> q \<longrightarrow> q < n \<longrightarrow> q \<noteq> p \<longrightarrow> ds ! nat q \<le> ei_Deps L ! nat q)" by blast
    from quorum_parts [OF ok n5 M(1,2)] obtain Q where Q: "Q \<subseteq> {0..<n}" "n div 2 + 1 \<le> int (card Q)"
      "\<And>x. x \<in> Q \<Longrightarrow> \<exists>ds. part n S x q j ds \<and> (\<forall>p. 0 \<le> p \<longrightarrow> p < n \<longrightarrow> p \<noteq> q \<longrightarrow> ds ! nat p \<le> ei_Deps M ! nat p)" by blast
    from majorities_meet [OF P(1) Q(1) P(2) Q(2)] p obtain x where x: "x \<in> P" "x \<in> Q" by (metis order.strict_implies_order order_le_less_trans)
    from P(3) [OF x(1)] obtain ds where ds: "part n S x p i ds" "ds ! nat q \<le> ei_Deps L ! nat q" using q False by blast
    from Q(3) [OF x(2)] obtain es where es: "part n S x q j es" "es ! nat p \<le> ei_Deps M ! nat p" using p False by blast
    have "0 \<le> x" "x < n" using x P(1) by auto
    with po ds(1) es(1) ne False cm k have "i \<le> es ! nat p \<or> j \<le> ds ! nat q" unfolding pairs_ok_def by blast
    with ds(2) es(2) show ?thesis by linarith
  qed
qed

text \<open>C4: Conflicting commands are ordered: in a cluster of up to five replicas, in a run in which messages are lost,
  delayed and reordered but nothing is recovered, whenever two replicas hold two different committed instances of
  one command each on the same key, one of the two committed dependencies covers the other instance.\<close>

theorem conflicting_commits_are_ordered:
  assumes "0 < n" and "n \<le> 5" and "sorts_by_seq srt"
    and "sys_run srt k as (start_system n thrifty dreply durable) = Some S" and "no_recovery as"
    and "0 \<le> x" and "x < n" and "inst_of (sy_node S x) (p, i) = Some a" and "decided a" and "ei_Cmds a = Some [c]"
    and "0 \<le> y" and "y < n" and "inst_of (sy_node S y) (q, j) = Some b" and "decided b" and "ei_Cmds b = Some [d]"
    and "(p, i) \<noteq> (q, j)" and "cmd_K c = cmd_K d"
  shows "i \<le> ei_Deps b ! nat p \<or> j \<le> ei_Deps a ! nat q"
proof -
  have ok: "order_ok n S" by (rule order_run [OF assms(4) order_start [OF assms(1)] assms(2,3,5)])
  then have S: "sys_ok n S" by (simp add: order_ok_def)
  from decided_copy [OF S assms(6-9)] assms(10) obtain L where
    L: "leads n S p i = Some L" "decided L" "ei_Deps a = ei_Deps L" "ei_Cmds L = Some [c]" by blast
  from decided_copy [OF S assms(11-14)] assms(15) obtain M where
    M: "leads n S q j = Some M" "decided M" "ei_Deps b = ei_Deps M" "ei_Cmds M = Some [d]" by blast
  from settled_pair [OF ok assms(2) L(1) _ L(4) M(1) _ M(4) assms(16,17)] L(2,3) M(2,3)
  show ?thesis by (simp add: settled_def)
qed

definition crossing_decided :: "epx_sys \<Rightarrow> bool" where
  "crossing_decided S = (case (inst_of (sy_node S 0) (0, 0), inst_of (sy_node S 1) (1, 0)) of
     (Some a, Some b) \<Rightarrow> decided a \<and> decided b \<and> ei_Cmds a = Some [pr_Command (cp_Propose (put_of 7 10))]
        \<and> ei_Cmds b = Some [pr_Command (cp_Propose (put_of 7 20))] | _ \<Rightarrow> False)"

lemma crossing_pair: "no_recovery crossing_writes \<and> ends_with crossing_writes crossing_decided"
  by code_simp

theorem conflicting_commits_are_ordered_witness:
  "\<exists>S a b. three crossing_writes = Some S \<and> inst_of (sy_node S 0) (0, 0) = Some a \<and> inst_of (sy_node S 1) (1, 0) = Some b
     \<and> (0 \<le> ei_Deps b ! 0 \<or> 0 \<le> ei_Deps a ! 1)"
proof -
  from crossing_pair obtain S a b where S: "three crossing_writes = Some S" and nr: "no_recovery crossing_writes"
    and a: "inst_of (sy_node S 0) (0, 0) = Some a" "decided a" "ei_Cmds a = Some [pr_Command (cp_Propose (put_of 7 10))]"
    and b: "inst_of (sy_node S 1) (1, 0) = Some b" "decided b" "ei_Cmds b = Some [pr_Command (cp_Propose (put_of 7 20))]"
    by (auto simp: ends_with_def crossing_decided_def split: option.splits)
  have n: "0 < (3::int)" "(3::int) \<le> 5" "0 \<le> (0::int)" "0 < (3::int)" "0 \<le> (1::int)" "1 < (3::int)"
    "(0::int, 0::int) \<noteq> (1, 0)" "cmd_K (pr_Command (cp_Propose (put_of 7 10))) = cmd_K (pr_Command (cp_Propose (put_of 7 20)))"
    by (simp_all add: put_of_def)
  from conflicting_commits_are_ordered [OF n(1,2) stable_sort_sorts S [unfolded three_def] nr n(3,4) a n(5,6) b n(7,8)]
  have "0 \<le> ei_Deps b ! 0 \<or> 0 \<le> ei_Deps a ! 1" by simp
  with S a b show ?thesis by blast
qed

end
