(* ===== verification/Float64.thy ===== *)
theory Float64
  imports Complex_Main Prelude
begin

text \<open>
  Go's \<^verbatim>\<open>float64\<close> as the code uses it: a rational number, and \<open>f64\<close>, the IEEE 754 rounding to 53
  significant bits, ties to even, applied after each operation. The configuration's values are
  finite decimal numbers of ordinary size, so overflow to infinity and the subnormal range, which
  \<open>f64\<close> does not treat, do not occur.
\<close>

type_synonym float64 = rat

fun bit_count :: "nat \<Rightarrow> nat" where
  "bit_count n = (if n = 0 then 0 else Suc (bit_count (n div 2)))"

declare bit_count.simps [simp del]

definition pow2 :: "int \<Rightarrow> rat" where
  "pow2 e = (if 0 \<le> e then 2 ^ nat e else 1 / 2 ^ nat (- e))"

definition round_half_even :: "rat \<Rightarrow> int" where
  "round_half_even y =
     (let f = \<lfloor>y\<rfloor>; d = y - of_int f
      in if d < 1 / 2 then f else if 1 / 2 < d then f + 1 else if even f then f else f + 1)"

definition f64 :: "rat \<Rightarrow> float64" where
  "f64 x =
     (if x = 0 then 0
      else let (p, q) = quotient_of \<bar>x\<bar>;
               e0 = int (bit_count (nat p)) - int (bit_count (nat q));
               e = (if pow2 e0 \<le> \<bar>x\<bar> then e0 else e0 - 1);
               u = pow2 (e - 52)
           in sgn x * (of_int (round_half_even (\<bar>x\<bar> / u)) * u))"

lemma bit_count_bounds: "0 < n \<Longrightarrow> 2 ^ (bit_count n - 1) \<le> n \<and> n < 2 ^ bit_count n"
proof (induction n rule: bit_count.induct)
  case (1 n)
  show ?case
  proof (cases "n = 1")
    case True
    then show ?thesis by (simp add: bit_count.simps [of "Suc 0"] bit_count.simps [of 0])
  next
    case False
    with "1.prems" have half: "0 < n div 2" by (simp add: div_greater_zero_iff)
    with "1.IH" "1.prems" have IH: "2 ^ (bit_count (n div 2) - 1) \<le> n div 2" "n div 2 < 2 ^ bit_count (n div 2)"
      by simp_all
    have "0 < bit_count (n div 2)" using half by (simp add: bit_count.simps [of "n div 2"])
    then obtain k where k: "bit_count (n div 2) = Suc k" by (cases "bit_count (n div 2)") auto
    have "bit_count n = Suc (Suc k)" using "1.prems" k by (simp add: bit_count.simps [of n])
    with IH k show ?thesis by simp linarith
  qed
qed

lemma round_half_even_of_int [simp]: "round_half_even (of_int z) = z"
  by (simp add: round_half_even_def)

lemma f64_0 [simp]: "f64 0 = 0"
  by (simp add: f64_def)

text \<open>Integers below \<open>2 ^ 53\<close> are represented exactly.\<close>

lemma f64_of_nat:
  assumes "n < 2 ^ 53"
  shows "f64 (of_nat n) = of_nat n"
proof (cases "n = 0")
  case True
  then show ?thesis by simp
next
  case False
  define b where "b = bit_count n"
  have b: "2 ^ (b - 1) \<le> n" "n < 2 ^ b" using bit_count_bounds [of n] False by (auto simp: b_def)
  have "b - 1 < 53"
    using b (1) assms by (meson le_less_trans less_exp nat_power_less_imp_less power_strict_increasing_iff
        one_less_numeral_iff semiring_norm(76))
  then have b53: "b \<le> 53" by simp
  have bpos: "0 < b" using b (2) False by (cases b) auto
  have q: "quotient_of (of_nat n) = (int n, 1)"
    using quotient_of_int [of "int n"] by (simp add: Rat.of_int_def)
  have one: "bit_count (Suc 0) = 1" by (simp add: bit_count.simps [of "Suc 0"] bit_count.simps [of 0])
  have e: "pow2 (int b - 1) \<le> of_nat n"
  proof -
    have "nat (int b - 1) = b - 1" by simp
    moreover have "(of_nat (2 ^ (b - 1)) :: rat) \<le> of_nat n" using b (1) of_nat_le_iff by blast
    ultimately show ?thesis using bpos by (simp add: pow2_def)
  qed
  have u: "pow2 (int b - 53) = 1 / 2 ^ (53 - b)"
  proof (cases "b = 53")
    case True
    then show ?thesis by (simp add: pow2_def)
  next
    case False
    with b53 have "nat (- (int b - 53)) = 53 - b" by simp
    with False b53 show ?thesis by (simp add: pow2_def)
  qed
  have "round_half_even (of_nat n / pow2 (int b - 53)) = int n * 2 ^ (53 - b)"
    using round_half_even_of_int [of "int n * 2 ^ (53 - b)"] by (simp add: u)
  then have m: "pow2 (int b - 53) * of_int (round_half_even (of_nat n / pow2 (int b - 53))) = of_nat n"
    by (simp add: u)
  show ?thesis
    using False q one e m by (simp add: f64_def Let_def b_def [symmetric] mult.commute)
qed

end
