(* ===== verification/Lab_Config.thy ===== *)
theory Lab_Config
  imports Float64
begin

text \<open>
  The experiment configuration (\<^verbatim>\<open>lab/internal/labcfg/labcfg.go\<close>): the \<^verbatim>\<open>Run\<close> and
  \<^verbatim>\<open>Failure\<close> structs, the effective implementation, persistence and emulation settings, the
  defaults, and \<^verbatim>\<open>Validate\<close> with one error constructor per \<^verbatim>\<open>return\<close>, in the code's order.
  File input and JSON decoding (\<^verbatim>\<open>Load\<close>) are not modelled beyond the decoded value.
\<close>

type_synonym FailureMode = string

definition FailureNone :: FailureMode where "FailureNone = ''none''"
definition FailureLeader :: FailureMode where "FailureLeader = ''leader''"
definition FailureFollower :: FailureMode where "FailureFollower = ''follower''"
definition FailureReplica :: FailureMode where "FailureReplica = ''replica''"
definition FailureElection :: FailureMode where "FailureElection = ''election''"
definition FailurePartition :: FailureMode where "FailurePartition = ''partition''"

lemmas failure_mode_defs =
  FailureNone_def FailureLeader_def FailureFollower_def FailureReplica_def FailureElection_def
  FailurePartition_def

record Failure =
  f_Mode :: FailureMode
  f_AtS :: float64
  f_RestartAfterS :: float64
  f_FailedElections :: int

record Run =
  r_Experiment :: string
  r_Protocol :: string
  r_Replicas :: int
  r_ReadPct :: int
  r_WritePct :: int
  r_Concurrency :: int
  r_DurationS :: int
  r_WarmupS :: int
  r_Repetitions :: int
  r_Failure :: Failure
  r_ReplicaCPUs :: float64
  r_ReplicaMemMB :: int
  r_ClientCPUs :: float64
  r_ClientMemMB :: int
  r_MasterCPUs :: float64
  r_MasterMemMB :: int
  r_Keyspace :: int
  r_TimeoutMS :: int
  r_Seed :: int
  r_ConflictPct :: int
  r_HotKeys :: int
  r_Implementation :: string
  r_GOMAXPROCS :: int
  r_RaftHeartbeatMS :: int
  r_RaftElectionMS :: int
  r_RaftSnapshotThr :: int
  r_RaftTrailingLogs :: int
  r_CommCostMS :: int
  r_CommJitterPct :: int
  r_PersistenceMode :: string
  r_NetworkDelayMS :: int
  r_NetworkEmulationMethod :: string
  r_NetworkInterface :: string
  r_NetworkFilter :: string
  r_Correctness :: int
  r_ValueBase :: int

section \<open>Implementations and persistence\<close>

definition ImplHashicorp :: string where "ImplHashicorp = ''hashicorp''"
definition ImplEtcd :: string where "ImplEtcd = ''etcd''"
definition ImplEtcdCore :: string where "ImplEtcdCore = ''etcd-core''"
definition ImplOriginal :: string where "ImplOriginal = ''original''"
definition ImplNVB :: string where "ImplNVB = ''nvb''"

lemmas impl_defs = ImplHashicorp_def ImplEtcd_def ImplEtcdCore_def ImplOriginal_def ImplNVB_def

definition PrimaryImpl :: "string \<Rightarrow> string" where
  "PrimaryImpl protocol = (if protocol = ''epaxos'' then ImplOriginal else ImplHashicorp)"

definition Impl :: "Run \<Rightarrow> string" where
  "Impl r = (if r_Implementation r \<noteq> [] then r_Implementation r else PrimaryImpl (r_Protocol r))"

definition IsPrimary :: "Run \<Rightarrow> bool" where
  "IsPrimary r \<longleftrightarrow> Impl r = PrimaryImpl (r_Protocol r)"

definition ImplSupported :: "string \<Rightarrow> string \<Rightarrow> bool" where
  "ImplSupported protocol impl \<longleftrightarrow>
     (if protocol = ''raft'' then impl = ImplHashicorp \<or> impl = ImplEtcd \<or> impl = ImplEtcdCore
      else if protocol = ''epaxos'' then impl = ImplOriginal \<or> impl = ImplNVB
      else False)"

definition PersistDurable :: string where "PersistDurable = ''durable''"
definition PersistMemory :: string where "PersistMemory = ''memory''"

definition NetEmuTCNetem :: string where "NetEmuTCNetem = ''tc-netem''"
definition NetFilterPeers :: string where "NetFilterPeers = ''peers''"
definition NetFilterAll :: string where "NetFilterAll = ''all''"
definition NetIfaceEth0 :: string where "NetIfaceEth0 = ''eth0''"
definition MaxNetworkDelayMS :: int where "MaxNetworkDelayMS = 100"

definition DefaultPersistence :: "string \<Rightarrow> string" where
  "DefaultPersistence impl =
     (if impl = ImplHashicorp \<or> impl = ImplEtcd then PersistDurable else PersistMemory)"

definition Persist :: "Run \<Rightarrow> string" where
  "Persist r = (if r_PersistenceMode r \<noteq> [] then r_PersistenceMode r else DefaultPersistence (Impl r))"

definition PersistSupported :: "string \<Rightarrow> string \<Rightarrow> bool" where
  "PersistSupported impl mode \<longleftrightarrow>
     (if impl = ImplHashicorp \<or> impl = ImplEtcd \<or> impl = ImplOriginal
      then mode = PersistDurable \<or> mode = PersistMemory
      else if impl = ImplEtcdCore \<or> impl = ImplNVB then mode = PersistMemory
      else False)"

definition PersistModes :: "string \<Rightarrow> string list" where
  "PersistModes impl =
     (if impl = ImplHashicorp \<or> impl = ImplEtcd \<or> impl = ImplOriginal
      then [PersistDurable, PersistMemory]
      else if impl = ImplEtcdCore \<or> impl = ImplNVB then [PersistMemory]
      else [])"

definition NetworkEmulated :: "Run \<Rightarrow> bool" where
  "NetworkEmulated r \<longleftrightarrow> r_NetworkDelayMS r > 0"

definition EmulationMethod :: "Run \<Rightarrow> string" where
  "EmulationMethod r = (if r_NetworkEmulationMethod r \<noteq> [] then r_NetworkEmulationMethod r else NetEmuTCNetem)"

definition EmulationIface :: "Run \<Rightarrow> string" where
  "EmulationIface r = (if r_NetworkInterface r \<noteq> [] then r_NetworkInterface r else NetIfaceEth0)"

definition EmulationFilter :: "Run \<Rightarrow> string" where
  "EmulationFilter r = (if r_NetworkFilter r \<noteq> [] then r_NetworkFilter r else NetFilterPeers)"

definition no_failure :: Failure where
  "no_failure = \<lparr>f_Mode = FailureNone, f_AtS = 0, f_RestartAfterS = 0, f_FailedElections = 0\<rparr>"

definition Default :: Run where
  "Default =
     \<lparr>r_Experiment = [], r_Protocol = ''raft'', r_Replicas = 3, r_ReadPct = 50, r_WritePct = 50,
      r_Concurrency = 32, r_DurationS = 60, r_WarmupS = 10, r_Repetitions = 3,
      r_Failure = no_failure, r_ReplicaCPUs = 2, r_ReplicaMemMB = 512, r_ClientCPUs = 2,
      r_ClientMemMB = 512, r_MasterCPUs = 1, r_MasterMemMB = 256, r_Keyspace = 1000,
      r_TimeoutMS = 2000, r_Seed = 42, r_ConflictPct = 0, r_HotKeys = 1, r_Implementation = [],
      r_GOMAXPROCS = 4, r_RaftHeartbeatMS = 1000, r_RaftElectionMS = 2000,
      r_RaftSnapshotThr = 8192, r_RaftTrailingLogs = 1024, r_CommCostMS = 0, r_CommJitterPct = 0,
      r_PersistenceMode = [], r_NetworkDelayMS = 0, r_NetworkEmulationMethod = [],
      r_NetworkInterface = [], r_NetworkFilter = [], r_Correctness = 0, r_ValueBase = 0\<rparr>"

section \<open>Validation\<close>

definition iface_char :: "char \<Rightarrow> bool" where
  "iface_char c \<longleftrightarrow>
     (let n = (of_char c :: nat) in
      (97 \<le> n \<and> n \<le> 122) \<or> (65 \<le> n \<and> n \<le> 90) \<or> (48 \<le> n \<and> n \<le> 57)
      \<or> c = CHR ''_'' \<or> c = CHR ''.'' \<or> c = CHR ''-'')"

definition validIfaceName :: "string \<Rightarrow> bool" where
  "validIfaceName name \<longleftrightarrow>
     (if length name = 0 \<or> length name > 15 then False else list_all iface_char name)"

datatype ConfigError =
    BadProtocol | BadImplementation | BadReplicas | BadPctSum | BadConcurrency | BadDuration
  | BadRepetitions | UnknownFailureMode | FailureAtS | LeaderNeedsRaft | FollowerNeedsRaft
  | ElectionNeedsRaft | NegativeFailedElections | ElectionTooLong | ReplicaNeedsEPaxos
  | PartitionNeedsEPaxos | BadConflictPct | BadHotKeys | HotKeysExceedKeyspace
  | UnknownImplementation | PersistenceNotProvided | BadNetworkDelay | MixedDelayMechanisms
  | BadEmulationMethod | BadNetworkFilter | BadNetworkInterface

definition election_isolation_s :: "Run \<Rightarrow> float64" where
  "election_isolation_s r =
     f64 (f64 (f64 (of_int (f_FailedElections (r_Failure r))) * f64 (of_int (r_RaftElectionMS r))) / 1000)"

definition election_recover_s :: "Run \<Rightarrow> float64" where
  "election_recover_s r = f64 (f64 (2 * f64 (of_int (r_RaftElectionMS r))) / 1000)"

definition election_total_s :: "Run \<Rightarrow> float64" where
  "election_total_s r =
     f64 (f64 (f64 (f_AtS (r_Failure r) + election_isolation_s r) + election_recover_s r) + 2)"

definition Validate :: "Run \<Rightarrow> ConfigError option" where
  "Validate r =
     (let mode = f_Mode (r_Failure r) in
      if r_Protocol r \<noteq> ''raft'' \<and> r_Protocol r \<noteq> ''epaxos'' then Some BadProtocol
      else if r_Implementation r \<noteq> [] \<and> \<not> ImplSupported (r_Protocol r) (r_Implementation r)
        then Some BadImplementation
      else if r_Replicas r < 1 \<or> r_Replicas r > 9 then Some BadReplicas
      else if wrap64 (r_ReadPct r + r_WritePct r) \<noteq> 100 then Some BadPctSum
      else if r_Concurrency r < 1 then Some BadConcurrency
      else if r_DurationS r < 1 \<or> r_WarmupS r < 0 then Some BadDuration
      else if r_Repetitions r < 1 then Some BadRepetitions
      else if mode \<notin> set [FailureNone, FailureLeader, FailureFollower, FailureReplica,
                          FailureElection, FailurePartition] then Some UnknownFailureMode
      else if mode \<noteq> FailureNone \<and> f_AtS (r_Failure r) \<le> 0 then Some FailureAtS
      else if mode = FailureLeader \<and> r_Protocol r \<noteq> ''raft'' then Some LeaderNeedsRaft
      else if mode = FailureFollower \<and> r_Protocol r \<noteq> ''raft'' then Some FollowerNeedsRaft
      else if mode = FailureElection \<and> r_Protocol r \<noteq> ''raft'' then Some ElectionNeedsRaft
      else if mode = FailureElection \<and> f_FailedElections (r_Failure r) < 0
        then Some NegativeFailedElections
      else if mode = FailureElection \<and> election_total_s r > f64 (of_int (r_DurationS r))
        then Some ElectionTooLong
      else if mode = FailureReplica \<and> r_Protocol r \<noteq> ''epaxos'' then Some ReplicaNeedsEPaxos
      else if mode = FailurePartition \<and> r_Protocol r \<noteq> ''epaxos'' then Some PartitionNeedsEPaxos
      else if r_ConflictPct r < 0 \<or> r_ConflictPct r > 100 then Some BadConflictPct
      else if r_HotKeys r < 1 then Some BadHotKeys
      else if r_HotKeys r > r_Keyspace r then Some HotKeysExceedKeyspace
      else if r_PersistenceMode r \<noteq> [] \<and> \<not> PersistSupported (Impl r) (r_PersistenceMode r)
        then (if length (PersistModes (Impl r)) = 0 then Some UnknownImplementation
              else Some PersistenceNotProvided)
      else if r_NetworkDelayMS r < 0 \<or> r_NetworkDelayMS r > MaxNetworkDelayMS then Some BadNetworkDelay
      else if r_NetworkDelayMS r > 0 \<and> (r_CommCostMS r > 0 \<or> r_CommJitterPct r > 0)
        then Some MixedDelayMechanisms
      else if r_NetworkEmulationMethod r \<noteq> [] \<and> r_NetworkEmulationMethod r \<noteq> NetEmuTCNetem
        then Some BadEmulationMethod
      else if r_NetworkFilter r \<noteq> [] \<and> r_NetworkFilter r \<noteq> NetFilterPeers
              \<and> r_NetworkFilter r \<noteq> NetFilterAll then Some BadNetworkFilter
      else if r_NetworkInterface r \<noteq> [] \<and> \<not> validIfaceName (r_NetworkInterface r)
        then Some BadNetworkInterface
      else None)"

section \<open>What an accepted configuration is\<close>

lemma PersistSupported_iff_PersistModes:
  "PersistSupported impl mode \<longleftrightarrow> mode \<in> set (PersistModes impl)"
  by (auto simp: PersistSupported_def PersistModes_def)

lemma PersistSupported_Default:
  "ImplSupported protocol impl \<Longrightarrow> PersistSupported impl (DefaultPersistence impl)"
  by (auto simp: ImplSupported_def PersistSupported_def DefaultPersistence_def impl_defs split: if_splits)

lemma ImplSupported_PrimaryImpl:
  "protocol = ''raft'' \<or> protocol = ''epaxos'' \<Longrightarrow> ImplSupported protocol (PrimaryImpl protocol)"
  by (auto simp: ImplSupported_def PrimaryImpl_def)

lemma ImplSupported_protocol_unique:
  "ImplSupported p impl \<Longrightarrow> ImplSupported q impl \<Longrightarrow> p = q"
  by (auto simp: ImplSupported_def impl_defs split: if_splits)

lemma ImplSupported_nonempty: "ImplSupported p impl \<Longrightarrow> impl \<noteq> []"
  by (auto simp: ImplSupported_def impl_defs split: if_splits)

lemma if_Some_None:
  "((if b then Some e else x) = None) \<longleftrightarrow> \<not> b \<and> x = None"
  "((if b then (if d then Some e else Some e') else x) = None) \<longleftrightarrow> \<not> b \<and> x = None"
  by simp_all

lemmas Validate_unfold = Validate_def Let_def if_Some_None

lemma Validate_basic:
  assumes "Validate r = None"
  shows "r_Protocol r = ''raft'' \<or> r_Protocol r = ''epaxos''"
    and "1 \<le> r_Replicas r" and "r_Replicas r \<le> 9" and "1 \<le> r_Concurrency r" and "1 \<le> r_DurationS r"
    and "0 \<le> r_WarmupS r" and "1 \<le> r_Repetitions r"
    and "0 \<le> r_ConflictPct r" and "r_ConflictPct r \<le> 100"
    and "1 \<le> r_HotKeys r" and "r_HotKeys r \<le> r_Keyspace r"
  using assms unfolding Validate_unfold by auto

lemma Validate_Impl:
  assumes "Validate r = None"
  shows "ImplSupported (r_Protocol r) (Impl r)"
proof -
  from assms have "r_Implementation r = [] \<or> ImplSupported (r_Protocol r) (r_Implementation r)"
    unfolding Validate_unfold by blast
  with Validate_basic (1) [OF assms] show ?thesis
    by (auto simp: Impl_def ImplSupported_PrimaryImpl)
qed

lemma Validate_Persist:
  assumes "Validate r = None"
  shows "PersistSupported (Impl r) (Persist r)"
proof -
  from assms have "r_PersistenceMode r = [] \<or> PersistSupported (Impl r) (r_PersistenceMode r)"
    unfolding Validate_unfold by blast
  with PersistSupported_Default [OF Validate_Impl [OF assms]] show ?thesis
    by (auto simp: Persist_def)
qed

lemma Validate_delay:
  assumes "Validate r = None"
  shows "0 \<le> r_NetworkDelayMS r" and "r_NetworkDelayMS r \<le> 100"
    and "NetworkEmulated r \<Longrightarrow> r_CommCostMS r \<le> 0 \<and> r_CommJitterPct r \<le> 0"
    and "EmulationMethod r = NetEmuTCNetem"
    and "EmulationFilter r = NetFilterPeers \<or> EmulationFilter r = NetFilterAll"
    and "validIfaceName (EmulationIface r)"
proof -
  have eth: "validIfaceName NetIfaceEth0"
    by (simp add: validIfaceName_def NetIfaceEth0_def iface_char_def Let_def)
  show "0 \<le> r_NetworkDelayMS r" "r_NetworkDelayMS r \<le> 100"
    "NetworkEmulated r \<Longrightarrow> r_CommCostMS r \<le> 0 \<and> r_CommJitterPct r \<le> 0"
    "EmulationMethod r = NetEmuTCNetem"
    "EmulationFilter r = NetFilterPeers \<or> EmulationFilter r = NetFilterAll"
    "validIfaceName (EmulationIface r)"
    using assms eth
    unfolding Validate_unfold MaxNetworkDelayMS_def NetworkEmulated_def EmulationMethod_def
      EmulationFilter_def EmulationIface_def
    by auto
qed

lemma Validate_failure:
  assumes "Validate r = None"
  shows "f_Mode (r_Failure r) \<noteq> FailureNone \<Longrightarrow> 0 < f_AtS (r_Failure r)"
    and "f_Mode (r_Failure r) \<in> {FailureLeader, FailureFollower, FailureElection} \<Longrightarrow> r_Protocol r = ''raft''"
    and "f_Mode (r_Failure r) \<in> {FailureReplica, FailurePartition} \<Longrightarrow> r_Protocol r = ''epaxos''"
    and "f_Mode (r_Failure r) = FailureElection \<Longrightarrow>
           0 \<le> f_FailedElections (r_Failure r) \<and> election_total_s r \<le> f64 (of_int (r_DurationS r))"
  using assms unfolding Validate_unfold by (auto simp: not_le not_less)

section \<open>Property\<close>

text \<open>An accepted configuration can be run: the implementation belongs to the protocol, the
  persistence mode in force is one the implementation provides, the cluster has one to nine replicas,
  the hot keys fit into the keyspace, an emulated network delay is not mixed with the simulated
  communication cost, its interface and filter are usable, and an injected failure fits the protocol and
  the duration of the run.\<close>

theorem accepted_configuration_is_runnable:
  assumes "Validate r = None"
  shows "ImplSupported (r_Protocol r) (Impl r) \<and> Persist r \<in> set (PersistModes (Impl r))
    \<and> 1 \<le> r_Replicas r \<and> r_Replicas r \<le> 9 \<and> 1 \<le> r_HotKeys r \<and> r_HotKeys r \<le> r_Keyspace r
    \<and> (NetworkEmulated r \<longrightarrow> r_CommCostMS r \<le> 0 \<and> r_CommJitterPct r \<le> 0)
    \<and> validIfaceName (EmulationIface r) \<and> EmulationFilter r \<in> {NetFilterPeers, NetFilterAll}
    \<and> (f_Mode (r_Failure r) \<noteq> FailureNone \<longrightarrow> 0 < f_AtS (r_Failure r))
    \<and> (f_Mode (r_Failure r) \<in> {FailureLeader, FailureFollower, FailureElection} \<longrightarrow> r_Protocol r = ''raft'')
    \<and> (f_Mode (r_Failure r) \<in> {FailureReplica, FailurePartition} \<longrightarrow> r_Protocol r = ''epaxos'')
    \<and> (f_Mode (r_Failure r) = FailureElection \<longrightarrow> election_total_s r \<le> f64 (of_int (r_DurationS r)))"
  using Validate_basic [OF assms] Validate_Impl [OF assms] Validate_Persist [OF assms]
    Validate_delay [OF assms] Validate_failure [OF assms]
  by (simp add: PersistSupported_iff_PersistModes)

theorem accepted_configuration_is_runnable_witness:
  "Validate Default = None \<and> Persist Default \<in> set (PersistModes (Impl Default))"
proof -
  have "Validate Default = None" by code_simp
  with accepted_configuration_is_runnable [OF this] show ?thesis by blast
qed

end
