(* ===== verification/Runner_Ident.thy ===== *)
theory Runner_Ident
  imports Lab_Config
begin

text \<open>
  How the runner names things (\<^verbatim>\<open>lab/runner/build.go\<close>, \<^verbatim>\<open>manifest.go\<close>, \<^verbatim>\<open>run.go\<close>,
  \<^verbatim>\<open>compose.go\<close>): experiment family, run identifier, condition, container names, the choice of a
  run directory, and which attempt of a run supersedes which. A results directory is a finite list of
  named entries; what the runner looks at is whether an entry is a directory and whether it holds a
  \<^verbatim>\<open>metadata.json\<close>.
\<close>

section \<open>Run identifiers\<close>

definition experimentName :: "Run \<Rightarrow> string" where
  "experimentName cfg =
     (if r_Experiment cfg \<noteq> [] then r_Experiment cfg
      else if f_Mode (r_Failure cfg) \<noteq> FailureNone then ''failure''
      else if r_ConflictPct cfg > 0 then ''conflict''
      else if r_Replicas cfg \<noteq> 3 then ''scaling''
      else ''workload'')"

definition proto_token :: "Run \<Rightarrow> string" where
  "proto_token cfg =
     (if \<not> IsPrimary cfg then r_Protocol cfg @ ''-'' @ Impl cfg else r_Protocol cfg)"

definition runIDFor :: "Run \<Rightarrow> int \<Rightarrow> string" where
  "runIDFor cfg rep =
     (let experiment = experimentName cfg; proto = proto_token cfg;
          r = itoa (r_Replicas cfg); w = itoa (r_WritePct cfg); c = itoa (r_Concurrency cfg);
          n = itoa rep
      in
      if experiment = ''failure'' then
        (if f_Mode (r_Failure cfg) = FailureElection
         then experiment @ ''-'' @ f_Mode (r_Failure cfg) @ ''-'' @ proto @ ''-r'' @ r @ ''-e'' @
                itoa (f_FailedElections (r_Failure cfg)) @ ''-'' @ n
         else experiment @ ''-'' @ f_Mode (r_Failure cfg) @ ''-'' @ proto @ ''-r'' @ r @ ''-'' @ n)
      else if experiment = ''election'' then
        experiment @ ''-'' @ proto @ ''-r'' @ r @ ''-e'' @ itoa (f_FailedElections (r_Failure cfg)) @ ''-'' @ n
      else if experiment = ''conflict'' then
        experiment @ ''-'' @ proto @ ''-r'' @ r @ ''-x'' @ itoa (r_ConflictPct cfg) @ ''-w'' @ w @ ''-c'' @ c
          @ ''-'' @ n
      else if experiment = ''commcost'' then
        experiment @ ''-'' @ proto @ ''-r'' @ r @ ''-w'' @ w @ ''-c'' @ c @ ''-x'' @ itoa (r_CommCostMS cfg)
          @ ''-j'' @ itoa (r_CommJitterPct cfg) @ ''-'' @ n
      else if experiment = ''persistence'' then
        experiment @ ''-'' @ proto @ ''-'' @ Persist cfg @ ''-r'' @ r @ ''-w'' @ w @ ''-c'' @ c @ ''-'' @ n
      else if experiment = ''networkdelay'' then
        experiment @ ''-'' @ proto @ ''-r'' @ r @ ''-w'' @ w @ ''-c'' @ c @ ''-d'' @ itoa (r_NetworkDelayMS cfg)
          @ ''-'' @ n
      else if experiment = ''conflictvalidation'' then
        experiment @ ''-'' @ proto @ ''-r'' @ r @ ''-k'' @ itoa (r_HotKeys cfg) @ ''-x'' @
          itoa (r_ConflictPct cfg) @ ''-w'' @ w @ ''-c'' @ c @ ''-'' @ n
      else experiment @ ''-'' @ proto @ ''-r'' @ r @ ''-w'' @ w @ ''-c'' @ c @ ''-'' @ n)"

definition conditionString :: "Run \<Rightarrow> string" where
  "conditionString cfg =
     (let c = r_Protocol cfg @ ''/'' @ experimentName cfg @ ''/r'' @ itoa (r_Replicas cfg) @ ''/w'' @
              itoa (r_WritePct cfg) @ ''/c'' @ itoa (r_Concurrency cfg);
          c1 = (if r_ConflictPct cfg > 0 then c @ ''/x'' @ itoa (r_ConflictPct cfg) else c);
          mode = f_Mode (r_Failure cfg)
      in if mode \<noteq> FailureNone
         then (let c2 = c1 @ ''/'' @ mode in
               if mode = FailureElection then c2 @ ''/e'' @ itoa (f_FailedElections (r_Failure cfg)) else c2)
         else c1)"

definition seedFor :: "Run \<Rightarrow> int \<Rightarrow> int" where
  "seedFor cfg rep = wrap64 (r_Seed cfg + rep)"

section \<open>Containers\<close>

definition replica_name :: "int \<Rightarrow> string" where
  "replica_name i = ''replica'' @ itoa i"

definition containerName :: "string \<Rightarrow> string \<Rightarrow> string" where
  "containerName runID service = runID @ ''-'' @ service @ ''-1''"

definition replicaServiceNames :: "nat \<Rightarrow> string list" where
  "replicaServiceNames n = map (\<lambda>i. replica_name (int i)) [0..<n]"

definition replicaAdminHostPort :: "int \<Rightarrow> int" where
  "replicaAdminHostPort i = 18070 + i"

definition has_prefix :: "string \<Rightarrow> string \<Rightarrow> bool" where
  "has_prefix p s \<longleftrightarrow> take (length p) s = p"

definition trim_prefix :: "string \<Rightarrow> string \<Rightarrow> string" where
  "trim_prefix p s = (if has_prefix p s then drop (length p) s else s)"

definition containerIndex :: "string \<Rightarrow> int" where
  "containerIndex host =
     (if \<not> has_prefix ''replica'' host then - 1
      else case atoi (trim_prefix ''replica'' host) of None \<Rightarrow> - 1 | Some n \<Rightarrow> n)"

fun pickFollower_from :: "nat \<Rightarrow> nat \<Rightarrow> int \<Rightarrow> int" where
  "pickFollower_from i 0 leader = 0"
| "pickFollower_from i (Suc k) leader =
     (if int i \<noteq> leader then int i else pickFollower_from (Suc i) k leader)"

definition pickFollower :: "nat \<Rightarrow> int \<Rightarrow> int" where
  "pickFollower n leader = pickFollower_from 0 n leader"

section \<open>Run directories\<close>

datatype entry = Plain_file | Dir_without_metadata | Dir_with_metadata

type_synonym results_dir = "(string \<times> entry) list"

definition attempt_id :: "string \<Rightarrow> nat \<Rightarrow> string" where
  "attempt_id base i = (if i \<le> 1 then base else base @ ''-'' @ itoa (int i))"

text \<open>The loop of \<^verbatim>\<open>makeRunDir\<close>: \<open>i\<close> is the number the next candidate will get. The result is
  the identifier and the directory afterwards; \<open>None\<close> is running out of fuel.\<close>

fun makeRunDir_loop ::
  "nat \<Rightarrow> string \<Rightarrow> results_dir \<Rightarrow> string \<Rightarrow> nat \<Rightarrow> (string \<times> results_dir) option" where
  "makeRunDir_loop 0 base fs rid i = None"
| "makeRunDir_loop (Suc fuel) base fs rid i =
     (case map_of fs rid of
        None \<Rightarrow> Some (rid, fs @ [(rid, Dir_without_metadata)])
      | Some Dir_without_metadata \<Rightarrow> Some (rid, fs)
      | Some _ \<Rightarrow> makeRunDir_loop fuel base fs (attempt_id base i) (Suc i))"

definition makeRunDir :: "Run \<Rightarrow> int \<Rightarrow> results_dir \<Rightarrow> (string \<times> results_dir) option" where
  "makeRunDir cfg rep fs =
     makeRunDir_loop (Suc (length fs)) (runIDFor cfg rep) fs (runIDFor cfg rep) 2"

definition runCompleted :: "Run \<Rightarrow> int \<Rightarrow> results_dir \<Rightarrow> bool" where
  "runCompleted cfg rep fs \<longleftrightarrow> map_of fs (runIDFor cfg rep) = Some Dir_with_metadata"

text \<open>\<^verbatim>\<open>superseded\<close> looks at the directory entries \<open>(name, isDir)\<close>.\<close>

fun superseded_scan :: "(string \<times> bool) list \<Rightarrow> string \<Rightarrow> int \<Rightarrow> bool" where
  "superseded_scan [] prefix own = False"
| "superseded_scan ((name, isDir) # es) prefix own =
     (if \<not> isDir \<or> \<not> has_prefix prefix name then superseded_scan es prefix own
      else case atoi (trim_prefix prefix name) of
             Some n \<Rightarrow> (if n > own then True else superseded_scan es prefix own)
           | None \<Rightarrow> superseded_scan es prefix own)"

definition superseded :: "(string \<times> bool) list \<Rightarrow> string \<Rightarrow> string \<Rightarrow> bool" where
  "superseded entries baseID rid =
     (let prefix = baseID @ ''-'' in
      if rid \<noteq> baseID then
        (case atoi (trim_prefix prefix rid) of
           None \<Rightarrow> False
         | Some n \<Rightarrow> superseded_scan entries prefix n)
      else superseded_scan entries prefix 1)"

section \<open>Facts\<close>

lemma itoa_no_letter: "c \<in> set (itoa i) \<Longrightarrow> c = CHR ''-'' \<or> (\<exists>d < 10. c = digit_char d)"
  by (auto simp: itoa_def dest: nat_digits_set split: if_splits)

lemma itoa_nonneg_no_dash: "0 \<le> i \<Longrightarrow> CHR ''-'' \<notin> set (itoa i)"
  by (simp add: itoa_def nat_digits_no_dash)

lemma char_not_in_itoa: "char_digit c = None \<Longrightarrow> c \<noteq> CHR ''-'' \<Longrightarrow> c \<notin> set (itoa i)"
  using itoa_no_letter char_digit_digit_char by (metis option.distinct(1))

text \<open>A separator that does not occur after it splits a string uniquely from the right.\<close>

lemma split_at_last:
  assumes "xs @ c # s = ys @ c # t" and "c \<notin> set s" and "c \<notin> set t"
  shows "xs = ys \<and> s = t"
proof -
  from assms (1) obtain us where
    "xs = ys @ us \<and> us @ c # s = c # t \<or> xs @ us = ys \<and> c # s = us @ c # t"
    by (auto simp: append_eq_append_conv2)
  with assms (2,3) show ?thesis by (cases us) auto
qed

lemma split_number:
  assumes "xs @ c # itoa i = ys @ c # itoa j" and "char_digit c = None"
    and "c \<noteq> CHR ''-'' \<or> (0 \<le> i \<and> 0 \<le> j)"
  shows "xs = ys \<and> i = j"
proof -
  have "c \<notin> set (itoa i)" "c \<notin> set (itoa j)"
    using assms (2,3) char_not_in_itoa itoa_nonneg_no_dash by metis+
  with split_at_last [OF assms (1)] show ?thesis by simp
qed

lemma attempt_id_inject:
  "1 \<le> i \<Longrightarrow> 1 \<le> j \<Longrightarrow> attempt_id base i = attempt_id base j \<Longrightarrow> i = j"
  by (auto simp: attempt_id_def split: if_splits)

lemma has_prefix_append [simp]: "has_prefix p (p @ s)"
  by (simp add: has_prefix_def)

lemma trim_prefix_append [simp]: "trim_prefix p (p @ s) = s"
  by (simp add: trim_prefix_def)

lemma has_prefix_iff: "has_prefix p s \<longleftrightarrow> (\<exists>t. s = p @ t)"
  by (metis append_eq_conv_conj has_prefix_append has_prefix_def)

lemma containerIndex_replica_name:
  "in_int64 i \<Longrightarrow> containerIndex (replica_name i) = i"
  by (simp add: containerIndex_def replica_name_def atoi_itoa del: append.simps)

lemma pickFollower_from_spec:
  "pickFollower_from i k leader =
     (if k = 0 then 0 else if int i \<noteq> leader then int i else if k = 1 then 0 else int (Suc i))"
  by (induction i k leader rule: pickFollower_from.induct) auto

lemma pickFollower_in_range:
  "2 \<le> n \<Longrightarrow> pickFollower n leader \<noteq> leader \<and> 0 \<le> pickFollower n leader \<and> pickFollower n leader < int n"
  by (auto simp: pickFollower_def pickFollower_from_spec)

text \<open>The loop over candidate directories ends: only finitely many names are taken.\<close>

lemma makeRunDir_loop_Some:
  assumes "card (set (map fst fs) - attempt_id base ` {1..<i - 1}) < fuel" and "2 \<le> i"
    and "rid = attempt_id base (i - 1)"
  shows "\<exists>rid' fs'. makeRunDir_loop fuel base fs rid i = Some (rid', fs')"
  using assms
proof (induction fuel arbitrary: rid i)
  case 0
  then show ?case by simp
next
  case (Suc fuel)
  show ?case
  proof (cases "map_of fs rid")
    case None
    then show ?thesis by simp
  next
    case (Some e)
    let ?A = "set (map fst fs)" and ?B = "attempt_id base ` {1..<i - 1}"
    have idA: "rid \<in> ?A" using Some map_of_SomeD by force
    have "rid \<notin> ?B" 
      using Suc.prems (2,3) attempt_id_inject [of "i - 1" _ base] by (auto simp: image_iff)
    then have "card (?A - insert rid ?B) < card (?A - ?B)"
      using idA by (intro psubset_card_mono) auto
    moreover have "insert rid ?B = attempt_id base ` {1..<i}"
    proof -
      have "{1..<i} = insert (i - 1) {1..<i - 1}" using Suc.prems (2) by auto
      then show ?thesis using Suc.prems (3) by (metis image_insert)
    qed
    ultimately have "card (?A - attempt_id base ` {1..<Suc i - 1}) < fuel"
      using Suc.prems (1) by simp
    then have IH: "\<exists>rid' fs'. makeRunDir_loop fuel base fs (attempt_id base i) (Suc i) = Some (rid', fs')"
      using Suc.prems (2) by (intro Suc.IH) auto
    with Some show ?thesis by (cases e) auto
  qed
qed

lemma makeRunDir_returns: "\<exists>rid fs'. makeRunDir cfg rep fs = Some (rid, fs')"
  unfolding makeRunDir_def
proof (rule makeRunDir_loop_Some)
  have "card (set (map fst fs)) \<le> length fs" using card_length [of "map fst fs"] by simp
  then show "card (set (map fst fs) - attempt_id (runIDFor cfg rep) ` {1..<2 - 1}) < Suc (length fs)"
    by simp
qed (simp_all add: attempt_id_def)

text \<open>A run identifier is a token followed by separated numbers, and such a string determines both.\<close>

fun number_fields :: "(string \<times> int) list \<Rightarrow> string" where
  "number_fields [] = []"
| "number_fields ((s, i) # fs) = s @ itoa i @ number_fields fs"

definition good_sep :: "string \<Rightarrow> int \<Rightarrow> bool" where
  "good_sep s i \<longleftrightarrow> s \<noteq> [] \<and> char_digit (last s) = None \<and> (last s \<noteq> CHR ''-'' \<or> 0 \<le> i)"

lemma number_fields_snoc: "number_fields (fs @ [(s, i)]) = number_fields fs @ s @ itoa i"
  by (induction fs rule: number_fields.induct) auto

lemma number_fields_inject:
  assumes "xs @ number_fields fs = ys @ number_fields gs" and "map fst fs = map fst gs"
    and "\<forall>(s, i) \<in> set fs. good_sep s i" and "\<forall>(s, i) \<in> set gs. good_sep s i"
  shows "xs = ys \<and> fs = gs"
  using assms
proof (induction fs arbitrary: gs rule: rev_induct)
  case Nil
  then show ?case by simp
next
  case (snoc f fs)
  obtain s i where f: "f = (s, i)" by (cases f)
  from snoc.prems (2) obtain gs' g where gs: "gs = gs' @ [g]" and m: "map fst fs = map fst gs'"
    and g1: "fst g = s"
    by (cases gs rule: rev_exhaust) (auto simp: f)
  obtain j where g: "g = (s, j)" using g1 by (cases g) auto
  have s: "s = butlast s @ [last s]" "char_digit (last s) = None"
    and ij: "last s \<noteq> CHR ''-'' \<or> (0 \<le> i \<and> 0 \<le> j)"
    using snoc.prems (3,4) by (auto simp: f gs g good_sep_def)
  have "(xs @ number_fields fs @ butlast s) @ last s # itoa i
      = (ys @ number_fields gs' @ butlast s) @ last s # itoa j"
    using snoc.prems (1) s (1) unfolding f gs g number_fields_snoc
    by (metis append.assoc append_Cons append_Nil)
  from split_number [OF this s (2) ij]
  have "xs @ number_fields fs = ys @ number_fields gs'" and "i = j" by auto
  moreover from this (1) m snoc.prems (3,4) have "xs = ys \<and> fs = gs'"
    by (intro snoc.IH) (auto simp: gs)
  ultimately show ?case by (simp add: f gs g)
qed

text \<open>What an identifier encodes: the protocol token (with the failure or persistence mode where the
  family has one) and the numbers.\<close>

definition id_prefix :: "Run \<Rightarrow> string" where
  "id_prefix cfg =
     (if experimentName cfg = ''failure''
      then experimentName cfg @ ''-'' @ f_Mode (r_Failure cfg) @ ''-'' @ proto_token cfg
      else if experimentName cfg = ''persistence''
      then experimentName cfg @ ''-'' @ proto_token cfg @ ''-'' @ Persist cfg
      else experimentName cfg @ ''-'' @ proto_token cfg)"

definition id_numbers :: "Run \<Rightarrow> int \<Rightarrow> (string \<times> int) list" where
  "id_numbers cfg rep =
     (let e = experimentName cfg; r = (''-r'', r_Replicas cfg); w = (''-w'', r_WritePct cfg);
          c = (''-c'', r_Concurrency cfg); n = (''-'', rep);
          el = (''-e'', f_FailedElections (r_Failure cfg)); x = (''-x'', r_ConflictPct cfg)
      in if e = ''failure'' then (if f_Mode (r_Failure cfg) = FailureElection then [r, el, n] else [r, n])
         else if e = ''election'' then [r, el, n]
         else if e = ''conflict'' then [r, x, w, c, n]
         else if e = ''commcost''
           then [r, w, c, (''-x'', r_CommCostMS cfg), (''-j'', r_CommJitterPct cfg), n]
         else if e = ''networkdelay'' then [r, w, c, (''-d'', r_NetworkDelayMS cfg), n]
         else if e = ''conflictvalidation'' then [r, (''-k'', r_HotKeys cfg), x, w, c, n]
         else [r, w, c, n])"

lemma runIDFor_fields: "runIDFor cfg rep = id_prefix cfg @ number_fields (id_numbers cfg rep)"
  by (simp add: runIDFor_def id_prefix_def id_numbers_def Let_def)

lemma id_numbers_good: "0 \<le> rep \<Longrightarrow> \<forall>(s, i) \<in> set (id_numbers cfg rep). good_sep s i"
  by (simp add: id_numbers_def Let_def good_sep_def char_digit_def)

lemma proto_token_inject:
  assumes "ImplSupported (r_Protocol r) (Impl r)" and "ImplSupported (r_Protocol r') (Impl r')"
    and "proto_token r = proto_token r'"
  shows "r_Protocol r = r_Protocol r' \<and> Impl r = Impl r'"
  using assms
  by (auto simp: ImplSupported_def proto_token_def IsPrimary_def PrimaryImpl_def impl_defs
      split: if_splits)

lemma split_last_dash:
  "xs @ ''-'' @ s = ys @ ''-'' @ t \<Longrightarrow> CHR ''-'' \<notin> set s \<Longrightarrow> CHR ''-'' \<notin> set t \<Longrightarrow> xs = ys \<and> s = t"
  using split_at_last [of xs "CHR ''-''" s ys t] by simp

lemma Persist_no_dash: "PersistSupported i (Persist r) \<Longrightarrow> CHR ''-'' \<notin> set (Persist r)"
  by (auto simp: PersistSupported_def PersistDurable_def PersistMemory_def split: if_splits)

text \<open>The directory chosen for a run is new or was left behind by a killed runner: no completed
  run is written over, and every other entry stays as it was.\<close>

definition taken :: "results_dir \<Rightarrow> string \<Rightarrow> bool" where
  "taken fs x \<longleftrightarrow> map_of fs x = Some Plain_file \<or> map_of fs x = Some Dir_with_metadata"

lemma makeRunDir_loop_step:
  "makeRunDir_loop (Suc fuel) base fs rid i =
     (if taken fs rid then makeRunDir_loop fuel base fs (attempt_id base i) (Suc i)
      else Some (rid, if map_of fs rid = None then fs @ [(rid, Dir_without_metadata)] else fs))"
  by (simp add: taken_def split: option.split entry.split)

lemma makeRunDir_loop_safe:
  "makeRunDir_loop fuel base fs i n = Some (nm, fs') \<Longrightarrow>
     \<not> taken fs nm \<and> fs' = (if map_of fs nm = None then fs @ [(nm, Dir_without_metadata)] else fs)"
proof (induction fuel arbitrary: i n)
  case 0
  then show ?case by simp
next
  case (Suc fuel)
  then show ?case by (cases "taken fs i") (auto simp only: makeRunDir_loop_step if_True if_False option.inject prod.inject simp_thms)
qed

lemma new_directory_entries:
  assumes "\<not> taken fs nm" and "fs' = (if map_of fs nm = None then fs @ [(nm, Dir_without_metadata)] else fs)"
  shows "map_of fs' nm = Some Dir_without_metadata" and "x \<noteq> nm \<Longrightarrow> map_of fs' x = map_of fs x"
proof -
  have "map_of fs nm = None \<or> map_of fs nm = Some Dir_without_metadata"
    using assms (1) by (cases "map_of fs nm") (auto simp: taken_def intro: entry.exhaust)
  then show "map_of fs' nm = Some Dir_without_metadata"
    using assms (2) by (auto simp: map_add_def split: option.split)
  show "map_of fs' x = map_of fs x" if "x \<noteq> nm"
    using assms (2) that by (simp add: map_add_def split: option.split)
qed

lemma makeRunDir_loop_name:
  "makeRunDir_loop fuel base fs (attempt_id base n) (Suc n) = Some (nm, fs') \<Longrightarrow>
     \<exists>k \<ge> n. nm = attempt_id base k \<and> (\<forall>j. n \<le> j \<and> j < k \<longrightarrow> taken fs (attempt_id base j))"
proof (induction fuel arbitrary: n)
  case 0
  then show ?case by simp
next
  case (Suc fuel)
  show ?case
  proof (cases "taken fs (attempt_id base n)")
    case True
    with Suc.prems have "makeRunDir_loop fuel base fs (attempt_id base (Suc n)) (Suc (Suc n)) = Some (nm, fs')"
      by (simp only: makeRunDir_loop_step if_True)
    from Suc.IH [OF this] obtain k where k: "Suc n \<le> k" "nm = attempt_id base k"
      "\<And>j. Suc n \<le> j \<Longrightarrow> j < k \<Longrightarrow> taken fs (attempt_id base j)" by blast
    have "taken fs (attempt_id base j)" if "n \<le> j" "j < k" for j
      using that k (3) True by (cases "j = n") auto
    with k (1,2) show ?thesis by (intro exI [of _ k]) auto
  next
    case False
    with Suc.prems have "nm = attempt_id base n"
      by (auto simp only: makeRunDir_loop_step if_False option.inject prod.inject)
    then show ?thesis by (intro exI [of _ n]) auto
  qed
qed

lemma run_id_parts:
  assumes "ImplSupported (r_Protocol r) (Impl r)" and "ImplSupported (r_Protocol r') (Impl r')"
    and "CHR ''-'' \<notin> set (Persist r)" and "CHR ''-'' \<notin> set (Persist r')"
    and "0 \<le> rep" and "0 \<le> rep'"
    and "experimentName r = experimentName r'" and "experimentName r \<noteq> ''failure''"
    and "runIDFor r rep = runIDFor r' rep'"
  shows "r_Protocol r = r_Protocol r' \<and> Impl r = Impl r' \<and> id_numbers r rep = id_numbers r' rep'
    \<and> (experimentName r = ''persistence'' \<longrightarrow> Persist r = Persist r')"
proof -
  have "map fst (id_numbers r rep) = map fst (id_numbers r' rep')"
    using assms (7,8) by (simp add: id_numbers_def Let_def)
  with number_fields_inject [of "id_prefix r" "id_numbers r rep" "id_prefix r'" "id_numbers r' rep'"]
    assms (5,6,9) id_numbers_good
  have pre: "id_prefix r = id_prefix r'" and nums: "id_numbers r rep = id_numbers r' rep'"
    by (auto simp: runIDFor_fields)
  have "proto_token r = proto_token r' \<and> (experimentName r = ''persistence'' \<longrightarrow> Persist r = Persist r')"
  proof (cases "experimentName r = ''persistence''")
    case True
    moreover from this assms (7) have "experimentName r' = ''persistence''" by simp
    ultimately have "(''persistence'' @ ''-'' @ proto_token r) @ ''-'' @ Persist r
        = (''persistence'' @ ''-'' @ proto_token r') @ ''-'' @ Persist r'"
      using pre unfolding id_prefix_def by simp
    from split_last_dash [OF this] assms (3,4) show ?thesis by auto
  next
    case False
    with pre assms (7,8) show ?thesis by (simp add: id_prefix_def)
  qed
  with proto_token_inject [OF assms(1,2)] nums show ?thesis by blast
qed

section \<open>Properties\<close>


text \<open>C39: Choosing the directory of a run always succeeds, takes the lowest attempt number whose
  name is free or left behind by a killed runner, never the directory of a completed run, and
  changes no other entry.\<close>

theorem make_run_dir_never_overwrites:
  "\<exists>k fs'. makeRunDir cfg rep fs = Some (attempt_id (runIDFor cfg rep) k, fs') \<and> 1 \<le> k
     \<and> map_of fs (attempt_id (runIDFor cfg rep) k) \<notin> {Some Plain_file, Some Dir_with_metadata}
     \<and> (\<forall>j. 1 \<le> j \<and> j < k \<longrightarrow>
          map_of fs (attempt_id (runIDFor cfg rep) j) \<in> {Some Plain_file, Some Dir_with_metadata})
     \<and> map_of fs' (attempt_id (runIDFor cfg rep) k) = Some Dir_without_metadata
     \<and> (\<forall>x. x \<noteq> attempt_id (runIDFor cfg rep) k \<longrightarrow> map_of fs' x = map_of fs x)"
proof -
  obtain nm fs' where r: "makeRunDir cfg rep fs = Some (nm, fs')"
    using makeRunDir_returns by blast
  have "attempt_id (runIDFor cfg rep) 1 = runIDFor cfg rep" by (simp add: attempt_id_def)
  with r have l: "makeRunDir_loop (Suc (length fs)) (runIDFor cfg rep) fs
      (attempt_id (runIDFor cfg rep) 1) (Suc 1) = Some (nm, fs')"
    by (simp only: makeRunDir_def Suc_1)
  from makeRunDir_loop_name [OF l] obtain k where k: "1 \<le> k" "nm = attempt_id (runIDFor cfg rep) k"
    "\<forall>j. 1 \<le> j \<and> j < k \<longrightarrow> taken fs (attempt_id (runIDFor cfg rep) j)"
    by blast
  have safe: "\<not> taken fs nm" "fs' = (if map_of fs nm = None then fs @ [(nm, Dir_without_metadata)] else fs)"
    using makeRunDir_loop_safe [OF l] by simp_all
  show ?thesis
    using r k safe (1) new_directory_entries [OF safe]
    by (intro exI [of _ k] exI [of _ fs']) (simp add: taken_def)
qed

section \<open>Witnesses\<close>


lemma make_run_dir_never_overwrites_witness:
  "\<exists>fs'. makeRunDir Default 1 [(''workload-raft-r3-w50-c32-1'', Dir_with_metadata)]
     = Some (''workload-raft-r3-w50-c32-1-2'', fs')
   \<and> map_of fs' ''workload-raft-r3-w50-c32-1'' = Some Dir_with_metadata"
proof -
  let ?fs = "[(''workload-raft-r3-w50-c32-1'', Dir_with_metadata)]"
  obtain k fs' where
    r: "makeRunDir Default 1 ?fs = Some (attempt_id (runIDFor Default 1) k, fs')"
    and o: "\<forall>x. x \<noteq> attempt_id (runIDFor Default 1) k \<longrightarrow> map_of fs' x = map_of ?fs x"
    using make_run_dir_never_overwrites [of Default 1 ?fs] by blast
  have "map_option fst (makeRunDir Default 1 ?fs) = Some ''workload-raft-r3-w50-c32-1-2''" by code_simp
  with r have "attempt_id (runIDFor Default 1) k = ''workload-raft-r3-w50-c32-1-2''" by simp
  with r o show ?thesis by simp
qed

end
