(* ===== verification/Runner_Plan.thy ===== *)
theory Runner_Plan
  imports Runner_Ident "HOL-Library.Multiset" "HOL-Library.List_Lexorder" "HOL-Library.Char_ord"
begin

text \<open>
  What the runner decides before it runs anything (\<^verbatim>\<open>lab/runner/cli.go\<close>): the compact matrix and its
  expansion into configurations, the dry run, the blocked random schedule, the defaults of the smoke
  configuration, and the check for misplaced flags. \<^verbatim>\<open>math/rand\<close> is a parameter: a state and a
  function that draws an index below a bound; \<^verbatim>\<open>Shuffle\<close> itself, which the standard library builds
  from such draws, is defined here.
\<close>

section \<open>The matrix\<close>

record ScalingSpec =
  sc_Replicas :: "int list"
  sc_WritePct :: int
  sc_Concurrency :: int
  sc_Protocols :: "string list"
  sc_Implementations :: "string list"

record ScalingConcSpec =
  sq_Protocols :: "string list"
  sq_Replicas :: "int list"
  sq_WritePct :: int
  sq_Concurrencies :: "int list"

record WorkloadSpec =
  ws_ReadPcts :: "int list"
  ws_Concurrencies :: "int list"
  ws_Protocols :: "string list"
  ws_Implementations :: "string list"
  ws_Replicas :: int

record ConflictSpec =
  cf_ConflictPcts :: "int list"
  cf_Protocols :: "string list"
  cf_Replicas :: int
  cf_WritePct :: int
  cf_Concurrency :: int

record ConcSpec =
  cc_Concurrencies :: "int list"
  cc_Protocols :: "string list"
  cc_Replicas :: int
  cc_WritePct :: int

record FailureCase =
  fc_Protocol :: string
  fc_Mode :: FailureMode
  fc_Replicas :: int
  fc_WritePct :: int
  fc_Concurrency :: int
  fc_AtS :: float64
  fc_RestartAfterS :: float64
  fc_FailedElections :: int

record ElectionSpec =
  el_Protocol :: string
  el_Replicas :: int
  el_WritePct :: int
  el_Concurrency :: int
  el_AtS :: float64
  el_DurationS :: int
  el_FailedElections :: "int list"

record CommCostPoint =
  cp_CostMS :: int
  cp_JitterPct :: int

record CommCostSpec =
  cs_Protocols :: "string list"
  cs_Implementations :: "string list"
  cs_Replicas :: "int list"
  cs_WritePct :: int
  cs_Concurrency :: int
  cs_Points :: "CommCostPoint list"

record PersistenceSpec =
  ps_Protocols :: "string list"
  ps_Implementations :: "string list"
  ps_Modes :: "string list"
  ps_Replicas :: "int list"
  ps_WritePct :: int
  ps_Concurrency :: int

record ConflictValSpec =
  cv_Protocols :: "string list"
  cv_Implementations :: "string list"
  cv_ConflictPcts :: "int list"
  cv_HotKeys :: "int list"
  cv_Replicas :: int
  cv_WritePct :: int
  cv_Concurrency :: int

record NetworkDelaySpec =
  nd_Protocols :: "string list"
  nd_Implementations :: "string list"
  nd_Replicas :: "int list"
  nd_WritePct :: int
  nd_Concurrency :: int
  nd_DelaysMS :: "int list"
  nd_EmulationMethod :: string
  nd_Interface :: string
  nd_Filter :: string

record MatrixSpec =
  ms_Defaults :: Run
  ms_Workload :: "WorkloadSpec option"
  ms_Scaling :: "ScalingSpec option"
  ms_Conflict :: "ConflictSpec option"
  ms_Concurrency :: "ConcSpec option"
  ms_Failure :: "FailureCase list option"
  ms_Election :: "ElectionSpec option"
  ms_CommCost :: "CommCostSpec option"
  ms_Persistence :: "PersistenceSpec option"
  ms_NetworkDelay :: "NetworkDelaySpec option"
  ms_ConflictVal :: "ConflictValSpec option"
  ms_ScalingConc :: "ScalingConcSpec option"

definition implementationsFor :: "string \<Rightarrow> string list \<Rightarrow> string list" where
  "implementationsFor protocol impls =
     (let out = filter (ImplSupported protocol) impls in if out = [] then [[]] else out)"

text \<open>One definition per family; the nesting of the loops is the order of the generators.\<close>

definition expand_workload :: "Run \<Rightarrow> WorkloadSpec \<Rightarrow> Run list" where
  "expand_workload base s =
     [base\<lparr>r_Experiment := ''workload'', r_Protocol := proto, r_Implementation := impl,
           r_Replicas := ws_Replicas s, r_ReadPct := rp, r_WritePct := wrap64 (100 - rp),
           r_Concurrency := c, r_Failure := no_failure\<rparr>.
      proto \<leftarrow> ws_Protocols s, impl \<leftarrow> implementationsFor proto (ws_Implementations s),
      rp \<leftarrow> ws_ReadPcts s, c \<leftarrow> ws_Concurrencies s]"

definition expand_scaling :: "Run \<Rightarrow> ScalingSpec \<Rightarrow> Run list" where
  "expand_scaling base s =
     [base\<lparr>r_Experiment := ''scaling'', r_Protocol := proto, r_Implementation := impl,
           r_Replicas := n, r_WritePct := sc_WritePct s, r_ReadPct := wrap64 (100 - sc_WritePct s),
           r_Concurrency := sc_Concurrency s, r_Failure := no_failure\<rparr>.
      proto \<leftarrow> sc_Protocols s, impl \<leftarrow> implementationsFor proto (sc_Implementations s),
      n \<leftarrow> sc_Replicas s]"

definition expand_conflict :: "Run \<Rightarrow> ConflictSpec \<Rightarrow> Run list" where
  "expand_conflict base s =
     [base\<lparr>r_Experiment := ''conflict'', r_Protocol := proto, r_Replicas := cf_Replicas s,
           r_WritePct := cf_WritePct s, r_ReadPct := wrap64 (100 - cf_WritePct s),
           r_Concurrency := cf_Concurrency s, r_ConflictPct := pct, r_Failure := no_failure\<rparr>.
      proto \<leftarrow> cf_Protocols s, pct \<leftarrow> cf_ConflictPcts s]"

definition expand_concurrency :: "Run \<Rightarrow> ConcSpec \<Rightarrow> Run list" where
  "expand_concurrency base s =
     [base\<lparr>r_Experiment := ''concurrency'', r_Protocol := proto, r_Replicas := cc_Replicas s,
           r_WritePct := cc_WritePct s, r_ReadPct := wrap64 (100 - cc_WritePct s),
           r_Concurrency := c, r_Failure := no_failure\<rparr>.
      proto \<leftarrow> cc_Protocols s, c \<leftarrow> cc_Concurrencies s]"

definition expand_failure :: "Run \<Rightarrow> FailureCase list \<Rightarrow> Run list" where
  "expand_failure base cases =
     [base\<lparr>r_Experiment := ''failure'', r_Protocol := fc_Protocol c, r_Replicas := fc_Replicas c,
           r_WritePct := fc_WritePct c, r_ReadPct := wrap64 (100 - fc_WritePct c),
           r_Concurrency := fc_Concurrency c,
           r_Failure := \<lparr>f_Mode = fc_Mode c, f_AtS = fc_AtS c, f_RestartAfterS = fc_RestartAfterS c,
                         f_FailedElections = fc_FailedElections c\<rparr>\<rparr>.
      c \<leftarrow> cases]"

definition expand_election :: "Run \<Rightarrow> ElectionSpec \<Rightarrow> Run list" where
  "expand_election base s =
     [base\<lparr>r_Experiment := ''election'', r_Protocol := el_Protocol s, r_Replicas := el_Replicas s,
           r_WritePct := el_WritePct s, r_ReadPct := wrap64 (100 - el_WritePct s),
           r_Concurrency := el_Concurrency s,
           r_DurationS := (if el_DurationS s > 0 then el_DurationS s else r_DurationS base),
           r_Failure := \<lparr>f_Mode = FailureElection, f_AtS = el_AtS s, f_RestartAfterS = 0,
                         f_FailedElections = n\<rparr>\<rparr>.
      n \<leftarrow> el_FailedElections s]"

definition expand_commcost :: "Run \<Rightarrow> CommCostSpec \<Rightarrow> Run list" where
  "expand_commcost base s =
     [base\<lparr>r_Experiment := ''commcost'', r_Protocol := proto, r_Implementation := impl,
           r_Replicas := n, r_WritePct := cs_WritePct s, r_ReadPct := wrap64 (100 - cs_WritePct s),
           r_Concurrency := cs_Concurrency s, r_CommCostMS := cp_CostMS pt,
           r_CommJitterPct := cp_JitterPct pt, r_Failure := no_failure\<rparr>.
      proto \<leftarrow> cs_Protocols s, impl \<leftarrow> implementationsFor proto (cs_Implementations s),
      n \<leftarrow> cs_Replicas s, pt \<leftarrow> cs_Points s]"

definition effective_impl :: "string \<Rightarrow> string \<Rightarrow> string" where
  "effective_impl proto impl = (if impl = [] then PrimaryImpl proto else impl)"

definition expand_persistence :: "Run \<Rightarrow> PersistenceSpec \<Rightarrow> Run list" where
  "expand_persistence base s =
     [base\<lparr>r_Experiment := ''persistence'', r_Protocol := proto, r_Implementation := impl,
           r_PersistenceMode := mode, r_Replicas := n, r_WritePct := ps_WritePct s,
           r_ReadPct := wrap64 (100 - ps_WritePct s), r_Concurrency := ps_Concurrency s,
           r_Failure := no_failure\<rparr>.
      proto \<leftarrow> ps_Protocols s, impl \<leftarrow> implementationsFor proto (ps_Implementations s),
      mode \<leftarrow> filter (PersistSupported (effective_impl proto impl)) (ps_Modes s), n \<leftarrow> ps_Replicas s]"

definition expand_conflictvalidation :: "Run \<Rightarrow> ConflictValSpec \<Rightarrow> Run list" where
  "expand_conflictvalidation base s =
     [base\<lparr>r_Experiment := ''conflictvalidation'', r_Protocol := proto, r_Implementation := impl,
           r_Replicas := cv_Replicas s, r_WritePct := cv_WritePct s,
           r_ReadPct := wrap64 (100 - cv_WritePct s), r_Concurrency := cv_Concurrency s,
           r_ConflictPct := pct, r_HotKeys := hk, r_Failure := no_failure\<rparr>.
      proto \<leftarrow> cv_Protocols s, impl \<leftarrow> implementationsFor proto (cv_Implementations s),
      hk \<leftarrow> cv_HotKeys s, pct \<leftarrow> cv_ConflictPcts s]"

definition expand_networkdelay :: "Run \<Rightarrow> NetworkDelaySpec \<Rightarrow> Run list" where
  "expand_networkdelay base s =
     [base\<lparr>r_Experiment := ''networkdelay'', r_Protocol := proto, r_Implementation := impl,
           r_Replicas := n, r_WritePct := nd_WritePct s, r_ReadPct := wrap64 (100 - nd_WritePct s),
           r_Concurrency := nd_Concurrency s, r_NetworkDelayMS := d,
           r_NetworkEmulationMethod := nd_EmulationMethod s, r_NetworkInterface := nd_Interface s,
           r_NetworkFilter := nd_Filter s, r_CommCostMS := 0, r_CommJitterPct := 0,
           r_Failure := no_failure\<rparr>.
      proto \<leftarrow> nd_Protocols s, impl \<leftarrow> implementationsFor proto (nd_Implementations s),
      n \<leftarrow> nd_Replicas s, d \<leftarrow> nd_DelaysMS s]"

definition expand_scalingconc :: "Run \<Rightarrow> ScalingConcSpec \<Rightarrow> Run list" where
  "expand_scalingconc base s =
     [base\<lparr>r_Experiment := ''scaling-conc'', r_Protocol := proto, r_Replicas := n,
           r_WritePct := sq_WritePct s, r_ReadPct := wrap64 (100 - sq_WritePct s),
           r_Concurrency := c, r_Failure := no_failure\<rparr>.
      proto \<leftarrow> sq_Protocols s, n \<leftarrow> sq_Replicas s, c \<leftarrow> sq_Concurrencies s]"

definition expand_family :: "string \<Rightarrow> string \<Rightarrow> ('s \<Rightarrow> Run list) \<Rightarrow> 's option \<Rightarrow> Run list" where
  "expand_family only name expand spec =
     (case spec of None \<Rightarrow> [] | Some s \<Rightarrow> if only = [] \<or> only = name then expand s else [])"

definition expandMatrix :: "MatrixSpec \<Rightarrow> string \<Rightarrow> Run list" where
  "expandMatrix spec only =
     (let base = ms_Defaults spec in
      expand_family only ''workload'' (expand_workload base) (ms_Workload spec)
      @ expand_family only ''scaling'' (expand_scaling base) (ms_Scaling spec)
      @ expand_family only ''conflict'' (expand_conflict base) (ms_Conflict spec)
      @ expand_family only ''concurrency'' (expand_concurrency base) (ms_Concurrency spec)
      @ expand_family only ''failure'' (expand_failure base) (ms_Failure spec)
      @ expand_family only ''election'' (expand_election base) (ms_Election spec)
      @ expand_family only ''commcost'' (expand_commcost base) (ms_CommCost spec)
      @ expand_family only ''persistence'' (expand_persistence base) (ms_Persistence spec)
      @ expand_family only ''conflictvalidation'' (expand_conflictvalidation base) (ms_ConflictVal spec)
      @ expand_family only ''networkdelay'' (expand_networkdelay base) (ms_NetworkDelay spec)
      @ expand_family only ''scalingconc'' (expand_scalingconc base) (ms_ScalingConc spec))"

lemmas expand_defs =
  expand_workload_def expand_scaling_def expand_conflict_def expand_concurrency_def expand_failure_def
  expand_election_def expand_commcost_def expand_persistence_def expand_conflictvalidation_def
  expand_networkdelay_def expand_scalingconc_def

section \<open>The dry run\<close>

datatype dry_line =
    Collision string
  | Invalid string ConfigError
  | Family string int int int
  | Planned string string int string int int int
  | All_valid_no_collision

datatype dry_error = Zero_configurations | Invalid_configurations nat

text \<open>The first loop: the printed lines and the number of invalid configurations.\<close>

fun dry_checks :: "Run list \<Rightarrow> string set \<Rightarrow> nat \<Rightarrow> dry_line list \<times> nat" where
  "dry_checks [] seen invalid = ([], invalid)"
| "dry_checks (cfg # configs) seen invalid =
     (let rid = runIDFor cfg 1;
          collision = (if rid \<in> seen then [Collision rid] else []);
          (report, bad) = (case Validate cfg of None \<Rightarrow> ([], 0) | Some e \<Rightarrow> ([Invalid rid e], 1));
          (ls, n) = dry_checks configs (insert rid seen) (invalid + bad)
      in (collision @ report @ ls, n))"

definition family_key :: "Run \<Rightarrow> string" where
  "family_key cfg = experimentName cfg @ ''/'' @ r_Protocol cfg @ ''/'' @ Impl cfg"

definition family_lines :: "Run list \<Rightarrow> dry_line list" where
  "family_lines configs =
     (let reps = r_Repetitions (hd configs) in
      map (\<lambda>k. let n = int (length (filter (\<lambda>c. family_key c = k) configs))
               in Family k n reps (wrap64 (n * reps)))
        (sort (remdups (map family_key configs))))"

definition planned_line :: "Run \<Rightarrow> dry_line" where
  "planned_line cfg =
     Planned (runIDFor cfg 1) (Persist cfg) (r_NetworkDelayMS cfg) (EmulationFilter cfg) (r_Replicas cfg)
       (r_Concurrency cfg) (r_WritePct cfg)"

definition dryRunMatrix :: "Run list \<Rightarrow> dry_line list \<times> dry_error option" where
  "dryRunMatrix configs =
     (if configs = [] then ([], Some Zero_configurations)
      else let (checks, invalid) = dry_checks configs {} 0;
               listed = checks @ family_lines configs @ map planned_line configs
           in if invalid > 0 then (listed, Some (Invalid_configurations invalid))
              else (listed @ [All_valid_no_collision], None))"

section \<open>The schedule\<close>

definition minRepetitions :: int where "minRepetitions = 10"

record schedInfo =
  sd_block :: int
  sd_seq :: int
  sd_seed :: int
  sd_rerunOf :: string
  sd_rerunReason :: string

record schedItem =
  si_cfg :: Run
  si_rep :: int

definition swap_at :: "nat \<Rightarrow> nat \<Rightarrow> 'a list \<Rightarrow> 'a list" where
  "swap_at i j xs = xs[i := xs ! j, j := xs ! i]"

text \<open>\<^verbatim>\<open>rand.Shuffle\<close>: from the last position down to the second, swap with a drawn position at or
  below it. \<open>draw r n\<close> is one call of \<^verbatim>\<open>int31n\<close> with bound \<open>n\<close>.\<close>

fun Shuffle_loop :: "('r \<Rightarrow> nat \<Rightarrow> nat \<times> 'r) \<Rightarrow> nat \<Rightarrow> 'r \<Rightarrow> 'a list \<Rightarrow> 'a list \<times> 'r" where
  "Shuffle_loop draw 0 r xs = (xs, r)"
| "Shuffle_loop draw (Suc i) r xs =
     (let (j, r') = draw r (Suc (Suc i)) in Shuffle_loop draw i r' (swap_at (Suc i) j xs))"

definition Shuffle :: "('r \<Rightarrow> nat \<Rightarrow> nat \<times> 'r) \<Rightarrow> 'r \<Rightarrow> 'a list \<Rightarrow> 'a list \<times> 'r" where
  "Shuffle draw r xs = Shuffle_loop draw (length xs - 1) r xs"

definition draws_in_range :: "('r \<Rightarrow> nat \<Rightarrow> nat \<times> 'r) \<Rightarrow> bool" where
  "draws_in_range draw \<longleftrightarrow> (\<forall>r n. 0 < n \<longrightarrow> fst (draw r n) < n)"

text \<open>The map \<^verbatim>\<open>byRep\<close> (a missing key reads as the empty slice) and \<^verbatim>\<open>maxRep\<close>.\<close>

definition add_rep :: "Run \<Rightarrow> int \<Rightarrow> (int \<Rightarrow> Run list) \<times> int \<Rightarrow> (int \<Rightarrow> Run list) \<times> int" where
  "add_rep cfg rep = (\<lambda>(byRep, maxRep).
     (byRep(rep := byRep rep @ [cfg]), if rep > maxRep then rep else maxRep))"

definition group_by_rep :: "Run list \<Rightarrow> (int \<Rightarrow> Run list) \<times> int" where
  "group_by_rep configs =
     fold (\<lambda>cfg. fold (add_rep cfg) [1..r_Repetitions cfg]) configs (\<lambda>_. [], 0)"

fun schedule_blocks ::
  "('r \<Rightarrow> nat \<Rightarrow> nat \<times> 'r) \<Rightarrow> (int \<Rightarrow> Run list) \<Rightarrow> int list \<Rightarrow> 'r \<Rightarrow> schedItem list" where
  "schedule_blocks draw byRep [] r = []"
| "schedule_blocks draw byRep (rep # reps) r =
     (let (cfgs, r') = Shuffle draw r (byRep rep)
      in map (\<lambda>cfg. \<lparr>si_cfg = cfg, si_rep = rep\<rparr>) cfgs @ schedule_blocks draw byRep reps r')"

definition buildSchedule ::
  "(int \<Rightarrow> 'r) \<Rightarrow> ('r \<Rightarrow> nat \<Rightarrow> nat \<times> 'r) \<Rightarrow> Run list \<Rightarrow> int \<Rightarrow> schedItem list" where
  "buildSchedule newSource draw configs seed =
     (let (byRep, maxRep) = group_by_rep configs
      in schedule_blocks draw byRep [1..maxRep] (newSource seed))"

section \<open>The matrix command\<close>

text \<open>What \<^verbatim>\<open>matrix\<close> does with its flags: two refusals of the flags themselves, the two replacement
  modes, the load error, the dry run, or a batch with its configurations and the required number of
  repetitions.\<close>

record matrix_flags =
  mf_only :: string
  mf_limit :: int
  mf_rerun :: bool
  mf_rerunIDs :: string
  mf_dryRun :: bool
  mf_reps :: int

datatype matrix_action =
    Exclusive_flags
  | Rerun_listed string
  | Rerun_flagged
  | Load_failed string
  | Dry_run "Run list"
  | Run_batch "Run list" int

definition limit_configs :: "int \<Rightarrow> Run list \<Rightarrow> Run list" where
  "limit_configs limit configs =
     (if limit > 0 \<and> int (length configs) > limit then take (nat limit) configs else configs)"

definition cmdMatrix :: "matrix_flags \<Rightarrow> string + MatrixSpec \<Rightarrow> matrix_action" where
  "cmdMatrix fl loaded =
     (if mf_rerun fl \<and> mf_rerunIDs fl \<noteq> [] then Exclusive_flags
      else if mf_rerunIDs fl \<noteq> [] then Rerun_listed (mf_rerunIDs fl)
      else if mf_rerun fl then Rerun_flagged
      else case loaded of
             Inl e \<Rightarrow> Load_failed e
           | Inr spec \<Rightarrow>
               (let configs = expandMatrix spec (mf_only fl) in
                if mf_dryRun fl then Dry_run configs
                else let limited = limit_configs (mf_limit fl) configs in
                     if mf_reps fl > 0
                     then Run_batch (map (\<lambda>c. c\<lparr>r_Repetitions := mf_reps fl\<rparr>) limited) 1
                     else Run_batch limited minRepetitions))"

section \<open>Flags, defaults and smoke targets\<close>

definition rejectTrailingFlags :: "string list \<Rightarrow> string option" where
  "rejectTrailingFlags positional = List.find (has_prefix ''-'') positional"

record SmokeSpec =
  sm_Base :: Run
  sm_Basic :: Run
  sm_Small :: Run
  sm_Failures :: "FailureCase list"
  sm_Implementations :: "string list"

definition smokeTargets :: "SmokeSpec \<Rightarrow> (string \<times> string) list" where
  "smokeTargets s =
     [(proto, impl). proto \<leftarrow> [''raft'', ''epaxos''], impl \<leftarrow> implementationsFor proto (sm_Implementations s)]"

definition or_default :: "'a::zero \<Rightarrow> 'a \<Rightarrow> 'a" where
  "or_default v d = (if v = 0 then d else v)"

definition or_text :: "string \<Rightarrow> string \<Rightarrow> string" where
  "or_text v d = (if v = [] then d else v)"

definition applyRunDefaults :: "Run \<Rightarrow> Run \<Rightarrow> Run" where
  "applyRunDefaults dst src = dst\<lparr>
     r_Protocol := or_text (r_Protocol dst) (r_Protocol src),
     r_Replicas := or_default (r_Replicas dst) (r_Replicas src),
     r_ReadPct := (if r_ReadPct dst = 0 \<and> r_WritePct dst = 0 then r_ReadPct src else r_ReadPct dst),
     r_WritePct := (if r_ReadPct dst = 0 \<and> r_WritePct dst = 0 then r_WritePct src else r_WritePct dst),
     r_Concurrency := or_default (r_Concurrency dst) (r_Concurrency src),
     r_DurationS := or_default (r_DurationS dst) (r_DurationS src),
     r_WarmupS := or_default (r_WarmupS dst) (r_WarmupS src),
     r_Repetitions := or_default (r_Repetitions dst) (r_Repetitions src),
     r_Failure := (if f_Mode (r_Failure dst) = [] then r_Failure src else r_Failure dst),
     r_ReplicaCPUs := or_default (r_ReplicaCPUs dst) (r_ReplicaCPUs src),
     r_ReplicaMemMB := or_default (r_ReplicaMemMB dst) (r_ReplicaMemMB src),
     r_ClientCPUs := or_default (r_ClientCPUs dst) (r_ClientCPUs src),
     r_ClientMemMB := or_default (r_ClientMemMB dst) (r_ClientMemMB src),
     r_MasterCPUs := or_default (r_MasterCPUs dst) (r_MasterCPUs src),
     r_MasterMemMB := or_default (r_MasterMemMB dst) (r_MasterMemMB src),
     r_Keyspace := or_default (r_Keyspace dst) (r_Keyspace src),
     r_TimeoutMS := or_default (r_TimeoutMS dst) (r_TimeoutMS src),
     r_Seed := or_default (r_Seed dst) (r_Seed src),
     r_GOMAXPROCS := or_default (r_GOMAXPROCS dst) (r_GOMAXPROCS src),
     r_RaftHeartbeatMS := or_default (r_RaftHeartbeatMS dst) (r_RaftHeartbeatMS src),
     r_RaftElectionMS := or_default (r_RaftElectionMS dst) (r_RaftElectionMS src),
     r_RaftSnapshotThr := or_default (r_RaftSnapshotThr dst) (r_RaftSnapshotThr src),
     r_RaftTrailingLogs := or_default (r_RaftTrailingLogs dst) (r_RaftTrailingLogs src),
     r_HotKeys := or_default (r_HotKeys dst) (r_HotKeys src),
     r_ConflictPct := or_default (r_ConflictPct dst) (r_ConflictPct src),
     r_PersistenceMode := or_text (r_PersistenceMode dst) (r_PersistenceMode src),
     r_NetworkDelayMS := or_default (r_NetworkDelayMS dst) (r_NetworkDelayMS src),
     r_NetworkEmulationMethod := or_text (r_NetworkEmulationMethod dst) (r_NetworkEmulationMethod src),
     r_NetworkInterface := or_text (r_NetworkInterface dst) (r_NetworkInterface src),
     r_NetworkFilter := or_text (r_NetworkFilter dst) (r_NetworkFilter src)\<rparr>"

section \<open>Facts: the expansion\<close>

lemma expand_family_mem:
  "cfg \<in> set (expand_family only name expand spec)
    \<longleftrightarrow> (only = [] \<or> only = name) \<and> (\<exists>s. spec = Some s \<and> cfg \<in> set (expand s))"
  by (auto simp: expand_family_def split: option.split)

lemma implementationsFor_mem:
  "impl \<in> set (implementationsFor protocol impls)
    \<Longrightarrow> impl = [] \<or> impl \<in> set impls \<and> ImplSupported protocol impl"
  by (auto simp: implementationsFor_def Let_def split: if_splits)

lemma implementationsFor_distinct: "distinct impls \<Longrightarrow> distinct (implementationsFor protocol impls)"
  by (simp add: implementationsFor_def Let_def)

lemma implementationsFor_effective:
  assumes "i \<in> set (implementationsFor p impls)" and "j \<in> set (implementationsFor p impls)"
    and "effective_impl p i = effective_impl p j"
  shows "i = j"
proof (cases "filter (ImplSupported p) impls = []")
  case True
  then show ?thesis using assms (1,2) by (simp add: implementationsFor_def)
next
  case False
  then have "ImplSupported p i" "ImplSupported p j" using assms (1,2) by (auto simp: implementationsFor_def)
  moreover have "\<not> ImplSupported p []" by (simp add: ImplSupported_def impl_defs)
  ultimately show ?thesis using assms (3) by (auto simp: effective_impl_def split: if_splits)
qed

section \<open>Facts: the schedule\<close>

lemma mset_swap_at: "i < length xs \<Longrightarrow> j < length xs \<Longrightarrow> mset (swap_at i j xs) = mset xs"
  by (simp add: swap_at_def mset_swap)

lemma length_swap_at [simp]: "length (swap_at i j xs) = length xs"
  by (simp add: swap_at_def)

lemma mset_Shuffle_loop:
  "draws_in_range draw \<Longrightarrow> i < length xs \<Longrightarrow> mset (fst (Shuffle_loop draw i r xs)) = mset xs"
proof (induction draw i r xs rule: Shuffle_loop.induct)
  case (1 draw r xs)
  then show ?case by simp
next
  case (2 draw i r xs)
  obtain j r' where d: "draw r (Suc (Suc i)) = (j, r')" by (cases "draw r (Suc (Suc i))")
  have "j < Suc (Suc i)" using 2 (2) d unfolding draws_in_range_def by (metis fst_conv zero_less_Suc)
  with 2 (3) have m: "mset (swap_at (Suc i) j xs) = mset xs" by (intro mset_swap_at) auto
  have "mset (fst (Shuffle_loop draw i r' (swap_at (Suc i) j xs))) = mset (swap_at (Suc i) j xs)"
    using "2.IH" [OF d [symmetric] refl] 2 (2,3) by simp
  with m d show ?case by simp
qed

lemma mset_Shuffle: "draws_in_range draw \<Longrightarrow> mset (fst (Shuffle draw r xs)) = mset xs"
  by (cases xs) (auto simp: Shuffle_def mset_Shuffle_loop)

lemma add_rep_upto:
  "fold (add_rep cfg) [a..k] (m, mx)
    = (\<lambda>rep. if a \<le> rep \<and> rep \<le> k then m rep @ [cfg] else m rep, if a \<le> k \<and> mx < k then k else mx)"
proof (induction a k arbitrary: m mx rule: upto.induct)
  case (1 a k)
  show ?case
  proof (cases "a \<le> k")
    case True
    have "fold (add_rep cfg) [a..k] (m, mx)
        = fold (add_rep cfg) [a + 1..k] (m(a := m a @ [cfg]), if a > mx then a else mx)"
      using True by (simp add: upto_rec1 add_rep_def)
    also have "\<dots> = (\<lambda>rep. if a \<le> rep \<and> rep \<le> k then m rep @ [cfg] else m rep,
        if a \<le> k \<and> mx < k then k else mx)"
      using True by (subst "1.IH" [OF True]) (auto simp: fun_eq_iff)
    finally show ?thesis .
  qed (auto simp: fun_eq_iff)
qed

lemma group_by_rep_fold:
  "fold (\<lambda>cfg. fold (add_rep cfg) [1..r_Repetitions cfg]) configs (m, mx)
    = (\<lambda>rep. m rep @ filter (\<lambda>cfg. 1 \<le> rep \<and> rep \<le> r_Repetitions cfg) configs,
       fold (\<lambda>cfg mx. if 1 \<le> r_Repetitions cfg \<and> mx < r_Repetitions cfg then r_Repetitions cfg else mx)
         configs mx)"
  by (induction configs arbitrary: m mx) (auto simp: add_rep_upto fun_eq_iff)

lemma max_rep_upper:
  "mx \<le> fold (\<lambda>cfg mx. if 1 \<le> r_Repetitions cfg \<and> mx < r_Repetitions cfg then r_Repetitions cfg else mx) cs mx
   \<and> (\<forall>cfg \<in> set cs. 1 \<le> r_Repetitions cfg \<longrightarrow> r_Repetitions cfg \<le>
      fold (\<lambda>cfg mx. if 1 \<le> r_Repetitions cfg \<and> mx < r_Repetitions cfg then r_Repetitions cfg else mx) cs mx)"
proof (induction cs arbitrary: mx)
  case Nil
  then show ?case by simp
next
  case (Cons c cs)
  from Cons.IH [of "if 1 \<le> r_Repetitions c \<and> mx < r_Repetitions c then r_Repetitions c else mx"]
  show ?case by (auto split: if_splits)
qed

lemma schedule_blocks_cons:
  "schedule_blocks draw byRep (rep # reps) r =
     map (\<lambda>cfg. \<lparr>si_cfg = cfg, si_rep = rep\<rparr>) (fst (Shuffle draw r (byRep rep)))
     @ schedule_blocks draw byRep reps (snd (Shuffle draw r (byRep rep)))"
  by (simp add: split_def Let_def)

lemma schedule_blocks_of_rep:
  assumes "draws_in_range draw" and "distinct reps"
  shows "mset (map si_cfg (filter (\<lambda>it. si_rep it = b) (schedule_blocks draw byRep reps r)))
    = (if b \<in> set reps then mset (byRep b) else {#})"
  using assms
proof (induction reps arbitrary: r)
  case Nil
  then show ?case by simp
next
  case (Cons rep reps)
  have "map si_cfg (filter (\<lambda>it. si_rep it = b)
      (map (\<lambda>cfg. \<lparr>si_cfg = cfg, si_rep = rep\<rparr>) cfgs)) = (if rep = b then cfgs else [])" for cfgs
    by (induction cfgs) auto
  with Cons show ?case by (auto simp: schedule_blocks_cons mset_Shuffle simp del: schedule_blocks.simps)
qed

lemma schedule_blocks_sorted:
  "sorted reps \<Longrightarrow> sorted (map si_rep (schedule_blocks draw byRep reps r))
    \<and> si_rep ` set (schedule_blocks draw byRep reps r) \<subseteq> set reps"
proof (induction reps arbitrary: r)
  case Nil
  then show ?case by simp
next
  case (Cons rep reps)
  have "sorted (map si_rep (map (\<lambda>cfg. \<lparr>si_cfg = cfg, si_rep = rep\<rparr>) cfgs))" for cfgs
    by (induction cfgs) auto
  with Cons show ?case
    by (fastforce simp: schedule_blocks_cons sorted_append comp_def simp del: schedule_blocks.simps)
qed

lemma buildSchedule_blocks:
  assumes "draws_in_range draw"
  shows "mset (map si_cfg (filter (\<lambda>it. si_rep it = b) (buildSchedule newSource draw configs seed)))
    = mset (filter (\<lambda>cfg. 1 \<le> b \<and> b \<le> r_Repetitions cfg) configs)"
proof -
  obtain byRep maxRep where g: "group_by_rep configs = (byRep, maxRep)" by (cases "group_by_rep configs")
  then have byRep: "byRep b = filter (\<lambda>cfg. 1 \<le> b \<and> b \<le> r_Repetitions cfg) configs"
    and upper: "\<And>cfg. cfg \<in> set configs \<Longrightarrow> 1 \<le> r_Repetitions cfg \<Longrightarrow> r_Repetitions cfg \<le> maxRep"
    using max_rep_upper [of 0 configs] by (auto simp: group_by_rep_def group_by_rep_fold)
  have "byRep b = []" if "b \<notin> set [1..maxRep]"
    using that upper by (auto simp: byRep filter_empty_conv) force
  then show ?thesis
    using schedule_blocks_of_rep [OF assms, of "[1..maxRep]" b byRep "newSource seed"]
    unfolding buildSchedule_def g Let_def prod.case byRep [symmetric]
    by (cases "b \<in> set [1..maxRep]") simp_all
qed

lemma buildSchedule_sorted: "sorted (map si_rep (buildSchedule newSource draw configs seed))"
  by (simp add: buildSchedule_def split_def Let_def schedule_blocks_sorted)

lemma dry_checks_facts:
  "snd (dry_checks configs seen n) = n + length (filter (\<lambda>c. Validate c \<noteq> None) configs)
   \<and> ((\<exists>rid. Collision rid \<in> set (fst (dry_checks configs seen n)))
      \<longleftrightarrow> \<not> distinct (map (\<lambda>c. runIDFor c 1) configs)
          \<or> (\<exists>c \<in> set configs. runIDFor c 1 \<in> seen))"
proof (induction configs arbitrary: seen n)
  case Nil
  then show ?case by simp
next
  case (Cons c cs)
  let ?n = "n + (case Validate c of None \<Rightarrow> 0 | Some e \<Rightarrow> 1)"
  from Cons.IH [of "insert (runIDFor c 1) seen" ?n] show ?case
    by (auto simp: Let_def split_def image_iff split: option.splits) metis+
qed

lemma wrap64_cong: "a mod 2 ^ 64 = b mod 2 ^ 64 \<Longrightarrow> wrap64 a = wrap64 b"
  unfolding wrap64_def by (metis mod_add_left_eq)

lemma wrap64_mix: "wrap64 (wrap64 (100 - w) + w) = 100"
proof -
  have "wrap64 (100 - w) mod 2 ^ 64 = (100 - w) mod 2 ^ 64"
    unfolding wrap64_def by (metis mod_diff_left_eq diff_add_cancel add_diff_cancel_right')
  then have "(wrap64 (100 - w) + w) mod 2 ^ 64 = (100 - w + w) mod 2 ^ 64"
    by (metis mod_add_left_eq)
  from wrap64_cong [OF this] show ?thesis by (simp add: wrap64_id)
qed

lemma wrap64_mix': "wrap64 (w + wrap64 (100 - w)) = 100"
  using wrap64_mix by (simp add: add.commute)

lemmas Impl_effective = Impl_def effective_impl_def

text \<open>The identifiers of a comprehension are distinct when each generator is and the identifier
  determines every generated variable.\<close>

lemma distinct_generated:
  assumes "distinct xs" and "\<And>x. x \<in> set xs \<Longrightarrow> distinct (map f (g x))"
    and "\<And>x y a b. x \<in> set xs \<Longrightarrow> y \<in> set xs \<Longrightarrow> a \<in> set (g x) \<Longrightarrow> b \<in> set (g y) \<Longrightarrow> f a = f b \<Longrightarrow> x = y"
  shows "distinct (map f (concat (map g xs)))"
  using assms
proof (induction xs)
  case Nil
  then show ?case by simp
next
  case (Cons x xs)
  have "distinct (map f (concat (map g xs)))"
    using Cons.prems by (intro Cons.IH) (auto simp del: map_map)
  moreover have "f ` set (g x) \<inter> f ` set (concat (map g xs)) = {}"
    using Cons.prems (1,3) by fastforce
  ultimately show ?case using Cons.prems (2) [of x] by auto
qed

lemma effective_impl_supported:
  "p \<in> {''raft'', ''epaxos''} \<Longrightarrow> i \<in> set (implementationsFor p impls) \<Longrightarrow> ImplSupported p (effective_impl p i)"
  using implementationsFor_mem [of i p impls] ImplSupported_PrimaryImpl [of p]
  by (auto simp: effective_impl_def)

section \<open>Properties\<close>

text \<open>C36: Whatever the random source draws, the blocked schedule runs its blocks in ascending order, and
  block \<open>b\<close> holds each configuration with at least \<open>b\<close> repetitions exactly as often as it is listed,
  and nothing else.\<close>

theorem schedule_is_blocked:
  assumes "draws_in_range draw"
  shows "sorted (map si_rep (buildSchedule newSource draw configs seed))
    \<and> (\<forall>b. mset (map si_cfg (filter (\<lambda>it. si_rep it = b) (buildSchedule newSource draw configs seed)))
        = mset (filter (\<lambda>cfg. 1 \<le> b \<and> b \<le> r_Repetitions cfg) configs))"
  using buildSchedule_sorted buildSchedule_blocks [OF assms] by blast

definition sample_draw :: "nat \<Rightarrow> nat \<Rightarrow> nat \<times> nat" where
  "sample_draw r n = ((7 * r + 3) mod n, Suc r)"

definition two_protocols :: "Run list" where
  "two_protocols = [Default\<lparr>r_Repetitions := 2\<rparr>, Default\<lparr>r_Protocol := ''epaxos'', r_Repetitions := 1\<rparr>]"

theorem schedule_is_blocked_witness:
  "sorted (map si_rep (buildSchedule nat sample_draw two_protocols 5))
    \<and> mset (map si_cfg (filter (\<lambda>it. si_rep it = 2) (buildSchedule nat sample_draw two_protocols 5)))
      = {#Default\<lparr>r_Repetitions := 2\<rparr>#}"
proof -
  have "draws_in_range sample_draw" by (simp add: draws_in_range_def sample_draw_def)
  from schedule_is_blocked [OF this, of nat two_protocols 5] show ?thesis
    by (simp add: two_protocols_def)
qed

text \<open>The dry run succeeds exactly when the expansion is not empty and every configuration is valid,
  and it prints a collision exactly when two configurations have the same identifier: a collision does
  not make it fail.\<close>

theorem dry_run_verdict:
  "(snd (dryRunMatrix configs) = None
      \<longleftrightarrow> configs \<noteq> [] \<and> filter (\<lambda>c. Validate c \<noteq> None) configs = [])
   \<and> ((\<exists>rid. Collision rid \<in> set (fst (dryRunMatrix configs)))
      \<longleftrightarrow> \<not> distinct (map (\<lambda>c. runIDFor c 1) configs))"
proof (cases "configs = []")
  case True
  then show ?thesis by (simp add: dryRunMatrix_def)
next
  case False
  have "Collision rid \<notin> set (family_lines configs)" "Collision rid \<notin> set (map planned_line configs)" for rid
    by (auto simp: family_lines_def planned_line_def Let_def)
  with False dry_checks_facts [of configs "{}" 0] show ?thesis
    by (auto simp: dryRunMatrix_def split_def Let_def)
qed

definition family_of :: "Run \<Rightarrow> string" where
  "family_of cfg = (if r_Experiment cfg = ''scaling-conc'' then ''scalingconc'' else r_Experiment cfg)"

definition config_fits :: "Run \<Rightarrow> string \<Rightarrow> Run \<Rightarrow> bool" where
  "config_fits base family cfg \<longleftrightarrow>
     family_of cfg = family
   \<and> wrap64 (r_ReadPct cfg + r_WritePct cfg) = 100
   \<and> (f_Mode (r_Failure cfg) = FailureNone \<or> family \<in> {''failure'', ''election''})
   \<and> (family = ''persistence'' \<longrightarrow> PersistSupported (Impl cfg) (Persist cfg))
   \<and> (family = ''networkdelay'' \<longrightarrow> r_CommCostMS cfg = 0 \<and> r_CommJitterPct cfg = 0)
   \<and> r_Seed cfg = r_Seed base \<and> r_WarmupS cfg = r_WarmupS base
   \<and> r_Repetitions cfg = r_Repetitions base"

lemmas fits_simps = config_fits_def family_of_def no_failure_def wrap64_mix wrap64_mix'

lemma PersistSupported_nonempty: "PersistSupported i m \<Longrightarrow> m \<noteq> []"
  by (auto simp: PersistSupported_def PersistDurable_def PersistMemory_def split: if_splits)

lemma workload_fits: "cfg \<in> set (expand_workload base s) \<Longrightarrow> config_fits base ''workload'' cfg"
  unfolding expand_workload_def by (auto simp: fits_simps)

lemma scaling_fits: "cfg \<in> set (expand_scaling base s) \<Longrightarrow> config_fits base ''scaling'' cfg"
  unfolding expand_scaling_def by (auto simp: fits_simps)

lemma conflict_fits: "cfg \<in> set (expand_conflict base s) \<Longrightarrow> config_fits base ''conflict'' cfg"
  unfolding expand_conflict_def by (auto simp: fits_simps)

lemma concurrency_fits: "cfg \<in> set (expand_concurrency base s) \<Longrightarrow> config_fits base ''concurrency'' cfg"
  unfolding expand_concurrency_def by (auto simp: fits_simps)

lemma failure_fits: "cfg \<in> set (expand_failure base s) \<Longrightarrow> config_fits base ''failure'' cfg"
  unfolding expand_failure_def by (auto simp: fits_simps)

lemma election_fits: "cfg \<in> set (expand_election base s) \<Longrightarrow> config_fits base ''election'' cfg"
  unfolding expand_election_def by (auto simp: fits_simps)

lemma commcost_fits: "cfg \<in> set (expand_commcost base s) \<Longrightarrow> config_fits base ''commcost'' cfg"
  unfolding expand_commcost_def by (auto simp: fits_simps)

lemma persistence_fits: "cfg \<in> set (expand_persistence base s) \<Longrightarrow> config_fits base ''persistence'' cfg"
  unfolding expand_persistence_def
  by (auto simp: fits_simps Impl_effective Persist_def dest: PersistSupported_nonempty)

lemma conflictvalidation_fits:
  "cfg \<in> set (expand_conflictvalidation base s) \<Longrightarrow> config_fits base ''conflictvalidation'' cfg"
  unfolding expand_conflictvalidation_def by (auto simp: fits_simps)

lemma networkdelay_fits: "cfg \<in> set (expand_networkdelay base s) \<Longrightarrow> config_fits base ''networkdelay'' cfg"
  unfolding expand_networkdelay_def by (auto simp: fits_simps)

lemma scalingconc_fits: "cfg \<in> set (expand_scalingconc base s) \<Longrightarrow> config_fits base ''scalingconc'' cfg"
  unfolding expand_scalingconc_def by (auto simp: fits_simps)

lemmas family_fits =
  workload_fits scaling_fits conflict_fits concurrency_fits failure_fits election_fits commcost_fits
  persistence_fits conflictvalidation_fits networkdelay_fits scalingconc_fits

lemma expand_family_fits:
  assumes "cfg \<in> set (expand_family only name f spec)"
    and "\<And>s. cfg \<in> set (f s) \<Longrightarrow> config_fits base name cfg"
  shows "\<exists>family. (only = [] \<or> only = family) \<and> config_fits base family cfg"
  using assms unfolding expand_family_mem by blast

lemma expanded_fits:
  "cfg \<in> set (expandMatrix spec only)
    \<Longrightarrow> \<exists>family. (only = [] \<or> only = family) \<and> config_fits (ms_Defaults spec) family cfg"
  unfolding expandMatrix_def Let_def set_append Un_iff
  by (elim disjE; rule expand_family_fits, assumption, erule family_fits)


definition sample_persistence :: MatrixSpec where
  "sample_persistence =
     \<lparr>ms_Defaults = Default, ms_Workload = None, ms_Scaling = None, ms_Conflict = None,
      ms_Concurrency = None, ms_Failure = None, ms_Election = None, ms_CommCost = None,
      ms_Persistence = Some \<lparr>ps_Protocols = [''raft'', ''epaxos''], ps_Implementations = [''hashicorp'', ''nvb''],
        ps_Modes = [''durable'', ''memory''], ps_Replicas = [3], ps_WritePct = 100, ps_Concurrency = 32\<rparr>,
      ms_NetworkDelay = None, ms_ConflictVal = None, ms_ScalingConc = None\<rparr>"


text \<open>Two failure cases that differ in the share of writes, the concurrency and the time of the fault.\<close>

definition failure_cases :: "FailureCase list" where
  "failure_cases =
     [\<lparr>fc_Protocol = ''raft'', fc_Mode = FailureLeader, fc_Replicas = 3, fc_WritePct = 50,
       fc_Concurrency = 32, fc_AtS = 5, fc_RestartAfterS = 0, fc_FailedElections = 0\<rparr>,
      \<lparr>fc_Protocol = ''raft'', fc_Mode = FailureLeader, fc_Replicas = 3, fc_WritePct = 100,
       fc_Concurrency = 8, fc_AtS = 7, fc_RestartAfterS = 2, fc_FailedElections = 0\<rparr>]"

text \<open>Two cases of the failure family that differ in the share of writes, the concurrency, the
  time of the fault and the restart get the same run identifier; the dry run prints the collision, and
  then succeeds with its last line saying that no identifiers collide.\<close>

theorem dry_run_passes_with_collision:
  "snd (dryRunMatrix (expand_failure Default failure_cases)) = None
   \<and> Collision ''failure-leader-raft-r3-1'' \<in> set (fst (dryRunMatrix (expand_failure Default failure_cases)))
   \<and> last (fst (dryRunMatrix (expand_failure Default failure_cases))) = All_valid_no_collision"
proof -
  let ?cs = "expand_failure Default failure_cases"
  have ne: "?cs \<noteq> []" by (simp add: expand_failure_def failure_cases_def)
  have checks: "dry_checks ?cs {} 0 = ([Collision ''failure-leader-raft-r3-1''], 0)" by code_simp
  show ?thesis using ne by (simp add: dryRunMatrix_def checks)
qed

section \<open>Identifiers of an expanded family\<close>

lemma implementationsFor_supported:
  "p \<in> {''raft'', ''epaxos''} \<Longrightarrow> i \<in> set (implementationsFor p impls)
    \<Longrightarrow> ImplSupported p (effective_impl p i) \<and> CHR ''-'' \<notin> set (DefaultPersistence (effective_impl p i))"
  using effective_impl_supported [of p i impls]
  by (auto simp: DefaultPersistence_def PersistDurable_def PersistMemory_def)

text \<open>The parts of a network-delay configuration, and of a conflict-validation one, are in its identifier.\<close>

lemma networkdelay_parts:
  assumes "p \<in> {''raft'', ''epaxos''}" "i \<in> set (implementationsFor p impls)"
    and "p' \<in> {''raft'', ''epaxos''}" "i' \<in> set (implementationsFor p' impls)" and "0 \<le> rep"
    and "r_PersistenceMode base = []"
    and "runIDFor (base\<lparr>r_Experiment := ''networkdelay'', r_Protocol := p, r_Implementation := i,
           r_Replicas := n, r_WritePct := w, r_ReadPct := rd, r_Concurrency := c, r_NetworkDelayMS := d,
           r_NetworkEmulationMethod := em, r_NetworkInterface := fc, r_NetworkFilter := fl,
           r_CommCostMS := 0, r_CommJitterPct := 0, r_Failure := f\<rparr>) rep
       = runIDFor (base\<lparr>r_Experiment := ''networkdelay'', r_Protocol := p', r_Implementation := i',
           r_Replicas := n', r_WritePct := w, r_ReadPct := rd, r_Concurrency := c, r_NetworkDelayMS := d',
           r_NetworkEmulationMethod := em, r_NetworkInterface := fc, r_NetworkFilter := fl,
           r_CommCostMS := 0, r_CommJitterPct := 0, r_Failure := f\<rparr>) rep" (is "runIDFor ?a rep = runIDFor ?b rep")
  shows "p = p' \<and> i = i' \<and> n = n' \<and> d = d'"
proof -
  note s = implementationsFor_supported [OF assms(1,2)] implementationsFor_supported [OF assms(3,4)]
  have impl: "Impl ?a = effective_impl p i" "Impl ?b = effective_impl p' i'"
    by (simp_all add: Impl_def effective_impl_def)
  have persist: "Persist ?a = DefaultPersistence (effective_impl p i)"
    "Persist ?b = DefaultPersistence (effective_impl p' i')"
    by (simp_all add: Persist_def impl assms(6))
  have name: "experimentName ?a = ''networkdelay''" "experimentName ?b = ''networkdelay''"
    by (simp_all add: experimentName_def)
  have "r_Protocol ?a = r_Protocol ?b \<and> Impl ?a = Impl ?b \<and> id_numbers ?a rep = id_numbers ?b rep
      \<and> (experimentName ?a = ''persistence'' \<longrightarrow> Persist ?a = Persist ?b)"
    by (rule run_id_parts [OF _ _ _ _ assms(5) assms(5) _ _ assms(7)]) (simp_all add: impl persist name s)
  then have a: "r_Protocol ?a = r_Protocol ?b" and b: "Impl ?a = Impl ?b"
    and c: "id_numbers ?a rep = id_numbers ?b rep" by blast+
  from a have "p = p'" by simp
  moreover from b have "effective_impl p i = effective_impl p' i'" unfolding impl .
  moreover from c have "n = n' \<and> d = d'" by (simp add: id_numbers_def name)
  ultimately have "p = p' \<and> effective_impl p i = effective_impl p' i' \<and> n = n' \<and> d = d'" by blast
  then show ?thesis using implementationsFor_effective [OF assms(2)] assms(4) by blast
qed

text \<open>The network-delay family gives every combination of protocol, implementation, replica count
  and delay its own run identifier, provided no value is listed twice.\<close>

theorem networkdelay_identifiers_distinct:
  assumes "set (nd_Protocols s) \<subseteq> {''raft'', ''epaxos''}" and "r_PersistenceMode base = []" and "0 \<le> rep"
    and "distinct (nd_Protocols s)" and "distinct (nd_Implementations s)"
    and "distinct (nd_Replicas s)" and "distinct (nd_DelaysMS s)"
  shows "distinct (map (\<lambda>cfg. runIDFor cfg rep) (expand_networkdelay base s))"
proof -
  note parts = networkdelay_parts [OF _ _ _ _ assms(3,2)]
  have P: "p \<in> {''raft'', ''epaxos''}" if "p \<in> set (nd_Protocols s)" for p using that assms(1) by blast
  show ?thesis
    unfolding expand_networkdelay_def
  proof (rule distinct_generated [OF assms(4)], goal_cases)
    case (1 p)
    note p = P [OF 1]
    show ?case
    proof (rule distinct_generated [OF implementationsFor_distinct [OF assms(5)]], goal_cases)
      case (1 i)
      note i = 1
      show ?case
      proof (rule distinct_generated [OF assms(6)], goal_cases)
        case (1 n)
        show ?case using parts [OF p i p i] assms(7) by (auto simp: distinct_map inj_on_def comp_def)
      next
        case (2 n n' a b)
        then show ?case using parts [OF p i p i] by auto
      qed
    next
      case (2 i i' a b)
      then show ?case using parts [OF p _ p _] by auto
    qed
  next
    case (2 p p' a b)
    then show ?case using parts [OF P _ P _] by auto
  qed
qed

definition delay_spec :: NetworkDelaySpec where
  "delay_spec = \<lparr>nd_Protocols = [''raft'', ''epaxos''], nd_Implementations = [''hashicorp'', ''etcd'', ''nvb''],
     nd_Replicas = [3, 5], nd_WritePct = 100, nd_Concurrency = 32, nd_DelaysMS = [0, 5],
     nd_EmulationMethod = [], nd_Interface = [], nd_Filter = []\<rparr>"

theorem networkdelay_identifiers_distinct_witness:
  "length (expand_networkdelay Default delay_spec) = 12
   \<and> distinct (map (\<lambda>cfg. runIDFor cfg 1) (expand_networkdelay Default delay_spec))"
proof -
  have "length (expand_networkdelay Default delay_spec) = 12" by code_simp
  moreover have "r_PersistenceMode Default = []" by code_simp
  ultimately show ?thesis
    using networkdelay_identifiers_distinct [of delay_spec Default 1] by (simp add: delay_spec_def)
qed

end
