(* ===== verification/Lab_Client.thy ===== *)
theory Lab_Client
  imports Lab_Proto "HOL-Library.Multiset"
begin

text \<open>
  The benchmark client (\<^verbatim>\<open>lab/client/main.go\<close>): the workload's choice of keys, one request over a
  connection with its failure paths, reconnecting, a worker's closed loop with its request identifiers,
  the correctness mode in which workers share a counter, and the rows written to \<^verbatim>\<open>requests.csv\<close>.

  Environment as parameters: \<open>intn\<close> is the worker's random source (\<open>intn n r\<close> is the next value and
  the source afterwards), an \<open>io\<close> record says what the connection does during one request, a
  \<open>net\<close> record what the master and the dialled replica answer during one reconnect. Times are the
  nanoseconds the clock returned. The goroutines of the correctness mode are interleaved by a schedule:
  each step lets one worker take its next identifier or finish the request it has in flight.
\<close>

section \<open>Configuration, requests and records\<close>

record config =
  cf_protocol :: string
  cf_impl :: string
  cf_replicas :: int
  cf_writePct :: int
  cf_concurrency :: int
  cf_runID :: string
  cf_seed :: int
  cf_keyspace :: int
  cf_conflictPct :: int
  cf_hotKeys :: int
  cf_correctness :: int
  cf_valueBase :: int

text \<open>The checks \<^verbatim>\<open>main\<close> makes before it starts.\<close>

definition client_flags_ok :: "config \<Rightarrow> bool" where
  "client_flags_ok cfg \<longleftrightarrow>
     \<not> (cf_conflictPct cfg < 0 \<or> cf_conflictPct cfg > 100)
     \<and> \<not> (cf_hotKeys cfg < 1 \<or> cf_hotKeys cfg > cf_keyspace cfg)"

record reqRecord =
  q_runID :: string
  q_protocol :: string
  q_replicas :: int
  q_readPct :: int
  q_writePct :: int
  q_concurrency :: int
  q_conflictPct :: int
  q_worker :: int
  q_seq :: int
  q_requestID :: int
  q_op :: string
  q_key :: int
  q_hot :: bool
  q_target :: int
  q_startNS :: int
  q_endNS :: int
  q_latencyNS :: int
  q_ok :: bool
  q_errMsg :: string
  q_value :: int

definition pickKey :: "config \<Rightarrow> (int \<Rightarrow> 'r \<Rightarrow> int \<times> 'r) \<Rightarrow> 'r \<Rightarrow> (int \<times> bool) \<times> 'r" where
  "pickKey cfg intn r =
     (let (b, r1) = (if cf_conflictPct cfg > 0
                     then (case intn 100 r of (x, r') \<Rightarrow> (x < cf_conflictPct cfg, r'))
                     else (False, r))
      in if b then (case intn (cf_hotKeys cfg) r1 of (x, r') \<Rightarrow> ((x, True), r'))
         else (let cold = cf_keyspace cfg - cf_hotKeys cfg in
               if cold \<le> 0 then (case intn (cf_hotKeys cfg) r1 of (x, r') \<Rightarrow> ((x, True), r'))
               else (case intn cold r1 of (x, r') \<Rightarrow> ((cf_hotKeys cfg + x, False), r'))))"

definition opName :: "byte \<Rightarrow> string" where
  "opName op = (if op = PUT then ''PUT'' else ''GET'')"

section \<open>A worker and its connection\<close>

record 'r worker =
  wk_id :: int
  wk_conn :: bool
  wk_target :: int
  wk_seq :: int
  wk_rand :: 'r

record net =
  nt_leaders :: "int list"
  nt_dial :: bool

record io =
  io_setWriteDeadline :: "string option"
  io_writeByte :: "string option"
  io_flush :: "string option"
  io_setReadDeadline :: "string option"
  io_incoming :: bytes

definition dial :: "nat \<Rightarrow> bool \<Rightarrow> int \<Rightarrow> bool" where
  "dial n answers i = (if i < 0 \<or> i \<ge> int n then False else answers)"

text \<open>The answers of the master to successive \<^verbatim>\<open>GetLeader\<close> calls; no answer is \<open>-1\<close>.\<close>

fun leader_poll :: "nat \<Rightarrow> nat \<Rightarrow> int list \<Rightarrow> int option" where
  "leader_poll 0 n ls = None"
| "leader_poll (Suc k) n ls =
     (let l = (case ls of [] \<Rightarrow> - 1 | x # _ \<Rightarrow> x) in
      if l \<ge> 0 \<and> l < int n then Some l else leader_poll k n (tl ls))"

definition reconnect :: "config \<Rightarrow> nat \<Rightarrow> net \<Rightarrow> int \<Rightarrow> 'r worker \<Rightarrow> int \<times> 'r worker" where
  "reconnect cfg n net leader w =
     (let (leader', w1) =
        (if cf_protocol cfg = ''raft''
         then (case leader_poll 20 n (nt_leaders net) of
                 Some l \<Rightarrow> (l, w\<lparr>wk_target := l\<rparr>)
               | None \<Rightarrow> (leader, w))
         else (leader, w\<lparr>wk_target := (wk_target w + 1) mod int n\<rparr>))
      in (leader', w1\<lparr>wk_conn := dial n (nt_dial net) (wk_target w1)\<rparr>))"

definition io_error_string :: "io_error \<Rightarrow> string" where
  "io_error_string e = (case e of EOF \<Rightarrow> ''EOF'' | UnexpectedEOF \<Rightarrow> ''unexpected EOF'')"

definition request_message :: "'r worker \<Rightarrow> byte \<Rightarrow> int \<Rightarrow> int \<Rightarrow> int \<Rightarrow> Propose" where
  "request_message w op key val now =
     \<lparr>pr_CommandId = of_int (wk_seq w),
      pr_Command = \<lparr>cmd_Op = op, cmd_K = of_int key, cmd_V = of_int val\<rparr>,
      pr_Timestamp = of_int now\<rparr>"

definition zero_ProposeReplyTS :: ProposeReplyTS where
  "zero_ProposeReplyTS = \<lparr>ts_OK = 0, ts_CommandId = 0, ts_Value = 0, ts_Timestamp = 0\<rparr>"

text \<open>One request: the leader the client remembers and the worker afterwards, the bytes flushed to the
  replica, and \<open>(ok, error, value)\<close>.\<close>

definition doRequestVal ::
  "config \<Rightarrow> nat \<Rightarrow> net \<Rightarrow> io \<Rightarrow> int \<Rightarrow> 'r worker \<Rightarrow> byte \<Rightarrow> int \<Rightarrow> int \<Rightarrow> int
     \<Rightarrow> int \<times> 'r worker \<times> bytes \<times> (bool \<times> string \<times> int)" where
  "doRequestVal cfg n net io leader w op key val now =
     (let (leader1, w1) = (if \<not> wk_conn w then reconnect cfg n net leader w else (leader, w)) in
      if \<not> wk_conn w1 then (leader1, w1, [], (False, ''no connection'', 0))
      else case io_setWriteDeadline io of
        Some e \<Rightarrow> (leader1, w1, [], (False, e, 0))
      | None \<Rightarrow>
      (case io_writeByte io of
        Some e \<Rightarrow> (case reconnect cfg n net leader1 w1 of (l, w2) \<Rightarrow> (l, w2, [], (False, e, 0)))
      | None \<Rightarrow>
      (case io_flush io of
        Some e \<Rightarrow> (case reconnect cfg n net leader1 w1 of (l, w2) \<Rightarrow> (l, w2, [], (False, e, 0)))
      | None \<Rightarrow>
        (let sent = PROPOSE # Propose_Marshal (request_message w1 op key val now) in
         case io_setReadDeadline io of
           Some e \<Rightarrow> (leader1, w1, sent, (False, e, 0))
         | None \<Rightarrow>
           (case ProposeReplyTS_Unmarshal zero_ProposeReplyTS (io_incoming io) of
              (Some e, _, _) \<Rightarrow>
                (case reconnect cfg n net leader1 w1 of (l, w2) \<Rightarrow> (l, w2, sent, (False, io_error_string e, 0)))
            | (None, reply, _) \<Rightarrow> (leader1, w1, sent, (ts_OK reply \<noteq> 0, '''', sint (ts_Value reply))))))))"

definition doRequest ::
  "config \<Rightarrow> nat \<Rightarrow> net \<Rightarrow> io \<Rightarrow> int \<Rightarrow> 'r worker \<Rightarrow> byte \<Rightarrow> int \<Rightarrow> int
     \<Rightarrow> int \<times> 'r worker \<times> bytes \<times> (bool \<times> string)" where
  "doRequest cfg n net io leader w op key now =
     (case doRequestVal cfg n net io leader w op key (wk_seq w) now of
        (l, w', sent, (ok, err, _)) \<Rightarrow> (l, w', sent, (ok, err)))"

section \<open>The timed phase\<close>

record env =
  en_net :: net
  en_io :: io
  en_start :: int
  en_now :: int
  en_end :: int

definition run_iteration ::
  "config \<Rightarrow> (int \<Rightarrow> 'r \<Rightarrow> int \<times> 'r) \<Rightarrow> nat \<Rightarrow> env \<Rightarrow> int \<times> 'r worker \<Rightarrow> reqRecord \<times> int \<times> 'r worker" where
  "run_iteration cfg intn n e lw =
     (let (leader, w) = lw;
          (x, r1) = intn 100 (wk_rand w);
          op = (if x < cf_writePct cfg then PUT else GET);
          ((key, hot), r2) = pickKey cfg intn r1;
          (leader', w1, _, (ok, err)) =
            doRequest cfg n (en_net e) (en_io e) leader (w\<lparr>wk_rand := r2\<rparr>) op key (en_now e)
      in (\<lparr>q_runID = cf_runID cfg, q_protocol = cf_protocol cfg, q_replicas = cf_replicas cfg,
           q_readPct = 100 - cf_writePct cfg, q_writePct = cf_writePct cfg,
           q_concurrency = cf_concurrency cfg, q_conflictPct = cf_conflictPct cfg,
           q_worker = wk_id w1, q_seq = wk_seq w1,
           q_requestID = wrap64 (wrap64 (wk_id w1 * 1000000000) + wk_seq w1),
           q_op = opName op, q_key = key, q_hot = hot, q_target = wk_target w1,
           q_startNS = en_start e, q_endNS = en_end e, q_latencyNS = en_end e - en_start e,
           q_ok = ok, q_errMsg = err, q_value = 0\<rparr>,
          leader', w1\<lparr>wk_seq := wk_seq w1 + 1\<rparr>))"

text \<open>One element of the list per iteration that started before the deadline.\<close>

fun run_worker ::
  "config \<Rightarrow> (int \<Rightarrow> 'r \<Rightarrow> int \<times> 'r) \<Rightarrow> nat \<Rightarrow> env list \<Rightarrow> int \<times> 'r worker \<Rightarrow> reqRecord list" where
  "run_worker cfg intn n [] lw = []"
| "run_worker cfg intn n (e # es) lw =
     (case run_iteration cfg intn n e lw of (rec, lw') \<Rightarrow> rec # run_worker cfg intn n es lw')"

definition start_worker :: "config \<Rightarrow> nat \<Rightarrow> bool \<Rightarrow> int \<Rightarrow> (int \<Rightarrow> 'r) \<Rightarrow> nat \<Rightarrow> 'r worker" where
  "start_worker cfg n answers leader newSource i =
     (let target = (if cf_protocol cfg = ''raft'' then leader else int (i mod n)) in
      \<lparr>wk_id = int i, wk_conn = dial n answers target, wk_target = target, wk_seq = 0,
       wk_rand = newSource (wrap64 (cf_seed cfg + int i))\<rparr>)"

section \<open>The correctness mode\<close>

datatype wstate = Idle | Busy int | Done

text \<open>The shared counter and leader, every worker with where it is in its loop, and the records channel.\<close>

record 'r cstate =
  cs_next :: int
  cs_leader :: int
  cs_workers :: "(wstate \<times> 'r worker) list"
  cs_records :: "reqRecord list"

text \<open>A worker finishes the request with identifier \<open>rid\<close> it has in flight.\<close>

definition correctness_request ::
  "config \<Rightarrow> nat \<Rightarrow> env \<Rightarrow> int \<Rightarrow> 'r worker \<Rightarrow> int \<Rightarrow> reqRecord \<times> int \<times> 'r worker" where
  "correctness_request cfg n e leader w rid =
     (let key = rid;
          val = wrap64 (cf_valueBase cfg + rid);
          (leader', w1, _, (ok, err, rval)) =
            doRequestVal cfg n (en_net e) (en_io e) leader w PUT key val (en_now e)
      in (\<lparr>q_runID = cf_runID cfg, q_protocol = cf_protocol cfg, q_replicas = cf_replicas cfg,
           q_readPct = 0, q_writePct = 100, q_concurrency = cf_concurrency cfg, q_conflictPct = 0,
           q_worker = wk_id w1, q_seq = rid, q_requestID = rid, q_op = ''PUT'', q_key = key,
           q_hot = False, q_target = wk_target w1, q_startNS = en_start e, q_endNS = en_end e,
           q_latencyNS = en_end e - en_start e, q_ok = ok, q_errMsg = err, q_value = rval\<rparr>,
          leader', w1))"

definition correctness_step ::
  "config \<Rightarrow> nat \<Rightarrow> int \<Rightarrow> nat \<times> env \<Rightarrow> 'r cstate \<Rightarrow> 'r cstate" where
  "correctness_step cfg replicas n ev st =
     (let (i, e) = ev; ws = cs_workers st in
      if i < length ws then
        (case ws ! i of
           (Idle, w) \<Rightarrow>
             (let next' = cs_next st + 1; rid = next' - 1 in
              if rid \<ge> n then st\<lparr>cs_next := next', cs_workers := ws[i := (Done, w)]\<rparr>
              else st\<lparr>cs_next := next', cs_workers := ws[i := (Busy rid, w)]\<rparr>)
         | (Busy rid, w) \<Rightarrow>
             (case correctness_request cfg replicas e (cs_leader st) w rid of
                (q, leader', w') \<Rightarrow>
                  st\<lparr>cs_leader := leader', cs_workers := ws[i := (Idle, w')],
                     cs_records := cs_records st @ [q]\<rparr>)
         | (Done, w) \<Rightarrow> st)
      else st)"

definition correctness_start ::
  "config \<Rightarrow> nat \<Rightarrow> (nat \<Rightarrow> bool) \<Rightarrow> int \<Rightarrow> (int \<Rightarrow> 'r) \<Rightarrow> 'r cstate" where
  "correctness_start cfg replicas answers leader newSource =
     \<lparr>cs_next = 0, cs_leader = leader,
      cs_workers = map (\<lambda>i. (Idle, start_worker cfg replicas (answers i) leader newSource i))
                     [0..<nat (cf_concurrency cfg)],
      cs_records = []\<rparr>"

definition runCorrectness ::
  "config \<Rightarrow> nat \<Rightarrow> int \<Rightarrow> (nat \<times> env) list \<Rightarrow> 'r cstate \<Rightarrow> 'r cstate" where
  "runCorrectness cfg replicas n schedule start = fold (correctness_step cfg replicas n) schedule start"

section \<open>Rows of requests.csv\<close>

definition boolStr :: "bool \<Rightarrow> string" where
  "boolStr b = (if b then ''1'' else ''0'')"

definition csv_header :: "string list" where
  "csv_header =
     [''run_id'', ''protocol'', ''impl'', ''replicas'', ''read_pct'', ''write_pct'', ''concurrency'',
      ''conflict_pct'', ''worker'', ''seq'', ''request_id'', ''op'', ''key'', ''hot'', ''target'',
      ''start_ns'', ''end_ns'', ''latency_ns'', ''ok'', ''error'', ''value'']"

definition csv_fields :: "config \<Rightarrow> reqRecord \<Rightarrow> string list" where
  "csv_fields cfg r =
     [q_runID r, q_protocol r, cf_impl cfg, itoa (q_replicas r), itoa (q_readPct r), itoa (q_writePct r),
      itoa (q_concurrency r), itoa (q_conflictPct r), itoa (q_worker r), itoa (q_seq r),
      itoa (q_requestID r), q_op r, itoa (q_key r), boolStr (q_hot r), itoa (q_target r),
      itoa (q_startNS r), itoa (q_endNS r), itoa (q_latencyNS r), boolStr (q_ok r), q_errMsg r,
      itoa (q_value r)]"

definition writeCSV :: "config \<Rightarrow> reqRecord list \<Rightarrow> string list list" where
  "writeCSV cfg rs = csv_header # map (csv_fields cfg) rs"

section \<open>Facts\<close>

definition intn_law :: "(int \<Rightarrow> 'r \<Rightarrow> int \<times> 'r) \<Rightarrow> bool" where
  "intn_law intn \<longleftrightarrow> (\<forall>n r. 0 < n \<longrightarrow> 0 \<le> fst (intn n r) \<and> fst (intn n r) < n)"

lemma intn_bounds: "intn_law intn \<Longrightarrow> 0 < n \<Longrightarrow> intn n r = (x, r') \<Longrightarrow> 0 \<le> x \<and> x < n"
  unfolding intn_law_def by (metis fst_conv)

lemma leader_poll_valid: "leader_poll k n ls = Some l \<Longrightarrow> 0 \<le> l \<and> l < int n"
  by (induction k n ls rule: leader_poll.induct) (auto simp: Let_def split: if_splits)

lemma reconnect_fields [simp]:
  "wk_id (snd (reconnect cfg n net leader w)) = wk_id w"
  "wk_seq (snd (reconnect cfg n net leader w)) = wk_seq w"
  by (auto simp: reconnect_def Let_def split: option.split prod.split)

lemma doRequestVal_fields:
  assumes "doRequestVal cfg n net io leader w op key val now = (l, w', sent, res)"
  shows "wk_id w' = wk_id w" and "wk_seq w' = wk_seq w"
proof -
  note rc = reconnect_fields [where w = w and leader = leader]
  obtain l1 w1 where w1: "(if \<not> wk_conn w then reconnect cfg n net leader w else (leader, w)) = (l1, w1)"
    by fastforce
  then have "w1 = w \<or> w1 = snd (reconnect cfg n net leader w)"
    by (metis snd_conv)
  then have f1: "wk_id w1 = wk_id w" "wk_seq w1 = wk_seq w"
    using rc [of cfg n net] by auto
  obtain l2 w2 where w2: "reconnect cfg n net l1 w1 = (l2, w2)" by fastforce
  with reconnect_fields [of cfg n net l1 w1] f1 have f2: "wk_id w2 = wk_id w" "wk_seq w2 = wk_seq w" by auto
  have "w' = w1 \<or> w' = w2"
    using assms by (auto simp: doRequestVal_def w1 w2 Let_def split: if_splits option.splits prod.splits)
  with f1 f2 show "wk_id w' = wk_id w" "wk_seq w' = wk_seq w" by auto
qed

lemma run_iteration_fields:
  assumes "run_iteration cfg intn n e (leader, w) = (rec, leader', w')"
  shows "wk_id w' = wk_id w" and "wk_seq w' = wk_seq w + 1" and "q_seq rec = wk_seq w"
    and "q_requestID rec = wrap64 (wrap64 (wk_id w * 1000000000) + wk_seq w)"
proof -
  have "wk_id w' = wk_id w \<and> wk_seq w' = wk_seq w + 1 \<and> q_seq rec = wk_seq w
    \<and> q_requestID rec = wrap64 (wrap64 (wk_id w * 1000000000) + wk_seq w)"
    using assms
    by (auto simp: run_iteration_def doRequest_def Let_def doRequestVal_fields(1) doRequestVal_fields(2)
        split: prod.splits dest: doRequestVal_fields(1) doRequestVal_fields(2))
  then show "wk_id w' = wk_id w" "wk_seq w' = wk_seq w + 1" "q_seq rec = wk_seq w"
    "q_requestID rec = wrap64 (wrap64 (wk_id w * 1000000000) + wk_seq w)" by auto
qed

lemma run_worker_ids:
  "map q_requestID (run_worker cfg intn n es (leader, w)) =
     map (\<lambda>k. wrap64 (wrap64 (wk_id w * 1000000000) + (wk_seq w + int k))) [0..<length es]"
proof (induction es arbitrary: leader w)
  case Nil
  then show ?case by simp
next
  case (Cons e es)
  obtain rec leader' w' where it: "run_iteration cfg intn n e (leader, w) = (rec, leader', w')"
    by (cases "run_iteration cfg intn n e (leader, w)") auto
  have "[0..<length (e # es)] = 0 # map Suc [0..<length es]"
    by (simp add: map_Suc_upt upt_conv_Cons del: upt_Suc)
  with it run_iteration_fields [OF it] Cons.IH [of leader' w'] show ?case
    by (simp add: comp_def add.assoc del: upt_Suc)
qed

text \<open>In the correctness mode every identifier below the limit is either recorded or in flight, once.\<close>

definition in_flight :: "wstate \<times> 'r worker \<Rightarrow> int multiset" where
  "in_flight w = (case fst w of Busy rid \<Rightarrow> {#rid#} | _ \<Rightarrow> {#})"

definition all_in_flight :: "(wstate \<times> 'r worker) list \<Rightarrow> int multiset" where
  "all_in_flight ws = (\<Sum>w \<leftarrow> ws. in_flight w)"

lemma all_in_flight_update:
  "i < length ws \<Longrightarrow> all_in_flight (ws[i := w]) + in_flight (ws ! i) = all_in_flight ws + in_flight w"
proof (induction ws arbitrary: i)
  case (Cons v ws)
  then show ?case by (cases i) (auto simp: all_in_flight_def ac_simps)
qed simp

definition handed_out :: "int \<Rightarrow> int \<Rightarrow> int list" where
  "handed_out n next' = map int [0..<nat (min next' n)]"

lemma handed_out_Suc:
  "0 \<le> k \<Longrightarrow> handed_out n (k + 1) = (if k < n then handed_out n k @ [k] else handed_out n k)"
proof -
  assume k: "0 \<le> k"
  have "nat (k + 1) = Suc (nat k)" using k by simp
  with k show ?thesis by (auto simp: handed_out_def min_def)
qed

definition some_done :: "(wstate \<times> 'r worker) list \<Rightarrow> bool" where
  "some_done ws \<longleftrightarrow> Done \<in> fst ` set ws"

lemma some_done_update: "some_done (ws[i := v]) \<Longrightarrow> fst v \<noteq> Done \<Longrightarrow> some_done ws"
  using set_update_subset_insert [of ws i v] by (auto simp: some_done_def)

definition correctness_inv :: "int \<Rightarrow> 'r cstate \<Rightarrow> bool" where
  "correctness_inv n st \<longleftrightarrow>
     0 \<le> cs_next st
     \<and> mset (map q_requestID (cs_records st)) + all_in_flight (cs_workers st)
         = mset (handed_out n (cs_next st))
     \<and> (some_done (cs_workers st) \<longrightarrow> n \<le> cs_next st)
     \<and> (\<forall>r \<in> set (cs_records st). q_op r = ''PUT'' \<and> q_key r = q_requestID r \<and> in_int64 (q_value r))"

lemma doRequestVal_value:
  assumes "doRequestVal cfg n net io leader w op key val now = (l, w', sent, ok, err, v)"
  shows "in_int64 v"
proof -
  have "in_int64 0" "in_int64 (sint (x :: u64))" for x
    using sint_range_size [of x] by (simp_all add: in_int64_def word_size)
  then show ?thesis
    using assms by (auto simp: doRequestVal_def Let_def split: if_splits option.splits prod.splits)
qed

lemma correctness_request_fields:
  assumes "correctness_request cfg n e leader w rid = (q, leader', w')"
  shows "q_requestID q = rid" and "q_key q = rid" and "q_op q = ''PUT''" and "in_int64 (q_value q)"
  using assms doRequestVal_value by (auto simp: correctness_request_def Let_def split: prod.splits)

lemma correctness_step_inv:
  assumes inv: "correctness_inv n st"
  shows "correctness_inv n (correctness_step cfg m n (i, e) st)"
proof (cases "i < length (cs_workers st)")
  case True
  let ?ws = "cs_workers st"
  note upd = all_in_flight_update [OF True]
  obtain s w where sw: "?ws ! i = (s, w)" by fastforce
  have k: "0 \<le> cs_next st" using inv by (simp add: correctness_inv_def)
  show ?thesis
  proof (cases s)
    case Idle
    then have u: "all_in_flight (?ws[i := v]) = all_in_flight ?ws + in_flight v" for v
      using upd [of v] sw by (simp add: in_flight_def)
    have dn: "some_done (?ws[i := (Busy x, v)]) \<Longrightarrow> some_done ?ws" for x v
      using some_done_update by fastforce
    show ?thesis
    proof (cases "cs_next st < n")
      case True
      with inv Idle sw \<open>i < length ?ws\<close> dn show ?thesis
        by (auto simp: correctness_inv_def correctness_step_def u handed_out_Suc in_flight_def)
    next
      case False
      with inv Idle sw \<open>i < length ?ws\<close> show ?thesis
        by (auto simp: correctness_inv_def correctness_step_def u handed_out_Suc in_flight_def)
    qed
  next
    case (Busy rid)
    obtain q leader' w' where q: "correctness_request cfg m e (cs_leader st) w rid = (q, leader', w')"
      by (cases "correctness_request cfg m e (cs_leader st) w rid") auto
    have "all_in_flight ?ws = add_mset rid (all_in_flight (?ws[i := (Idle, w')]))"
      using upd [of "(Idle, w')"] Busy sw by (simp add: in_flight_def)
    moreover have "some_done (?ws[i := (Idle, w')]) \<Longrightarrow> some_done ?ws"
      using some_done_update by fastforce
    ultimately show ?thesis
      using inv Busy True sw correctness_request_fields [OF q]
      by (auto simp: correctness_inv_def correctness_step_def q)
  next
    case Done
    with inv sw True show ?thesis by (simp add: correctness_step_def Let_def)
  qed
next
  case False
  with inv show ?thesis by (simp add: correctness_step_def)
qed

lemma correctness_start_inv: "correctness_inv n (correctness_start cfg m answers leader src)"
proof -
  have "all_in_flight (map (\<lambda>i. (Idle, f i)) xs) = {#}" for f :: "nat \<Rightarrow> 'a worker" and xs
    by (induction xs) (simp_all add: all_in_flight_def in_flight_def)
  then show ?thesis
    by (auto simp: correctness_inv_def correctness_start_def handed_out_def some_done_def)
qed

lemma runCorrectness_inv: "correctness_inv n st \<Longrightarrow> correctness_inv n (runCorrectness cfg m n schedule st)"
  unfolding runCorrectness_def
  by (induction schedule rule: rev_induct) (auto intro: correctness_step_inv)

lemma runCorrectness_length [simp]:
  "length (cs_workers (runCorrectness cfg m n schedule st)) = length (cs_workers st)"
  unfolding runCorrectness_def
proof (induction schedule rule: rev_induct)
  case (snoc ev es)
  have "length (cs_workers (correctness_step cfg m n ev s)) = length (cs_workers s)" for s :: "'a cstate"
    by (auto simp: correctness_step_def Let_def split: wstate.split prod.split)
  with snoc show ?case by simp
qed simp

lemma pickKey_cases:
  assumes "intn_law intn" "client_flags_ok cfg" "pickKey cfg intn r = ((key, hot), r')"
  shows "0 \<le> key" "key < cf_keyspace cfg" "hot \<longleftrightarrow> key < cf_hotKeys cfg"
    "cf_conflictPct cfg = 0 \<Longrightarrow> cf_hotKeys cfg < cf_keyspace cfg \<Longrightarrow> \<not> hot"
    "cf_conflictPct cfg = 100 \<Longrightarrow> hot"
proof -
  have h: "0 < cf_hotKeys cfg" "cf_hotKeys cfg \<le> cf_keyspace cfg"
    using assms (2) by (auto simp: client_flags_ok_def)
  note b = intn_bounds [OF assms (1)]
  have "0 \<le> key \<and> key < cf_keyspace cfg \<and> (hot \<longleftrightarrow> key < cf_hotKeys cfg)
    \<and> (cf_conflictPct cfg = 0 \<longrightarrow> cf_hotKeys cfg < cf_keyspace cfg \<longrightarrow> \<not> hot)
    \<and> (cf_conflictPct cfg = 100 \<longrightarrow> hot)"
    using assms (3) h
    by (auto simp: pickKey_def Let_def split: prod.splits if_splits dest!: b [rotated 1])
  then show "0 \<le> key" "key < cf_keyspace cfg" "hot \<longleftrightarrow> key < cf_hotKeys cfg"
    "cf_conflictPct cfg = 0 \<Longrightarrow> cf_hotKeys cfg < cf_keyspace cfg \<Longrightarrow> \<not> hot"
    "cf_conflictPct cfg = 100 \<Longrightarrow> hot" by blast+
qed

lemma correctness_done:
  assumes "0 < cf_concurrency cfg"
    and "st = runCorrectness cfg m n schedule (correctness_start cfg m answers leader newSource)"
    and "\<forall>w \<in> set (cs_workers st). fst w = Done"
  shows "mset (map q_requestID (cs_records st)) = mset (map int [0..<nat n])
    \<and> (\<forall>r \<in> set (cs_records st). q_op r = ''PUT'' \<and> q_key r = q_requestID r \<and> in_int64 (q_value r))"
proof -
  have inv: "correctness_inv n st" using runCorrectness_inv correctness_start_inv assms (2) by blast
  have "length (cs_workers st) = nat (cf_concurrency cfg)"
    by (simp add: assms (2) correctness_start_def)
  with assms (1,3) have "some_done (cs_workers st)" by (cases "cs_workers st") (auto simp: some_done_def)
  with inv have "n \<le> cs_next st" by (simp add: correctness_inv_def)
  then have "handed_out n (cs_next st) = map int [0..<nat n]" by (simp add: handed_out_def min_def)
  moreover have "\<forall>w \<in> set ws. fst w = Done \<Longrightarrow> all_in_flight ws = {#}" for ws :: "(wstate \<times> 'a worker) list"
    by (induction ws) (simp_all add: all_in_flight_def in_flight_def)
  then have "all_in_flight (cs_workers st) = {#}" using assms (3) by blast
  ultimately show ?thesis using inv by (simp add: correctness_inv_def)
qed

section \<open>Properties\<close>

text \<open>C14: In the correctness mode, however the workers interleave and whatever the network does, once
  all of them have returned every request identifier below the requested number has been issued and
  recorded exactly once, each as a write of its own key.\<close>

theorem correctness_requests_exactly_once:
  assumes "0 < cf_concurrency cfg"
    and "st = runCorrectness cfg m n schedule (correctness_start cfg m answers leader newSource)"
    and "\<forall>w \<in> set (cs_workers st). fst w = Done"
  shows "mset (map q_requestID (cs_records st)) = mset (map int [0..<nat n])
    \<and> (\<forall>r \<in> set (cs_records st). q_op r = ''PUT'' \<and> q_key r = q_requestID r)"
  using correctness_done [OF assms] by blast

text \<open>C40: With flags the client accepts, every key the workload picks is in the keyspace, and the key is
  counted as hot exactly when it lies in the shared range: a conflict rate of 0 never touches the shared
  keys while there are others, a rate of 100 touches nothing else.\<close>

theorem workload_keys_are_in_range:
  assumes "intn_law intn" and "client_flags_ok cfg" and "pickKey cfg intn r = ((key, hot), r')"
  shows "0 \<le> key \<and> key < cf_keyspace cfg \<and> (hot \<longleftrightarrow> key < cf_hotKeys cfg)
    \<and> (cf_conflictPct cfg = 0 \<longrightarrow> cf_hotKeys cfg < cf_keyspace cfg \<longrightarrow> \<not> hot)
    \<and> (cf_conflictPct cfg = 100 \<longrightarrow> hot)"
  using pickKey_cases [OF assms] by blast

text \<open>In the timed phase two requests have the same identifier only if they are the same request of
  the same worker, as long as every worker issues fewer than a thousand million of them.\<close>

theorem timed_request_ids_distinct:
  assumes "i < 9000000000" and "j < 9000000000"
    and "length es \<le> 1000000000" and "length fs \<le> 1000000000"
    and "a < length es" and "b < length fs"
    and "q_requestID (run_worker cfg intn n es (l, start_worker cfg n up l src i) ! a)
       = q_requestID (run_worker cfg intn' n fs (l', start_worker cfg n up' l' src' j) ! b)"
  shows "i = j \<and> a = b"
proof -
  have ids: "q_requestID (run_worker cfg f n xs (k, start_worker cfg n u k s v) ! c)
      = int v * 1000000000 + int c"
    if "v < 9000000000" "length xs \<le> 1000000000" "c < length xs"
    for f :: "int \<Rightarrow> 'x \<Rightarrow> int \<times> 'x" and xs k u s v c
  proof -
    have "q_requestID (run_worker cfg f n xs (k, start_worker cfg n u k s v) ! c)
        = map q_requestID (run_worker cfg f n xs (k, start_worker cfg n u k s v)) ! c"
      using that run_worker_ids [of cfg f n xs k "start_worker cfg n u k s v"]
      by (metis length_map length_upt minus_nat.diff_0 nth_map)
    then show ?thesis
      using that by (simp add: run_worker_ids start_worker_def wrap64_id Let_def)
  qed
  have e: "int i * 1000000000 + int a = int j * 1000000000 + int b"
    using assms (7) ids [OF assms (1,3,5), of intn l up src] ids [OF assms (2,4,6), of intn' l' up' src']
    by simp
  have d: "(int v * 1000000000 + int c) div 1000000000 = int v" if "c < 1000000000" for v c
    using that by simp
  have "int i = int j" using arg_cong [OF e, of "\<lambda>x. x div 1000000000"] d assms (3-6) by simp
  with e show ?thesis by simp
qed

lemma writeCSV_shape: "map length (writeCSV cfg rs) = replicate (length rs + 1) (length csv_header)"
  by (induction rs) (simp_all add: writeCSV_def csv_fields_def csv_header_def)

section \<open>Witnesses\<close>

definition sample_config :: config where
  "sample_config =
     \<lparr>cf_protocol = ''epaxos'', cf_impl = ''nvb'', cf_replicas = 3, cf_writePct = 50, cf_concurrency = 2,
      cf_runID = ''r1'', cf_seed = 7, cf_keyspace = 100, cf_conflictPct = 20, cf_hotKeys = 10,
      cf_correctness = 3, cf_valueBase = 1000\<rparr>"

text \<open>A network that loses the reply of the first request and answers the others.\<close>

definition sample_env :: "bool \<Rightarrow> env" where
  "sample_env lost =
     \<lparr>en_net = \<lparr>nt_leaders = [], nt_dial = True\<rparr>,
      en_io = \<lparr>io_setWriteDeadline = None, io_writeByte = None, io_flush = None, io_setReadDeadline = None,
        io_incoming = (if lost then [] else
          ProposeReplyTS_Marshal \<lparr>ts_OK = 1, ts_CommandId = 0, ts_Value = 5, ts_Timestamp = 0\<rparr>)\<rparr>,
      en_start = 10, en_now = 11, en_end = 15\<rparr>"

definition sample_schedule :: "(nat \<times> env) list" where
  "sample_schedule =
     [(0, sample_env False), (1, sample_env False), (1, sample_env True), (1, sample_env False),
      (0, sample_env False), (1, sample_env False), (1, sample_env False), (0, sample_env False)]"

definition sample_start :: "unit cstate" where
  "sample_start = correctness_start sample_config 3 (\<lambda>_. True) 0 (\<lambda>_. ())"

lemma correctness_requests_exactly_once_witness:
  "mset (map q_requestID (cs_records (runCorrectness sample_config 3 3 sample_schedule sample_start)))
     = mset (map int [0..<nat 3])"
proof -
  have c: "0 < cf_concurrency sample_config" by (simp add: sample_config_def)
  have "list_all (\<lambda>w. fst w = Done)
      (cs_workers (runCorrectness sample_config 3 3 sample_schedule sample_start))"
    by code_simp
  then have d: "\<forall>w \<in> set (cs_workers (runCorrectness sample_config 3 3 sample_schedule sample_start)).
      fst w = Done"
    by (simp add: list_all_iff)
  show ?thesis
    using correctness_requests_exactly_once [OF c _ d] by (simp add: sample_start_def)
qed

definition sample_intn :: "int \<Rightarrow> nat \<Rightarrow> int \<times> nat" where
  "sample_intn n r = (int r mod n, r + 7)"

lemma workload_keys_are_in_range_witness:
  "pickKey sample_config sample_intn 30 = ((47, False), 44)
   \<and> 0 \<le> (47::int) \<and> (47::int) < cf_keyspace sample_config"
proof -
  have l: "intn_law sample_intn" by (simp add: intn_law_def sample_intn_def)
  have f: "client_flags_ok sample_config" by (simp add: client_flags_ok_def sample_config_def)
  have p: "pickKey sample_config sample_intn 30 = ((47, False), 44)" by code_simp
  from workload_keys_are_in_range [OF l f p] p show ?thesis by blast
qed

lemma timed_request_ids_distinct_witness:
  "q_requestID (run_worker sample_config sample_intn 3 [sample_env True, sample_env False]
      (0, start_worker sample_config 3 True 0 nat 0) ! 1) \<noteq>
   q_requestID (run_worker sample_config sample_intn 3 [sample_env True, sample_env False]
      (0, start_worker sample_config 3 True 0 nat 1) ! 1)"
proof
  let ?es = "[sample_env True, sample_env False]"
  assume e: "q_requestID (run_worker sample_config sample_intn 3 ?es
      (0, start_worker sample_config 3 True 0 nat 0) ! 1) =
    q_requestID (run_worker sample_config sample_intn 3 ?es
      (0, start_worker sample_config 3 True 0 nat 1) ! 1)"
  have n: "(0::nat) < 9000000000" "(1::nat) < 9000000000" by simp_all
  have l: "length ?es \<le> 1000000000" and b: "1 < length ?es" by simp_all
  from timed_request_ids_distinct [OF n l l b b e] show False by simp
qed

end
