(* ===== verification/Runner_Compose.thy ===== *)
theory Runner_Compose
  imports Runner_Ident Lab_Client
begin

text \<open>
  The command lines of a run (\<^verbatim>\<open>lab/runner/compose.go\<close>): which binary and which flags the master, the
  replicas and the client of a configuration are started with, and, on the other side, how the client
  (\<^verbatim>\<open>lab/client/main.go\<close>) reads its flags back. \<open>absPath\<close> is \<^verbatim>\<open>filepath.Abs\<close>. The text of the compose
  file itself, a template around these commands, is not modelled.
\<close>

section \<open>The compose model\<close>

definition imageTag :: string where "imageTag = ''conslab:lab''"

record composeModel =
  cm_Project :: string
  cm_Image :: string
  cm_Protocol :: string
  cm_Replicas :: int
  cm_ResultsDir :: string
  cm_MasterCPUs :: float64
  cm_MasterMemMB :: int
  cm_ReplicaCPUs :: float64
  cm_ReplicaMemMB :: int
  cm_ClientCPUs :: float64
  cm_ClientMemMB :: int
  cm_MasterCmd :: "string list"
  cm_ReplicaCmds :: "string list list"
  cm_ClientCmd :: "string list"
  cm_DataVolumes :: bool
  cm_NetEmulated :: bool
  cm_RaftPort :: int
  cm_ClientPort :: int

definition raft_master_cmd :: "Run \<Rightarrow> string list" where
  "raft_master_cmd cfg = [''raftmaster'', ''-port'', ''7087'', ''-n'', itoa (r_Replicas cfg)]"

definition epaxos_master_cmd :: "Run \<Rightarrow> string list" where
  "epaxos_master_cmd cfg = [''epaxos-master'', ''-port'', ''7087'', ''-N'', itoa (r_Replicas cfg)]"

definition hashicorp_cmd :: "Run \<Rightarrow> bool \<Rightarrow> string \<Rightarrow> string list" where
  "hashicorp_cmd cfg durable host =
     [''raftadapter'', ''-master'', ''master:7087'', ''-addr'', host, ''-client-port'', ''7070'',
      ''-raft-port'', ''6000'', ''-dir'', ''/data'', ''-store'', if durable then ''bolt'' else ''inmem'',
      ''-gomaxprocs'', itoa (r_GOMAXPROCS cfg), ''-heartbeat-ms'', itoa (r_RaftHeartbeatMS cfg),
      ''-election-ms'', itoa (r_RaftElectionMS cfg), ''-snapshot-threshold'', itoa (r_RaftSnapshotThr cfg),
      ''-trailing-logs'', itoa (r_RaftTrailingLogs cfg)]"

definition etcd_cmd :: "Run \<Rightarrow> bool \<Rightarrow> string \<Rightarrow> string list" where
  "etcd_cmd cfg durable host =
     [''etcdraftadapter'', ''-master'', ''master:7087'', ''-addr'', host, ''-client-port'', ''7070'',
      ''-raft-port'', ''6000'', ''-dir'', ''/data'', ''-gomaxprocs'', itoa (r_GOMAXPROCS cfg),
      ''-heartbeat-ms'', itoa (r_RaftHeartbeatMS cfg), ''-election-ms'', itoa (r_RaftElectionMS cfg),
      ''-trailing-logs'', itoa (r_RaftTrailingLogs cfg)] @ (if durable then [] else [''-no-wal''])"

definition etcd_core_cmd :: "Run \<Rightarrow> string \<Rightarrow> string list" where
  "etcd_core_cmd cfg host =
     [''etcdraftadapter'', ''-master'', ''master:7087'', ''-addr'', host, ''-client-port'', ''7070'',
      ''-raft-port'', ''6000'', ''-dir'', ''/data'', ''-no-wal'', ''-gomaxprocs'', itoa (r_GOMAXPROCS cfg),
      ''-heartbeat-ms'', itoa (r_RaftHeartbeatMS cfg), ''-election-ms'', itoa (r_RaftElectionMS cfg),
      ''-trailing-logs'', itoa (r_RaftTrailingLogs cfg)]"

definition original_cmd :: "Run \<Rightarrow> string \<Rightarrow> string list" where
  "original_cmd cfg host =
     [''epaxos-server'', ''-port'', ''7070'', ''-maddr'', ''master'', ''-mport'', ''7087'', ''-addr'', host,
      ''-e'', ''-exec'', ''-dreply'', ''-p'', itoa (r_GOMAXPROCS cfg)]
     @ (if Persist cfg = PersistDurable then [''-durable''] else [])"

definition nvb_cmd :: "Run \<Rightarrow> string \<Rightarrow> string list" where
  "nvb_cmd cfg host =
     [''nvbepaxos-server'', ''-port'', ''7070'', ''-peer-port'', ''6000'', ''-maddr'', ''master'',
      ''-mport'', ''7087'', ''-addr'', host, ''-p'', itoa (r_GOMAXPROCS cfg)]"

text \<open>The switch on the implementation: volumes, master command and replica commands.\<close>

definition hosts :: "Run \<Rightarrow> string list" where
  "hosts cfg = replicaServiceNames (nat (r_Replicas cfg))"

definition implementation_cmds :: "Run \<Rightarrow> bool \<times> string list \<times> string list list" where
  "implementation_cmds cfg =
     (let durable = (Persist cfg = PersistDurable) in
      if Impl cfg = ImplHashicorp
        then (durable, raft_master_cmd cfg, map (hashicorp_cmd cfg durable) (hosts cfg))
      else if Impl cfg = ImplEtcd
        then (durable, raft_master_cmd cfg, map (etcd_cmd cfg durable) (hosts cfg))
      else if Impl cfg = ImplEtcdCore
        then (False, raft_master_cmd cfg, map (etcd_core_cmd cfg) (hosts cfg))
      else if Impl cfg = ImplOriginal
        then (False, epaxos_master_cmd cfg, map (original_cmd cfg) (hosts cfg))
      else if Impl cfg = ImplNVB
        then (False, epaxos_master_cmd cfg, map (nvb_cmd cfg) (hosts cfg))
      else (False, [], []))"

definition delay_flags :: "Run \<Rightarrow> string list" where
  "delay_flags cfg =
     (if r_CommCostMS cfg > 0 \<or> r_CommJitterPct cfg > 0
      then [''-comm-cost-ms'', itoa (r_CommCostMS cfg), ''-comm-jitter-pct'', itoa (r_CommJitterPct cfg)]
      else [])"

definition client_cmd :: "Run \<Rightarrow> string \<Rightarrow> string list" where
  "client_cmd cfg runID =
     [''client'', ''-maddr'', ''master'', ''-mport'', ''7087'', ''-protocol'', r_Protocol cfg,
      ''-impl'', Impl cfg, ''-replicas'', itoa (r_Replicas cfg), ''-w'', itoa (r_WritePct cfg),
      ''-c'', itoa (r_Concurrency cfg), ''-conflict'', itoa (r_ConflictPct cfg),
      ''-hot-keys'', itoa (r_HotKeys cfg), ''-duration'', itoa (r_DurationS cfg),
      ''-warmup'', itoa (r_WarmupS cfg), ''-out'', ''/out'', ''-run-id'', runID,
      ''-seed'', itoa (r_Seed cfg), ''-keyspace'', itoa (r_Keyspace cfg),
      ''-timeout-ms'', itoa (r_TimeoutMS cfg), ''-gomaxprocs'', itoa (r_GOMAXPROCS cfg)]
     @ (if r_Correctness cfg > 0
        then [''-correctness'', itoa (r_Correctness cfg), ''-value-base'', itoa (r_ValueBase cfg)] else [])"

definition buildComposeModel ::
  "(string \<Rightarrow> string + string) \<Rightarrow> string \<Rightarrow> Run \<Rightarrow> string \<Rightarrow> string + composeModel" where
  "buildComposeModel absPath dir cfg runID =
     (case absPath dir of
        Inl e \<Rightarrow> Inl e
      | Inr resultsAbs \<Rightarrow>
          (let (volumes, master, replicas) = implementation_cmds cfg in
           Inr \<lparr>cm_Project = runID, cm_Image = imageTag, cm_Protocol = r_Protocol cfg,
                cm_Replicas = r_Replicas cfg, cm_ResultsDir = resultsAbs,
                cm_MasterCPUs = r_MasterCPUs cfg, cm_MasterMemMB = r_MasterMemMB cfg,
                cm_ReplicaCPUs = r_ReplicaCPUs cfg, cm_ReplicaMemMB = r_ReplicaMemMB cfg,
                cm_ClientCPUs = r_ClientCPUs cfg, cm_ClientMemMB = r_ClientMemMB cfg,
                cm_MasterCmd = master, cm_ReplicaCmds = map (\<lambda>c. c @ delay_flags cfg) replicas,
                cm_ClientCmd = client_cmd cfg runID, cm_DataVolumes = volumes,
                cm_NetEmulated = NetworkEmulated cfg, cm_RaftPort = 6000, cm_ClientPort = 7070\<rparr>))"

section \<open>The client's flags\<close>

text \<open>The \<^verbatim>\<open>flag\<close> package on flags that all take a value: the arguments are read in pairs, and a flag
  given twice keeps the later value.\<close>

fun flag_value :: "string \<Rightarrow> string list \<Rightarrow> string option" where
  "flag_value name (f # v # rest) =
     (case flag_value name rest of
        Some x \<Rightarrow> Some x
      | None \<Rightarrow> if f = CHR ''-'' # name then Some v else None)"
| "flag_value name _ = None"

definition string_flag :: "string list \<Rightarrow> string \<Rightarrow> string \<Rightarrow> string" where
  "string_flag args name dflt = (case flag_value name args of None \<Rightarrow> dflt | Some v \<Rightarrow> v)"

text \<open>\<open>None\<close> is the exit of \<^verbatim>\<open>flag.Parse\<close> on a value that is not a number.\<close>

definition int_flag :: "string list \<Rightarrow> string \<Rightarrow> int \<Rightarrow> int option" where
  "int_flag args name dflt = (case flag_value name args of None \<Rightarrow> Some dflt | Some v \<Rightarrow> atoi v)"

definition client_config :: "string list \<Rightarrow> config option" where
  "client_config args =
     Option.bind (int_flag args ''replicas'' 3) (\<lambda>reps.
     Option.bind (int_flag args ''w'' 50) (\<lambda>w.
     Option.bind (int_flag args ''c'' 32) (\<lambda>c.
     Option.bind (int_flag args ''seed'' 42) (\<lambda>sd.
     Option.bind (int_flag args ''keyspace'' 1000) (\<lambda>ks.
     Option.bind (int_flag args ''conflict'' 0) (\<lambda>cp.
     Option.bind (int_flag args ''hot-keys'' 1) (\<lambda>hk.
     Option.bind (int_flag args ''correctness'' 0) (\<lambda>cn.
     Option.bind (int_flag args ''value-base'' 0) (\<lambda>vb. Some
       \<lparr>cf_protocol = string_flag args ''protocol'' ''raft'', cf_impl = string_flag args ''impl'' [],
        cf_replicas = reps, cf_writePct = w, cf_concurrency = c,
        cf_runID = string_flag args ''run-id'' ''run'', cf_seed = sd, cf_keyspace = ks,
        cf_conflictPct = cp, cf_hotKeys = hk, cf_correctness = cn, cf_valueBase = vb\<rparr>)))))))))"

section \<open>Facts\<close>

text \<open>The numbers of a configuration are Go integers.\<close>

definition run_in_range :: "Run \<Rightarrow> bool" where
  "run_in_range cfg \<longleftrightarrow>
     in_int64 (r_Replicas cfg) \<and> in_int64 (r_WritePct cfg) \<and> in_int64 (r_Concurrency cfg)
     \<and> in_int64 (r_Seed cfg) \<and> in_int64 (r_Keyspace cfg) \<and> in_int64 (r_ConflictPct cfg)
     \<and> in_int64 (r_HotKeys cfg) \<and> in_int64 (r_Correctness cfg) \<and> in_int64 (r_ValueBase cfg)"

lemma flag_value_append:
  "even (length xs) \<Longrightarrow> flag_value name (xs @ ys) =
     (case flag_value name ys of Some v \<Rightarrow> Some v | None \<Rightarrow> flag_value name xs)"
proof (induction name xs rule: flag_value.induct)
  case (1 name f v rest)
  then show ?case by (auto split: option.splits)
qed (auto split: option.splits)

lemma client_config_of_cmd:
  assumes "run_in_range cfg"
  shows "client_config (tl (client_cmd cfg runID)) =
     Some \<lparr>cf_protocol = r_Protocol cfg, cf_impl = Impl cfg, cf_replicas = r_Replicas cfg,
       cf_writePct = r_WritePct cfg, cf_concurrency = r_Concurrency cfg, cf_runID = runID,
       cf_seed = r_Seed cfg, cf_keyspace = r_Keyspace cfg, cf_conflictPct = r_ConflictPct cfg,
       cf_hotKeys = r_HotKeys cfg,
       cf_correctness = (if r_Correctness cfg > 0 then r_Correctness cfg else 0),
       cf_valueBase = (if r_Correctness cfg > 0 then r_ValueBase cfg else 0)\<rparr>"
  using assms
  by (simp add: run_in_range_def client_config_def client_cmd_def int_flag_def string_flag_def atoi_itoa)

text \<open>Whether a replica's command line asks its binary to keep state across a restart.\<close>

definition keeps_state :: "string list \<Rightarrow> bool" where
  "keeps_state cmd \<longleftrightarrow>
     (if hd cmd = ''raftadapter'' then flag_value ''store'' (tl cmd) = Some ''bolt''
      else if hd cmd = ''etcdraftadapter'' then ''-no-wal'' \<notin> set cmd
      else if hd cmd = ''epaxos-server'' then ''-durable'' \<in> set cmd
      else False)"

lemma itoa_no_flag:
  "itoa i \<noteq> ''-no-wal''" "itoa i \<noteq> ''-durable''" "''-no-wal'' \<noteq> itoa i" "''-durable'' \<noteq> itoa i"
  using char_not_in_itoa [of "CHR ''w''" i] char_not_in_itoa [of "CHR ''u''" i]
  by (auto simp: char_digit_def) (metis list.set_intros)+

lemma host_no_flag: "host \<in> set (hosts cfg) \<Longrightarrow> host \<noteq> ''-no-wal'' \<and> host \<noteq> ''-durable''"
  by (auto simp: hosts_def replicaServiceNames_def replica_name_def)

lemma delay_flags_no_flag: "''-no-wal'' \<notin> set (delay_flags cfg)" "''-durable'' \<notin> set (delay_flags cfg)"
  by (simp_all add: delay_flags_def itoa_no_flag)

lemma delay_flags_store: "flag_value ''store'' (delay_flags cfg) = None"
  by (simp add: delay_flags_def)

lemma hashicorp_keeps: "keeps_state (hashicorp_cmd cfg durable host @ delay_flags cfg) = durable"
  by (simp add: keeps_state_def hashicorp_cmd_def delay_flags_def)

lemma etcd_keeps:
  "host \<in> set (hosts cfg) \<Longrightarrow> keeps_state (etcd_cmd cfg durable host @ delay_flags cfg) = durable"
  using host_no_flag [of host cfg]
  by (auto simp: keeps_state_def etcd_cmd_def itoa_no_flag delay_flags_no_flag)

lemma etcd_core_keeps: "\<not> keeps_state (etcd_core_cmd cfg host @ delay_flags cfg)"
  by (simp add: keeps_state_def etcd_core_cmd_def)

lemma original_keeps:
  "host \<in> set (hosts cfg)
    \<Longrightarrow> keeps_state (original_cmd cfg host @ delay_flags cfg) = (Persist cfg = PersistDurable)"
  using host_no_flag [of host cfg]
  by (auto simp: keeps_state_def original_cmd_def itoa_no_flag delay_flags_no_flag)

lemma nvb_keeps: "\<not> keeps_state (nvb_cmd cfg host @ delay_flags cfg)"
  by (simp add: keeps_state_def nvb_cmd_def)

lemmas cmds_keep = hashicorp_keeps etcd_keeps etcd_core_keeps original_keeps nvb_keeps

lemma buildComposeModel_Inr: "\<exists>m. buildComposeModel Inr dir cfg runID = Inr m"
  by (cases "implementation_cmds cfg") (simp add: buildComposeModel_def)

section \<open>Properties\<close>



text \<open>The replicas of an accepted configuration are started once each, and keep their state across a
  restart exactly when the effective persistence of the configuration is durable; volumes are mounted
  for the two Raft implementations that write to them.\<close>

theorem replicas_follow_persistence:
  assumes "Validate cfg = None" and "buildComposeModel absPath dir cfg runID = Inr m"
  shows "length (cm_ReplicaCmds m) = nat (r_Replicas cfg)
    \<and> list_all (\<lambda>c. keeps_state c = (Persist cfg = PersistDurable)) (cm_ReplicaCmds m)
    \<and> cm_DataVolumes m = (Persist cfg = PersistDurable \<and> Impl cfg \<in> {ImplHashicorp, ImplEtcd})"
proof -
  obtain v ms rs where c: "implementation_cmds cfg = (v, ms, rs)" by (cases "implementation_cmds cfg")
  have m: "cm_ReplicaCmds m = map (\<lambda>c. c @ delay_flags cfg) rs" "cm_DataVolumes m = v"
    using assms(2) by (auto simp: buildComposeModel_def c split: sum.splits)
  have persist: "PersistSupported (Impl cfg) (Persist cfg)" and impl: "ImplSupported (r_Protocol cfg) (Impl cfg)"
    using Validate_Persist [OF assms(1)] Validate_Impl [OF assms(1)] .
  then have core: "Impl cfg \<in> {ImplEtcdCore, ImplNVB} \<Longrightarrow> Persist cfg \<noteq> PersistDurable"
    by (auto simp: PersistSupported_def PersistDurable_def PersistMemory_def impl_defs)
  have len: "length (hosts cfg) = nat (r_Replicas cfg)" by (simp add: hosts_def replicaServiceNames_def)
  have dist: "distinct [ImplHashicorp, ImplEtcd, ImplEtcdCore, ImplOriginal, ImplNVB]"
    by (simp add: impl_defs)
  from impl consider "Impl cfg = ImplHashicorp" | "Impl cfg = ImplEtcd" | "Impl cfg = ImplEtcdCore"
    | "Impl cfg = ImplOriginal" | "Impl cfg = ImplNVB"
    by (auto simp: ImplSupported_def split: if_splits)
  then show ?thesis
    using c core dist
    by cases (auto simp: implementation_cmds_def Let_def m len list_all_iff cmds_keep)
qed

theorem replicas_follow_persistence_witness:
  "\<exists>m. buildComposeModel Inr ''/r'' (Default\<lparr>r_PersistenceMode := ''memory''\<rparr>) ''x'' = Inr m
     \<and> length (cm_ReplicaCmds m) = 3 \<and> \<not> keeps_state (cm_ReplicaCmds m ! 0) \<and> \<not> cm_DataVolumes m"
proof -
  let ?cfg = "Default\<lparr>r_PersistenceMode := ''memory''\<rparr>"
  have v: "Validate ?cfg = None" by code_simp
  have f: "Persist ?cfg \<noteq> PersistDurable" "nat (r_Replicas ?cfg) = 3" by code_simp+
  obtain m where m: "buildComposeModel Inr ''/r'' ?cfg ''x'' = Inr m"
    using buildComposeModel_Inr by blast
  from replicas_follow_persistence [OF v m] f m show ?thesis by (auto simp: list_all_length)
qed

text \<open>Every repetition of a configuration runs the client with the same seed, that of the
  configuration, although the seed recorded as used in the metadata is another one for each repetition.\<close>

theorem repetitions_replay_one_seed:
  assumes "run_in_range cfg" and "0 < rep" and "rep < 2 ^ 63"
    and "buildComposeModel absPath dir cfg (runIDFor cfg rep) = Inr m"
  shows "map_option cf_seed (client_config (tl (cm_ClientCmd m))) = Some (r_Seed cfg)
    \<and> seedFor cfg rep \<noteq> r_Seed cfg"
proof
  have "cm_ClientCmd m = client_cmd cfg (runIDFor cfg rep)"
    using assms(4) by (auto simp: buildComposeModel_def split: sum.splits prod.splits)
  then show "map_option cf_seed (client_config (tl (cm_ClientCmd m))) = Some (r_Seed cfg)"
    by (simp add: client_config_of_cmd [OF assms(1)])
  show "seedFor cfg rep \<noteq> r_Seed cfg"
  proof
    assume "seedFor cfg rep = r_Seed cfg"
    then have "(r_Seed cfg + 2 ^ 63 + rep) mod 2 ^ 64 = (r_Seed cfg + 2 ^ 63) mod 2 ^ 64"
      using assms(1) unfolding seedFor_def wrap64_def run_in_range_def in_int64_def
      by (simp add: algebra_simps)
    then have "(2 :: int) ^ 64 dvd rep" unfolding mod_eq_dvd_iff by simp
    then show False using zdvd_imp_le [of "2 ^ 64" rep] assms(2,3) by simp
  qed
qed

theorem repetitions_replay_one_seed_witness:
  "\<exists>m. buildComposeModel Inr ''/r'' Default (runIDFor Default 1) = Inr m
     \<and> map_option cf_seed (client_config (tl (cm_ClientCmd m))) = Some 42 \<and> seedFor Default 1 = 43"
proof -
  have r: "run_in_range Default" and s: "r_Seed Default = 42" "seedFor Default 1 = 43" by code_simp+
  obtain m where m: "buildComposeModel Inr ''/r'' Default (runIDFor Default 1) = Inr m"
    using buildComposeModel_Inr by blast
  from repetitions_replay_one_seed [OF r _ _ m] m s show ?thesis by auto
qed

end
