(* ===== verification/Runner_Netem.thy ===== *)
theory Runner_Netem
  imports Runner_Ident
begin

text \<open>
  The network emulation of a run (\<^verbatim>\<open>lab/runner/netem.go\<close>): the traffic-control commands the runner
  executes in every replica's container, the check of what the kernel reports back, and the record
  written as evidence. Docker is a parameter with a state: \<open>dexec\<close> is \<^verbatim>\<open>dockerExec\<close> (trimmed output
  and error), \<open>ipv4\<close> is \<^verbatim>\<open>containerIPv4\<close>.
\<close>

section \<open>Commands and their record\<close>

record netemCmd =
  nc_Step :: string
  nc_Container :: string
  nc_Command :: string
  nc_Output :: string
  nc_Error :: string

record netemRecord =
  nt_Applied :: bool
  nt_Method :: string
  nt_DelayMS :: int
  nt_JitterPct :: int
  nt_Interface :: string
  nt_Filter :: string
  nt_PeerIPs :: "string list"
  nt_Commands :: "netemCmd list"
  nt_Verification :: "string list"
  nt_Error :: string

type_synonym 'd docker_exec = "string \<Rightarrow> string list \<Rightarrow> 'd \<Rightarrow> (string \<times> string option) \<times> 'd"

fun join_with :: "string \<Rightarrow> string list \<Rightarrow> string" where
  "join_with sep [] = []"
| "join_with sep [s] = s"
| "join_with sep (s # t # ss) = s @ sep @ join_with sep (t # ss)"

fun str_contains :: "string \<Rightarrow> string \<Rightarrow> bool" where
  "str_contains t [] \<longleftrightarrow> t = []"
| "str_contains t (c # s) \<longleftrightarrow> has_prefix t (c # s) \<or> str_contains t s"

text \<open>The closure \<^verbatim>\<open>run\<close>: a failing step is an error only when it is fatal.\<close>

definition netem_run ::
  "'d docker_exec \<Rightarrow> string \<Rightarrow> string \<times> bool \<times> string list \<Rightarrow> netemRecord \<times> 'd
     \<Rightarrow> string option \<times> netemRecord \<times> 'd" where
  "netem_run dexec container stp st =
     (case stp of (step, fatal, args) \<Rightarrow> case st of (rec, d) \<Rightarrow>
      case dexec container args d of ((out, err), d') \<Rightarrow>
        (let entry = \<lparr>nc_Step = step, nc_Container = container, nc_Command = join_with '' '' args,
                      nc_Output = out, nc_Error = []\<rparr>
         in case err of
              None \<Rightarrow> (None, rec\<lparr>nt_Commands := nt_Commands rec @ [entry]\<rparr>, d')
            | Some e \<Rightarrow>
                if \<not> fatal
                then (None, rec\<lparr>nt_Commands := nt_Commands rec @ [entry\<lparr>nc_Step := step @ '' (best-effort)''\<rparr>]\<rparr>, d')
                else (Some e, rec\<lparr>nt_Commands := nt_Commands rec @ [entry\<lparr>nc_Error := e\<rparr>], nt_Error := e\<rparr>, d')))"

fun netem_runs ::
  "'d docker_exec \<Rightarrow> string \<Rightarrow> (string \<times> bool \<times> string list) list \<Rightarrow> netemRecord \<times> 'd
     \<Rightarrow> string option \<times> netemRecord \<times> 'd" where
  "netem_runs dexec container [] st = (None, st)"
| "netem_runs dexec container (stp # stps) st =
     (case netem_run dexec container stp st of
        (Some e, st') \<Rightarrow> (Some e, st')
      | (None, st') \<Rightarrow> netem_runs dexec container stps st')"

definition reset_step :: "string \<Rightarrow> string \<times> bool \<times> string list" where
  "reset_step iface = (''reset'', False, [''tc'', ''qdisc'', ''del'', ''dev'', iface, ''root''])"

definition filter_step :: "string \<Rightarrow> string \<Rightarrow> string \<times> bool \<times> string list" where
  "filter_step iface peer =
     (''install-filter'', True, [''tc'', ''filter'', ''add'', ''dev'', iface, ''parent'', ''1:'', ''protocol'',
        ''ip'', ''prio'', ''1'', ''u32'', ''match'', ''ip'', ''dst'', peer @ ''/32'', ''flowid'', ''1:3''])"

definition delay_arg :: "int \<Rightarrow> string" where
  "delay_arg delay = itoa delay @ ''ms''"

text \<open>The commands for the replica whose own address is \<open>own\<close>.\<close>

definition netem_steps :: "netemRecord \<Rightarrow> string list \<Rightarrow> string \<Rightarrow> (string \<times> bool \<times> string list) list" where
  "netem_steps rec ips own =
     (let iface = nt_Interface rec in
      reset_step iface #
      (if nt_Filter rec = NetFilterAll
       then [(''install-root'', True, [''tc'', ''qdisc'', ''add'', ''dev'', iface, ''root'', ''netem'', ''delay'',
                delay_arg (nt_DelayMS rec)])]
       else [(''install-prio'', True, [''tc'', ''qdisc'', ''add'', ''dev'', iface, ''root'', ''handle'', ''1:'', ''prio'']),
             (''install-netem'', True, [''tc'', ''qdisc'', ''add'', ''dev'', iface, ''parent'', ''1:3'', ''handle'',
                ''30:'', ''netem'', ''delay'', delay_arg (nt_DelayMS rec)])]
            @ map (filter_step iface) (filter (\<lambda>peer. peer \<noteq> own) ips)))"

definition netem_verify ::
  "'d docker_exec \<Rightarrow> string \<Rightarrow> netemRecord \<times> 'd \<Rightarrow> string option \<times> netemRecord \<times> 'd" where
  "netem_verify dexec name st =
     (case st of (rec, d) \<Rightarrow>
      case dexec name [''tc'', ''-s'', ''qdisc'', ''show'', ''dev'', nt_Interface rec] d of ((out, err), d') \<Rightarrow>
        (let rec' = rec\<lparr>nt_Verification := nt_Verification rec @ [name @ '': '' @ out]\<rparr>;
             want = ''delay '' @ delay_arg (nt_DelayMS rec)
         in case err of
              Some e \<Rightarrow> (Some e, rec'\<lparr>nt_Error := e\<rparr>, d')
            | None \<Rightarrow>
                if \<not> str_contains ''netem'' out \<or> \<not> str_contains want out
                then (let e = name @ '': expected a netem qdisc with '' @ want @ '', kernel reports: '' @ out
                      in (Some e, rec'\<lparr>nt_Error := e\<rparr>, d'))
                else (None, rec', d')))"

fun netem_replicas ::
  "'d docker_exec \<Rightarrow> string list \<Rightarrow> (string \<times> string) list \<Rightarrow> netemRecord \<times> 'd
     \<Rightarrow> string option \<times> netemRecord \<times> 'd" where
  "netem_replicas dexec ips [] st = (None, st)"
| "netem_replicas dexec ips ((name, own) # rs) st =
     (case netem_runs dexec name (netem_steps (fst st) ips own) st of
        (Some e, st') \<Rightarrow> (Some e, st')
      | (None, st') \<Rightarrow>
          (case netem_verify dexec name st' of
             (Some e, st'') \<Rightarrow> (Some e, st'')
           | (None, st'') \<Rightarrow> netem_replicas dexec ips rs st''))"

fun container_ips :: "(string \<Rightarrow> 'd \<Rightarrow> (string + string) \<times> 'd) \<Rightarrow> string list \<Rightarrow> 'd \<Rightarrow> (string + string list) \<times> 'd" where
  "container_ips ipv4 [] d = (Inr [], d)"
| "container_ips ipv4 (n # ns) d =
     (case ipv4 n d of
        (Inl e, d') \<Rightarrow> (Inl e, d')
      | (Inr ip, d') \<Rightarrow>
          (case container_ips ipv4 ns d' of
             (Inl e, d'') \<Rightarrow> (Inl e, d'')
           | (Inr ips, d'') \<Rightarrow> (Inr (ip # ips), d'')))"

text \<open>The outcome: the record returned, the error, what \<^verbatim>\<open>network.json\<close> holds afterwards (if this call
  writes it), and the detail of the event logged.\<close>

record netem_outcome =
  no_rec :: "netemRecord option"
  no_err :: "string option"
  no_written :: "netemRecord option"
  no_event :: "string option"

definition replica_containers :: "Run \<Rightarrow> string \<Rightarrow> string list" where
  "replica_containers cfg runID = map (containerName runID) (replicaServiceNames (nat (r_Replicas cfg)))"

definition new_record :: "Run \<Rightarrow> netemRecord" where
  "new_record cfg =
     \<lparr>nt_Applied = False, nt_Method = EmulationMethod cfg, nt_DelayMS = r_NetworkDelayMS cfg,
      nt_JitterPct = 0, nt_Interface = EmulationIface cfg, nt_Filter = EmulationFilter cfg,
      nt_PeerIPs = [], nt_Commands = [], nt_Verification = [], nt_Error = []\<rparr>"

definition applyNetworkDelay ::
  "'d docker_exec \<Rightarrow> (string \<Rightarrow> 'd \<Rightarrow> (string + string) \<times> 'd) \<Rightarrow> Run \<Rightarrow> string \<Rightarrow> 'd
     \<Rightarrow> netem_outcome \<times> 'd" where
  "applyNetworkDelay dexec ipv4 cfg runID d =
     (if \<not> NetworkEmulated cfg \<and> r_Experiment cfg \<noteq> ''networkdelay''
      then (\<lparr>no_rec = None, no_err = None, no_written = None, no_event = None\<rparr>, d)
      else let rec = new_record cfg in
      if \<not> NetworkEmulated cfg
      then (\<lparr>no_rec = Some rec, no_err = None, no_written = Some rec, no_event = None\<rparr>, d)
      else if nt_Method rec \<noteq> NetEmuTCNetem
      then (\<lparr>no_rec = Some rec, no_err = Some (''unsupported network emulation method '' @ nt_Method rec),
             no_written = None, no_event = None\<rparr>, d)
      else let names = replica_containers cfg runID in
      case container_ips ipv4 names d of
        (Inl e, d') \<Rightarrow>
          (let rec' = rec\<lparr>nt_Error := e\<rparr>
           in (\<lparr>no_rec = Some rec', no_err = Some e, no_written = Some rec', no_event = None\<rparr>, d'))
      | (Inr ips, d') \<Rightarrow>
          (case netem_replicas dexec ips (zip names ips) (rec\<lparr>nt_PeerIPs := ips\<rparr>, d') of
             (Some e, rec', d'') \<Rightarrow>
               (\<lparr>no_rec = Some rec', no_err = Some e, no_written = None, no_event = None\<rparr>, d'')
           | (None, rec', d'') \<Rightarrow>
               (let rec'' = rec'\<lparr>nt_Applied := True\<rparr> in
                (\<lparr>no_rec = Some rec'', no_err = None, no_written = Some rec'',
                  no_event = Some (''applied '' @ nt_Method rec'' @ '' '' @ itoa (nt_DelayMS rec'') @ ''ms on ''
                    @ nt_Interface rec'' @ '' (filter='' @ nt_Filter rec'' @ '', replicas=''
                    @ itoa (int (length names)) @ '')'')\<rparr>, d''))))"

section \<open>Facts\<close>

definition cmd_line :: "netemCmd \<Rightarrow> string \<times> string" where
  "cmd_line c = (nc_Container c, nc_Command c)"

definition step_line :: "string \<Rightarrow> string \<times> bool \<times> string list \<Rightarrow> string \<times> string" where
  "step_line name s = (name, join_with '' '' (snd (snd s)))"

definition same_setting :: "netemRecord \<Rightarrow> netemRecord \<Rightarrow> bool" where
  "same_setting r r' \<longleftrightarrow> nt_Interface r' = nt_Interface r \<and> nt_Filter r' = nt_Filter r
     \<and> nt_DelayMS r' = nt_DelayMS r \<and> nt_Applied r' = nt_Applied r \<and> nt_Method r' = nt_Method r
     \<and> nt_PeerIPs r' = nt_PeerIPs r"

lemma netem_run_facts:
  assumes "netem_run dexec name s (rec, d) = (err, rec', d')"
  shows "same_setting rec rec' \<and> nt_Verification rec' = nt_Verification rec
    \<and> map cmd_line (nt_Commands rec') = map cmd_line (nt_Commands rec) @ [step_line name s]"
  using assms
  by (cases s) (auto simp: netem_run_def same_setting_def cmd_line_def step_line_def Let_def
      split: prod.splits option.splits if_splits)

lemma netem_runs_facts:
  assumes "netem_runs dexec name ss (rec, d) = (None, rec', d')"
  shows "same_setting rec rec' \<and> nt_Verification rec' = nt_Verification rec
    \<and> map cmd_line (nt_Commands rec') = map cmd_line (nt_Commands rec) @ map (step_line name) ss"
  using assms
proof (induction ss arbitrary: rec d)
  case Nil
  then show ?case by (simp add: same_setting_def)
next
  case (Cons s ss)
  obtain e r1 d1 where s: "netem_run dexec name s (rec, d) = (e, r1, d1)"
    by (cases "netem_run dexec name s (rec, d)")
  with Cons.prems have "e = None" and r: "netem_runs dexec name ss (r1, d1) = (None, rec', d')"
    by (auto split: option.splits)
  from Cons.IH [OF r] netem_run_facts [OF s] show ?case by (auto simp: same_setting_def)
qed

lemma netem_steps_setting: "same_setting r r' \<Longrightarrow> netem_steps r' ips own = netem_steps r ips own"
  by (simp add: netem_steps_def same_setting_def Let_def)

text \<open>What the kernel must have reported for the emulation to count as installed.\<close>

definition kernel_confirms :: "int \<Rightarrow> string \<Rightarrow> string \<Rightarrow> bool" where
  "kernel_confirms delay name line \<longleftrightarrow>
     (\<exists>out. line = name @ '': '' @ out \<and> str_contains ''netem'' out
        \<and> str_contains (''delay '' @ delay_arg delay) out)"

lemma netem_verify_facts:
  assumes "netem_verify dexec name (rec, d) = (None, rec', d')"
  shows "same_setting rec rec' \<and> nt_Commands rec' = nt_Commands rec
    \<and> (\<exists>line. nt_Verification rec' = nt_Verification rec @ [line] \<and> kernel_confirms (nt_DelayMS rec) name line)"
  using assms
  by (auto simp: netem_verify_def same_setting_def kernel_confirms_def Let_def
      split: prod.splits option.splits if_splits)

lemma netem_replicas_facts:
  assumes "netem_replicas dexec ips rs (rec, d) = (None, rec', d')"
  shows "same_setting rec rec'
    \<and> map cmd_line (nt_Commands rec')
      = map cmd_line (nt_Commands rec) @ concat (map (\<lambda>(n, own). map (step_line n) (netem_steps rec ips own)) rs)
    \<and> (\<exists>lines. nt_Verification rec' = nt_Verification rec @ lines
        \<and> list_all2 (kernel_confirms (nt_DelayMS rec)) (map fst rs) lines)"
  using assms
proof (induction rs arbitrary: rec d)
  case Nil
  then show ?case by (simp add: same_setting_def)
next
  case (Cons p rs)
  obtain n own where p: "p = (n, own)" by (cases p)
  obtain e r1 d1 where a: "netem_runs dexec n (netem_steps rec ips own) (rec, d) = (e, r1, d1)"
    by (cases "netem_runs dexec n (netem_steps rec ips own) (rec, d)")
  obtain e' r2 d2 where b: "netem_verify dexec n (r1, d1) = (e', r2, d2)"
    by (cases "netem_verify dexec n (r1, d1)")
  from Cons.prems have "e = None" "e' = None" and r: "netem_replicas dexec ips rs (r2, d2) = (None, rec', d')"
    by (auto simp: p a b split: option.splits)
  note fa = netem_runs_facts [OF a [unfolded \<open>e = None\<close>]]
    and fb = netem_verify_facts [OF b [unfolded \<open>e' = None\<close>]] and ih = Cons.IH [OF r]
  have s: "same_setting rec r2" "same_setting rec rec'" using fa fb ih by (auto simp: same_setting_def)
  have d: "nt_DelayMS r1 = nt_DelayMS rec" "nt_DelayMS r2 = nt_DelayMS rec"
    using fa s (1) by (auto simp: same_setting_def)
  from fb ih obtain line lines where "nt_Verification rec' = nt_Verification rec @ line # lines"
    "kernel_confirms (nt_DelayMS rec) n line" "list_all2 (kernel_confirms (nt_DelayMS rec)) (map fst rs) lines"
    using fa by (auto simp: d)
  then show ?case
    using fa fb ih s by (auto simp: p netem_steps_setting [OF s(1)])
qed

lemma container_ips_length: "container_ips ipv4 ns d = (Inr ips, d') \<Longrightarrow> length ips = length ns"
  by (induction ipv4 ns d arbitrary: ips d' rule: container_ips.induct)
    (auto split: prod.splits sum.splits)

lemma netem_steps_PeerIPs [simp]: "netem_steps (r\<lparr>nt_PeerIPs := x\<rparr>) ips own = netem_steps r ips own"
  by (simp add: netem_steps_def Let_def)

lemma new_record_fields [simp]:
  "nt_DelayMS (new_record cfg) = r_NetworkDelayMS cfg" "nt_Applied (new_record cfg) = False"
  "nt_Commands (new_record cfg) = []" "nt_Verification (new_record cfg) = []"
  by (simp_all add: new_record_def)

section \<open>Properties\<close>


definition sample_exec :: "unit docker_exec" where
  "sample_exec container args d =
     ((if args ! 1 = ''-s'' then ''qdisc netem 30: parent 1:3 limit 1000 delay 5ms'' else [],
       if args ! 2 = ''del'' then Some ''exit status 2'' else None), d)"

definition sample_ipv4 :: "string \<Rightarrow> unit \<Rightarrow> (string + string) \<times> unit" where
  "sample_ipv4 name d = (Inr (''10.0.0.'' @ [last (butlast (butlast name))]), d)"


end
