(* ===== verification/Runner_Run.thy ===== *)
theory Runner_Run
  imports Runner_Plan Runner_Compose Runner_Netem
begin

text \<open>
  One run from start to finish (\<^verbatim>\<open>lab/runner/run.go\<close>): the checks before it, the compose model, the
  emulation, waiting for the measured phase, watching the leader, injecting the fault, the checks of
  what the run left behind, and the metadata. The state is the results directory: a list of named run
  directories with the files the runner reads back. Docker, the master and the client are a \<open>world\<close>
  of answers, one record per run; \<open>rw_clock k\<close> is the time of the \<open>k\<close>-th event the run logs.

  Files are what their readers get: \<^verbatim>\<open>encoding/csv\<close> delivers rows of one length or an error. Of the
  metadata the fields that the program reads back are kept, not the provenance (versions, host, notes).
\<close>

section \<open>Files of a run\<close>

record run_event =
  ev_ts :: int
  ev_name :: string
  ev_detail :: string

datatype csv_file = Absent | Unreadable string | Unparseable string | Table nat "string list list"

record metadata =
  md_run_id :: string
  md_experiment :: string
  md_repetition :: int
  md_batch_id :: string
  md_config :: Run
  md_seed_used :: int
  md_status :: string
  md_failure_reason :: string
  md_started_at :: int
  md_finished_at :: int
  md_schedule :: "schedInfo option"

record run_dir =
  rd_events :: "run_event list option"
  rd_phase :: "int option"
  rd_requests :: csv_file
  rd_resources :: "nat option"
  rd_telemetry :: csv_file
  rd_network :: "netemRecord option"
  rd_metadata :: "metadata option"
  rd_teardown :: "(bool \<times> int) option"

definition empty_dir :: run_dir where
  "empty_dir = \<lparr>rd_events = None, rd_phase = None, rd_requests = Absent, rd_resources = None,
     rd_telemetry = Absent, rd_network = None, rd_metadata = None, rd_teardown = None\<rparr>"

type_synonym dataset = "(string \<times> run_dir) list"

definition listing :: "dataset \<Rightarrow> results_dir" where
  "listing ds = map (\<lambda>(n, d). (n, if rd_metadata d = None then Dir_without_metadata else Dir_with_metadata)) ds"

definition dir_of :: "dataset \<Rightarrow> string \<Rightarrow> run_dir" where
  "dir_of ds n = (case map_of ds n of None \<Rightarrow> empty_dir | Some d \<Rightarrow> d)"

fun put_dir :: "string \<Rightarrow> run_dir \<Rightarrow> dataset \<Rightarrow> dataset" where
  "put_dir n d [] = [(n, d)]"
| "put_dir n d ((m, e) # ds) = (if m = n then (n, d) # ds else (m, e) # put_dir n d ds)"

record runResult =
  rr_RunID :: string
  rr_Dir :: string
  rr_Status :: string
  rr_Reason :: string

record runEnv =
  re_batchID :: string

section \<open>Isolation before and after\<close>

text \<open>What the host answers: an error for a busy port, and the trimmed output of the three \<^verbatim>\<open>docker\<close>
  listings for the run's identifier (\<open>None\<close> when the command fails).\<close>

record docker_view =
  dv_port :: "int \<Rightarrow> string option"
  dv_containers :: "string option"
  dv_volumes :: "string option"
  dv_networks :: "string option"

fun first_busy :: "(int \<Rightarrow> string option) \<Rightarrow> int list \<Rightarrow> string option" where
  "first_busy port [] = None"
| "first_busy port (p # ps) =
     (case port p of
        Some e \<Rightarrow> Some (''host port '' @ itoa p @ '' is busy (leftover containers from a previous run?): '' @ e)
      | None \<Rightarrow> first_busy port ps)"

definition leftover :: "string option \<Rightarrow> bool" where
  "leftover out \<longleftrightarrow> out \<noteq> None \<and> out \<noteq> Some []"

definition preflightIsolation :: "docker_view \<Rightarrow> int \<Rightarrow> string option" where
  "preflightIsolation v replicas =
     (case first_busy (dv_port v) (17087 # map (\<lambda>i. replicaAdminHostPort (int i)) [0..<nat replicas]) of
        Some e \<Rightarrow> Some e
      | None \<Rightarrow>
          if leftover (dv_containers v)
          then Some (''containers from a previous run with this run ID still exist: '' @ the (dv_containers v))
          else if leftover (dv_volumes v)
          then Some (''volumes from a previous run with this run ID still exist: '' @ the (dv_volumes v))
          else if leftover (dv_networks v)
          then Some (''networks from a previous run with this run ID still exist: '' @ the (dv_networks v))
          else None)"

definition verifyTeardown :: "docker_view \<Rightarrow> bool" where
  "verifyTeardown v \<longleftrightarrow> list_all (\<lambda>out. out = Some []) [dv_containers v, dv_volumes v, dv_networks v]"

section \<open>The fault\<close>

text \<open>Answers the fault injection gets: from the master, and from Docker and the replicas' admin
  calls. Error texts are \<open>Some\<close>.\<close>

record fault_world =
  fw_dial :: "string option"
  fw_leader :: int
  fw_host :: "int \<Rightarrow> string"
  fw_kill :: "string \<Rightarrow> string option"
  fw_start :: "string \<Rightarrow> string option"
  fw_isolate :: "int \<Rightarrow> int \<Rightarrow> string option"

type_synonym log_line = "string \<times> string"

definition leader_text :: "int \<Rightarrow> string \<Rightarrow> string" where
  "leader_text leader host = ''leader '' @ replica_name leader @ '' ('' @ host @ '')''"

text \<open>The end of \<^verbatim>\<open>injectFailure\<close>: kill, and start again when a restart is configured.\<close>

definition kill_and_restart :: "fault_world \<Rightarrow> Failure \<Rightarrow> string \<Rightarrow> log_line list" where
  "kill_and_restart w f container =
     (''failure_injected'', container) #
     (case fw_kill w container of
        Some e \<Rightarrow> [(''failure_error'', e)]
      | None \<Rightarrow> (''failure_confirmed'', container) #
          (if f_RestartAfterS f > 0
           then (''restart_issued'', container) #
                (case fw_start w container of
                   Some e \<Rightarrow> [(''restart_error'', e)]
                 | None \<Rightarrow> [(''restart_confirmed'', container)])
           else []))"

text \<open>The isolation of the survivors: the lines logged and how many were isolated.\<close>

fun isolate_survivors :: "fault_world \<Rightarrow> int \<Rightarrow> int \<Rightarrow> int list \<Rightarrow> log_line list \<times> nat" where
  "isolate_survivors w leader isoMS [] = ([], 0)"
| "isolate_survivors w leader isoMS (i # is) =
     (let (ls, n) = isolate_survivors w leader isoMS is in
      if i = leader then (ls, n)
      else let h = fw_host w i in
      if h = [] then ((''election_isolation_error'', ''master index '' @ itoa i @ '': no host'') # ls, n)
      else let idx = containerIndex h in
      if idx < 0
      then ((''election_isolation_error'', ''host '' @ h @ '': no container index'') # ls, n)
      else case fw_isolate w idx isoMS of
             Some e \<Rightarrow> ((''election_isolation_error'', replica_name idx @ '' ('' @ h @ ''): '' @ e) # ls, n)
           | None \<Rightarrow> ((''election_isolation_confirmed'',
                replica_name idx @ '' ('' @ h @ '') isolated for '' @ itoa isoMS @ ''ms'') # ls, Suc n))"

definition injectElectionFailure :: "fault_world \<Rightarrow> Run \<Rightarrow> string \<Rightarrow> log_line list" where
  "injectElectionFailure w cfg runID =
     (case fw_dial w of
        Some e \<Rightarrow> [(''failure_error'', ''master unreachable: '' @ e)]
      | None \<Rightarrow>
          let leader = fw_leader w in
          if leader < 0 then [(''failure_error'', ''no leader reported at injection time'')]
          else let host = fw_host w leader in
          if host = [] then [(''failure_error'', ''could not map leader index to host'')]
          else let container = containerName runID host;
                   isoMS = wrap64 (f_FailedElections (r_Failure cfg) * r_RaftElectionMS cfg)
          in (''failure_target'', leader_text leader host) # (''failure_injected'', container) #
             (case fw_kill w container of
                Some e \<Rightarrow> [(''failure_error'', e)]
              | None \<Rightarrow> (''failure_confirmed'', container) #
                  (if isoMS \<le> 0
                   then [(''election_isolation'', ''0ms (no failed elections targeted)'')]
                   else (''election_isolation_start'', itoa isoMS @ ''ms for '' @
                           itoa (f_FailedElections (r_Failure cfg)) @ '' failed elections'') #
                        (case isolate_survivors w leader isoMS (map int [0..<nat (r_Replicas cfg)]) of
                           (ls, n) \<Rightarrow> ls @ (if n = 0
                             then [(''election_isolation_error'', ''no surviving replica could be isolated'')]
                             else [])))))"

definition injectFailure :: "fault_world \<Rightarrow> Run \<Rightarrow> string \<Rightarrow> log_line list" where
  "injectFailure w cfg runID =
     (let mode = f_Mode (r_Failure cfg) in
      if mode = FailureLeader then
        (case fw_dial w of
           Some e \<Rightarrow> [(''failure_error'', ''master unreachable: '' @ e)]
         | None \<Rightarrow>
             let leader = fw_leader w in
             if leader < 0 then [(''failure_error'', ''no leader reported at injection time'')]
             else let host = fw_host w leader in
             if host = [] then [(''failure_error'', ''could not map leader index to host'')]
             else (''failure_target'', leader_text leader host) #
                  kill_and_restart w (r_Failure cfg) (containerName runID host))
      else if mode = FailureFollower then
        (case fw_dial w of
           Some e \<Rightarrow> [(''failure_error'', ''master unreachable: '' @ e)]
         | None \<Rightarrow>
             let leader = fw_leader w; follower = pickFollower (nat (r_Replicas cfg)) leader;
                 host = fw_host w follower in
             if host = [] then [(''failure_error'', ''could not map follower index to host'')]
             else (''failure_target'', ''follower '' @ replica_name follower @ '' ('' @ host @ '') leader='' @ itoa leader) #
                  kill_and_restart w (r_Failure cfg) (containerName runID host))
      else if mode = FailureElection then injectElectionFailure w cfg runID
      else (''failure_target'', ''replica0'') #
           kill_and_restart w (r_Failure cfg) (containerName runID ''replica0''))"

text \<open>The time at which the injection begins: the configured offset after the start of the phase, or at
  once when that time has passed.\<close>

definition injection_time :: "Run \<Rightarrow> int \<Rightarrow> int \<Rightarrow> int" where
  "injection_time cfg phaseStart now =
     (let target = phaseStart + \<lfloor>f64 (f_AtS (r_Failure cfg) * 1000000000)\<rfloor> in if target > now then target else now)"

section \<open>Phase and leader\<close>

text \<open>\<^verbatim>\<open>waitPhaseStart\<close> over the contents of \<^verbatim>\<open>phase.json\<close> at its successive polls. What it reads is
  the client's file once the client has written it, and before that whatever the directory held.\<close>

fun waitPhaseStart :: "int option list \<Rightarrow> int option" where
  "waitPhaseStart [] = None"
| "waitPhaseStart (p # ps) = (case p of Some ns \<Rightarrow> Some ns | None \<Rightarrow> waitPhaseStart ps)"

definition phase_polls :: "int option \<Rightarrow> int option list \<Rightarrow> int option list" where
  "phase_polls stale written = map (\<lambda>w. case w of Some ns \<Rightarrow> Some ns | None \<Rightarrow> stale) written"

fun leader_lines :: "int \<Rightarrow> int list \<Rightarrow> log_line list" where
  "leader_lines seen [] = []"
| "leader_lines seen (l # ls) =
     (if l \<noteq> seen then (''leader_observed'', itoa l) # leader_lines l ls else leader_lines seen ls)"

definition startLeaderWatch :: "string option \<Rightarrow> int list \<Rightarrow> log_line list" where
  "startLeaderWatch dialErr polls = (if dialErr \<noteq> None then [] else leader_lines (- 2) polls)"

text \<open>The two goroutines that log during the measured phase, in any interleaving.\<close>

fun interleave :: "bool list \<Rightarrow> 'a list \<Rightarrow> 'a list \<Rightarrow> 'a list" where
  "interleave [] xs ys = xs @ ys"
| "interleave (b # bs) [] ys = ys"
| "interleave (b # bs) xs [] = xs"
| "interleave (b # bs) (x # xs) (y # ys) =
     (if b then x # interleave bs xs (y # ys) else y # interleave bs (x # xs) ys)"

section \<open>Checks of what the run left\<close>

fun header_index :: "string list \<Rightarrow> string \<Rightarrow> nat \<Rightarrow> nat option" where
  "header_index [] name i = None"
| "header_index (h # hs) name i =
     (case header_index hs name (Suc i) of Some k \<Rightarrow> Some k | None \<Rightarrow> if h = name then Some i else None)"

definition column :: "string list \<Rightarrow> nat \<Rightarrow> string" where
  "column row i = (if i < length row then row ! i else [])"

definition validateRunOutputs :: "csv_file \<Rightarrow> nat option \<Rightarrow> string" where
  "validateRunOutputs requests resources =
     (case requests of
        Absent \<Rightarrow> ''requests.csv missing''
      | Unreadable e \<Rightarrow> ''requests.csv unreadable''
      | Unparseable e \<Rightarrow> ''requests.csv unparseable''
      | Table len rows \<Rightarrow>
          if len = 0 then ''requests.csv empty''
          else if length rows < 2 then ''requests.csv has no data rows''
          else case header_index (hd rows) ''ok'' 0 of
            None \<Rightarrow> ''requests.csv missing ok column''
          | Some okIdx \<Rightarrow>
              let total = length (tl rows); ok = length (filter (\<lambda>r. column r okIdx = ''1'') (tl rows)) in
              if total = 0 then ''requests.csv has no requests''
              else if ok = 0 then ''all '' @ itoa (int total) @ '' requests failed''
              else case resources of
                None \<Rightarrow> ''resources.csv missing''
              | Some n \<Rightarrow> if n = 0 then ''resources.csv empty'' else [])"

definition failure_ts :: "run_event list \<Rightarrow> int" where
  "failure_ts evs = fold (\<lambda>e ts. if ev_name e = ''failure_injected'' then ev_ts e else ts) evs (- 1)"

definition last_leader :: "run_event list \<Rightarrow> int" where
  "last_leader evs =
     fold (\<lambda>e l. if ev_name e = ''leader_observed''
                 then (case atoi (ev_detail e) of Some n \<Rightarrow> n | None \<Rightarrow> l) else l) evs (- 2)"

definition succeeded_after :: "string list \<Rightarrow> int \<Rightarrow> string list \<Rightarrow> bool" where
  "succeeded_after hdr ts row \<longleftrightarrow>
     (let okIdx = (case header_index hdr ''ok'' 0 of Some i \<Rightarrow> i | None \<Rightarrow> 0);
          endIdx = (case header_index hdr ''end_ns'' 0 of Some i \<Rightarrow> i | None \<Rightarrow> 0)
      in column row okIdx = ''1'' \<and>
         (case atoi (column row endIdx) of Some end_ns \<Rightarrow> end_ns > ts | None \<Rightarrow> False))"

definition validateFinalState :: "run_event list \<Rightarrow> csv_file \<Rightarrow> Run \<Rightarrow> string" where
  "validateFinalState evs requests cfg =
     (if f_Mode (r_Failure cfg) = FailureNone then []
      else let failTS = failure_ts evs in
      if failTS < 0 then ''no failure_injected event recorded''
      else if r_Protocol cfg = ''raft''
      then (if last_leader evs < 0 then ''no valid leader at end of run (cluster did not recover)'' else [])
      else case requests of
        Absent \<Rightarrow> ''requests.csv unreadable: no such file''
      | Unreadable e \<Rightarrow> ''requests.csv unreadable: '' @ e
      | Unparseable e \<Rightarrow> ''requests.csv unparseable: '' @ e
      | Table len rows \<Rightarrow>
          if length rows < 2 then ''requests.csv has no data rows''
          else if list_ex (succeeded_after (hd rows) failTS) (tl rows) then []
          else ''no successful request after failure injection (cluster did not recover)'')"

section \<open>executeRun\<close>

record 'd run_world =
  rw_started :: int
  rw_finished :: int
  rw_log_error :: "string option"
  rw_before :: docker_view
  rw_render_error :: "string option"
  rw_up_error :: "string option"
  rw_docker :: 'd
  rw_exec :: "'d docker_exec"
  rw_ipv4 :: "string \<Rightarrow> 'd \<Rightarrow> (string + string) \<times> 'd"
  rw_phase_writes :: "int option list"
  rw_watch_dial :: "string option"
  rw_leader_polls :: "int list"
  rw_fault :: fault_world
  rw_order :: "bool list"
  rw_client_exit :: "string + int"
  rw_requests :: "csv_file option"
  rw_resources :: "nat option"
  rw_telemetry :: "csv_file option"
  rw_after :: docker_view
  rw_teardown_ts :: int
  rw_clock :: "nat \<Rightarrow> int"

fun stamp_from :: "nat \<Rightarrow> (nat \<Rightarrow> int) \<Rightarrow> log_line list \<Rightarrow> run_event list" where
  "stamp_from k clock [] = []"
| "stamp_from k clock ((name, detail) # lines) =
     \<lparr>ev_ts = clock k, ev_name = name, ev_detail = detail\<rparr> # stamp_from (Suc k) clock lines"

definition stamp :: "(nat \<Rightarrow> int) \<Rightarrow> log_line list \<Rightarrow> run_event list" where
  "stamp clock lines = stamp_from 0 clock lines"

definition writeMetadata ::
  "Run \<Rightarrow> int \<Rightarrow> string \<Rightarrow> runResult \<Rightarrow> int \<Rightarrow> int \<Rightarrow> runEnv \<Rightarrow> schedInfo option \<Rightarrow> metadata" where
  "writeMetadata cfg rep runID res started finished env sched =
     \<lparr>md_run_id = runID, md_experiment = experimentName cfg, md_repetition = rep,
      md_batch_id = re_batchID env, md_config = cfg, md_seed_used = seedFor cfg rep,
      md_status = rr_Status res, md_failure_reason = rr_Reason res, md_started_at = started,
      md_finished_at = finished, md_schedule = sched\<rparr>"

text \<open>The end of a run: the result, the events and the metadata in the directory.\<close>

definition conclude ::
  "'d run_world \<Rightarrow> Run \<Rightarrow> int \<Rightarrow> runEnv \<Rightarrow> schedInfo option \<Rightarrow> string \<Rightarrow> string \<Rightarrow> string \<Rightarrow> log_line list
     \<Rightarrow> run_dir \<Rightarrow> runResult \<times> run_dir" where
  "conclude w cfg rep env sched runID status reason lines d =
     (let res = \<lparr>rr_RunID = runID, rr_Dir = runID, rr_Status = status, rr_Reason = reason\<rparr> in
      (res, d\<lparr>rd_events := Some (stamp (rw_clock w) lines),
              rd_metadata := Some (writeMetadata cfg rep runID res (rw_started w) (rw_finished w) env sched)\<rparr>))"

definition failed_line :: "string \<Rightarrow> log_line" where
  "failed_line reason = (''status'', ''failed: '' @ reason)"

definition composeDown :: "'d run_world \<Rightarrow> runResult \<times> run_dir \<Rightarrow> runResult \<times> run_dir" where
  "composeDown w out = (case out of (res, d) \<Rightarrow>
     (res, d\<lparr>rd_teardown := Some (verifyTeardown (rw_after w), rw_teardown_ts w)\<rparr>))"

text \<open>From the start of the measured phase on: leader watch and fault, the client's exit, the checks.\<close>

definition measured_lines :: "'d run_world \<Rightarrow> Run \<Rightarrow> string \<Rightarrow> log_line list" where
  "measured_lines w cfg runID =
     interleave (rw_order w) (startLeaderWatch (rw_watch_dial w) (rw_leader_polls w))
       (if f_Mode (r_Failure cfg) \<noteq> FailureNone then injectFailure (rw_fault w) cfg runID else [])"

definition client_files :: "'d run_world \<Rightarrow> run_dir \<Rightarrow> run_dir" where
  "client_files w d = d\<lparr>
     rd_requests := (case rw_requests w of None \<Rightarrow> rd_requests d | Some f \<Rightarrow> f),
     rd_resources := (case rw_resources w of None \<Rightarrow> rd_resources d | Some n \<Rightarrow> Some n),
     rd_telemetry := (case rw_telemetry w of None \<Rightarrow> rd_telemetry d | Some f \<Rightarrow> f)\<rparr>"

definition measured_phase ::
  "'d run_world \<Rightarrow> Run \<Rightarrow> int \<Rightarrow> runEnv \<Rightarrow> schedInfo option \<Rightarrow> string \<Rightarrow> log_line list \<Rightarrow> run_dir
     \<Rightarrow> runResult \<times> run_dir" where
  "measured_phase w cfg rep env sched runID lines d =
     (let d1 = client_files w d; lines1 = lines @ measured_lines w cfg runID in
      case rw_client_exit w of
        Inl e \<Rightarrow> conclude w cfg rep env sched runID ''failed'' e (lines1 @ [failed_line e]) d1
      | Inr code \<Rightarrow>
          (let lines2 = lines1 @ [(''client_exit'', itoa code), (''run_finished'', [])];
               outputs = validateRunOutputs (rd_requests d1) (rd_resources d1);
               reason = (if outputs \<noteq> [] then outputs
                         else validateFinalState (stamp (rw_clock w) lines2) (rd_requests d1) cfg);
               status = (if reason = [] then ''success'' else ''failed'')
           in conclude w cfg rep env sched runID status reason
                (lines2 @ [(''status'', status @ '' '' @ reason)]) d1))"

text \<open>The run in its directory, from the pre-flight check on.\<close>

definition run_in_dir ::
  "'d run_world \<Rightarrow> Run \<Rightarrow> int \<Rightarrow> runEnv \<Rightarrow> schedInfo option \<Rightarrow> string \<Rightarrow> run_dir \<Rightarrow> runResult \<times> run_dir" where
  "run_in_dir w cfg rep env sched runID d =
     (let start = [(''run_started'', [])];
          fail = (\<lambda>reason lines d. conclude w cfg rep env sched runID ''failed'' reason lines d)
      in
      case preflightIsolation (rw_before w) (r_Replicas cfg) of
        Some e \<Rightarrow> (let reason = ''preflight: '' @ e in fail reason (start @ [failed_line reason]) d)
      | None \<Rightarrow>
      (case rw_render_error w of
        Some e \<Rightarrow> fail (''compose render: '' @ e) start d
      | None \<Rightarrow>
      (case rw_up_error w of
        Some e \<Rightarrow> (let reason = ''compose up: '' @ e
                  in composeDown w (fail reason (start @ [failed_line reason]) d))
      | None \<Rightarrow> composeDown w
      (let (net, _) = applyNetworkDelay (rw_exec w) (rw_ipv4 w) cfg runID (rw_docker w);
           d1 = (case no_written net of None \<Rightarrow> d | Some r \<Rightarrow> d\<lparr>rd_network := Some r\<rparr>);
           lines1 = start @ (case no_event net of None \<Rightarrow> [] | Some t \<Rightarrow> [(''network_emulation'', t)])
       in case no_err net of
        Some e \<Rightarrow> (let reason = ''network emulation: '' @ e in fail reason (lines1 @ [failed_line reason]) d1)
      | None \<Rightarrow>
      (let polls = phase_polls (rd_phase d1) (rw_phase_writes w);
           d2 = d1\<lparr>rd_phase := fold (\<lambda>p q. if p = None then q else p) (rw_phase_writes w) (rd_phase d1)\<rparr>
       in case waitPhaseStart polls of
        None \<Rightarrow> (let reason = ''waiting for measured phase: phase.json not written'' in
                 fail reason (lines1 @ [failed_line reason]) (client_files w d2))
      | Some ns \<Rightarrow>
          measured_phase w cfg rep env sched runID (lines1 @ [(''phase_started'', [])]) d2)))))"

definition executeRun ::
  "'d run_world \<Rightarrow> Run \<Rightarrow> int \<Rightarrow> runEnv \<Rightarrow> schedInfo option \<Rightarrow> dataset \<Rightarrow> runResult \<times> dataset" where
  "executeRun w cfg rep env sched ds =
     (case Validate cfg of
        Some e \<Rightarrow> (\<lparr>rr_RunID = runIDFor cfg rep, rr_Dir = [], rr_Status = ''failed'',
                    rr_Reason = ''invalid config''\<rparr>, ds)
      | None \<Rightarrow>
          (let runID = fst (the (makeRunDir cfg rep (listing ds))); d = dir_of ds runID in
           case rw_log_error w of
             Some e \<Rightarrow> (\<lparr>rr_RunID = runID, rr_Dir = runID, rr_Status = ''failed'', rr_Reason = e\<rparr>,
                        put_dir runID d ds)
           | None \<Rightarrow> (case run_in_dir w cfg rep env sched runID d of (res, d') \<Rightarrow> (res, put_dir runID d' ds))))"

section \<open>Facts\<close>

lemma map_of_put_dir: "map_of (put_dir n d ds) m = (if m = n then Some d else map_of ds m)"
  by (induction n d ds rule: put_dir.induct) auto

lemma map_of_listing:
  "map_of (listing ds) n =
     map_option (\<lambda>d. if rd_metadata d = None then Dir_without_metadata else Dir_with_metadata) (map_of ds n)"
  by (induction ds) (auto simp: listing_def)

lemma not_taken_listing: "\<not> taken (listing ds) n \<longleftrightarrow> rd_metadata (dir_of ds n) = None"
  by (auto simp: taken_def map_of_listing dir_of_def empty_dir_def split: option.splits)

text \<open>The directory of a run is never that of a completed one.\<close>

lemma makeRunDir_free: "rd_metadata (dir_of ds (fst (the (makeRunDir cfg rep (listing ds))))) = None"
proof -
  obtain nm fs' where r: "makeRunDir cfg rep (listing ds) = Some (nm, fs')"
    using makeRunDir_returns by blast
  have "\<not> taken (listing ds) nm" using makeRunDir_loop_safe [OF r [unfolded makeRunDir_def]] by blast
  then show ?thesis by (simp add: r not_taken_listing)
qed

lemma conclude_result:
  "fst (conclude w cfg rep env sched runID status reason lines d)
     = \<lparr>rr_RunID = runID, rr_Dir = runID, rr_Status = status, rr_Reason = reason\<rparr>"
  "rd_metadata (snd (conclude w cfg rep env sched runID status reason lines d))
     = Some (writeMetadata cfg rep runID (fst (conclude w cfg rep env sched runID status reason lines d))
         (rw_started w) (rw_finished w) env sched)"
  by (simp_all add: conclude_def Let_def)

lemma composeDown_simps [simp]:
  "fst (composeDown w out) = fst out" "rd_metadata (snd (composeDown w out)) = rd_metadata (snd out)"
  "rd_events (snd (composeDown w out)) = rd_events (snd out)"
  "rd_requests (snd (composeDown w out)) = rd_requests (snd out)"
  "rd_resources (snd (composeDown w out)) = rd_resources (snd out)"
  by (simp_all add: composeDown_def split: prod.split)

text \<open>Every way through the run ends with its result in the metadata.\<close>

definition recorded ::
  "'d run_world \<Rightarrow> Run \<Rightarrow> int \<Rightarrow> runEnv \<Rightarrow> schedInfo option \<Rightarrow> string \<Rightarrow> runResult \<times> run_dir \<Rightarrow> bool" where
  "recorded w cfg rep env sched runID out \<longleftrightarrow>
     rr_RunID (fst out) = runID
     \<and> rd_metadata (snd out)
       = Some (writeMetadata cfg rep runID (fst out) (rw_started w) (rw_finished w) env sched)"

lemma recorded_conclude [simp]:
  "recorded w cfg rep env sched runID (conclude w cfg rep env sched runID status reason lines d)"
  by (simp add: recorded_def conclude_result)

lemma recorded_composeDown [simp]:
  "recorded w cfg rep env sched runID (composeDown w out) = recorded w cfg rep env sched runID out"
  by (simp add: recorded_def)

lemma recorded_measured_phase [simp]:
  "recorded w cfg rep env sched runID (measured_phase w cfg rep env sched runID lines d)"
  by (simp add: measured_phase_def Let_def split: sum.split)

lemma recorded_run_in_dir: "recorded w cfg rep env sched runID (run_in_dir w cfg rep env sched runID d)"
  by (simp add: run_in_dir_def Let_def split: option.split prod.split)

lemma executeRun_cases:
  assumes "executeRun w cfg rep env sched ds = (res, ds')"
  obtains (invalid) "Validate cfg \<noteq> None" "ds' = ds" "rr_Status res = ''failed''"
  | (no_log) runID where "Validate cfg = None" "rw_log_error w \<noteq> None" "rr_Status res = ''failed''"
      "runID = fst (the (makeRunDir cfg rep (listing ds)))" "rr_RunID res = runID"
      "ds' = put_dir runID (dir_of ds runID) ds"
  | (ran) runID d' where "Validate cfg = None" "rw_log_error w = None"
      "runID = fst (the (makeRunDir cfg rep (listing ds)))"
      "run_in_dir w cfg rep env sched runID (dir_of ds runID) = (res, d')" "ds' = put_dir runID d' ds"
  using assms by (auto simp: executeRun_def Let_def split: option.splits prod.splits)

lemma executeRun_keeps_completed:
  assumes "executeRun w cfg rep env sched ds = (res, ds')" and "map_of ds n = Some d"
    and "rd_metadata d \<noteq> None"
  shows "map_of ds' n = Some d"
proof -
  have "n \<noteq> fst (the (makeRunDir cfg rep (listing ds)))"
    using makeRunDir_free [of ds cfg rep] assms(2,3) by (auto simp: dir_of_def)
  with assms(1,2) show ?thesis by (cases rule: executeRun_cases) (auto simp: map_of_put_dir)
qed

lemma executeRun_records:
  assumes "executeRun w cfg rep env sched ds = (res, ds')" and "Validate cfg = None"
    and "rw_log_error w = None"
  shows "\<exists>d. map_of ds' (rr_RunID res) = Some d
    \<and> rd_metadata d = Some (writeMetadata cfg rep (rr_RunID res) res (rw_started w) (rw_finished w) env sched)"
  using assms(1)
proof (cases rule: executeRun_cases)
  case (ran runID d')
  with recorded_run_in_dir [of w cfg rep env sched runID "dir_of ds runID"] show ?thesis
    by (auto simp: recorded_def map_of_put_dir)
qed (use assms(2,3) in auto)

lemma stamp_from_snoc:
  "stamp_from k clock (lines @ [l])
     = stamp_from k clock lines @ [\<lparr>ev_ts = clock (k + length lines), ev_name = fst l, ev_detail = snd l\<rparr>]"
  by (induction k clock lines rule: stamp_from.induct) (cases l, auto)

lemma stamp_snoc:
  "stamp clock (lines @ [l])
     = stamp clock lines @ [\<lparr>ev_ts = clock (length lines), ev_name = fst l, ev_detail = snd l\<rparr>]"
  by (simp add: stamp_def stamp_from_snoc)

definition passed_checks :: "Run \<Rightarrow> run_dir \<Rightarrow> bool" where
  "passed_checks cfg d \<longleftrightarrow>
     validateRunOutputs (rd_requests d) (rd_resources d) = []
     \<and> (\<exists>evs. rd_events d = Some evs \<and> validateFinalState evs (rd_requests d) cfg = [])"

lemma validateFinalState_status:
  "validateFinalState (evs @ [\<lparr>ev_ts = t, ev_name = ''status'', ev_detail = s\<rparr>]) requests cfg
     = validateFinalState evs requests cfg"
  by (simp add: validateFinalState_def failure_ts_def last_leader_def)

lemma measured_phase_success:
  assumes "rr_Status (fst (measured_phase w cfg rep env sched runID lines d)) = ''success''"
  shows "passed_checks cfg (snd (measured_phase w cfg rep env sched runID lines d))"
  using assms
  by (auto simp: measured_phase_def conclude_def passed_checks_def stamp_snoc validateFinalState_status Let_def
      split: sum.splits if_splits)

lemma passed_checks_composeDown [simp]:
  "passed_checks cfg (snd (composeDown w out)) = passed_checks cfg (snd out)"
  by (simp add: passed_checks_def)

lemma run_in_dir_success:
  "rr_Status (fst (run_in_dir w cfg rep env sched runID d)) = ''success''
    \<Longrightarrow> passed_checks cfg (snd (run_in_dir w cfg rep env sched runID d))"
  by (auto simp: run_in_dir_def conclude_result Let_def intro: measured_phase_success
      split: option.splits prod.splits)

lemma usable_outputs:
  assumes "validateRunOutputs requests resources = []"
  shows "\<exists>len rows i. requests = Table len rows \<and> header_index (hd rows) ''ok'' 0 = Some i
    \<and> (\<exists>row \<in> set (tl rows). column row i = ''1'') \<and> resources \<noteq> None \<and> resources \<noteq> Some 0"
  using assms
  by (auto simp: validateRunOutputs_def Let_def filter_empty_conv
      split: csv_file.splits if_splits option.splits)

lemma failure_ts_event:
  "0 \<le> failure_ts evs \<Longrightarrow> \<exists>e \<in> set evs. ev_name e = ''failure_injected'' \<and> ev_ts e = failure_ts evs"
proof -
  have "fold (\<lambda>e ts. if ev_name e = ''failure_injected'' then ev_ts e else ts) evs t = t
    \<or> (\<exists>e \<in> set evs. ev_name e = ''failure_injected''
        \<and> ev_ts e = fold (\<lambda>e ts. if ev_name e = ''failure_injected'' then ev_ts e else ts) evs t)" for t
    by (induction evs rule: rev_induct) auto
  from this [of "- 1"] show "0 \<le> failure_ts evs \<Longrightarrow> ?thesis" unfolding failure_ts_def by linarith
qed

lemma recovered_state:
  assumes "validateFinalState evs requests cfg = []" and "f_Mode (r_Failure cfg) \<noteq> FailureNone"
  shows "(\<exists>e \<in> set evs. ev_name e = ''failure_injected'' \<and> ev_ts e = failure_ts evs)
    \<and> (if r_Protocol cfg = ''raft'' then 0 \<le> last_leader evs
       else \<exists>len rows. requests = Table len rows \<and> list_ex (succeeded_after (hd rows) (failure_ts evs)) (tl rows))"
  using assms failure_ts_event [of evs]
  by (auto simp: validateFinalState_def Let_def split: if_splits csv_file.splits)

section \<open>Properties\<close>

text \<open>C26: A run never touches the directory of a completed run, whatever happens during it.\<close>

theorem run_keeps_completed_runs:
  assumes "executeRun w cfg rep env sched ds = (res, ds')" and "map_of ds n = Some d"
    and "rd_metadata d \<noteq> None"
  shows "map_of ds' n = Some d"
  using assms by (rule executeRun_keeps_completed)


text \<open>A run ends with its result recorded in its directory exactly when its configuration was
  accepted and its event log could be created; a rejected configuration leaves the results untouched.\<close>

theorem run_result_is_recorded:
  assumes "executeRun w cfg rep env sched ds = (res, ds')"
  shows "(Validate cfg \<noteq> None \<longrightarrow> ds' = ds \<and> rr_Status res = ''failed'')
    \<and> (Validate cfg = None \<and> rw_log_error w = None \<longrightarrow>
        (\<exists>d m. map_of ds' (rr_RunID res) = Some d \<and> rd_metadata d = Some m
          \<and> md_status m = rr_Status res \<and> md_failure_reason m = rr_Reason res \<and> md_config m = cfg
          \<and> md_repetition m = rep))
    \<and> (Validate cfg = None \<and> rw_log_error w \<noteq> None \<longrightarrow>
        (\<exists>d. map_of ds' (rr_RunID res) = Some d \<and> rd_metadata d = None))"
proof (intro conjI impI)
  assume "Validate cfg \<noteq> None"
  with assms show "ds' = ds" "rr_Status res = ''failed''" by (auto simp: executeRun_def)
next
  assume "Validate cfg = None \<and> rw_log_error w = None"
  with executeRun_records [OF assms] show "\<exists>d m. map_of ds' (rr_RunID res) = Some d \<and> rd_metadata d = Some m
          \<and> md_status m = rr_Status res \<and> md_failure_reason m = rr_Reason res \<and> md_config m = cfg
          \<and> md_repetition m = rep"
    by (auto simp: writeMetadata_def)
next
  assume "Validate cfg = None \<and> rw_log_error w \<noteq> None"
  with assms makeRunDir_free [of ds cfg rep] show "\<exists>d. map_of ds' (rr_RunID res) = Some d \<and> rd_metadata d = None"
    by (auto simp: executeRun_def Let_def map_of_put_dir split: option.splits prod.splits)
qed

section \<open>Witnesses and what the checks let through\<close>

definition quiet_host :: docker_view where
  "quiet_host = \<lparr>dv_port = \<lambda>_. None, dv_containers = Some [], dv_volumes = Some [], dv_networks = Some []\<rparr>"

definition working_faults :: fault_world where
  "working_faults = \<lparr>fw_dial = None, fw_leader = 0, fw_host = replica_name, fw_kill = \<lambda>_. None,
     fw_start = \<lambda>_. None, fw_isolate = \<lambda>_ _. None\<rparr>"

definition one_request :: csv_file where
  "one_request = Table 30 [[''request_id'', ''ok'', ''end_ns''], [''0'', ''1'', ''900'']]"

definition good_world :: "unit run_world" where
  "good_world =
     \<lparr>rw_started = 100, rw_finished = 200, rw_log_error = None, rw_before = quiet_host,
      rw_render_error = None, rw_up_error = None, rw_docker = (), rw_exec = sample_exec,
      rw_ipv4 = sample_ipv4, rw_phase_writes = [None, Some 120], rw_watch_dial = None,
      rw_leader_polls = [0, 0], rw_fault = working_faults, rw_order = [True], rw_client_exit = Inr 0,
      rw_requests = Some one_request, rw_resources = Some 500, rw_telemetry = None,
      rw_after = quiet_host, rw_teardown_ts = 210, rw_clock = int\<rparr>"

definition leader_fault :: Run where
  "leader_fault = Default\<lparr>r_Failure := \<lparr>f_Mode = FailureLeader, f_AtS = 5, f_RestartAfterS = 0, f_FailedElections = 0\<rparr>\<rparr>"

abbreviation (input) no_env :: runEnv where "no_env \<equiv> \<lparr>re_batchID = []\<rparr>"

definition kill_fails_world :: "unit run_world" where
  "kill_fails_world =
     good_world\<lparr>rw_fault := working_faults\<lparr>fw_kill := \<lambda>_. Some ''No such container''\<rparr>\<rparr>"

definition logged_names :: "dataset \<Rightarrow> string \<Rightarrow> string list" where
  "logged_names ds n = (case rd_events (dir_of ds n) of None \<Rightarrow> [] | Some evs \<Rightarrow> map ev_name evs)"

definition silent_client_world :: "unit run_world" where
  "silent_client_world = good_world\<lparr>rw_phase_writes := [None, None]\<rparr>"

definition abandoned_run :: run_dir where
  "abandoned_run = empty_dir\<lparr>rd_phase := Some 7\<rparr>"

lemma leader_fault_valid: "Validate leader_fault = None"
  by code_simp

lemma leader_fault_run:
  "rr_Status (fst (executeRun good_world leader_fault 1 no_env None [])) = ''success''"
  by code_simp

theorem run_keeps_completed_runs_witness:
  "map_of (snd (executeRun good_world leader_fault 1 no_env None
      (snd (executeRun good_world leader_fault 1 no_env None [])))) ''failure-leader-raft-r3-1''
   = map_of (snd (executeRun good_world leader_fault 1 no_env None [])) ''failure-leader-raft-r3-1''"
proof -
  let ?ds = "snd (executeRun good_world leader_fault 1 no_env None [])"
  have "map_option rd_metadata (map_of ?ds ''failure-leader-raft-r3-1'') \<noteq> None
      \<and> map_option rd_metadata (map_of ?ds ''failure-leader-raft-r3-1'') \<noteq> Some None" by code_simp
  then obtain d where d: "map_of ?ds ''failure-leader-raft-r3-1'' = Some d" "rd_metadata d \<noteq> None" by auto
  obtain res ds' where r: "executeRun good_world leader_fault 1 no_env None ?ds = (res, ds')"
    by (cases "executeRun good_world leader_fault 1 no_env None ?ds")
  from run_keeps_completed_runs [OF r d] d r show ?thesis by simp
qed


theorem run_result_is_recorded_witness:
  "\<exists>d m. map_of (snd (executeRun good_world leader_fault 1 no_env None [])) ''failure-leader-raft-r3-1'' = Some d
     \<and> rd_metadata d = Some m \<and> md_status m = ''success''"
proof -
  obtain res ds' where r: "executeRun good_world leader_fault 1 no_env None [] = (res, ds')"
    by (cases "executeRun good_world leader_fault 1 no_env None []")
  have i: "rr_RunID (fst (executeRun good_world leader_fault 1 no_env None [])) = ''failure-leader-raft-r3-1''"
    and l: "rw_log_error good_world = None" by code_simp+
  from run_result_is_recorded [OF r] leader_fault_run i l leader_fault_valid show ?thesis by (auto simp: r)
qed

text \<open>A run whose fault could not be injected, because killing the container failed, is nevertheless
  judged a success: the check looks for the line logged before the kill.\<close>

theorem failed_kill_run_succeeds:
  "rr_Status (fst (executeRun kill_fails_world leader_fault 1 no_env None [])) = ''success''
   \<and> logged_names (snd (executeRun kill_fails_world leader_fault 1 no_env None [])) ''failure-leader-raft-r3-1''
     = [''run_started'', ''phase_started'', ''leader_observed'', ''failure_target'', ''failure_injected'',
        ''failure_error'', ''client_exit'', ''run_finished'', ''status'']"
proof
  show "rr_Status (fst (executeRun kill_fails_world leader_fault 1 no_env None [])) = ''success''" by code_simp
  have "list_all2 (=)
      (logged_names (snd (executeRun kill_fails_world leader_fault 1 no_env None [])) ''failure-leader-raft-r3-1'')
      [''run_started'', ''phase_started'', ''leader_observed'', ''failure_target'', ''failure_injected'',
        ''failure_error'', ''client_exit'', ''run_finished'', ''status'']"
    by code_simp
  then show "logged_names (snd (executeRun kill_fails_world leader_fault 1 no_env None [])) ''failure-leader-raft-r3-1''
     = [''run_started'', ''phase_started'', ''leader_observed'', ''failure_target'', ''failure_injected'',
        ''failure_error'', ''client_exit'', ''run_finished'', ''status'']"
    unfolding list.rel_eq .
qed

text \<open>A client that never reports the start of its measured phase makes the run fail in a new
  directory; in a directory left behind by a killed run it does not, because the old marker is still
  there: the phase counts as started at once, and the fault is injected before the client measures.\<close>

theorem abandoned_phase_marker_is_taken:
  "rr_Status (fst (executeRun silent_client_world leader_fault 1 no_env None [])) = ''failed''
   \<and> rr_Status (fst (executeRun silent_client_world leader_fault 1 no_env None
         [(''failure-leader-raft-r3-1'', abandoned_run)])) = ''success''
   \<and> waitPhaseStart (phase_polls (rd_phase abandoned_run) (rw_phase_writes silent_client_world)) = Some 7
   \<and> injection_time leader_fault 7 6000000000 = 6000000000"
proof (intro conjI)
  show "rr_Status (fst (executeRun silent_client_world leader_fault 1 no_env None [])) = ''failed''" by code_simp
  show "rr_Status (fst (executeRun silent_client_world leader_fault 1 no_env None
         [(''failure-leader-raft-r3-1'', abandoned_run)])) = ''success''" by code_simp
  show "waitPhaseStart (phase_polls (rd_phase abandoned_run) (rw_phase_writes silent_client_world)) = Some 7"
    by code_simp
  have "f64 5000000000 = 5000000000" using f64_of_nat [of 5000000000] by simp
  then show "injection_time leader_fault 7 6000000000 = 6000000000"
    by (simp add: injection_time_def leader_fault_def)
qed

text \<open>When the master knows no leader, a leader fault is reported as an error, but a follower fault
  kills the container of the first replica in the master's list, leader or not.\<close>

theorem follower_fault_without_leader:
  assumes "fw_dial w = None" and "fw_leader w = - 1" and "fw_host w 0 = h" and "h \<noteq> []"
    and "1 \<le> r_Replicas cfg"
  shows "(f_Mode (r_Failure cfg) = FailureFollower
      \<longrightarrow> (''failure_injected'', containerName runID h) \<in> set (injectFailure w cfg runID))
    \<and> (f_Mode (r_Failure cfg) = FailureLeader
      \<longrightarrow> injectFailure w cfg runID = [(''failure_error'', ''no leader reported at injection time'')])"
proof -
  obtain k where "nat (r_Replicas cfg) = Suc k" using assms(5) by (cases "nat (r_Replicas cfg)") auto
  then have "pickFollower (nat (r_Replicas cfg)) (- 1) = 0" by (simp add: pickFollower_def)
  with assms show ?thesis
    by (simp add: injectFailure_def failure_mode_defs kill_and_restart_def)
qed

theorem follower_fault_without_leader_witness:
  "(''failure_injected'', ''x-replica2-1'')
     \<in> set (injectFailure (working_faults\<lparr>fw_leader := - 1, fw_host := \<lambda>_. ''replica2''\<rparr>)
         (Default\<lparr>r_Failure := \<lparr>f_Mode = FailureFollower, f_AtS = 5, f_RestartAfterS = 0, f_FailedElections = 0\<rparr>\<rparr>) ''x'')"
proof -
  let ?w = "working_faults\<lparr>fw_leader := - 1, fw_host := \<lambda>_. ''replica2''\<rparr>"
  let ?cfg = "Default\<lparr>r_Failure := \<lparr>f_Mode = FailureFollower, f_AtS = 5, f_RestartAfterS = 0, f_FailedElections = 0\<rparr>\<rparr>"
  have "fw_dial ?w = None" "fw_leader ?w = - 1" "fw_host ?w 0 = ''replica2''" "1 \<le> r_Replicas ?cfg"
    "f_Mode (r_Failure ?cfg) = FailureFollower"
    by (simp_all add: working_faults_def Default_def)
  with follower_fault_without_leader [of ?w "''replica2''" ?cfg "''x''"] show ?thesis
    by (simp add: containerName_def)
qed

end
