(* ===== verification/Runner_Batch.thy ===== *)
theory Runner_Batch
  imports Runner_Run
begin

text \<open>
  A batch of runs (\<^verbatim>\<open>runConfigs\<close> and \<^verbatim>\<open>summarize\<close> in \<^verbatim>\<open>lab/runner/cli.go\<close>): the refusal to
  under-sample, the schedule, skipping what an earlier batch completed. Executing one run is an
  interface, the locale \<open>executor\<close>; \<^verbatim>\<open>executeRun\<close> of \<^verbatim>\<open>run.go\<close> provides it, with one world per
  executed run.
\<close>

section \<open>The batch\<close>

datatype batch_panic = Index_out_of_range

type_synonym 's exec_fun = "Run \<Rightarrow> int \<Rightarrow> schedInfo option \<Rightarrow> 's \<Rightarrow> runResult \<times> 's"

text \<open>The loop over the schedule: \<open>i\<close> is the index of the next item. The results are those of the
  executed runs; the number counts the skipped ones.\<close>

fun run_schedule ::
  "'s exec_fun \<Rightarrow> (Run \<Rightarrow> int \<Rightarrow> 's \<Rightarrow> bool) \<Rightarrow> int \<Rightarrow> int \<Rightarrow> bool \<Rightarrow> int \<Rightarrow> schedItem list \<Rightarrow> 's
     \<Rightarrow> runResult list \<times> nat \<times> 's" where
  "run_schedule exec completed singleRep seed skipExisting i [] s = ([], 0, s)"
| "run_schedule exec completed singleRep seed skipExisting i (item # items) s =
     (let cfg = si_cfg item; rep = si_rep item;
          sched = (if singleRep = 0
                   then Some \<lparr>sd_block = rep, sd_seq = i + 1, sd_seed = seed, sd_rerunOf = [], sd_rerunReason = []\<rparr>
                   else None)
      in if skipExisting \<and> completed cfg rep s
         then (case run_schedule exec completed singleRep seed skipExisting (i + 1) items s of
                 (rs, skipped, s') \<Rightarrow> (rs, Suc skipped, s'))
         else (case exec cfg rep sched s of
                 (res, s1) \<Rightarrow>
                   (case run_schedule exec completed singleRep seed skipExisting (i + 1) items s1 of
                      (rs, skipped, s') \<Rightarrow> (res # rs, skipped, s'))))"

definition under_sampled :: "int \<Rightarrow> int \<Rightarrow> Run list \<Rightarrow> Run option" where
  "under_sampled singleRep minReps configs =
     List.find (\<lambda>cfg. singleRep = 0 \<and> r_Repetitions cfg < minReps) configs"

definition runConfigs ::
  "(int \<Rightarrow> 'r) \<Rightarrow> ('r \<Rightarrow> nat \<Rightarrow> nat \<times> 'r) \<Rightarrow> 's exec_fun \<Rightarrow> (Run \<Rightarrow> int \<Rightarrow> 's \<Rightarrow> bool) \<Rightarrow> Run list \<Rightarrow> int \<Rightarrow> int
     \<Rightarrow> bool \<Rightarrow> int \<Rightarrow> 's \<Rightarrow> batch_panic + (runResult list \<times> 's)" where
  "runConfigs newSource draw exec completed configs singleRep scheduleSeed skipExisting minReps s =
     (case under_sampled singleRep minReps configs of
        Some cfg \<Rightarrow>
          Inr ([\<lparr>rr_RunID = runIDFor cfg 1, rr_Dir = [], rr_Status = ''failed'',
                 rr_Reason = ''repetitions '' @ itoa (r_Repetitions cfg) @ '' < minimum '' @ itoa minReps\<rparr>], s)
      | None \<Rightarrow>
          (let schedule = (if singleRep > 0 then map (\<lambda>cfg. \<lparr>si_cfg = cfg, si_rep = singleRep\<rparr>) configs
                           else buildSchedule newSource draw configs scheduleSeed)
           in if \<not> singleRep > 0 \<and> schedule = [] then Inl Index_out_of_range
              else case run_schedule exec completed singleRep scheduleSeed skipExisting 0 schedule s of
                     (results, skipped, s') \<Rightarrow> Inr (results, s')))"

text \<open>\<^verbatim>\<open>summarize\<close>: the counts, and the error it returns.\<close>

definition summarize :: "runResult list \<Rightarrow> nat \<times> nat \<times> (nat \<times> nat) option" where
  "summarize results =
     (let ok = length (filter (\<lambda>r. rr_Status r = ''success'') results); failed = length results - ok
      in (ok, failed, if failed > 0 then Some (failed, length results) else None))"

lemma schedule_from_configs:
  assumes "draws_in_range draw" and "it \<in> set (buildSchedule newSource draw configs seed)"
  shows "si_cfg it \<in> set configs \<and> 1 \<le> si_rep it \<and> si_rep it \<le> r_Repetitions (si_cfg it)"
proof -
  have "si_cfg it \<in> set (map si_cfg (filter (\<lambda>x. si_rep x = si_rep it) (buildSchedule newSource draw configs seed)))"
    using assms(2) by auto
  also have "\<dots> = set (filter (\<lambda>cfg. 1 \<le> si_rep it \<and> si_rep it \<le> r_Repetitions cfg) configs)"
    using arg_cong [OF buildSchedule_blocks [OF assms(1)], of set_mset] by (simp only: set_mset_mset)
  finally show ?thesis by simp
qed

lemma run_schedule_state:
  "snd (snd (run_schedule exec completed single seed skip i (it # items) s)) =
     (if skip \<and> completed (si_cfg it) (si_rep it) s
      then snd (snd (run_schedule exec completed single seed skip (i + 1) items s))
      else snd (snd (run_schedule exec completed single seed skip (i + 1) items
        (snd (exec (si_cfg it) (si_rep it)
          (if single = 0 then Some \<lparr>sd_block = si_rep it, sd_seq = i + 1, sd_seed = seed, sd_rerunOf = [],
              sd_rerunReason = []\<rparr> else None) s)))))"
  by (simp add: Let_def split_def)

section \<open>Executing a run, as an interface\<close>

text \<open>What the batch relies on: a completed run stays completed; executing a run of an accepted
  configuration completes it as long as the state is usable; and it stays usable.\<close>

locale executor =
  fixes exec :: "'s exec_fun"
    and completed :: "Run \<Rightarrow> int \<Rightarrow> 's \<Rightarrow> bool"
    and usable :: "'s \<Rightarrow> bool"
  assumes keeps_completed: "completed c r s \<Longrightarrow> completed c r (snd (exec cfg rep sched s))"
    and completes: "usable s \<Longrightarrow> Validate cfg = None \<Longrightarrow> completed cfg rep (snd (exec cfg rep sched s))"
    and stays_usable: "usable s \<Longrightarrow> usable (snd (exec cfg rep sched s))"
begin

lemma schedule_keeps:
  "completed c r s \<Longrightarrow> completed c r (snd (snd (run_schedule exec completed single seed skip i items s)))"
proof (induction items arbitrary: s i)
  case Nil
  then show ?case by simp
next
  case (Cons it items)
  then show ?case
    unfolding run_schedule_state
    by (cases "skip \<and> completed (si_cfg it) (si_rep it) s") (simp_all only: simp_thms if_True if_False keeps_completed)
qed

lemma schedule_completes:
  assumes "usable s" and "\<forall>it \<in> set items. Validate (si_cfg it) = None"
  shows "\<forall>it \<in> set items.
    completed (si_cfg it) (si_rep it) (snd (snd (run_schedule exec completed single seed skip i items s)))"
  using assms
proof (induction items arbitrary: s i)
  case Nil
  then show ?case by simp
next
  case (Cons it items)
  let ?sched = "if single = 0 then Some \<lparr>sd_block = si_rep it, sd_seq = i + 1, sd_seed = seed,
      sd_rerunOf = [], sd_rerunReason = []\<rparr> else None"
  show ?case
  proof (cases "skip \<and> completed (si_cfg it) (si_rep it) s")
    case True
    with Cons.IH [of s "i + 1"] Cons.prems schedule_keeps [of "si_cfg it" "si_rep it" s single seed skip "i + 1" items]
    show ?thesis unfolding run_schedule_state by (simp del: run_schedule.simps)
  next
    case False
    obtain res s1 where e: "exec (si_cfg it) (si_rep it) ?sched s = (res, s1)"
      by (cases "exec (si_cfg it) (si_rep it) ?sched s")
    have "usable s1" "completed (si_cfg it) (si_rep it) s1"
      using stays_usable [OF Cons.prems(1)] completes [OF Cons.prems(1)] Cons.prems(2) e
      by (metis list.set_intros(1) snd_conv)+
    with Cons.IH [of s1 "i + 1"] Cons.prems(2)
      schedule_keeps [of "si_cfg it" "si_rep it" s1 single seed skip "i + 1" items]
    show ?thesis unfolding run_schedule_state if_not_P [OF False] by (simp del: run_schedule.simps add: e)
  qed
qed

lemma schedule_all_completed:
  "\<forall>it \<in> set items. completed (si_cfg it) (si_rep it) s
    \<Longrightarrow> run_schedule exec completed single seed True i items s = ([], length items, s)"
  by (induction items arbitrary: i) (auto simp: Let_def)

lemma schedule_counts:
  "run_schedule exec completed single seed skip i items s = (rs, skipped, s')
    \<Longrightarrow> length rs + skipped = length items"
  by (induction items arbitrary: s i rs skipped s') (auto simp: Let_def split: prod.splits if_splits)

lemma resumed_batch_executes_nothing:
  assumes "usable s" and "\<forall>cfg \<in> set configs. Validate cfg = None" and "draws_in_range draw"
    and "under_sampled single minReps configs = None"
    and "runConfigs newSource draw exec completed configs single seed skip minReps s = Inr (rs, s')"
  shows "runConfigs newSource draw exec completed configs single seed True minReps s' = Inr ([], s')"
proof -
  define sch where "sch = (if single > 0 then map (\<lambda>cfg. \<lparr>si_cfg = cfg, si_rep = single\<rparr>) configs
    else buildSchedule newSource draw configs seed)"
  have ne: "\<not> (\<not> single > 0 \<and> sch = [])" and run: "snd (snd (run_schedule exec completed single seed skip 0 sch s)) = s'"
    using assms(4,5) by (auto simp: runConfigs_def sch_def Let_def split: prod.splits if_splits)
  have "si_cfg it \<in> set configs" if "it \<in> set sch" for it
  proof (cases "single > 0")
    case True
    with that show ?thesis by (auto simp: sch_def)
  next
    case False
    then show ?thesis using that schedule_from_configs [OF assms(3)] by (auto simp: sch_def)
  qed
  with assms(2) have valid: "\<forall>it \<in> set sch. Validate (si_cfg it) = None" by blast
  have finished: "\<forall>it \<in> set sch. completed (si_cfg it) (si_rep it) s'"
    using schedule_completes [OF assms(1) valid, of single seed skip 0] run by simp
  show ?thesis
    using ne assms(4) schedule_all_completed [OF finished, of single seed 0]
    by (simp add: runConfigs_def sch_def Let_def)
qed

end

section \<open>Runs of the program\<close>

text \<open>The state of a batch: the results directory and how many runs were executed; the \<open>k\<close>-th one gets
  the world \<open>worlds k\<close>.\<close>

type_synonym batch_state = "dataset \<times> nat"

definition exec_run :: "(nat \<Rightarrow> 'd run_world) \<Rightarrow> runEnv \<Rightarrow> batch_state exec_fun" where
  "exec_run worlds env cfg rep sched s =
     (case executeRun (worlds (snd s)) cfg rep env sched (fst s) of (res, ds) \<Rightarrow> (res, (ds, Suc (snd s))))"

definition completed_run :: "Run \<Rightarrow> int \<Rightarrow> batch_state \<Rightarrow> bool" where
  "completed_run cfg rep s \<longleftrightarrow> runCompleted cfg rep (listing (fst s))"

definition logs_work :: "(nat \<Rightarrow> 'd run_world) \<Rightarrow> batch_state \<Rightarrow> bool" where
  "logs_work worlds s \<longleftrightarrow> (\<forall>k \<ge> snd s. rw_log_error (worlds k) = None)"

lemma runCompleted_listing:
  "runCompleted cfg rep (listing ds) \<longleftrightarrow> (\<exists>d. map_of ds (runIDFor cfg rep) = Some d \<and> rd_metadata d \<noteq> None)"
  by (auto simp: runCompleted_def map_of_listing split: if_splits)

lemma makeRunDir_base:
  assumes "\<not> runCompleted cfg rep (listing ds)"
  shows "fst (the (makeRunDir cfg rep (listing ds))) = runIDFor cfg rep"
proof -
  have "\<not> taken (listing ds) (runIDFor cfg rep)"
    using assms by (auto simp: taken_def runCompleted_def map_of_listing)
  then show ?thesis by (simp add: makeRunDir_def makeRunDir_loop_step del: makeRunDir_loop.simps)
qed

interpretation runs: executor "exec_run worlds env" completed_run "logs_work worlds" for worlds env
proof
  fix c r s cfg rep sched
  assume "completed_run c r s"
  then show "completed_run c r (snd (exec_run worlds env cfg rep sched s))"
    by (auto simp: completed_run_def exec_run_def runCompleted_listing split: prod.splits
        dest: executeRun_keeps_completed)
next
  fix s cfg rep sched
  assume u: "logs_work worlds s" and v: "Validate cfg = None"
  obtain res ds' where e: "executeRun (worlds (snd s)) cfg rep env sched (fst s) = (res, ds')"
    by (cases "executeRun (worlds (snd s)) cfg rep env sched (fst s)")
  have l: "rw_log_error (worlds (snd s)) = None" using u by (simp add: logs_work_def)
  have "runCompleted cfg rep (listing ds')"
  proof (cases "runCompleted cfg rep (listing (fst s))")
    case True
    then show ?thesis using executeRun_keeps_completed [OF e] by (auto simp: runCompleted_listing)
  next
    case False
    from e show ?thesis
    proof (cases rule: executeRun_cases)
      case (ran runID d')
      with recorded_run_in_dir [of "worlds (snd s)" cfg rep env sched runID "dir_of (fst s) runID"]
        makeRunDir_base [OF False] show ?thesis
        by (auto simp: runCompleted_listing recorded_def map_of_put_dir)
    qed (use v l in auto)
  qed
  then show "completed_run cfg rep (snd (exec_run worlds env cfg rep sched s))"
    by (simp add: completed_run_def exec_run_def e)
next
  fix s cfg rep sched
  assume "logs_work worlds s"
  then show "logs_work worlds (snd (exec_run worlds env cfg rep sched s))"
    by (simp add: logs_work_def exec_run_def split: prod.split)
qed

section \<open>Properties\<close>


text \<open>Every scheduled run is executed or was found completed: the results of a batch and the skipped
  runs add up to its schedule, which runs each configuration as often as it asks for.\<close>

theorem batch_accounts_for_schedule:
  assumes "run_schedule (exec_run worlds env) completed_run 0 seed skip 0
      (buildSchedule newSource draw configs seed) s = (rs, skipped, s')"
    and "draws_in_range draw"
  shows "length rs + skipped = length (buildSchedule newSource draw configs seed)
    \<and> (\<forall>it \<in> set (buildSchedule newSource draw configs seed).
        si_cfg it \<in> set configs \<and> 1 \<le> si_rep it \<and> si_rep it \<le> r_Repetitions (si_cfg it))"
  using runs.schedule_counts [OF assms(1)] schedule_from_configs [OF assms(2)] by blast

definition one_config :: "Run list" where "one_config = [leader_fault\<lparr>r_Repetitions := 1\<rparr>]"

definition first_batch :: "batch_panic + (runResult list \<times> batch_state)" where
  "first_batch = runConfigs nat sample_draw (exec_run (\<lambda>_. good_world) no_env) completed_run one_config 0 1 False 1
     ([], 0)"


theorem batch_accounts_for_schedule_witness:
  "length (buildSchedule nat sample_draw two_protocols 5) = 3
   \<and> (case run_schedule (exec_run (\<lambda>_. good_world) no_env) completed_run 0 5 True 0
        (buildSchedule nat sample_draw two_protocols 5) ([], 0) of (rs, skipped, s) \<Rightarrow> length rs + skipped = 3)"
proof -
  have l: "length (buildSchedule nat sample_draw two_protocols 5) = 3" by code_simp
  have d: "draws_in_range sample_draw" by (simp add: draws_in_range_def sample_draw_def)
  show ?thesis using l batch_accounts_for_schedule [OF _ d, of "\<lambda>_. good_world" no_env 5 True nat two_protocols "([], 0)"]
    by (simp split: prod.split)
qed

text \<open>A family name that no part of the matrix has expands to nothing, the \<^verbatim>\<open>matrix\<close> command accepts
  it, and the batch then panics on the first element of an empty schedule.\<close>

theorem unknown_family_panics:
  assumes "mf_only fl \<notin> {[], ''workload'', ''scaling'', ''conflict'', ''concurrency'', ''failure'', ''election'',
      ''commcost'', ''persistence'', ''conflictvalidation'', ''networkdelay'', ''scalingconc''}"
    and "\<not> mf_rerun fl" and "mf_rerunIDs fl = []" and "\<not> mf_dryRun fl" and "mf_reps fl = 0"
  shows "cmdMatrix fl (Inr spec) = Run_batch [] minRepetitions
    \<and> runConfigs newSource draw exec completed [] 0 seed skip minRepetitions s = Inl Index_out_of_range"
proof
  have "expand_family (mf_only fl) name f sp = []" if "mf_only fl \<noteq> name" for name f and sp :: "'b option"
    using assms(1) that by (simp add: expand_family_def split: option.split)
  then have "expandMatrix spec (mf_only fl) = []"
    using assms(1) by (simp add: expandMatrix_def Let_def expand_family_def split: option.split)
  then show "cmdMatrix fl (Inr spec) = Run_batch [] minRepetitions"
    using assms by (simp add: cmdMatrix_def limit_configs_def)
  show "runConfigs newSource draw exec completed [] 0 seed skip minRepetitions s = Inl Index_out_of_range"
    by (simp add: runConfigs_def under_sampled_def buildSchedule_def group_by_rep_def)
qed

theorem unknown_family_panics_witness:
  "cmdMatrix \<lparr>mf_only = ''persistance'', mf_limit = 0, mf_rerun = False, mf_rerunIDs = [], mf_dryRun = False,
      mf_reps = 0\<rparr> (Inr sample_persistence) = Run_batch [] minRepetitions
   \<and> runConfigs nat sample_draw (exec_run (\<lambda>_. good_world) no_env) completed_run [] 0 1 False minRepetitions ([], 0)
     = Inl Index_out_of_range"
  by (rule unknown_family_panics) simp_all

text \<open>Of two failure conditions that share a run identifier, a batch resumed with
  \<^verbatim>\<open>--skip-existing\<close> executes only the first: the second is taken for completed and never measured.\<close>

theorem colliding_condition_is_skipped:
  "distinct (map r_Concurrency (expand_failure Default failure_cases))
   \<and> map_sum id (\<lambda>(rs, s). (map rr_RunID rs, map fst (fst s)))
       (runConfigs nat sample_draw (exec_run (\<lambda>_. good_world) no_env) completed_run
         (expand_failure Default failure_cases) 1 1 True 10 ([], 0))
     = Inr ([''failure-leader-raft-r3-1''], [''failure-leader-raft-r3-1''])"
proof
  show "distinct (map r_Concurrency (expand_failure Default failure_cases))" by code_simp
  have "case runConfigs nat sample_draw (exec_run (\<lambda>_. good_world) no_env) completed_run
         (expand_failure Default failure_cases) 1 1 True 10 ([], 0) of
      Inl _ \<Rightarrow> False
    | Inr (rs, s) \<Rightarrow> list_all2 (=) (map rr_RunID rs) [''failure-leader-raft-r3-1'']
        \<and> list_all2 (=) (map fst (fst s)) [''failure-leader-raft-r3-1'']" by code_simp
  then show "map_sum id (\<lambda>(rs, s). (map rr_RunID rs, map fst (fst s)))
       (runConfigs nat sample_draw (exec_run (\<lambda>_. good_world) no_env) completed_run
         (expand_failure Default failure_cases) 1 1 True 10 ([], 0))
     = Inr ([''failure-leader-raft-r3-1''], [''failure-leader-raft-r3-1''])"
    by (auto simp: list.rel_eq split: sum.splits prod.splits)
qed

end
