(* ===== verification/Runner_Manifest.thy ===== *)
theory Runner_Manifest
  imports Runner_Batch
begin

text \<open>
  The execution manifest and the replacement of runs (\<^verbatim>\<open>lab/runner/manifest.go\<close>): host anomalies, the
  list of completed runs, the manifest rebuilt from them, which runs must be replaced and what their
  replacements keep. Times are nanoseconds. A number read back from JSON is a \<^verbatim>\<open>float64\<close>
  (\<open>json_int\<close>). \<^verbatim>\<open>strconv.ParseFloat\<close>, \<^verbatim>\<open>fmt "%.1f"\<close> and the number of CPUs are the record
  \<open>host\<close>; \<open>srt\<close> is \<^verbatim>\<open>sort.Slice\<close> by start time, whose order among equal times is left open.
\<close>

section \<open>Small helpers\<close>

definition json_int :: "int \<Rightarrow> int" where
  "json_int v = \<lfloor>f64 (of_int v)\<rfloor>"

fun dedupe_from :: "string set \<Rightarrow> string list \<Rightarrow> string list" where
  "dedupe_from seen [] = []"
| "dedupe_from seen (s # ss) =
     (if s \<in> seen then dedupe_from seen ss else s # dedupe_from (insert s seen) ss)"

definition dedupe :: "string list \<Rightarrow> string list" where
  "dedupe ss = dedupe_from {} ss"

definition joinAnomalies :: "string list \<Rightarrow> string" where
  "joinAnomalies a = join_with ''; '' a"

definition is_space :: "char \<Rightarrow> bool" where
  "is_space c \<longleftrightarrow> c \<in> {CHR '' '', CHR 0x09, CHR 0x0A, CHR 0x0B, CHR 0x0C, CHR 0x0D}"

definition trim_space :: "string \<Rightarrow> string" where
  "trim_space s = rev (dropWhile is_space (rev (dropWhile is_space s)))"

fun split_lines :: "string \<Rightarrow> string list" where
  "split_lines [] = [[]]"
| "split_lines (c # s) =
     (if c = CHR 0x0A then [] # split_lines s
      else case split_lines s of [] \<Rightarrow> [[c]] | l # ls \<Rightarrow> (c # l) # ls)"

text \<open>\<^verbatim>\<open>strings.Cut\<close> at the first tab.\<close>

definition cut_tab :: "string \<Rightarrow> string \<times> string" where
  "cut_tab s = (takeWhile (\<lambda>c. c \<noteq> CHR 0x09) s, drop 1 (dropWhile (\<lambda>c. c \<noteq> CHR 0x09) s))"

section \<open>Host anomalies\<close>

record host =
  ho_cpus :: int
  ho_parse :: "string \<Rightarrow> float64 option"
  ho_fmt1 :: "float64 \<Rightarrow> string"

definition hostPauseThresholdNS :: int where "hostPauseThresholdNS = 5 * 1000000000"

definition hostLoadThreshold :: "host \<Rightarrow> float64" where
  "hostLoadThreshold h = f64 (f64 (9 / 10) * of_int (ho_cpus h))"

text \<open>The loop over the data rows: \<open>first\<close> says whether this is row 0, \<open>prev\<close> is \<^verbatim>\<open>prevTS\<close>.\<close>

fun anomaly_rows :: "host \<Rightarrow> bool \<Rightarrow> int \<Rightarrow> string list list \<Rightarrow> string list" where
  "anomaly_rows h first prev [] = []"
| "anomaly_rows h first prev (row # rows) =
     (case atoi (column row 1) of
        None \<Rightarrow> anomaly_rows h False prev rows
      | Some ts \<Rightarrow>
          (let dt = wrap64 (ts - prev);
               gap = (if first then []
                      else if dt < 0
                      then [''clock_jump: telemetry timestamp went backwards by '' @ itoa (- dt div 1000000) @ ''ms'']
                      else if dt > hostPauseThresholdNS
                      then [''host_pause: telemetry gap of '' @ ho_fmt1 h (f64 (f64 (of_int dt) / 1000000000))
                              @ ''s (host suspended or runner paused)'']
                      else []);
               load = (case ho_parse h (column row 2) of
                         Some l \<Rightarrow> if l > hostLoadThreshold h
                           then [''cpu_starvation: host load1='' @ ho_fmt1 h l @ '' exceeds threshold ''
                                  @ ho_fmt1 h (hostLoadThreshold h)]
                           else []
                       | None \<Rightarrow> [])
           in gap @ load @ anomaly_rows h False ts rows))"

definition detectHostAnomalies :: "host \<Rightarrow> csv_file \<Rightarrow> string list" where
  "detectHostAnomalies h telemetry =
     (case telemetry of
        Table len rows \<Rightarrow> if length rows < 2 then [] else dedupe (anomaly_rows h True 0 (tl rows))
      | _ \<Rightarrow> [])"

section \<open>The manifest\<close>

text \<open>\<^verbatim>\<open>os.ReadDir\<close> returns the entries sorted by name.\<close>

definition entries :: "dataset \<Rightarrow> dataset" where
  "entries ds = sort_key fst ds"

record manifestRun =
  mr_RunID :: string
  mr_BatchID :: string
  mr_RepetitionID :: int
  mr_Condition :: string
  mr_RandomSeed :: int
  mr_BlockID :: int
  mr_SequenceIndex :: int
  mr_StartedAt :: int
  mr_EndedAt :: int
  mr_MeasurementStartedAt :: "int option"
  mr_TeardownCompletedAt :: "int option"
  mr_ExitStatus :: string
  mr_Anomalies :: "string list"

record manifestSummary =
  xs_BatchIDs :: "string list"
  xs_ScheduleSeed :: int
  xs_SuccessfulRuns :: nat
  xs_FailedRuns :: nat
  xs_ContaminatedRuns :: nat
  xs_MinInterRunGapS :: "float64 option"
  xs_MaxInterRunGapS :: "float64 option"
  xs_Overlaps :: "(string \<times> string) list"
  xs_CleanupFailures :: "string list"
  xs_HostAnomalies :: "string list"
  xs_Runs :: "manifestRun list"

definition completedRuns :: "dataset \<Rightarrow> runResult list" where
  "completedRuns ds =
     [\<lparr>rr_RunID = (if md_run_id m = [] then n else md_run_id m), rr_Dir = n, rr_Status = md_status m, rr_Reason = []\<rparr>.
      (n, d) \<leftarrow> entries ds, m \<leftarrow> (case rd_metadata d of None \<Rightarrow> [] | Some m \<Rightarrow> [m])]"

definition positive :: "int \<Rightarrow> int option" where
  "positive t = (if t > 0 then Some t else None)"

definition phaseStartedNS :: "run_dir \<Rightarrow> int" where
  "phaseStartedNS d = (case rd_phase d of None \<Rightarrow> 0 | Some ns \<Rightarrow> ns)"

definition teardownTS :: "run_dir \<Rightarrow> int" where
  "teardownTS d = (case rd_teardown d of None \<Rightarrow> 0 | Some (v, ts) \<Rightarrow> json_int ts)"

definition teardownVerified :: "run_dir \<Rightarrow> bool" where
  "teardownVerified d = (case rd_teardown d of None \<Rightarrow> False | Some (v, ts) \<Rightarrow> v)"

text \<open>The completed run at position \<open>r\<close>; its metadata was read just before, so it is there.\<close>

definition buildManifestRun :: "host \<Rightarrow> dataset \<Rightarrow> runResult \<Rightarrow> manifestRun" where
  "buildManifestRun h ds r =
     (let d = dir_of ds (rr_Dir r); m = the (rd_metadata d);
          pos = md_schedule m
      in \<lparr>mr_RunID = rr_RunID r, mr_BatchID = md_batch_id m, mr_RepetitionID = json_int (md_repetition m),
          mr_Condition = conditionString (md_config m), mr_RandomSeed = json_int (md_seed_used m),
          mr_BlockID = (case pos of None \<Rightarrow> 0 | Some p \<Rightarrow> json_int (sd_block p)),
          mr_SequenceIndex = (case pos of None \<Rightarrow> 0 | Some p \<Rightarrow> json_int (sd_seq p)),
          mr_StartedAt = md_started_at m, mr_EndedAt = md_finished_at m,
          mr_MeasurementStartedAt = positive (phaseStartedNS d),
          mr_TeardownCompletedAt = positive (teardownTS d),
          mr_ExitStatus = rr_Status r, mr_Anomalies = detectHostAnomalies h (rd_telemetry d)\<rparr>)"

definition runStartedAt :: "dataset \<Rightarrow> runResult \<Rightarrow> int" where
  "runStartedAt ds r = md_started_at (the (rd_metadata (dir_of ds (rr_Dir r))))"

text \<open>\<^verbatim>\<open>Duration.Seconds\<close> of a duration that is not negative.\<close>

definition seconds :: "int \<Rightarrow> float64" where
  "seconds d = f64 (of_int (d div 1000000000) + f64 (of_int (d mod 1000000000) / 1000000000))"

definition add_gap :: "float64 \<Rightarrow> manifestSummary \<Rightarrow> manifestSummary" where
  "add_gap gap s = s\<lparr>
     xs_MinInterRunGapS := (case xs_MinInterRunGapS s of None \<Rightarrow> Some gap | Some m \<Rightarrow> Some (if gap < m then gap else m)),
     xs_MaxInterRunGapS := (case xs_MaxInterRunGapS s of None \<Rightarrow> Some gap | Some m \<Rightarrow> Some (if gap > m then gap else m))\<rparr>"

text \<open>One turn of the loop; \<open>prev\<close> is the previous run's identifier and end, if there is one.\<close>

definition manifest_turn ::
  "host \<Rightarrow> dataset \<Rightarrow> runResult \<Rightarrow> manifestSummary \<times> (string \<times> int) option
     \<Rightarrow> manifestSummary \<times> (string \<times> int) option" where
  "manifest_turn h ds r st =
     (case st of (s, prev) \<Rightarrow>
      let mr = buildManifestRun h ds r;
          s1 = s\<lparr>xs_Runs := xs_Runs s @ [mr],
                 xs_SuccessfulRuns := (if mr_ExitStatus mr = ''success'' then Suc (xs_SuccessfulRuns s) else xs_SuccessfulRuns s),
                 xs_FailedRuns := (if mr_ExitStatus mr = ''success'' then xs_FailedRuns s else Suc (xs_FailedRuns s)),
                 xs_BatchIDs := (if mr_BatchID mr \<noteq> [] \<and> mr_BatchID mr \<notin> set (xs_BatchIDs s)
                                 then xs_BatchIDs s @ [mr_BatchID mr] else xs_BatchIDs s)\<rparr>;
          s2 = (if mr_Anomalies mr \<noteq> []
                then s1\<lparr>xs_ContaminatedRuns := Suc (xs_ContaminatedRuns s1),
                        xs_HostAnomalies := xs_HostAnomalies s1 @ [mr_RunID mr @ '': '' @ joinAnomalies (mr_Anomalies mr)]\<rparr>
                else s1);
          s3 = (if teardownVerified (dir_of ds (rr_Dir r)) then s2
                else s2\<lparr>xs_CleanupFailures := xs_CleanupFailures s2 @ [rr_RunID r]\<rparr>);
          s4 = (case prev of
                  None \<Rightarrow> s3
                | Some (prevID, prevEnd) \<Rightarrow>
                    if mr_StartedAt mr < prevEnd
                    then s3\<lparr>xs_Overlaps := xs_Overlaps s3 @ [(mr_RunID mr, prevID)]\<rparr>
                    else add_gap (seconds (mr_StartedAt mr - prevEnd)) s3)
      in (s4, Some (rr_RunID r, mr_EndedAt mr)))"

definition empty_summary :: "int \<Rightarrow> manifestSummary" where
  "empty_summary seed = \<lparr>xs_BatchIDs = [], xs_ScheduleSeed = seed, xs_SuccessfulRuns = 0, xs_FailedRuns = 0,
     xs_ContaminatedRuns = 0, xs_MinInterRunGapS = None, xs_MaxInterRunGapS = None, xs_Overlaps = [],
     xs_CleanupFailures = [], xs_HostAnomalies = [], xs_Runs = []\<rparr>"

definition writeExecutionManifest ::
  "(dataset \<Rightarrow> runResult list \<Rightarrow> runResult list) \<Rightarrow> host \<Rightarrow> dataset \<Rightarrow> int \<Rightarrow> manifestSummary" where
  "writeExecutionManifest srt h ds scheduleSeed =
     fst (fold (manifest_turn h ds) (srt ds (completedRuns ds)) (empty_summary scheduleSeed, None))"

text \<open>What \<^verbatim>\<open>sort.Slice\<close> promises.\<close>

definition sorts_by_start :: "(dataset \<Rightarrow> runResult list \<Rightarrow> runResult list) \<Rightarrow> bool" where
  "sorts_by_start srt \<longleftrightarrow>
     (\<forall>ds rs. mset (srt ds rs) = mset rs \<and> sorted (map (runStartedAt ds) (srt ds rs)))"

section \<open>Replacements\<close>

record replacementPlan =
  rp_id :: string
  rp_cfg :: Run
  rp_rep :: int
  rp_sched :: schedInfo

definition newReplacementPlan :: "string \<Rightarrow> string \<Rightarrow> int \<Rightarrow> metadata \<Rightarrow> replacementPlan" where
  "newReplacementPlan rid reason scheduleSeed m =
     (let fresh = \<lparr>sd_block = 0, sd_seq = 0, sd_seed = scheduleSeed, sd_rerunOf = rid, sd_rerunReason = reason\<rparr>;
          sched = (case md_schedule m of
                     None \<Rightarrow> fresh
                   | Some p \<Rightarrow> fresh\<lparr>sd_block := json_int (sd_block p), sd_seq := json_int (sd_seq p),
                       sd_seed := (if json_int (sd_seed p) \<noteq> 0 then json_int (sd_seed p) else scheduleSeed)\<rparr>)
      in \<lparr>rp_id = rid, rp_cfg = md_config m, rp_rep = json_int (md_repetition m), rp_sched = sched\<rparr>)"

definition dir_entries :: "dataset \<Rightarrow> (string \<times> bool) list" where
  "dir_entries ds = map (\<lambda>(n, d). (n, True)) (entries ds)"

definition replaceable :: "host \<Rightarrow> dataset \<Rightarrow> string \<times> run_dir \<Rightarrow> int \<Rightarrow> replacementPlan option" where
  "replaceable h ds e scheduleSeed =
     (case e of (n, d) \<Rightarrow>
      case rd_metadata d of
        None \<Rightarrow> None
      | Some m \<Rightarrow>
          (let status = md_status m; anomalies = detectHostAnomalies h (rd_telemetry d) in
           if status = ''success'' \<and> anomalies = [] then None
           else if superseded (dir_entries ds) (runIDFor (md_config m) (json_int (md_repetition m))) n then None
           else Some (newReplacementPlan n
             (if status \<noteq> ''success'' then ''failed: '' @ md_failure_reason m
              else ''contaminated: '' @ joinAnomalies anomalies) scheduleSeed m)))"

definition runsToReplace :: "host \<Rightarrow> dataset \<Rightarrow> int \<Rightarrow> replacementPlan list" where
  "runsToReplace h ds scheduleSeed = List.map_filter (\<lambda>e. replaceable h ds e scheduleSeed) (entries ds)"

datatype list_error = Listed_twice nat string | Not_completed nat string

text \<open>The loop over the lines of the list file; \<open>i\<close> is the index of the line.\<close>

fun listed_plans ::
  "string \<Rightarrow> dataset \<Rightarrow> int \<Rightarrow> nat \<Rightarrow> string set \<Rightarrow> string list \<Rightarrow> list_error + replacementPlan list" where
  "listed_plans listName ds seed i seen [] = Inr []"
| "listed_plans listName ds seed i seen (raw # ls) =
     (let line = trim_space raw in
      if line = [] \<or> has_prefix ''#'' line then listed_plans listName ds seed (Suc i) seen ls
      else (case cut_tab line of (rid0, reason0) \<Rightarrow>
        let rid = trim_space rid0; reason = trim_space reason0 in
        if rid = [] then listed_plans listName ds seed (Suc i) seen ls
        else if rid \<in> seen then Inl (Listed_twice (Suc i) rid)
        else (case rd_metadata (dir_of ds rid) of
                None \<Rightarrow> Inl (Not_completed (Suc i) rid)
              | Some m \<Rightarrow>
                  (case listed_plans listName ds seed (Suc i) (insert rid seen) ls of
                     Inl e \<Rightarrow> Inl e
                   | Inr plans \<Rightarrow> Inr (newReplacementPlan rid
                       (if reason = [] then ''listed for replacement by '' @ listName else reason) seed m # plans)))))"

definition runsListedToReplace :: "string \<Rightarrow> string \<Rightarrow> dataset \<Rightarrow> int \<Rightarrow> list_error + replacementPlan list" where
  "runsListedToReplace listName content ds scheduleSeed =
     listed_plans listName ds scheduleSeed 0 {} (split_lines content)"

fun run_plans :: "'s exec_fun \<Rightarrow> replacementPlan list \<Rightarrow> 's \<Rightarrow> runResult list \<times> 's" where
  "run_plans exec [] s = ([], s)"
| "run_plans exec (p # ps) s =
     (case exec (rp_cfg p) (rp_rep p) (Some (rp_sched p)) s of
        (res, s1) \<Rightarrow> (case run_plans exec ps s1 of (rs, s2) \<Rightarrow> (res # rs, s2)))"

section \<open>Facts\<close>

lemma dedupe_from_facts:
  "distinct (dedupe_from seen ss) \<and> set (dedupe_from seen ss) = set ss - seen"
  by (induction seen ss rule: dedupe_from.induct) auto

lemma manifest_turn_simps:
  "xs_Runs (fst (manifest_turn h ds r (s, prev))) = xs_Runs s @ [buildManifestRun h ds r]"
  "xs_SuccessfulRuns (fst (manifest_turn h ds r (s, prev)))
     = xs_SuccessfulRuns s + (if rr_Status r = ''success'' then 1 else 0)"
  "xs_FailedRuns (fst (manifest_turn h ds r (s, prev)))
     = xs_FailedRuns s + (if rr_Status r = ''success'' then 0 else 1)"
  "snd (manifest_turn h ds r (s, prev)) = Some (rr_RunID r, mr_EndedAt (buildManifestRun h ds r))"
  by (simp_all add: manifest_turn_def Let_def add_gap_def buildManifestRun_def split: option.split)

lemma manifest_turn_overlaps:
  "xs_Overlaps (fst (manifest_turn h ds r (s, prev))) = xs_Overlaps s @
     (case prev of None \<Rightarrow> [] | Some (pid, pend) \<Rightarrow>
        if mr_StartedAt (buildManifestRun h ds r) < pend then [(rr_RunID r, pid)] else [])"
  by (simp add: manifest_turn_def Let_def add_gap_def buildManifestRun_def split: option.split)

definition gaps_ordered :: "manifestSummary \<Rightarrow> bool" where
  "gaps_ordered s \<longleftrightarrow>
     (case (xs_MinInterRunGapS s, xs_MaxInterRunGapS s) of
        (None, None) \<Rightarrow> True | (Some a, Some b) \<Rightarrow> a \<le> b | _ \<Rightarrow> False)"

lemma gaps_ordered_add: "gaps_ordered s \<Longrightarrow> gaps_ordered (add_gap g s)"
  by (auto simp: gaps_ordered_def add_gap_def split: option.splits)

lemma gaps_ordered_cong:
  "xs_MinInterRunGapS s = xs_MinInterRunGapS t \<Longrightarrow> xs_MaxInterRunGapS s = xs_MaxInterRunGapS t
    \<Longrightarrow> gaps_ordered t \<Longrightarrow> gaps_ordered s"
  by (simp add: gaps_ordered_def)

lemma manifest_turn_gaps: "gaps_ordered s \<Longrightarrow> gaps_ordered (fst (manifest_turn h ds r (s, prev)))"
  by (auto simp: manifest_turn_def Let_def split: option.split
      intro!: gaps_ordered_add intro: gaps_ordered_cong)

lemma manifest_fold:
  "xs_Runs (fst (fold (manifest_turn h ds) rs (s, prev))) = xs_Runs s @ map (buildManifestRun h ds) rs
   \<and> xs_SuccessfulRuns (fst (fold (manifest_turn h ds) rs (s, prev)))
     = xs_SuccessfulRuns s + length (filter (\<lambda>r. rr_Status r = ''success'') rs)
   \<and> xs_FailedRuns (fst (fold (manifest_turn h ds) rs (s, prev)))
     = xs_FailedRuns s + length (filter (\<lambda>r. rr_Status r \<noteq> ''success'') rs)
   \<and> (gaps_ordered s \<longrightarrow> gaps_ordered (fst (fold (manifest_turn h ds) rs (s, prev))))"
proof (induction rs arbitrary: s prev)
  case Nil
  then show ?case by simp
next
  case (Cons r rs)
  obtain s1 p1 where t: "manifest_turn h ds r (s, prev) = (s1, p1)" by (cases "manifest_turn h ds r (s, prev)")
  with manifest_turn_simps [of h ds r s prev] manifest_turn_gaps [of s h ds r prev]
  have "xs_Runs s1 = xs_Runs s @ [buildManifestRun h ds r]"
    "xs_SuccessfulRuns s1 = xs_SuccessfulRuns s + (if rr_Status r = ''success'' then 1 else 0)"
    "xs_FailedRuns s1 = xs_FailedRuns s + (if rr_Status r = ''success'' then 0 else 1)"
    "gaps_ordered s \<longrightarrow> gaps_ordered s1" by simp_all
  with Cons.IH [of s1 p1] show ?case by (simp add: t)
qed

lemma completedRuns_dirs:
  "map rr_Dir (completedRuns ds) = map fst (filter (\<lambda>(n, d). rd_metadata d \<noteq> None) (entries ds))"
proof -
  have "map rr_Dir (concat (map (\<lambda>(n, d). map (\<lambda>m. \<lparr>rr_RunID = (if md_run_id m = [] then n else md_run_id m),
      rr_Dir = n, rr_Status = md_status m, rr_Reason = []\<rparr>)
      (case rd_metadata d of None \<Rightarrow> [] | Some m \<Rightarrow> [m])) es))
    = map fst (filter (\<lambda>(n, d). rd_metadata d \<noteq> None) es)" for es :: dataset
    by (induction es) (auto split: option.split)
  then show ?thesis by (simp add: completedRuns_def)
qed

lemma json_int_id: "0 \<le> v \<Longrightarrow> v < 2 ^ 53 \<Longrightarrow> json_int v = v"
  using f64_of_nat [of "nat v"] by (simp add: json_int_def)

lemma listed_plans_facts:
  "listed_plans listName ds seed i seen ls = Inr plans
    \<Longrightarrow> distinct (map rp_id plans) \<and> set (map rp_id plans) \<inter> seen = {}
      \<and> (\<forall>p \<in> set plans. rd_metadata (dir_of ds (rp_id p)) \<noteq> None)"
proof (induction listName ds seed i seen ls arbitrary: plans rule: listed_plans.induct)
  case (1 listName ds seed i seen)
  then show ?case by simp
next
  case (2 listName ds seed i seen raw ls)
  have id: "rp_id (newReplacementPlan rid reason s m) = rid" for rid reason s m
    by (simp add: newReplacementPlan_def Let_def)
  show ?case
  proof (cases "trim_space raw = [] \<or> has_prefix ''#'' (trim_space raw)")
    case True
    with 2 show ?thesis by (auto simp: Let_def)
  next
    case False
    obtain a b where c: "cut_tab (trim_space raw) = (a, b)" by (cases "cut_tab (trim_space raw)")
    show ?thesis
    proof (cases "trim_space a = []")
      case True
      with 2(2) [OF refl False c [symmetric] refl refl] 2(4) False c show ?thesis by (simp add: Let_def)
    next
      case False2: False
      with 2(4) False c have seen: "trim_space a \<notin> seen" by (auto simp: Let_def)
      obtain m where m: "rd_metadata (dir_of ds (trim_space a)) = Some m"
        using 2(4) False False2 c seen by (auto simp: Let_def split: option.splits)
      obtain ps where ps: "listed_plans listName ds seed (Suc i) (insert (trim_space a) seen) ls = Inr ps"
        and plans: "rp_id (hd plans) = trim_space a" "tl plans = ps" "plans \<noteq> []"
        using 2(4) False False2 c seen m by (auto simp: Let_def id split: sum.splits)
      note ih = 2(3) [OF refl False c [symmetric] refl refl False2 seen m ps]
      obtain p where "plans = p # ps" using plans by (cases plans) auto
      with ih plans seen m show ?thesis by auto
    qed
  qed
qed

lemma makeRunDir_name:
  obtains k where "fst (the (makeRunDir cfg rep fs)) = attempt_id (runIDFor cfg rep) k" and "1 \<le> k"
    and "\<And>j. 1 \<le> j \<Longrightarrow> j < k \<Longrightarrow> taken fs (attempt_id (runIDFor cfg rep) j)" and "k \<le> Suc (length fs)"
proof -
  obtain nm fs' where r: "makeRunDir cfg rep fs = Some (nm, fs')" using makeRunDir_returns by blast
  have "attempt_id (runIDFor cfg rep) 1 = runIDFor cfg rep" by (simp add: attempt_id_def)
  with r have "makeRunDir_loop (Suc (length fs)) (runIDFor cfg rep) fs
      (attempt_id (runIDFor cfg rep) 1) (Suc 1) = Some (nm, fs')" by (simp add: makeRunDir_def numeral_2_eq_2)
  from makeRunDir_loop_name [OF this] obtain k where k: "1 \<le> k" "nm = attempt_id (runIDFor cfg rep) k"
    and t: "\<And>j. 1 \<le> j \<Longrightarrow> j < k \<Longrightarrow> taken fs (attempt_id (runIDFor cfg rep) j)" by blast
  let ?names = "attempt_id (runIDFor cfg rep) ` {1..<k}"
  have "?names \<subseteq> set (map fst fs)"
  proof
    fix x assume "x \<in> ?names"
    then obtain j where "x = attempt_id (runIDFor cfg rep) j" "taken fs (attempt_id (runIDFor cfg rep) j)"
      using t by auto
    then obtain e where "map_of fs x = Some e" by (auto simp: taken_def)
    then show "x \<in> set (map fst fs)" by (force dest: map_of_SomeD)
  qed
  then have "card ?names \<le> length fs"
    using card_mono [of "set (map fst fs)" ?names] card_length [of "map fst fs"] by simp
  moreover have "card ?names = k - 1"
    using card_image [of "attempt_id (runIDFor cfg rep)" "{1..<k}"] attempt_id_inject
    by (fastforce simp: inj_on_def)
  ultimately have "k \<le> Suc (length fs)" by simp
  with that k t r show thesis by simp
qed

lemma superseded_scan_iff:
  "superseded_scan es prefix own \<longleftrightarrow>
     (\<exists>n k. (n, True) \<in> set es \<and> has_prefix prefix n \<and> atoi (trim_prefix prefix n) = Some k \<and> own < k)"
  by (induction es prefix own rule: superseded_scan.induct) (auto split: option.splits)

lemma attempt_number:
  assumes "2 \<le> k" and "k < 2 ^ 63"
  shows "has_prefix (base @ ''-'') (attempt_id base k)"
    and "atoi (trim_prefix (base @ ''-'') (attempt_id base k)) = Some (int k)"
proof -
  show p: "has_prefix (base @ ''-'') (attempt_id base k)"
    using assms(1) by (simp add: has_prefix_def attempt_id_def)
  have "int k < 2 ^ 63" using assms(2) by (metis of_nat_less_iff of_nat_numeral of_nat_power)
  then show "atoi (trim_prefix (base @ ''-'') (attempt_id base k)) = Some (int k)"
    using p assms(1) by (simp add: trim_prefix_def attempt_id_def atoi_itoa in_int64_def)
qed

lemma attempt_superseded:
  assumes "(attempt_id base k, True) \<in> set es" and "n < k" and "1 \<le> n" and "k < 2 ^ 63"
  shows "superseded es base (attempt_id base n)"
proof -
  have s: "superseded_scan es (base @ ''-'') (int n)"
    unfolding superseded_scan_iff using attempt_number [of k base] assms
    by (intro exI [of _ "attempt_id base k"] exI [of _ "int k"]) auto
  show ?thesis
  proof (cases "n = 1")
    case True
    with s show ?thesis by (simp add: superseded_def attempt_id_def Let_def)
  next
    case False
    with assms have "atoi (trim_prefix (base @ ''-'') (attempt_id base n)) = Some (int n)"
      by (intro attempt_number(2)) auto
    moreover have "attempt_id base n \<noteq> base"
      using False assms(3) attempt_id_inject [of n 1 base] by (auto simp: attempt_id_def)
    ultimately show ?thesis using s by (simp add: superseded_def Let_def)
  qed
qed

lemma dir_entries_put: "(n, True) \<in> set (dir_entries (put_dir n d ds))"
proof -
  have "n \<in> fst ` set (put_dir n d ds)" by (induction n d ds rule: put_dir.induct) auto
  then show ?thesis by (auto simp: dir_entries_def entries_def)
qed

lemma distinct_put_dir: "distinct (map fst ds) \<Longrightarrow> distinct (map fst (put_dir n d ds))"
proof -
  have s: "fst ` set (put_dir n d ds) = insert n (fst ` set ds)" for n d ds
    by (induction n d ds rule: put_dir.induct) auto
  show "distinct (map fst ds) \<Longrightarrow> ?thesis" by (induction n d ds rule: put_dir.induct) (auto simp: s)
qed

section \<open>Properties\<close>

text \<open>C30: The manifest lists every completed run once, in the order the runs started, counts each as
  successful or failed, and its smallest gap between runs is at most its largest.\<close>

theorem manifest_accounts_for_every_run:
  assumes "sorts_by_start srt"
  shows "mset (xs_Runs (writeExecutionManifest srt h ds seed))
      = image_mset (buildManifestRun h ds) (mset (completedRuns ds))
    \<and> sorted (map mr_StartedAt (xs_Runs (writeExecutionManifest srt h ds seed)))
    \<and> xs_SuccessfulRuns (writeExecutionManifest srt h ds seed)
      + xs_FailedRuns (writeExecutionManifest srt h ds seed) = length (completedRuns ds)
    \<and> gaps_ordered (writeExecutionManifest srt h ds seed)"
proof -
  let ?rs = "srt ds (completedRuns ds)"
  have m: "mset ?rs = mset (completedRuns ds)" and s: "sorted (map (runStartedAt ds) ?rs)"
    using assms by (auto simp: sorts_by_start_def)
  have st: "mr_StartedAt (buildManifestRun h ds r) = runStartedAt ds r" for r
    by (simp add: buildManifestRun_def runStartedAt_def Let_def)
  note f = manifest_fold [of h ds ?rs "empty_summary seed" None]
  have "length (filter (\<lambda>r. rr_Status r = ''success'') ?rs) + length (filter (\<lambda>r. rr_Status r \<noteq> ''success'') ?rs)
      = length (completedRuns ds)"
    using sum_length_filter_compl [of "\<lambda>r. rr_Status r = ''success''" ?rs] mset_eq_length [OF m] by simp
  moreover have "gaps_ordered (empty_summary seed)" by (simp add: gaps_ordered_def empty_summary_def)
  ultimately show ?thesis
    using f m s st by (simp add: writeExecutionManifest_def empty_summary_def mset_map comp_def)
qed

text \<open>A replacement keeps its run's place in the experiment: it is recorded with the configuration,
  repetition, block and position of the run it replaces, under the seed that run was scheduled with,
  and names that run.\<close>

theorem replacement_keeps_position:
  assumes "md_schedule m = Some p" and "0 \<le> md_repetition m \<and> md_repetition m < 2 ^ 53"
    and "0 \<le> sd_block p \<and> sd_block p < 2 ^ 53" and "0 \<le> sd_seq p \<and> sd_seq p < 2 ^ 53"
    and "0 < sd_seed p \<and> sd_seed p < 2 ^ 53" and "Validate (md_config m) = None" and "rw_log_error w = None"
    and "run_plans (\<lambda>cfg rep sched ds. executeRun w cfg rep env sched ds) [newReplacementPlan rid reason seed m] ds
      = ([res], ds')"
  shows "\<exists>d m' p'. map_of ds' (rr_RunID res) = Some d \<and> rd_metadata d = Some m' \<and> md_schedule m' = Some p'
    \<and> md_config m' = md_config m \<and> md_repetition m' = md_repetition m
    \<and> sd_block p' = sd_block p \<and> sd_seq p' = sd_seq p \<and> sd_seed p' = sd_seed p
    \<and> sd_rerunOf p' = rid \<and> sd_rerunReason p' = reason"
proof -
  let ?p = "newReplacementPlan rid reason seed m"
  have e: "executeRun w (rp_cfg ?p) (rp_rep ?p) env (Some (rp_sched ?p)) ds = (res, ds')"
    using assms(8) by (auto split: prod.splits)
  have c: "rp_cfg ?p = md_config m" by (simp add: newReplacementPlan_def Let_def)
  from executeRun_records [OF e] assms(6,7) c
  obtain d where "map_of ds' (rr_RunID res) = Some d"
    "rd_metadata d = Some (writeMetadata (rp_cfg ?p) (rp_rep ?p) (rr_RunID res) res (rw_started w) (rw_finished w)
      env (Some (rp_sched ?p)))" by auto
  then show ?thesis
    using assms(1-5) by (auto simp: writeMetadata_def newReplacementPlan_def Let_def json_int_id)
qed


text \<open>A list of runs to replace is carried out only if it names completed runs, each of them once:
  the plans made from it have different identifiers, all of completed runs.\<close>

theorem listed_replacements_distinct:
  assumes "runsListedToReplace listName content ds seed = Inr plans"
  shows "distinct (map rp_id plans) \<and> (\<forall>p \<in> set plans. rd_metadata (dir_of ds (rp_id p)) \<noteq> None)"
  using listed_plans_facts [OF assms [unfolded runsListedToReplace_def]] by simp

section \<open>Witnesses and what the manifest misses\<close>

lemma manifest_turn_min:
  "xs_MinInterRunGapS (fst (manifest_turn h ds r (s, prev))) =
     (case prev of None \<Rightarrow> xs_MinInterRunGapS s
      | Some (pid, pend) \<Rightarrow>
          if mr_StartedAt (buildManifestRun h ds r) < pend then xs_MinInterRunGapS s
          else (let gap = seconds (mr_StartedAt (buildManifestRun h ds r) - pend) in
                case xs_MinInterRunGapS s of None \<Rightarrow> Some gap | Some m \<Rightarrow> Some (if gap < m then gap else m)))"
  by (simp add: manifest_turn_def Let_def add_gap_def split: option.split)

lemma manifest_turn_pair:
  "manifest_turn h ds r (s, prev)
     = (fst (manifest_turn h ds r (s, prev)), Some (rr_RunID r, mr_EndedAt (buildManifestRun h ds r)))"
  using manifest_turn_simps(4) [of h ds r s prev] by (metis prod.collapse)

lemma manifest_three:
  "fst (fold (manifest_turn h ds) [x, y, z] (s, None)) =
     fst (manifest_turn h ds z (fst (manifest_turn h ds y (fst (manifest_turn h ds x (s, None)),
       Some (rr_RunID x, mr_EndedAt (buildManifestRun h ds x)))),
       Some (rr_RunID y, mr_EndedAt (buildManifestRun h ds y))))"
  by (simp, metis manifest_turn_pair)

definition plain_host :: host where
  "plain_host = \<lparr>ho_cpus = 8, ho_parse = \<lambda>_. None, ho_fmt1 = \<lambda>_. []\<rparr>"

definition by_start :: "dataset \<Rightarrow> runResult list \<Rightarrow> runResult list" where
  "by_start ds rs = sort_key (runStartedAt ds) rs"

lemma by_start_sorts: "sorts_by_start by_start"
  by (simp add: sorts_by_start_def by_start_def)

definition lasting :: "string \<Rightarrow> int \<Rightarrow> int \<Rightarrow> string \<times> run_dir" where
  "lasting n started finished =
     (n, empty_dir\<lparr>rd_teardown := Some (True, 1),
        rd_metadata := Some (writeMetadata Default 1 n \<lparr>rr_RunID = n, rr_Dir = n, rr_Status = ''success'', rr_Reason = []\<rparr>
          started finished no_env None)\<rparr>)"

definition three_runs :: dataset where
  "three_runs = [lasting ''a'' 0 100, lasting ''b'' 10 20, lasting ''c'' 50 60]"

text \<open>Overlaps are looked for between neighbours in start order only: a run that starts while an
  earlier, long run is still going is not reported when a short run started and ended in between; the
  manifest even counts the time since the short one as an idle gap.\<close>

theorem overlap_with_earlier_run_missed:
  "map (\<lambda>r. (mr_StartedAt r, mr_EndedAt r)) (xs_Runs (writeExecutionManifest by_start plain_host three_runs 1))
     = [(0, 100), (10, 20), (50, 60)]
   \<and> xs_Overlaps (writeExecutionManifest by_start plain_host three_runs 1) = [(''b'', ''a'')]
   \<and> xs_MinInterRunGapS (writeExecutionManifest by_start plain_host three_runs 1) = Some (seconds 30)"
proof -
  let ?res = "\<lambda>n. \<lparr>rr_RunID = n, rr_Dir = n, rr_Status = ''success'', rr_Reason = []\<rparr>"
  have "list_all2 (=) (by_start three_runs (completedRuns three_runs)) [?res ''a'', ?res ''b'', ?res ''c'']" by code_simp
  then have l: "by_start three_runs (completedRuns three_runs) = [?res ''a'', ?res ''b'', ?res ''c'']"
    unfolding list.rel_eq .
  define a b c where abc: "a = buildManifestRun plain_host three_runs (?res ''a'')"
    "b = buildManifestRun plain_host three_runs (?res ''b'')" "c = buildManifestRun plain_host three_runs (?res ''c'')"
  have ts: "mr_StartedAt a = 0" "mr_EndedAt a = 100" "mr_StartedAt b = 10" "mr_EndedAt b = 20"
    "mr_StartedAt c = 50" "mr_EndedAt c = 60"
    by (simp_all add: abc buildManifestRun_def Let_def dir_of_def three_runs_def lasting_def writeMetadata_def)
  show ?thesis
    unfolding writeExecutionManifest_def l manifest_three
    using ts by (simp add: manifest_turn_overlaps manifest_turn_min manifest_turn_simps empty_summary_def Let_def
        abc [symmetric])
qed

definition failed_dataset :: dataset where
  "failed_dataset = snd (executeRun silent_client_world leader_fault 1 no_env
     (Some \<lparr>sd_block = 1, sd_seq = 7, sd_seed = 5, sd_rerunOf = [], sd_rerunReason = []\<rparr>) [])"

definition failed_metadata :: metadata where
  "failed_metadata = the (rd_metadata (dir_of failed_dataset ''failure-leader-raft-r3-1''))"

text \<open>A failed run is listed for replacement; if the runner is killed during the replacement, the
  directory it left, which holds no metadata, hides the failed run from the next replacement batch, and
  the matrix, which looks at the first attempt, takes the run for completed as well.\<close>

theorem abandoned_replacement_hides_run:
  "map rp_id (runsToReplace plain_host failed_dataset 5) = [''failure-leader-raft-r3-1'']
   \<and> runsToReplace plain_host (failed_dataset @ [(''failure-leader-raft-r3-1-2'', empty_dir)]) 5 = []
   \<and> runCompleted leader_fault 1 (listing (failed_dataset @ [(''failure-leader-raft-r3-1-2'', empty_dir)]))"
proof (intro conjI)
  have "list_all2 (=) (map rp_id (runsToReplace plain_host failed_dataset 5)) [''failure-leader-raft-r3-1'']" by code_simp
  then show "map rp_id (runsToReplace plain_host failed_dataset 5) = [''failure-leader-raft-r3-1'']"
    unfolding list.rel_eq .
  show "runsToReplace plain_host (failed_dataset @ [(''failure-leader-raft-r3-1-2'', empty_dir)]) 5 = []" by code_simp
  show "runCompleted leader_fault 1 (listing (failed_dataset @ [(''failure-leader-raft-r3-1-2'', empty_dir)]))"
    by code_simp
qed

theorem manifest_accounts_for_every_run_witness:
  "length (xs_Runs (writeExecutionManifest by_start plain_host three_runs 1)) = 3
   \<and> gaps_ordered (writeExecutionManifest by_start plain_host three_runs 1)"
proof -
  have "length (completedRuns three_runs) = 3" by code_simp
  with manifest_accounts_for_every_run [OF by_start_sorts, of plain_host three_runs 1]
  show ?thesis by (metis size_image_mset size_mset)
qed

definition replacement_of_failed :: "runResult \<times> dataset" where
  "replacement_of_failed = executeRun good_world (md_config failed_metadata) (md_repetition failed_metadata) no_env
     (Some (rp_sched (newReplacementPlan ''failure-leader-raft-r3-1'' ''failed'' 9 failed_metadata))) failed_dataset"

lemma failed_metadata_facts:
  "md_schedule failed_metadata
     = Some \<lparr>sd_block = 1, sd_seq = 7, sd_seed = 5, sd_rerunOf = [], sd_rerunReason = []\<rparr>"
  "md_config failed_metadata = leader_fault" "md_repetition failed_metadata = 1"
  by code_simp+

theorem replacement_keeps_position_witness:
  "\<exists>d m p. map_of (snd replacement_of_failed) (rr_RunID (fst replacement_of_failed)) = Some d
     \<and> rd_metadata d = Some m \<and> md_schedule m = Some p \<and> sd_block p = 1 \<and> sd_seq p = 7 \<and> sd_seed p = 5
     \<and> sd_rerunOf p = ''failure-leader-raft-r3-1''"
proof -
  let ?p = "newReplacementPlan ''failure-leader-raft-r3-1'' ''failed'' 9 failed_metadata"
  obtain res ds' where r: "replacement_of_failed = (res, ds')" by (cases replacement_of_failed)
  have "rp_cfg ?p = md_config failed_metadata" "rp_rep ?p = md_repetition failed_metadata"
    by (simp_all add: newReplacementPlan_def Let_def failed_metadata_facts json_int_id)
  with r have run: "run_plans (\<lambda>cfg rep sched ds. executeRun good_world cfg rep no_env sched ds) [?p] failed_dataset
      = ([res], ds')" by (simp add: replacement_of_failed_def)
  have v: "Validate (md_config failed_metadata) = None" by (simp add: failed_metadata_facts leader_fault_valid)
  have l: "rw_log_error good_world = None" by (simp add: good_world_def)
  from replacement_keeps_position [OF failed_metadata_facts(1) _ _ _ _ v l run]
  show ?thesis unfolding r fst_conv snd_conv by (auto simp: failed_metadata_facts(3))
qed


theorem listed_replacements_distinct_witness:
  "\<exists>plans. runsListedToReplace ''stalled.txt'' ''failure-leader-raft-r3-1'' failed_dataset 5 = Inr plans
     \<and> map rp_id plans = [''failure-leader-raft-r3-1''] \<and> distinct (map rp_id plans)"
proof -
  have "list_all2 (=) (case runsListedToReplace ''stalled.txt'' ''failure-leader-raft-r3-1'' failed_dataset 5 of
      Inl _ \<Rightarrow> [] | Inr plans \<Rightarrow> map rp_id plans) [''failure-leader-raft-r3-1'']" by code_simp
  then obtain plans where
    p: "runsListedToReplace ''stalled.txt'' ''failure-leader-raft-r3-1'' failed_dataset 5 = Inr plans"
    "map rp_id plans = [''failure-leader-raft-r3-1'']"
    by (auto simp: list.rel_eq split: sum.splits)
  with listed_replacements_distinct [OF p(1)] show ?thesis by (intro exI [of _ plans]) simp
qed

end
