(* ===== verification/Runner_Notes.thy ===== *)
theory Runner_Notes
  imports Runner_Run Runner_Compose
begin

text \<open>
  What the metadata of a run says about itself (\<^verbatim>\<open>persistenceClass\<close> and \<^verbatim>\<open>notes\<close>
  in \<^verbatim>\<open>lab/runner/run.go\<close>), compared with the command line the replicas were started with. Of the prose
  the first clauses are kept; whether the text about the state places it on disk is a flag. \<open>fmt\<close> prints a \<^verbatim>\<open>float64\<close> (\<^verbatim>\<open>%v\<close>).
\<close>

record persistence_class =
  pc_mode :: string
  pc_is_variable :: bool
  pc_offered :: "string list"
  pc_mechanism :: string
  pc_kept_on_disk :: bool

definition persistenceClass :: "Run \<Rightarrow> persistence_class" where
  "persistenceClass cfg =
     (let impl = Impl cfg; mode = Persist cfg; durable = (mode = PersistDurable);
          class = (\<lambda>mechanism survives. \<lparr>pc_mode = mode, pc_is_variable = (r_PersistenceMode cfg \<noteq> []),
            pc_offered = PersistModes impl, pc_mechanism = mechanism, pc_kept_on_disk = survives\<rparr>)
      in if impl = ImplHashicorp
         then (if durable then class ''raft-boltdb NewBoltStore + NewFileSnapshotStore'' True
               else class ''raft.NewInmemStore + raft.NewInmemSnapshotStore'' False)
         else if impl = ImplEtcd \<or> impl = ImplEtcdCore
         then (if durable then class ''adapter write-ahead log'' True
               else class ''go.etcd.io/raft/v3 core with raft.NewMemoryStorage only'' False)
         else if impl = ImplOriginal
         then (if durable then class ''upstream efficient/epaxos server -durable'' True
               else class ''upstream efficient/epaxos in-memory replica'' False)
         else if impl = ImplNVB
         then class ''upstream nvb/epaxos epaxos.NewMemoryStorage'' False
         else class [] False)"

definition run_notes :: "(float64 \<Rightarrow> string) \<Rightarrow> Run \<Rightarrow> string list" where
  "run_notes fmt cfg =
     (let common =
        [''all containers share one image ('' @ imageTag @ '') and the same CPU/memory allocation'',
         ''replica cpus='' @ fmt (r_ReplicaCPUs cfg) @ '' mem='' @ itoa (r_ReplicaMemMB cfg)
           @ ''MB; client cpus='' @ fmt (r_ClientCPUs cfg) @ '' mem='' @ itoa (r_ClientMemMB cfg)
           @ ''MB; master cpus='' @ fmt (r_MasterCPUs cfg) @ '' mem='' @ itoa (r_MasterMemMB cfg) @ ''MB'',
         ''GOMAXPROCS='' @ itoa (r_GOMAXPROCS cfg) @ '' for every replica in both protocols'',
         ''reads (GET) are routed through consensus in both protocols'']
      in if r_Protocol cfg = ''raft''
         then common @
           [''Raft: github.com/hashicorp/raft v1.7.3 performs all consensus'',
            ''Raft: client requests are sent to the leader reported by raft.Raft.Leader() via the raft master'',
            ''Raft: heartbeat='' @ itoa (r_RaftHeartbeatMS cfg) @ ''ms election='' @ itoa (r_RaftElectionMS cfg)
              @ ''ms snapshot_threshold='' @ itoa (r_RaftSnapshotThr cfg) @ '' trailing_logs=''
              @ itoa (r_RaftTrailingLogs cfg),
            ''Raft: '' @ (if Persist cfg = PersistMemory then ''state is held in raft.NewInmemStore only''
                        else ''state is persisted to a per-replica boltdb volume'')]
         else common @
           [''EPaxos: upstream efficient/epaxos server is used unchanged (-e -exec -dreply)'',
            ''EPaxos: client requests are spread round-robin across replicas (leaderless)'',
            ''EPaxos: upstream master is used unchanged'',
            ''EPaxos: '' @ (if Persist cfg = PersistDurable
                          then ''replica state is logged to a per-replica stable-store file and fsynced''
                          else ''replica state is in memory'')])"

lemma accepted_implementation:
  assumes "Validate cfg = None"
  shows "r_Protocol cfg = ''raft'' \<and> Impl cfg \<in> {ImplHashicorp, ImplEtcd, ImplEtcdCore}
    \<or> r_Protocol cfg = ''epaxos'' \<and> Impl cfg \<in> {ImplOriginal, ImplNVB}"
  using Validate_Impl [OF assms]
  by (auto simp: ImplSupported_def impl_defs split: if_splits)

text \<open>The metadata of a run claims that state is kept on disk exactly when the replicas were started
  with a store that keeps it, and it names the mode the configuration asks for.\<close>

theorem persistence_class_is_true:
  assumes "Validate cfg = None" and "buildComposeModel absPath dir cfg runID = Inr m"
  shows "pc_mode (persistenceClass cfg) = Persist cfg
    \<and> list_all (\<lambda>cmd. keeps_state cmd = pc_kept_on_disk (persistenceClass cfg)) (cm_ReplicaCmds m)"
proof -
  have "pc_kept_on_disk (persistenceClass cfg) = (Persist cfg = PersistDurable)"
    using accepted_implementation [OF assms(1)] Validate_Persist [OF assms(1)]
    by (auto simp: persistenceClass_def PersistSupported_def Let_def PersistDurable_def PersistMemory_def impl_defs)
  moreover have "pc_mode (persistenceClass cfg) = Persist cfg" by (simp add: persistenceClass_def Let_def)
  ultimately show ?thesis using replicas_follow_persistence [OF assms] by simp
qed

theorem persistence_class_is_true_witness:
  "\<exists>m. buildComposeModel Inr ''/r'' Default ''x'' = Inr m
     \<and> list_all (\<lambda>cmd. keeps_state cmd = pc_kept_on_disk (persistenceClass Default)) (cm_ReplicaCmds m)"
proof -
  have v: "Validate Default = None" by code_simp
  obtain m where m: "buildComposeModel Inr ''/r'' Default ''x'' = Inr m"
    using buildComposeModel_Inr by blast
  from persistence_class_is_true [OF v m] m show ?thesis by blast
qed

text \<open>The replicas of the second implementation of a protocol run their own adapter, and the notes of such a
  run name the other implementation's library: etcd Raft is described as \<^verbatim>\<open>hashicorp/raft\<close>, the second
  EPaxos as the original server.\<close>

theorem notes_name_wrong_library:
  assumes "buildComposeModel absPath dir cfg runID = Inr m"
  shows "(Impl cfg = ImplEtcd \<and> r_Protocol cfg = ''raft'' \<longrightarrow>
      list_all (\<lambda>cmd. hd cmd = ''etcdraftadapter'') (cm_ReplicaCmds m)
      \<and> ''Raft: github.com/hashicorp/raft v1.7.3 performs all consensus'' \<in> set (run_notes fmt cfg))
    \<and> (Impl cfg = ImplNVB \<and> r_Protocol cfg = ''epaxos'' \<longrightarrow>
      list_all (\<lambda>cmd. hd cmd = ''nvbepaxos-server'') (cm_ReplicaCmds m)
      \<and> ''EPaxos: upstream efficient/epaxos server is used unchanged (-e -exec -dreply)'' \<in> set (run_notes fmt cfg))"
proof -
  have c: "cm_ReplicaCmds m = map (\<lambda>c. c @ delay_flags cfg) (snd (snd (implementation_cmds cfg)))"
    using assms by (auto simp: buildComposeModel_def split: sum.splits prod.splits)
  have d: "distinct [ImplHashicorp, ImplEtcd, ImplEtcdCore, ImplOriginal, ImplNVB]" by (simp add: impl_defs)
  have e: "hd (etcd_cmd cfg dur h @ ds) = ''etcdraftadapter''" "hd (nvb_cmd cfg h @ ds) = ''nvbepaxos-server''"
    for dur h ds by (simp_all add: etcd_cmd_def nvb_cmd_def)
  show ?thesis
    using d by (auto simp: c implementation_cmds_def Let_def list_all_iff e run_notes_def)
qed

theorem notes_name_wrong_library_witness:
  "\<exists>m. buildComposeModel Inr ''/r'' (Default\<lparr>r_Implementation := ImplEtcd\<rparr>) ''x'' = Inr m
     \<and> ''Raft: github.com/hashicorp/raft v1.7.3 performs all consensus''
       \<in> set (run_notes (\<lambda>_. []) (Default\<lparr>r_Implementation := ImplEtcd\<rparr>))"
proof -
  let ?cfg = "Default\<lparr>r_Implementation := ImplEtcd\<rparr>"
  have f: "Impl ?cfg = ImplEtcd" "r_Protocol ?cfg = ''raft''" by code_simp+
  obtain m where m: "buildComposeModel Inr ''/r'' ?cfg ''x'' = Inr m"
    using buildComposeModel_Inr by blast
  from notes_name_wrong_library [OF m, of "\<lambda>_. []"] f m show ?thesis by blast
qed

end
