(* ===== verification/Lab_Correctness.thy ===== *)
theory Lab_Correctness
  imports Lab_Client Lab_Config "HOL-Library.AList"
begin

text \<open>
  The correctness harness (\<^verbatim>\<open>lab/runner/correctness.go\<close>): the table of tests, reading the client's
  request file back, the choice of the replica to kill, the collection of every replica's final state,
  and the verdict.

  Environment as parameters, in the order the code meets it: whether the compose project renders and
  comes up, the answers of the master to each poll, the result of waiting for the client's container,
  the records the CSV reader delivers, and the answers of the replicas to each round of
  \<^verbatim>\<open>GetState\<close> calls (a round is \<open>None\<close> for a replica that cannot be dialled or answers with an error).
  A polling loop is bounded by a deadline; the list of its answers ends where the deadline passes. A Go
  map that is iterated is an association list, so a run fixes one of the orders Go may choose. A failure
  message is a value of \<open>failure\<close> with the numbers the message prints.
\<close>

section \<open>Tests and results\<close>

record correctnessTest =
  t_Protocol :: string
  t_Impl :: string
  t_Scenario :: string
  t_Concurrency :: int
  t_Requests :: int
  t_KillAfter :: int
  t_KillRole :: string
  t_Restart :: bool

datatype failure =
    Compose_render string | Compose_up string | Master_unreachable string
  | Not_registered | No_leader | Client_failed string | Reading_requests string
  | Applied_too_few string int int | Duplicate_application string int int
  | State_mismatch string int int int | States_differ string string int int int
  | No_quorum nat | Raft_not_recovered nat | No_success_after_fault

record correctnessResult =
  r_Pass :: bool
  r_Failures :: "failure list"
  r_Applied :: "(string \<times> int) list"

definition fault_free :: "string \<Rightarrow> string \<Rightarrow> string \<Rightarrow> int \<Rightarrow> int \<Rightarrow> correctnessTest" where
  "fault_free protocol impl scenario concurrency requests =
     \<lparr>t_Protocol = protocol, t_Impl = impl, t_Scenario = scenario, t_Concurrency = concurrency,
      t_Requests = requests, t_KillAfter = 0, t_KillRole = '''', t_Restart = False\<rparr>"

definition fault_test :: "string \<Rightarrow> string \<Rightarrow> string \<Rightarrow> string \<Rightarrow> int \<Rightarrow> correctnessTest" where
  "fault_test protocol impl scenario role requests =
     \<lparr>t_Protocol = protocol, t_Impl = impl, t_Scenario = scenario, t_Concurrency = 8,
      t_Requests = requests, t_KillAfter = requests div 2, t_KillRole = role, t_Restart = True\<rparr>"

definition implementations :: "(string \<times> string) list" where
  "implementations =
     [(''raft'', ''hashicorp''), (''raft'', ''etcd''), (''epaxos'', ''original''), (''epaxos'', ''nvb'')]"

text \<open>The \<^verbatim>\<open>tests\<close> table of \<^verbatim>\<open>cmdCorrectness\<close> for a non-negative number of requests.\<close>

definition correctness_tests :: "int \<Rightarrow> correctnessTest list" where
  "correctness_tests requests =
     map (\<lambda>(p, i). fault_free p i ''sequential'' 1 requests) implementations
     @ map (\<lambda>(p, i). fault_free p i ''concurrency-8'' 8 requests) implementations
     @ map (\<lambda>(p, i). fault_free p i ''concurrency-32'' 32 requests) implementations
     @ [fault_test ''raft'' ''hashicorp'' ''follower-failure'' ''follower'' requests,
        fault_test ''raft'' ''etcd'' ''follower-failure'' ''follower'' requests,
        fault_test ''raft'' ''hashicorp'' ''leader-failure'' ''leader'' requests,
        fault_test ''raft'' ''etcd'' ''leader-failure'' ''leader'' requests,
        fault_test ''epaxos'' ''original'' ''replica-failure'' ''replica'' requests,
        fault_test ''epaxos'' ''nvb'' ''replica-failure'' ''replica'' requests]"

section \<open>Reading the request file\<close>

text \<open>\<open>csv_reads n\<close> is what successive \<^verbatim>\<open>csv.Reader.Read\<close> calls deliver of the records in the file: a
  record with another number of fields than the first is an error, and the reader's user stops there.\<close>

fun csv_reads :: "nat \<Rightarrow> string list list \<Rightarrow> (string + string list) list" where
  "csv_reads n [] = []"
| "csv_reads n (rec # recs) =
     (if length rec = n then Inr rec # csv_reads n recs else [Inl ''wrong number of fields''])"

type_synonym csv_row = "string \<rightharpoonup> string"

fun row_map :: "string list \<Rightarrow> string list \<Rightarrow> csv_row" where
  "row_map (h # hs) (f # fs) = (\<lambda>k. case row_map hs fs k of Some v \<Rightarrow> Some v | None \<Rightarrow> if k = h then Some f else None)"
| "row_map _ _ = Map.empty"

fun read_rows :: "string list \<Rightarrow> (string + string list) list \<Rightarrow> string + csv_row list" where
  "read_rows header [] = Inr []"
| "read_rows header (Inl e # rs) = Inl e"
| "read_rows header (Inr rec # rs) =
     (case read_rows header rs of Inl e \<Rightarrow> Inl e | Inr rows \<Rightarrow> Inr (row_map header rec # rows))"

text \<open>The file is \<open>None\<close> when it cannot be opened.\<close>

definition readCSV :: "string list list option \<Rightarrow> string + csv_row list" where
  "readCSV file =
     (case file of
        None \<Rightarrow> Inl ''open''
      | Some [] \<Rightarrow> Inl ''EOF''
      | Some (header # recs) \<Rightarrow> read_rows header (csv_reads (length header) recs))"

definition csvRows :: "string list list option \<Rightarrow> int" where
  "csvRows file =
     (case file of
        None \<Rightarrow> 0
      | Some recs \<Rightarrow>
          int (length (filter (\<lambda>x. case x of Inr _ \<Rightarrow> True | Inl _ \<Rightarrow> False)
            (case recs of [] \<Rightarrow> [] | r # _ \<Rightarrow> csv_reads (length r) recs))) - 1)"

definition field :: "csv_row \<Rightarrow> string \<Rightarrow> string" where
  "field row h = (case row h of None \<Rightarrow> '''' | Some v \<Rightarrow> v)"

text \<open>\<^verbatim>\<open>fmt.Sscanf(s, "%d", &v)\<close>: leading spaces, an optional sign, the longest run of digits; the
  variable keeps its zero when there is no digit, on a newline before the number, or out of range.\<close>

definition scan_space :: "char \<Rightarrow> bool" where
  "scan_space c \<longleftrightarrow> c \<in> {CHR '' '', CHR 0x09, CHR 0x0B, CHR 0x0C, CHR 0x0D}"

definition atoi64 :: "string \<Rightarrow> int" where
  "atoi64 s =
     (let s1 = dropWhile scan_space s;
          (sign, rest) = (case s1 of
             [] \<Rightarrow> ('''', [])
           | c # cs \<Rightarrow> if c = CHR ''-'' \<or> c = CHR ''+'' then ([c], cs) else ('''', s1));
          digits = takeWhile (\<lambda>c. char_digit c \<noteq> None) rest
      in case atoi (sign @ digits) of None \<Rightarrow> 0 | Some v \<Rightarrow> v)"

section \<open>Waiting for the cluster\<close>

text \<open>An answer of the master to \<^verbatim>\<open>GetReplicaList\<close>: \<open>Ready\<close> and the length of the list.\<close>

fun waitReplicas :: "int \<Rightarrow> (bool \<times> nat) option list \<Rightarrow> bool" where
  "waitReplicas n [] = False"
| "waitReplicas n (a # as) =
     (case a of
        Some (ready, len) \<Rightarrow> if ready \<and> int len = n then True else waitReplicas n as
      | None \<Rightarrow> waitReplicas n as)"

text \<open>The master's answer to \<^verbatim>\<open>GetLeader\<close>; \<open>None\<close> for an error or no answer within two seconds.\<close>

definition masterLeader :: "int option \<Rightarrow> int" where
  "masterLeader a = (case a of Some l \<Rightarrow> l | None \<Rightarrow> - 1)"

fun waitLeader :: "int option list \<Rightarrow> bool" where
  "waitLeader [] = False"
| "waitLeader (a # as) = (if masterLeader a \<ge> 0 then True else waitLeader as)"

section \<open>Fault injection\<close>

datatype docker = Kill string | Start string

definition kill_target :: "correctnessTest \<Rightarrow> int \<Rightarrow> int option \<Rightarrow> string" where
  "kill_target t replicas answer =
     (if t_Protocol t = ''raft'' \<and> t_KillRole t = ''leader''
      then ''replica'' @ itoa (masterLeader answer)
      else if t_Protocol t = ''raft'' \<and> t_KillRole t = ''follower''
      then (let leader = masterLeader answer in ''replica'' @ itoa ((leader + 1) mod replicas))
      else ''replica0'')"

definition fault_actions :: "correctnessTest \<Rightarrow> int \<Rightarrow> int option \<Rightarrow> docker list" where
  "fault_actions t replicas answer =
     (if t_KillAfter t > 0
      then (let target = kill_target t replicas answer in
            Kill target # (if t_Restart t then [Start target] else []))
      else [])"

section \<open>Collecting the replicas' states\<close>

type_synonym store = "int \<rightharpoonup> int"

definition store_get :: "store \<Rightarrow> int \<Rightarrow> int" where
  "store_get st k = (case st k of None \<Rightarrow> 0 | Some v \<Rightarrow> v)"

record collected =
  c_caughtUp :: "string list"
  c_states :: "(string \<times> store) list"
  c_applied :: "(string \<times> int) list"

definition store_name :: "nat \<Rightarrow> string" where
  "store_name i = ''replica'' @ itoa (int i)"

text \<open>One \<^verbatim>\<open>GetState\<close> call: whether the replica is done, and what is known afterwards.\<close>

definition poll_replica ::
  "int \<Rightarrow> nat \<Rightarrow> (store \<times> int) option \<Rightarrow> bool \<times> collected \<Rightarrow> bool \<times> collected" where
  "poll_replica expected i answer acc =
     (let (all, c) = acc; name = store_name i in
      if name \<in> set (c_caughtUp c) then (all, c)
      else case answer of
        None \<Rightarrow> (False, c)
      | Some (st, n) \<Rightarrow>
          if n \<ge> expected
          then (all, c\<lparr>c_caughtUp := c_caughtUp c @ [name],
                       c_states := AList.update name st (c_states c),
                       c_applied := AList.update name n (c_applied c)\<rparr>)
          else (False, c))"

definition poll_round ::
  "int \<Rightarrow> int \<Rightarrow> (nat \<Rightarrow> (store \<times> int) option) \<Rightarrow> collected \<Rightarrow> bool \<times> collected" where
  "poll_round replicas expected answers c =
     fold (\<lambda>i. poll_replica expected i (answers i)) [0..<nat replicas] (True, c)"

fun collect :: "int \<Rightarrow> int \<Rightarrow> (nat \<Rightarrow> (store \<times> int) option) list \<Rightarrow> collected \<Rightarrow> collected" where
  "collect replicas expected [] c = c"
| "collect replicas expected (r # rs) c =
     (case poll_round replicas expected r c of
        (all, c') \<Rightarrow> if all then c' else collect replicas expected rs c')"

definition nothing_collected :: collected where
  "nothing_collected = \<lparr>c_caughtUp = [], c_states = [], c_applied = []\<rparr>"

section \<open>The verdict\<close>

definition replied :: "csv_row list \<Rightarrow> csv_row list" where
  "replied rows = filter (\<lambda>r. field r ''ok'' = ''1'') rows"

text \<open>The number of replied requests and the reference: each replied request's key with the value the
  client was told.\<close>

definition reference :: "csv_row list \<Rightarrow> int \<times> (int \<times> int) list" where
  "reference rows =
     fold (\<lambda>r (expected, ref). (expected + 1,
              AList.update (atoi64 (field r ''request_id'')) (atoi64 (field r ''value'')) ref))
       (replied rows) (0, [])"

definition check_applied :: "correctnessTest \<Rightarrow> int \<Rightarrow> (string \<times> int) list \<Rightarrow> failure list" where
  "check_applied t expected applied =
     concat (map (\<lambda>(name, n).
         (if n < expected then [Applied_too_few name n expected] else [])
         @ (if t_KillAfter t = 0 \<and> n > expected then [Duplicate_application name n expected] else []))
       applied)"

definition check_states :: "(int \<times> int) list \<Rightarrow> (string \<times> store) list \<Rightarrow> failure list" where
  "check_states ref states =
     concat (map (\<lambda>(name, st).
         concat (map (\<lambda>(k, v).
             if store_get st k \<noteq> v then [State_mismatch name k (store_get st k) v] else []) ref))
       states)"

fun string_less :: "string \<Rightarrow> string \<Rightarrow> bool" where
  "string_less xs [] = False"
| "string_less [] (y # ys) = True"
| "string_less (x # xs) (y # ys) =
     ((of_char x :: nat) < of_char y \<or> x = y \<and> string_less xs ys)"

definition check_pairs :: "(int \<times> int) list \<Rightarrow> (string \<times> store) list \<Rightarrow> failure list" where
  "check_pairs ref states =
     concat (map (\<lambda>(a, sa). concat (map (\<lambda>(b, sb).
         if string_less a b
         then (case find (\<lambda>(k, _). store_get sa k \<noteq> store_get sb k) ref of
                 None \<Rightarrow> []
               | Some (k, _) \<Rightarrow> [States_differ a b k (store_get sa k) (store_get sb k)])
         else []) states)) states)"

definition check_quorum :: "int \<Rightarrow> string list \<Rightarrow> failure list" where
  "check_quorum replicas caughtUp =
     (if int (length caughtUp) < replicas div 2 + 1 then [No_quorum (length caughtUp)] else [])"

definition check_recovery :: "correctnessTest \<Rightarrow> int \<Rightarrow> string list \<Rightarrow> failure list" where
  "check_recovery t replicas caughtUp =
     (if t_Protocol t = ''raft'' \<and> int (length caughtUp) \<noteq> replicas
      then [Raft_not_recovered (length caughtUp)] else [])"

definition check_after_fault :: "correctnessTest \<Rightarrow> csv_row list \<Rightarrow> failure list" where
  "check_after_fault t rows =
     (if t_KillAfter t > 0
      then (let after = length (filter (\<lambda>r. field r ''ok'' = ''1''
                          \<and> atoi64 (field r ''request_id'') \<ge> t_KillAfter t) rows) in
            if after = 0 then [No_success_after_fault] else [])
      else [])"

record cluster =
  k_render :: "string option"
  k_up :: "string option"
  k_master :: "string option"
  k_registered :: "(bool \<times> nat) option list"
  k_leaders :: "int option list"
  k_fault_leader :: "int option"
  k_client :: "string option"
  k_requests :: "string list list option"
  k_states :: "(nat \<Rightarrow> (store \<times> int) option) list"

definition failed :: "failure \<Rightarrow> correctnessResult" where
  "failed f = \<lparr>r_Pass = False, r_Failures = [f], r_Applied = []\<rparr>"

text \<open>The configuration every test runs with has three replicas (\<^verbatim>\<open>cfg.Replicas = 3\<close>).\<close>

definition correctness_replicas :: int where
  "correctness_replicas = 3"

definition verdict ::
  "correctnessTest \<Rightarrow> int \<Rightarrow> csv_row list \<Rightarrow> (nat \<Rightarrow> (store \<times> int) option) list
     \<Rightarrow> correctnessResult" where
  "verdict t replicas rows rounds =
     (let (expected, ref) = reference rows;
          c = collect replicas expected rounds nothing_collected;
          failures = check_applied t expected (c_applied c)
            @ check_states ref (c_states c)
            @ check_pairs ref (c_states c)
            @ check_quorum replicas (c_caughtUp c)
            @ check_recovery t replicas (c_caughtUp c)
            @ check_after_fault t rows
      in \<lparr>r_Pass = (failures = []), r_Failures = failures, r_Applied = c_applied c\<rparr>)"

definition runCorrectnessTest ::
  "correctnessTest \<Rightarrow> cluster \<Rightarrow> correctnessResult \<times> docker list" where
  "runCorrectnessTest t k =
     (case k_render k of Some e \<Rightarrow> (failed (Compose_render e), [])
      | None \<Rightarrow>
      (case k_up k of Some e \<Rightarrow> (failed (Compose_up e), [])
      | None \<Rightarrow>
      (case k_master k of Some e \<Rightarrow> (failed (Master_unreachable e), [])
      | None \<Rightarrow>
      (if \<not> waitReplicas correctness_replicas (k_registered k) then (failed Not_registered, [])
       else if t_Protocol t = ''raft'' \<and> \<not> waitLeader (k_leaders k) then (failed No_leader, [])
       else
         (let actions = fault_actions t correctness_replicas (k_fault_leader k) in
          case k_client k of Some e \<Rightarrow> (failed (Client_failed e), actions)
          | None \<Rightarrow>
          (case readCSV (k_requests k) of
             Inl e \<Rightarrow> (failed (Reading_requests e), actions)
           | Inr rows \<Rightarrow> (verdict t correctness_replicas rows (k_states k), actions)))))))"

text \<open>The command: the selected tests in the order of the table, and the overall status.\<close>

definition cmdCorrectness ::
  "string \<Rightarrow> int \<Rightarrow> (correctnessTest \<Rightarrow> cluster) \<Rightarrow> (correctnessTest \<times> correctnessResult) list \<times> string" where
  "cmdCorrectness only requests env =
     (let ts = filter (\<lambda>t. \<not> (only \<noteq> '''' \<and> t_Impl t \<noteq> only)) (correctness_tests requests);
          results = map (\<lambda>t. (t, fst (runCorrectnessTest t (env t)))) ts;
          allPass = list_all (\<lambda>(t, r). r_Pass r) results
      in (results, if allPass then ''PASS'' else ''FAIL''))"

section \<open>What is collected\<close>

lemma fst_AList_update: "map fst (AList.update k v xs) = (if k \<in> fst ` set xs then map fst xs else map fst xs @ [k])"
  by (induction xs) auto

lemma update_new: "k \<notin> fst ` set xs \<Longrightarrow> AList.update k v xs = xs @ [(k, v)]"
  by (induction xs) auto

definition collected_ok ::
  "int \<Rightarrow> int \<Rightarrow> (nat \<Rightarrow> (store \<times> int) option) set \<Rightarrow> collected \<Rightarrow> bool" where
  "collected_ok replicas expected rounds c \<longleftrightarrow>
     distinct (c_caughtUp c)
     \<and> map fst (c_states c) = c_caughtUp c \<and> map fst (c_applied c) = c_caughtUp c
     \<and> (\<forall>j < length (c_caughtUp c). \<exists>i < nat replicas. \<exists>r \<in> rounds.
          c_caughtUp c ! j = store_name i
          \<and> r i = Some (snd (c_states c ! j), snd (c_applied c ! j))
          \<and> expected \<le> snd (c_applied c ! j))"

lemma collected_ok_mono: "collected_ok n e R c \<Longrightarrow> R \<subseteq> R' \<Longrightarrow> collected_ok n e R' c"
  unfolding collected_ok_def by blast

lemma poll_replica_ok:
  assumes ok: "collected_ok n e R (snd acc)" and "r \<in> R" and "i < nat n"
  shows "collected_ok n e R (snd (poll_replica e i (r i) acc))"
proof -
  obtain all c where acc: "acc = (all, c)" by fastforce
  show ?thesis
  proof (cases "store_name i \<in> set (c_caughtUp c) \<or> r i = None \<or> \<not> e \<le> snd (the (r i))")
    case True
    with ok acc show ?thesis by (auto simp: poll_replica_def Let_def split: option.split)
  next
    case False
    then obtain st a where a: "r i = Some (st, a)" "e \<le> a" and new: "store_name i \<notin> set (c_caughtUp c)"
      by auto
    have fs: "map fst (c_states c) = c_caughtUp c" "map fst (c_applied c) = c_caughtUp c"
      using ok acc by (simp_all add: collected_ok_def)
    then have ls: "length (c_states c) = length (c_caughtUp c)" "length (c_applied c) = length (c_caughtUp c)"
      by (metis length_map)+
    have "store_name i \<notin> fst ` set (c_states c)" "store_name i \<notin> fst ` set (c_applied c)"
      using new fs by (metis set_map)+
    then have up: "snd (poll_replica e i (r i) acc) =
        c\<lparr>c_caughtUp := c_caughtUp c @ [store_name i],
          c_states := c_states c @ [(store_name i, st)],
          c_applied := c_applied c @ [(store_name i, a)]\<rparr>"
      using new a by (simp add: poll_replica_def acc update_new Let_def)
    show ?thesis
      unfolding up using ok acc new a assms (2,3) ls
      by (auto simp: collected_ok_def nth_append less_Suc_eq)
  qed
qed

lemma poll_round_ok:
  assumes "collected_ok n e R c" and "r \<in> R"
  shows "collected_ok n e R (snd (poll_round n e r c))"
proof -
  have "collected_ok n e R (snd (fold (\<lambda>i. poll_replica e i (r i)) xs acc))"
    if "\<forall>i \<in> set xs. i < nat n" "collected_ok n e R (snd acc)" for xs acc
    using that
  proof (induction xs arbitrary: acc)
    case (Cons i xs)
    then show ?case using poll_replica_ok [of n e R acc r i] assms (2) by simp
  qed simp
  then show ?thesis using assms (1) by (simp add: poll_round_def)
qed

lemma collect_ok: "collected_ok n e R c \<Longrightarrow> set rounds \<subseteq> R \<Longrightarrow> collected_ok n e R (collect n e rounds c)"
proof (induction rounds arbitrary: c)
  case (Cons r rs)
  obtain all c' where c': "poll_round n e r c = (all, c')" by fastforce
  with poll_round_ok [of n e R c r] Cons.prems have "collected_ok n e R c'" by simp
  with Cons c' show ?case by simp
qed simp

lemma nothing_collected_ok: "collected_ok n e R nothing_collected"
  by (simp add: collected_ok_def nothing_collected_def)

lemmas collected = collect_ok [OF nothing_collected_ok order_refl]

text \<open>The replicas that are caught up, with the answer that made them so.\<close>

lemma collected_ok_states:
  assumes "collected_ok n e R c" and "(name, st) \<in> set (c_states c)"
  obtains i r a where "i < nat n" "r \<in> R" "name = store_name i" "r i = Some (st, a)" "e \<le> a"
    "(name, a) \<in> set (c_applied c)"
proof -
  obtain j where j: "j < length (c_states c)" "c_states c ! j = (name, st)"
    using assms (2) by (metis in_set_conv_nth)
  have fs: "map fst (c_states c) = c_caughtUp c" "map fst (c_applied c) = c_caughtUp c"
    using assms (1) by (simp_all add: collected_ok_def)
  then have l: "length (c_states c) = length (c_caughtUp c)" "length (c_applied c) = length (c_caughtUp c)"
    by (metis length_map)+
  have "fst (c_states c ! j) = c_caughtUp c ! j" "fst (c_applied c ! j) = c_caughtUp c ! j"
    using fs j l by (metis nth_map)+
  then have n: "c_caughtUp c ! j = name" "fst (c_applied c ! j) = name" using j by simp_all
  obtain i r where "i < nat n" "r \<in> R" "c_caughtUp c ! j = store_name i"
    "r i = Some (st, snd (c_applied c ! j))" "e \<le> snd (c_applied c ! j)"
    using assms (1) j l unfolding collected_ok_def by (metis snd_conv)
  with that n j l show ?thesis by (metis nth_mem prod.collapse)
qed

lemma collected_ok_lengths:
  "collected_ok n e R c \<Longrightarrow>
     length (c_states c) = length (c_caughtUp c) \<and> length (c_applied c) = length (c_caughtUp c)"
  unfolding collected_ok_def by (metis length_map)

lemma store_name_inject [simp]: "store_name i = store_name j \<longleftrightarrow> i = j"
  by (simp add: store_name_def)

text \<open>The indices of the replicas that are caught up.\<close>

definition caught_up :: "collected \<Rightarrow> nat set" where
  "caught_up c = {i. store_name i \<in> set (c_caughtUp c)}"

lemma caught_up_card:
  assumes "collected_ok n e R c"
  shows "caught_up c \<subseteq> {0..<nat n}" and "card (caught_up c) = length (c_caughtUp c)"
proof -
  have each: "\<exists>i < nat n. x = store_name i" if "x \<in> set (c_caughtUp c)" for x
    using assms that unfolding collected_ok_def by (metis in_set_conv_nth)
  then show "caught_up c \<subseteq> {0..<nat n}" by (auto simp: caught_up_def dest: each)
  have "set (c_caughtUp c) = store_name ` caught_up c"
    using each by (auto simp: caught_up_def)
  moreover have "inj_on store_name (caught_up c)" by (simp add: inj_on_def)
  ultimately have "card (set (c_caughtUp c)) = card (caught_up c)" by (simp add: card_image)
  moreover have "distinct (c_caughtUp c)" using assms by (simp add: collected_ok_def)
  ultimately show "card (caught_up c) = length (c_caughtUp c)" by (simp add: distinct_card)
qed

lemma caught_up_state:
  assumes "collected_ok n e R c" and "i \<in> caught_up c"
  obtains r st a where "r \<in> R" "r i = Some (st, a)" "e \<le> a" "(store_name i, st) \<in> set (c_states c)"
    "(store_name i, a) \<in> set (c_applied c)"
proof -
  have "map fst (c_states c) = c_caughtUp c" using assms (1) by (simp add: collected_ok_def)
  then have "store_name i \<in> fst ` set (c_states c)"
    using assms (2) by (simp add: caught_up_def) (metis set_map)
  then obtain st where st: "(store_name i, st) \<in> set (c_states c)" by auto
  from collected_ok_states [OF assms (1) st] that st show ?thesis by (metis store_name_inject)
qed

section \<open>The reference\<close>

lemma reference_fold:
  "fold (\<lambda>r (n, ref). (n + 1, AList.update (f r) (g r) ref)) rs (m, ref0) =
     (m + int (length rs), fold (\<lambda>r ref. AList.update (f r) (g r) ref) rs ref0)"
  by (induction rs arbitrary: m ref0) auto

lemma map_of_fold_update:
  "map_of (fold (\<lambda>r ref. AList.update (f r) (g r) ref) rs ref0) =
     (map_of ref0) ++ map_of (rev (map (\<lambda>r. (f r, g r)) rs))"
  by (induction rs arbitrary: ref0) (auto simp: update_conv' map_add_assoc)

definition row_id :: "csv_row \<Rightarrow> int" where "row_id r = atoi64 (field r ''request_id'')"

definition row_value :: "csv_row \<Rightarrow> int" where "row_value r = atoi64 (field r ''value'')"

lemma reference_eq:
  "reference rows = (int (length (replied rows)),
     fold (\<lambda>r ref. AList.update (row_id r) (row_value r) ref) (replied rows) [])"
  unfolding reference_def row_id_def [symmetric] row_value_def [symmetric]
  by (simp add: reference_fold [of row_id row_value])

lemma distinct_fold_update:
  "distinct (map fst ref) \<Longrightarrow>
     distinct (map fst (fold (\<lambda>r ref. AList.update (f r) (g r) ref) rs ref))"
  by (induction rs arbitrary: ref) (auto simp: distinct_update)

lemma reference_set:
  "(k, v) \<in> set (snd (reference rows)) \<longleftrightarrow>
     map_of (rev (map (\<lambda>r. (row_id r, row_value r)) (replied rows))) k = Some v"
proof -
  have "distinct (map fst (snd (reference rows)))"
    by (simp add: reference_eq distinct_fold_update)
  then have "(k, v) \<in> set (snd (reference rows)) \<longleftrightarrow> map_of (snd (reference rows)) k = Some v"
    by (simp add: map_of_eq_Some_iff)
  then show ?thesis by (simp add: reference_eq map_of_fold_update)
qed

lemma reference_distinct:
  assumes "distinct (map row_id (replied rows))"
  shows "(k, v) \<in> set (snd (reference rows)) \<longleftrightarrow> (\<exists>r \<in> set (replied rows). k = row_id r \<and> v = row_value r)"
proof -
  have "distinct (map fst (rev (map (\<lambda>r. (row_id r, row_value r)) (replied rows))))"
    using assms by (simp add: rev_map [symmetric] comp_def)
  then show ?thesis by (auto simp: reference_set map_of_eq_Some_iff)
qed

section \<open>The checks\<close>

lemma check_applied_Nil:
  "check_applied t e applied = [] \<longleftrightarrow>
     (\<forall>(name, n) \<in> set applied. e \<le> n \<and> (t_KillAfter t = 0 \<longrightarrow> n = e))"
proof (induction applied)
  case (Cons x xs)
  then show ?case by (cases x) (auto simp: check_applied_def)
qed (simp add: check_applied_def)

lemma check_states_Nil:
  "check_states ref states = [] \<longleftrightarrow> (\<forall>(name, st) \<in> set states. \<forall>(k, v) \<in> set ref. store_get st k = v)"
proof -
  have c: "concat (map (\<lambda>(k, v). if store_get st k \<noteq> v then [State_mismatch name k (store_get st k) v] else []) ref)
      = [] \<longleftrightarrow> (\<forall>(k, v) \<in> set ref. store_get st k = v)" for name st
    by (induction ref) (auto split: if_splits)
  show ?thesis
  proof (induction states)
    case (Cons x xs)
    with c show ?case by (cases x) (simp add: check_states_def)
  qed (simp add: check_states_def)
qed

lemma check_states_member:
  assumes "(name, st) \<in> set states" and "(k, v) \<in> set ref" and "store_get st k \<noteq> v"
  shows "State_mismatch name k (store_get st k) v \<in> set (check_states ref states)"
proof -
  have "State_mismatch name k (store_get st k) v \<in> set (concat (map (\<lambda>(k, v).
      if store_get st k \<noteq> v then [State_mismatch name k (store_get st k) v] else []) ref))"
    using assms (2,3) by (induction ref) auto
  with assms (1) show ?thesis
    unfolding check_states_def by (induction states) auto
qed

lemma in_concat_map: "x \<in> set (concat (map g xs)) \<longleftrightarrow> (\<exists>y \<in> set xs. x \<in> set (g y))"
  by auto

lemma check_pairs_member:
  assumes "f \<in> set (check_pairs ref states)"
  obtains a sa b sb k v where "(a, sa) \<in> set states" "(b, sb) \<in> set states"
    "find (\<lambda>(k, _). store_get sa k \<noteq> store_get sb k) ref = Some (k, v)"
    "f = States_differ a b k (store_get sa k) (store_get sb k)"
proof -
  obtain x where x: "x \<in> set states"
    and fx: "f \<in> set ((\<lambda>(a, sa). concat (map (\<lambda>(b, sb).
         if string_less a b
         then (case find (\<lambda>(k, _). store_get sa k \<noteq> store_get sb k) ref of
                 None \<Rightarrow> []
               | Some (k, _) \<Rightarrow> [States_differ a b k (store_get sa k) (store_get sb k)])
         else []) states)) x)"
    using assms unfolding check_pairs_def in_concat_map by blast
  obtain a sa where a: "x = (a, sa)" by fastforce
  from fx obtain y where y: "y \<in> set states"
    and fy: "f \<in> set ((\<lambda>(b, sb).
         if string_less a b
         then (case find (\<lambda>(k, _). store_get sa k \<noteq> store_get sb k) ref of
                 None \<Rightarrow> []
               | Some (k, _) \<Rightarrow> [States_differ a b k (store_get sa k) (store_get sb k)])
         else []) y)"
    unfolding a prod.case in_concat_map by blast
  obtain b sb where b: "y = (b, sb)" by fastforce
  have fy': "f \<in> set (case find (\<lambda>(k, _). store_get sa k \<noteq> store_get sb k) ref of
                 None \<Rightarrow> []
               | Some (k, _) \<Rightarrow> [States_differ a b k (store_get sa k) (store_get sb k)])"
  proof (cases "string_less a b")
    case True
    from fy show ?thesis unfolding b prod.case if_P [OF True] .
  next
    case False
    from fy show ?thesis unfolding b prod.case if_not_P [OF False] by simp
  qed
  then obtain k v where kv: "find (\<lambda>(k, _). store_get sa k \<noteq> store_get sb k) ref = Some (k, v)"
    by (cases "find (\<lambda>(k, _). store_get sa k \<noteq> store_get sb k) ref") auto
  with fy' have "f = States_differ a b k (store_get sa k) (store_get sb k)" by simp
  with that [OF _ _ kv] x y a b show ?thesis by simp
qed

lemma check_pairs_redundant:
  assumes "States_differ a b k va vb \<in> set (check_pairs ref states)"
  shows "\<exists>name got v. State_mismatch name k got v \<in> set (check_states ref states)"
proof -
  obtain sa sb v where s: "(a, sa) \<in> set states" "(b, sb) \<in> set states"
    and f: "find (\<lambda>(k, _). store_get sa k \<noteq> store_get sb k) ref = Some (k, v)"
    by (rule check_pairs_member [OF assms]) auto
  from f have kv: "(k, v) \<in> set ref" "store_get sa k \<noteq> store_get sb k"
    by (auto simp: find_Some_iff in_set_conv_nth)
  then consider "store_get sa k \<noteq> v" | "store_get sb k \<noteq> v" by (cases "store_get sa k = v") auto
  then show ?thesis
  proof cases
    case 1
    then show ?thesis using check_states_member [OF s(1) kv(1)] by blast
  next
    case 2
    then show ?thesis using check_states_member [OF s(2) kv(1)] by blast
  qed
qed

lemma check_pairs_Nil: "check_states ref states = [] \<Longrightarrow> check_pairs ref states = []"
proof (rule ccontr)
  assume n: "check_states ref states = []" and "check_pairs ref states \<noteq> []"
  then obtain f where f: "f \<in> set (check_pairs ref states)" by (cases "check_pairs ref states") auto
  then obtain a b k va vb where "f = States_differ a b k va vb"
    by (rule check_pairs_member) auto
  with check_pairs_redundant f n show False by fastforce
qed

lemma check_after_fault_Nil:
  "check_after_fault t rows = [] \<longleftrightarrow>
     (0 < t_KillAfter t \<longrightarrow> (\<exists>r \<in> set (replied rows). t_KillAfter t \<le> row_id r))"
  by (auto simp: check_after_fault_def Let_def replied_def row_id_def filter_empty_conv)

lemma collected_applied_ge:
  assumes ok: "collected_ok n e R c" and m: "(name, a) \<in> set (c_applied c)"
  shows "e \<le> a"
proof -
  obtain j where j: "j < length (c_applied c)" "c_applied c ! j = (name, a)"
    using m by (auto simp: in_set_conv_nth)
  then have "j < length (c_caughtUp c)" using collected_ok_lengths [OF ok] by simp
  moreover have "\<forall>j < length (c_caughtUp c). e \<le> snd (c_applied c ! j)"
    using ok unfolding collected_ok_def by blast
  ultimately show ?thesis using j(2) by fastforce
qed

text \<open>Which conditions the verdict comes down to.\<close>

lemma verdict_pass:
  assumes c: "c = collect n (int (length (replied rows))) rounds nothing_collected"
  shows "r_Pass (verdict t n rows rounds) \<longleftrightarrow>
    (t_KillAfter t = 0 \<longrightarrow> (\<forall>(name, a) \<in> set (c_applied c). a = int (length (replied rows))))
    \<and> (\<forall>(name, st) \<in> set (c_states c). \<forall>(k, v) \<in> set (snd (reference rows)). store_get st k = v)
    \<and> n div 2 + 1 \<le> int (length (c_caughtUp c))
    \<and> (t_Protocol t = ''raft'' \<longrightarrow> int (length (c_caughtUp c)) = n)
    \<and> (0 < t_KillAfter t \<longrightarrow> (\<exists>r \<in> set (replied rows). t_KillAfter t \<le> row_id r))"
proof -
  let ?e = "int (length (replied rows))"
  have ok: "collected_ok n ?e (set rounds) c" unfolding c by (rule collected)
  note ge = collected_applied_ge [OF ok]
  obtain e ref where ref: "reference rows = (e, ref)" by fastforce
  then have e: "e = ?e" by (simp add: reference_eq)
  have "r_Pass (verdict t n rows rounds) \<longleftrightarrow>
      check_applied t e (c_applied c) = [] \<and> check_states ref (c_states c) = []
      \<and> check_pairs ref (c_states c) = [] \<and> check_quorum n (c_caughtUp c) = []
      \<and> check_recovery t n (c_caughtUp c) = [] \<and> check_after_fault t rows = []"
    by (simp add: verdict_def ref Let_def c e)
  also have "\<dots> \<longleftrightarrow> check_applied t e (c_applied c) = [] \<and> check_states ref (c_states c) = []
      \<and> check_quorum n (c_caughtUp c) = []
      \<and> check_recovery t n (c_caughtUp c) = [] \<and> check_after_fault t rows = []"
    using check_pairs_Nil by blast
  finally have v: "r_Pass (verdict t n rows rounds) \<longleftrightarrow>
      check_applied t e (c_applied c) = [] \<and> check_states ref (c_states c) = []
      \<and> check_quorum n (c_caughtUp c) = []
      \<and> check_recovery t n (c_caughtUp c) = [] \<and> check_after_fault t rows = []" .
  have A: "check_applied t e (c_applied c) = [] \<longleftrightarrow>
      (t_KillAfter t = 0 \<longrightarrow> (\<forall>(name, a) \<in> set (c_applied c). a = ?e))"
    unfolding check_applied_Nil e using ge by blast
  have B: "check_quorum n (c_caughtUp c) = [] \<longleftrightarrow> n div 2 + 1 \<le> int (length (c_caughtUp c))"
    by (simp add: check_quorum_def not_less)
  have C: "check_recovery t n (c_caughtUp c) = [] \<longleftrightarrow>
      (t_Protocol t = ''raft'' \<longrightarrow> int (length (c_caughtUp c)) = n)"
    by (simp add: check_recovery_def)
  show ?thesis
    by (simp only: v A B C check_states_Nil check_after_fault_Nil ref snd_conv)
qed

section \<open>Reading back what the client wrote\<close>

lemma atoi64_itoa:
  assumes "in_int64 i"
  shows "atoi64 (itoa i) = i"
proof -
  have sp: "\<not> scan_space c" if "c \<in> set (itoa i)" for c
  proof -
    have "c = CHR ''-'' \<or> (\<exists>d < 10. c = digit_char d)"
      using that nat_digits_set by (auto simp: itoa_def split: if_splits)
    moreover have "\<not> scan_space (digit_char d)" if "d < 10" for d
    proof
      assume "scan_space (digit_char d)"
      then have "char_digit (digit_char d) = None" by (auto simp: scan_space_def char_digit_def)
      with that show False by simp
    qed
    ultimately show ?thesis by (auto simp: scan_space_def)
  qed
  have dw: "dropWhile scan_space (itoa i) = itoa i"
  proof (cases "itoa i")
    case (Cons c cs)
    with sp [of c] show ?thesis by simp
  qed simp
  have tw: "takeWhile (\<lambda>c. char_digit c \<noteq> None) (nat_digits m) = nat_digits m" for m
    by (rule takeWhile_eq_all_conv [THEN iffD2]) (use nat_digits_set char_digit_digit_char in fastforce)
  show ?thesis
  proof (cases "i < 0")
    case True
    then have e: "itoa i = CHR ''-'' # nat_digits (nat (- i))" by (simp add: itoa_def)
    show ?thesis
      using atoi_itoa [OF assms] unfolding atoi64_def dw unfolding e by (simp add: tw Let_def del: not_None_eq)
  next
    case False
    then have e: "itoa i = nat_digits (nat i)" by (simp add: itoa_def)
    obtain c cs where cs: "nat_digits (nat i) = c # cs"
      using nat_digits_nonempty by (metis list.exhaust)
    then have "c \<noteq> CHR ''-''" "c \<noteq> CHR ''+''"
      using nat_digits_no_dash [of "nat i"] by auto
    then have "(case nat_digits (nat i) of [] \<Rightarrow> ('''', [])
        | c # cs \<Rightarrow> if c = CHR ''-'' \<or> c = CHR ''+'' then ([c], cs) else ('''', nat_digits (nat i)))
      = ('''', nat_digits (nat i))" by (simp add: cs)
    then show ?thesis
      using atoi_itoa [OF assms] unfolding atoi64_def dw unfolding e by (simp add: tw Let_def del: not_None_eq)
  qed
qed

lemma read_rows_all:
  "\<forall>rec \<in> set recs. length rec = n \<Longrightarrow> read_rows h (csv_reads n recs) = Inr (map (row_map h) recs)"
  by (induction recs) auto

definition client_row :: "config \<Rightarrow> reqRecord \<Rightarrow> csv_row" where
  "client_row cfg q = row_map csv_header (csv_fields cfg q)"

lemma readCSV_writeCSV: "readCSV (Some (writeCSV cfg rs)) = Inr (map (client_row cfg) rs)"
proof -
  have "length (csv_fields cfg q) = length csv_header" for q by (simp add: csv_fields_def csv_header_def)
  then show ?thesis
    by (simp add: readCSV_def writeCSV_def read_rows_all client_row_def [abs_def] comp_def)
qed

lemma client_row_fields:
  "field (client_row cfg q) ''ok'' = boolStr (q_ok q)"
  "field (client_row cfg q) ''request_id'' = itoa (q_requestID q)"
  "field (client_row cfg q) ''value'' = itoa (q_value q)"
  by (simp_all add: client_row_def csv_header_def csv_fields_def field_def)

lemma replied_client_rows: "replied (map (client_row cfg) rs) = map (client_row cfg) (filter q_ok rs)"
  by (induction rs) (auto simp: replied_def client_row_fields boolStr_def)

lemma client_row_values:
  "in_int64 (q_requestID q) \<Longrightarrow> row_id (client_row cfg q) = q_requestID q"
  "in_int64 (q_value q) \<Longrightarrow> row_value (client_row cfg q) = q_value q"
  by (simp_all add: row_id_def row_value_def client_row_fields atoi64_itoa)

section \<open>A round in which every replica answers\<close>

lemma poll_round_all:
  assumes "\<And>i. i < 3 \<Longrightarrow> answers i = Some (st i, a i) \<and> e \<le> a i"
  shows "poll_round 3 e answers nothing_collected = (True,
    \<lparr>c_caughtUp = map store_name [0, 1, 2], c_states = map (\<lambda>i. (store_name i, st i)) [0, 1, 2],
     c_applied = map (\<lambda>i. (store_name i, a i)) [0, 1, 2]\<rparr>)"
proof -
  have l: "[0..<nat 3] = [0, 1, 2]" by (simp add: upt_rec numeral_eq_Suc)
  have "answers 0 = Some (st 0, a 0)" "answers 1 = Some (st 1, a 1)" "answers 2 = Some (st 2, a 2)"
    "e \<le> a 0" "e \<le> a 1" "e \<le> a 2" using assms by auto
  then show ?thesis
    unfolding poll_round_def l by (simp add: poll_replica_def nothing_collected_def update_new Let_def)
qed

lemma collect_all:
  assumes "\<And>i. i < 3 \<Longrightarrow> answers i = Some (st i, a i) \<and> e \<le> a i"
  shows "collect 3 e (answers # rounds) nothing_collected =
    \<lparr>c_caughtUp = map store_name [0, 1, 2], c_states = map (\<lambda>i. (store_name i, st i)) [0, 1, 2],
     c_applied = map (\<lambda>i. (store_name i, a i)) [0, 1, 2]\<rparr>"
  by (simp add: poll_round_all [OF assms] del: list.map)

text \<open>The cluster comes up, registers, elects a leader, and the client finishes.\<close>

definition cluster_ran :: "cluster \<Rightarrow> bool" where
  "cluster_ran k \<longleftrightarrow> k_render k = None \<and> k_up k = None \<and> k_master k = None
     \<and> waitReplicas correctness_replicas (k_registered k) \<and> waitLeader (k_leaders k) \<and> k_client k = None"

lemma cluster_ran_result:
  assumes "cluster_ran k" and "readCSV (k_requests k) = Inr rows"
  shows "fst (runCorrectnessTest t k) = verdict t correctness_replicas rows (k_states k)"
    and "snd (runCorrectnessTest t k) = fault_actions t correctness_replicas (k_fault_leader k)"
  using assms by (simp_all add: cluster_ran_def runCorrectnessTest_def Let_def)

lemma healthy_passes:
  assumes "cluster_ran k" and "readCSV (k_requests k) = Inr rows"
    and "k_states k = answers # rounds"
    and "\<And>i. i < 3 \<Longrightarrow> answers i = Some (st i, a i) \<and> int (length (replied rows)) \<le> a i"
    and "\<And>i. i < 3 \<Longrightarrow> t_KillAfter t = 0 \<Longrightarrow> a i = int (length (replied rows))"
    and "\<And>i key v. i < 3 \<Longrightarrow> (key, v) \<in> set (snd (reference rows)) \<Longrightarrow> store_get (st i) key = v"
    and "0 < t_KillAfter t \<Longrightarrow> \<exists>r \<in> set (replied rows). t_KillAfter t \<le> row_id r"
  shows "r_Pass (fst (runCorrectnessTest t k))"
proof -
  define c where "c = collect 3 (int (length (replied rows))) (k_states k) nothing_collected"
  then have c: "c = \<lparr>c_caughtUp = map store_name [0, 1, 2],
      c_states = map (\<lambda>i. (store_name i, st i)) [0, 1, 2],
      c_applied = map (\<lambda>i. (store_name i, a i)) [0, 1, 2]\<rparr>"
    using collect_all [OF assms(4), where rounds = rounds] by (simp add: assms(3) del: list.map)
  have "r_Pass (verdict t 3 rows (k_states k))"
    unfolding verdict_pass [OF c_def] using assms(5-7) by (auto simp: c)
  then show ?thesis by (simp add: cluster_ran_result [OF assms(1,2)] correctness_replicas_def)
qed

section \<open>Properties\<close>

lemma passed_run:
  assumes "r_Pass (fst (runCorrectnessTest t k))"
  obtains rows where "readCSV (k_requests k) = Inr rows"
    and "r_Pass (verdict t correctness_replicas rows (k_states k))"
  using assms
  by (auto simp: runCorrectnessTest_def failed_def Let_def split: option.splits if_splits sum.splits)

text \<open>When a test passes, a majority of the three replicas (all three for Raft) answered the harness
  with a state in which every replied request's key has the value the client was told, having applied at
  least as many commands as there were replies, and exactly as many when no replica was killed; and a
  test with a fault saw a reply to a request issued after the fault.\<close>

lemma passed_test_rows:
  assumes "r_Pass (fst (runCorrectnessTest t k))" and "readCSV (k_requests k) = Inr rows"
    and "distinct (map row_id (replied rows))"
  shows "\<exists>S \<subseteq> {0..<3}. 2 \<le> card S \<and> (t_Protocol t = ''raft'' \<longrightarrow> S = {0..<3})
    \<and> (\<forall>i \<in> S. \<exists>round \<in> set (k_states k). \<exists>st a. round i = Some (st, a)
        \<and> int (length (replied rows)) \<le> a
        \<and> (t_KillAfter t = 0 \<longrightarrow> a = int (length (replied rows)))
        \<and> (\<forall>r \<in> set (replied rows). store_get st (row_id r) = row_value r))
    \<and> (0 < t_KillAfter t \<longrightarrow> (\<exists>r \<in> set (replied rows). t_KillAfter t \<le> row_id r))"
proof -
  let ?e = "int (length (replied rows))"
  define c where "c = collect 3 ?e (k_states k) nothing_collected"
  have ok: "collected_ok 3 ?e (set (k_states k)) c" unfolding c_def by (rule collected)
  have "r_Pass (verdict t 3 rows (k_states k))"
    using passed_run [OF assms(1)] assms (2) by (auto simp: correctness_replicas_def)
  then have v: "t_KillAfter t = 0 \<longrightarrow> (\<forall>(name, a) \<in> set (c_applied c). a = ?e)"
    "\<forall>(name, st) \<in> set (c_states c). \<forall>(k, v) \<in> set (snd (reference rows)). store_get st k = v"
    "2 \<le> length (c_caughtUp c)"
    "t_Protocol t = ''raft'' \<longrightarrow> length (c_caughtUp c) = 3"
    "0 < t_KillAfter t \<longrightarrow> (\<exists>r \<in> set (replied rows). t_KillAfter t \<le> row_id r)"
    using verdict_pass [OF c_def, of t] by auto
  let ?S = "caught_up c"
  have sub: "?S \<subseteq> {0..<3}" and card: "card ?S = length (c_caughtUp c)"
    using caught_up_card [OF ok] by simp_all
  have "\<exists>round \<in> set (k_states k). \<exists>st a. round i = Some (st, a) \<and> ?e \<le> a
      \<and> (t_KillAfter t = 0 \<longrightarrow> a = ?e)
      \<and> (\<forall>r \<in> set (replied rows). store_get st (row_id r) = row_value r)" if i: "i \<in> ?S" for i
  proof -
    obtain r st a where r: "r \<in> set (k_states k)" "r i = Some (st, a)" "?e \<le> a"
      "(store_name i, st) \<in> set (c_states c)" "(store_name i, a) \<in> set (c_applied c)"
      by (rule caught_up_state [OF ok i])
    have "store_get st (row_id q) = row_value q" if "q \<in> set (replied rows)" for q
    proof -
      have "(row_id q, row_value q) \<in> set (snd (reference rows))"
        using reference_distinct [OF assms(3)] that by blast
      with bspec [OF v(2) r(4)] show ?thesis by auto
    qed
    moreover have "t_KillAfter t = 0 \<longrightarrow> a = ?e" using v(1) r(5) by auto
    ultimately show ?thesis using r(1-3) by blast
  qed
  moreover have "2 \<le> card ?S" using v(3) card by simp
  moreover have "t_Protocol t = ''raft'' \<longrightarrow> ?S = {0..<3}"
    using v(4) card sub card_subset_eq [of "{0..<3::nat}" ?S] by simp
  ultimately show ?thesis using sub v(5) by blast
qed

text \<open>Two of the harness's checks decide nothing: no verdict ever reports that a replica applied too
  few commands, and none reports that two states differ without also reporting a state that
  differs from the replies.\<close>

theorem checks_that_never_decide:
  assumes "f \<in> set (r_Failures (verdict t replicas rows rounds))"
  shows "f \<noteq> Applied_too_few name n e
    \<and> (f = States_differ a b key va vb \<longrightarrow>
        (\<exists>nm got v. State_mismatch nm key got v \<in> set (r_Failures (verdict t replicas rows rounds))))"
proof -
  define c where "c = collect replicas (int (length (replied rows))) rounds nothing_collected"
  obtain ref where ref: "reference rows = (int (length (replied rows)), ref)"
    by (simp add: reference_eq)
  have ok: "collected_ok replicas (int (length (replied rows))) (set rounds) c"
    unfolding c_def by (rule collected)
  note fs = verdict_def ref Let_def c_def [symmetric]
  have members: "f \<in> set (check_applied t (int (length (replied rows))) (c_applied c))
      \<or> f \<in> set (check_states ref (c_states c)) \<or> f \<in> set (check_pairs ref (c_states c))
      \<or> f \<in> {No_quorum (length (c_caughtUp c)), Raft_not_recovered (length (c_caughtUp c)),
           No_success_after_fault}"
    using assms
    by (auto simp: fs check_quorum_def check_recovery_def check_after_fault_def split: if_splits)
  have no: "Applied_too_few name n e \<notin> set (check_applied t (int (length (replied rows))) (c_applied c))"
    using collected_applied_ge [OF ok] by (fastforce simp: check_applied_def)
  have st: "Applied_too_few name n e \<notin> set (check_states ref (c_states c))"
    "States_differ a b key va vb \<notin> set (check_states ref (c_states c))"
    "States_differ a b key va vb \<notin> set (check_applied t (int (length (replied rows))) (c_applied c))"
    by (auto simp: check_states_def check_applied_def split: if_splits)
  have pr: "Applied_too_few name n e \<notin> set (check_pairs ref (c_states c))"
  proof
    assume "Applied_too_few name n e \<in> set (check_pairs ref (c_states c))"
    then show False by (rule check_pairs_member) auto
  qed
  show ?thesis
  proof (intro conjI impI notI)
    assume "f = Applied_too_few name n e"
    with members no st pr show False by auto
  next
    assume "f = States_differ a b key va vb"
    with members st have "States_differ a b key va vb \<in> set (check_pairs ref (c_states c))" by auto
    from check_pairs_redundant [OF this]
    show "\<exists>nm got v. State_mismatch nm key got v \<in> set (r_Failures (verdict t replicas rows rounds))"
      by (auto simp: fs)
  qed
qed


text \<open>The harness compares the replicas with the values the replies carried and with nothing else: a
  cluster that answers every write with the value 0 and stores nothing at all passes every fault-free
  test, as long as it counts the commands.\<close>

theorem lost_writes_pass:
  assumes "cluster_ran k" and "t_KillAfter t = 0"
    and "k_requests k = Some (writeCSV cfg rs)"
    and "\<forall>q \<in> set rs. q_ok q \<and> q_value q = 0"
    and "k_states k = (\<lambda>i. Some (Map.empty, int (length rs))) # rounds"
  shows "r_Pass (fst (runCorrectnessTest t k))"
proof -
  let ?rows = "map (client_row cfg) rs"
  have rows: "readCSV (k_requests k) = Inr ?rows" by (simp add: assms(3) readCSV_writeCSV)
  have rp: "replied ?rows = ?rows" using assms(4) by (simp add: replied_client_rows)
  have "row_value r = 0" if "r \<in> set (replied ?rows)" for r
    using that assms(4) unfolding rp
    by (auto simp: client_row_values in_int64_def)
  then have z: "v = 0" if "(key, v) \<in> set (snd (reference ?rows))" for key v
    using that map_of_SomeD [of "rev (map (\<lambda>r. (row_id r, row_value r)) (replied ?rows))" key v]
    unfolding reference_set by fastforce
  show ?thesis
    by (rule healthy_passes [OF assms(1) rows assms(5), where st = "\<lambda>_. Map.empty" and a = "\<lambda>_. int (length rs)"])
      (use assms(2) z in \<open>auto simp: rp store_get_def\<close>)
qed

text \<open>The fault tests kill the replica they mean to as long as the master knows a leader: the leader
  itself, or another replica of the three.\<close>

theorem fault_hits_its_role:
  assumes "0 \<le> l" and "l < 3" and "t_Protocol t = ''raft''"
  shows "(t_KillRole t = ''leader'' \<longrightarrow> kill_target t 3 (Some l) = store_name (nat l))
    \<and> (t_KillRole t = ''follower'' \<longrightarrow>
         (\<exists>i < 3. i \<noteq> nat l \<and> kill_target t 3 (Some l) = store_name i))"
proof -
  have "(l + 1) mod 3 \<noteq> l" "0 \<le> (l + 1) mod 3" "(l + 1) mod 3 < 3" using assms by presburger+
  then have "nat ((l + 1) mod 3) < 3" "nat ((l + 1) mod 3) \<noteq> nat l"
    "''replica'' @ itoa ((l + 1) mod 3) = store_name (nat ((l + 1) mod 3))"
    using assms by (auto simp: store_name_def)
  then show ?thesis
    using assms by (auto simp: kill_target_def masterLeader_def store_name_def Let_def)
qed

text \<open>When the master answers the query with no leader, the leader-failure test kills a container that
  does not exist, and a healthy cluster passes it without any fault.\<close>

theorem leader_test_without_fault_passes:
  assumes "cluster_ran k" and "readCSV (k_requests k) = Inr rows"
    and "t = fault_test ''raft'' impl ''leader-failure'' ''leader'' requests" and "1 < requests"
    and "k_fault_leader k = None"
    and "distinct (map row_id (replied rows))"
    and "k_states k = answers # rounds"
    and "\<forall>i < 3. answers i = Some (st i, a i) \<and> int (length (replied rows)) \<le> a i
      \<and> (\<forall>r \<in> set (replied rows). store_get (st i) (row_id r) = row_value r)"
    and "\<exists>r \<in> set (replied rows). requests div 2 \<le> row_id r"
  shows "r_Pass (fst (runCorrectnessTest t k))
    \<and> snd (runCorrectnessTest t k) = [Kill ''replica-1'', Start ''replica-1'']"
proof -
  have k: "t_KillAfter t = requests div 2" "0 < t_KillAfter t" using assms(3,4) by (auto simp: fault_test_def)
  have "itoa (- 1) = ''-1''" by code_simp
  then have "snd (runCorrectnessTest t k) = [Kill ''replica-1'', Start ''replica-1'']"
    using k unfolding cluster_ran_result [OF assms(1,2)]
    by (simp add: assms(3,5) fault_actions_def kill_target_def fault_test_def masterLeader_def Let_def)
  moreover have "r_Pass (fst (runCorrectnessTest t k))"
    by (rule healthy_passes [OF assms(1,2,7), where st = st and a = a])
      (use assms(8,9) k in \<open>auto simp: reference_distinct [OF assms(6)]\<close>)
  ultimately show ?thesis by blast
qed

text \<open>Asking for an implementation the harness does not know runs no test and reports success.\<close>

theorem unknown_implementation_passes:
  assumes "only \<notin> snd ` set implementations" and "only \<noteq> ''''"
  shows "cmdCorrectness only requests env = ([], ''PASS'')"
proof -
  have "t_Impl t \<in> snd ` set implementations" if "t \<in> set (correctness_tests requests)" for t
    using that by (auto simp: correctness_tests_def implementations_def fault_free_def fault_test_def)
  then have "filter (\<lambda>t. \<not> (only \<noteq> '''' \<and> t_Impl t \<noteq> only)) (correctness_tests requests) = []"
    using assms by (auto simp: filter_empty_conv)
  then show ?thesis by (simp add: cmdCorrectness_def)
qed

section \<open>Witnesses\<close>

definition sample_record :: "int \<Rightarrow> int \<Rightarrow> reqRecord" where
  "sample_record i v =
     \<lparr>q_runID = ''r1'', q_protocol = ''raft'', q_replicas = 3, q_readPct = 0, q_writePct = 100,
      q_concurrency = 1, q_conflictPct = 0, q_worker = 0, q_seq = i, q_requestID = i, q_op = ''PUT'',
      q_key = i, q_hot = False, q_target = 0, q_startNS = 10, q_endNS = 20, q_latencyNS = 10, q_ok = True,
      q_errMsg = '''', q_value = v\<rparr>"

definition sample_file :: "int \<Rightarrow> int \<Rightarrow> string list list" where
  "sample_file v w = writeCSV sample_config [sample_record 0 v, sample_record 1 w]"

definition sample_rows :: "int \<Rightarrow> int \<Rightarrow> csv_row list" where
  "sample_rows v w = map (client_row sample_config) [sample_record 0 v, sample_record 1 w]"

lemma sample_file_rows: "readCSV (Some (sample_file v w)) = Inr (sample_rows v w)"
  by (simp add: sample_file_def sample_rows_def readCSV_writeCSV del: list.map)

definition sample_cluster :: "int \<Rightarrow> int \<Rightarrow> (nat \<Rightarrow> (store \<times> int) option) \<Rightarrow> cluster" where
  "sample_cluster v w answers =
     \<lparr>k_render = None, k_up = None, k_master = None, k_registered = [None, Some (True, 3)],
      k_leaders = [None, Some 0], k_fault_leader = None, k_client = None,
      k_requests = Some (sample_file v w), k_states = [answers]\<rparr>"

lemma sample_cluster_simps [simp]:
  "cluster_ran (sample_cluster v w answers)"
  "k_requests (sample_cluster v w answers) = Some (sample_file v w)"
  "k_states (sample_cluster v w answers) = [answers]"
  "k_fault_leader (sample_cluster v w answers) = None"
  by (simp_all add: cluster_ran_def sample_cluster_def correctness_replicas_def masterLeader_def)

lemma sample_replied: "replied (sample_rows v w) = sample_rows v w"
  by (simp add: sample_rows_def replied_client_rows sample_record_def del: list.map)

lemma sample_rows_values:
  assumes "in_int64 v" "in_int64 w"
  shows "map row_id (sample_rows v w) = [0, 1]" "map row_value (sample_rows v w) = [v, w]"
  using assms
  by (simp_all add: sample_rows_def client_row_values sample_record_def in_int64_def)

definition sample_store :: "nat \<Rightarrow> (store \<times> int) option" where
  "sample_store i = Some ([0 \<mapsto> 7, 1 \<mapsto> 8], 2)"

lemma sample_bits: "in_int64 7" "in_int64 8" "length (sample_rows 7 8) = 2"
  by (simp_all add: in_int64_def sample_rows_def)

lemma sample_ids: "map row_id (sample_rows 7 8) = [0, 1]" "map row_value (sample_rows 7 8) = [7, 8]"
  using sample_rows_values sample_bits by blast+

lemma sample_values:
  assumes "r \<in> set (sample_rows 7 8)"
  shows "store_get [0 \<mapsto> 7, 1 \<mapsto> 8] (row_id r) = row_value r"
proof -
  obtain a b where ab: "sample_rows 7 8 = [a, b]" by (simp add: sample_rows_def)
  with sample_ids have "row_id a = 0" "row_id b = 1" "row_value a = 7" "row_value b = 8" by simp_all
  with assms ab show ?thesis by (auto simp: store_get_def)
qed

lemma sample_late: "\<exists>r \<in> set (sample_rows 7 8). 1 \<le> row_id r"
proof -
  obtain a b where ab: "sample_rows 7 8 = [a, b]" by (simp add: sample_rows_def)
  with sample_ids show ?thesis by simp
qed


lemma lost_writes_pass_witness:
  "r_Pass (fst (runCorrectnessTest (fault_free ''raft'' ''etcd'' ''sequential'' 1 2)
     (sample_cluster 0 0 (\<lambda>_. Some (Map.empty, 2)))))"
  by (rule lost_writes_pass [where cfg = sample_config and rs = "[sample_record 0 0, sample_record 1 0]"])
    (simp_all add: fault_free_def sample_file_def sample_record_def)

lemma fault_hits_its_role_witness:
  "kill_target (fault_test ''raft'' ''etcd'' ''leader-failure'' ''leader'' 10) 3 (Some 2) = store_name 2"
  using fault_hits_its_role [of 2 "fault_test ''raft'' ''etcd'' ''leader-failure'' ''leader'' 10"]
  by (simp add: fault_test_def)

lemma leader_test_without_fault_passes_witness:
  "r_Pass (fst (runCorrectnessTest (fault_test ''raft'' ''etcd'' ''leader-failure'' ''leader'' 2)
     (sample_cluster 7 8 sample_store)))"
proof -
  let ?k = "sample_cluster 7 8 sample_store"
  have rows: "readCSV (k_requests ?k) = Inr (sample_rows 7 8)" by (simp add: sample_file_rows)
  show ?thesis
    by (rule conjunct1, rule leader_test_without_fault_passes [OF _ rows refl,
          where answers = sample_store and rounds = "[]"
          and st = "\<lambda>_. [0 \<mapsto> 7, 1 \<mapsto> 8]" and a = "\<lambda>_. 2"])
      (simp_all add: sample_replied sample_ids sample_bits sample_values sample_store_def sample_late)
qed

lemma unknown_implementation_passes_witness:
  "cmdCorrectness ''hashicrop'' 2000 (\<lambda>_. sample_cluster 7 8 sample_store) = ([], ''PASS'')"
  by (rule unknown_implementation_passes) (simp_all add: implementations_def)

definition split_store :: "nat \<Rightarrow> (store \<times> int) option" where
  "split_store i = Some (if i = 0 then Map.empty else [0 \<mapsto> 7, 1 \<mapsto> 8], 2)"

lemma checks_that_never_decide_witness:
  "\<exists>nm got v. State_mismatch nm 0 got v
     \<in> set (r_Failures (verdict (fault_free ''raft'' ''etcd'' ''sequential'' 1 2) 3 (sample_rows 7 8) [split_store]))"
proof -
  have "list_ex (\<lambda>f. f = States_differ ''replica0'' ''replica1'' 0 0 7)
     (r_Failures (verdict (fault_free ''raft'' ''etcd'' ''sequential'' 1 2) 3 (sample_rows 7 8) [split_store]))"
    by code_simp
  then have f: "States_differ ''replica0'' ''replica1'' 0 0 7
     \<in> set (r_Failures (verdict (fault_free ''raft'' ''etcd'' ''sequential'' 1 2) 3 (sample_rows 7 8) [split_store]))"
    by (simp only: list_ex_iff) blast
  show ?thesis using checks_that_never_decide [OF f] by blast
qed

end
