(* ===== verification/Lab_Master.thy ===== *)
theory Lab_Master
  imports Prelude
begin

text \<open>
  The coordination service of the Raft runs (\<^verbatim>\<open>lab/master/raft/main.go\<close>): registration of the
  replicas, the loop that connects to them and watches whether they answer, and the leader it reports.
  Every critical section of the master's lock is one operation on its state. \<^verbatim>\<open>GetLeader\<close> holds the
  lock only around its reads, so the liveness of each node is read at its own moment: \<open>alive_at i\<close> is
  what it finds for node \<open>i\<close>, and \<open>answer i\<close> the reply of the RPC (\<open>None\<close> for an error or a
  timeout). Times are milliseconds.
\<close>

section \<open>State\<close>

record Master =
  m_N :: int
  m_nodeList :: "string list"
  m_addrList :: "string list"
  m_portList :: "int list"
  m_nodes :: "bool list"
  m_alive :: "bool list"
  m_leaderCache :: int
  m_leaderCacheAt :: int

definition newMaster :: "nat \<Rightarrow> int \<Rightarrow> Master" where
  "newMaster n start =
     \<lparr>m_N = int n, m_nodeList = [], m_addrList = [], m_portList = [], m_nodes = replicate n False,
      m_alive = replicate n False, m_leaderCache = - 1, m_leaderCacheAt = start\<rparr>"

section \<open>Registration\<close>

definition addrPort :: "string \<Rightarrow> int \<Rightarrow> string" where
  "addrPort addr port = addr @ '':'' @ itoa port"

fun index_of :: "nat \<Rightarrow> 'a \<Rightarrow> 'a list \<Rightarrow> nat" where
  "index_of i x [] = i"
| "index_of i x (y # ys) = (if x = y then i else index_of (Suc i) x ys)"

record RegisterReply =
  rr_ReplicaId :: nat
  rr_NodeList :: "string list"
  rr_Ready :: bool

definition Register :: "string \<Rightarrow> int \<Rightarrow> Master \<Rightarrow> RegisterReply \<times> Master" where
  "Register addr port m =
     (let nlen = length (m_nodeList m);
          ap = addrPort addr port;
          index = index_of 0 ap (m_nodeList m);
          m1 = (if index = nlen
                then m\<lparr>m_nodeList := m_nodeList m @ [ap], m_addrList := m_addrList m @ [addr],
                       m_portList := m_portList m @ [port]\<rparr>
                else m)
      in if int (length (m_nodeList m1)) = m_N m1
         then (\<lparr>rr_ReplicaId = index, rr_NodeList = m_nodeList m1, rr_Ready = True\<rparr>, m1)
         else (\<lparr>rr_ReplicaId = 0, rr_NodeList = [], rr_Ready = False\<rparr>, m1))"

definition GetReplicaList :: "Master \<Rightarrow> string list \<times> bool" where
  "GetReplicaList m =
     (if int (length (m_nodeList m)) = m_N m then (m_nodeList m, True) else ([], False))"

section \<open>Watching the replicas\<close>

text \<open>The loop of \<^verbatim>\<open>run\<close>: it starts when every replica has registered, dials each replica's admin port
  once, and then pings the connected ones.\<close>

definition run_ready :: "Master \<Rightarrow> bool" where
  "run_ready m \<longleftrightarrow> int (length (m_nodeList m)) = m_N m"

definition admin_address :: "Master \<Rightarrow> nat \<Rightarrow> string" where
  "admin_address m i = (m_addrList m ! i) @ '':'' @ itoa (m_portList m ! i + 1000)"

definition run_dial :: "nat \<Rightarrow> bool \<Rightarrow> Master \<Rightarrow> Master" where
  "run_dial i ok m = (if ok then m\<lparr>m_nodes := (m_nodes m)[i := True]\<rparr> else m)"

definition run_ping :: "nat \<Rightarrow> bool \<Rightarrow> Master \<Rightarrow> Master" where
  "run_ping i ok m = (if m_nodes m ! i then m\<lparr>m_alive := (m_alive m)[i := ok]\<rparr> else m)"

section \<open>The leader\<close>

definition cached_leader :: "int \<Rightarrow> Master \<Rightarrow> int option" where
  "cached_leader now m =
     (if now - m_leaderCacheAt m < 500 \<and> m_leaderCache m \<ge> 0
      then if m_leaderCache m < int (length (m_alive m)) \<and> m_alive m ! nat (m_leaderCache m)
           then Some (m_leaderCache m) else None
      else None)"

text \<open>The number of adapters that named each leader.\<close>

definition count_leaders ::
  "bool list \<Rightarrow> (nat \<Rightarrow> bool) \<Rightarrow> (nat \<Rightarrow> int option) \<Rightarrow> (int \<rightharpoonup> nat)" where
  "count_leaders nodes alive_at answer =
     fold (\<lambda>i counts.
        if \<not> nodes ! i then counts
        else if \<not> alive_at i then counts
        else case answer i of
               Some l \<Rightarrow> if l \<ge> 0 then counts(l \<mapsto> (case counts l of None \<Rightarrow> 0 | Some c \<Rightarrow> c) + 1) else counts
             | None \<Rightarrow> counts)
       [0..<length nodes] Map.empty"

text \<open>The loop over the counts visits the map's keys in an order of Go's choosing: \<open>order\<close>.\<close>

fun best_leader :: "int \<Rightarrow> (int \<rightharpoonup> nat) \<Rightarrow> int list \<Rightarrow> int" where
  "best_leader N counts [] = - 1"
| "best_leader N counts (l # order) =
     (if int (case counts l of None \<Rightarrow> 0 | Some c \<Rightarrow> c) > N div 2 then l else best_leader N counts order)"

definition GetLeader ::
  "int \<Rightarrow> (nat \<Rightarrow> bool) \<Rightarrow> (nat \<Rightarrow> int option) \<Rightarrow> int list \<Rightarrow> int \<Rightarrow> Master \<Rightarrow> int \<times> Master" where
  "GetLeader now alive_at answer order finish m =
     (case cached_leader now m of
        Some l \<Rightarrow> (l, m)
      | None \<Rightarrow>
          (let counts = count_leaders (m_nodes m) alive_at answer;
               best = best_leader (m_N m) counts order
           in (best, m\<lparr>m_leaderCache := best, m_leaderCacheAt := finish\<rparr>)))"

section \<open>Registration facts\<close>

lemma index_of_bounds: "i \<le> index_of i x xs \<and> index_of i x xs \<le> i + length xs"
proof (induction xs arbitrary: i)
  case (Cons y ys)
  from Cons [of "Suc i"] show ?case by auto
qed simp

lemma index_of_notin: "x \<notin> set xs \<Longrightarrow> index_of i x xs = i + length xs"
  by (induction xs arbitrary: i) auto

lemma index_of_in: "x \<in> set xs \<Longrightarrow> index_of i x xs < i + length xs \<and> xs ! (index_of i x xs - i) = x"
proof (induction xs arbitrary: i)
  case (Cons y ys)
  show ?case
  proof (cases "x = y")
    case False
    with Cons.prems Cons.IH [of "Suc i"] index_of_bounds [of "Suc i" x ys] show ?thesis
      by (auto simp: nth_Cons' Suc_diff_le diff_Suc split: nat.splits)
  qed simp
qed simp

lemma index_of_append: "x \<in> set xs \<Longrightarrow> index_of i x (xs @ ys) = index_of i x xs"
  by (induction xs arbitrary: i) auto

lemma index_of_eq_iff: "index_of 0 x xs = length xs \<longleftrightarrow> x \<notin> set xs"
  using index_of_notin [of x xs 0] index_of_in [of x xs 0] by auto

text \<open>An address and a port are determined by their rendering: the port has no colon.\<close>

lemma itoa_no_colon: "CHR '':'' \<notin> set (itoa i)"
proof -
  have "CHR '':'' \<notin> set (nat_digits n)" for n
  proof
    assume "CHR '':'' \<in> set (nat_digits n)"
    then obtain d where d: "d < 10" "CHR '':'' = digit_char d" using nat_digits_set by blast
    then have "char_digit (CHR '':'') = Some d" by simp
    then show False by (simp add: char_digit_def)
  qed
  then show ?thesis by (simp add: itoa_def)
qed

lemma split_last:
  "xs @ c # ys = xs' @ c # ys' \<Longrightarrow> c \<notin> set ys \<Longrightarrow> c \<notin> set ys' \<Longrightarrow> xs = xs' \<and> ys = ys'"
  by (induction xs arbitrary: xs') (auto simp: Cons_eq_append_conv append_eq_Cons_conv)

lemma addrPort_inject: "addrPort a p = addrPort b q \<longleftrightarrow> a = b \<and> p = q"
  using split_last [of a "CHR '':''" "itoa p" b "itoa q"] itoa_no_colon
  by (auto simp: addrPort_def)

text \<open>The three lists describe the same registrations, without repetition.\<close>

definition master_inv :: "Master \<Rightarrow> bool" where
  "master_inv m \<longleftrightarrow>
     distinct (m_nodeList m)
     \<and> map2 addrPort (m_addrList m) (m_portList m) = m_nodeList m
     \<and> length (m_addrList m) = length (m_portList m)
     \<and> length (m_nodes m) = nat (m_N m) \<and> length (m_alive m) = nat (m_N m) \<and> 0 \<le> m_N m"

lemma newMaster_inv: "master_inv (newMaster n start)"
  by (simp add: master_inv_def newMaster_def)

lemma Register_snd:
  "snd (Register addr port m) =
     (if addrPort addr port \<in> set (m_nodeList m) then m
      else m\<lparr>m_nodeList := m_nodeList m @ [addrPort addr port], m_addrList := m_addrList m @ [addr],
             m_portList := m_portList m @ [port]\<rparr>)"
  by (simp add: Register_def Let_def index_of_eq_iff)

lemma Register_inv:
  assumes inv: "master_inv m"
  shows "master_inv (snd (Register addr port m))"
proof (cases "addrPort addr port \<in> set (m_nodeList m)")
  case True
  with inv show ?thesis by (simp add: Register_snd)
next
  case False
  have "length (m_addrList m) = length (m_portList m)" using inv by (simp add: master_inv_def)
  then have "map2 addrPort (m_addrList m @ [addr]) (m_portList m @ [port]) =
      map2 addrPort (m_addrList m) (m_portList m) @ [addrPort addr port]" by simp
  moreover have "distinct (m_nodeList m)" using inv unfolding master_inv_def by blast
  with False have "distinct (m_nodeList m @ [addrPort addr port])" by simp
  ultimately show ?thesis using False inv by (simp add: Register_snd master_inv_def)
qed

lemma Register_nodeList:
  "m_nodeList (snd (Register addr port m)) =
     (if addrPort addr port \<in> set (m_nodeList m) then m_nodeList m
      else m_nodeList m @ [addrPort addr port])"
  by (simp add: Register_snd)

lemma Register_N [simp]: "m_N (snd (Register addr port m)) = m_N m"
  by (simp add: Register_def Let_def)

text \<open>A sequence of registrations, with their replies.\<close>

fun registrations :: "(string \<times> int) list \<Rightarrow> Master \<Rightarrow> RegisterReply list \<times> Master" where
  "registrations [] m = ([], m)"
| "registrations ((addr, port) # rs) m =
     (case Register addr port m of (r, m1) \<Rightarrow>
       (case registrations rs m1 of (replies, m2) \<Rightarrow> (r # replies, m2)))"

lemma registrations_inv: "master_inv m \<Longrightarrow> master_inv (snd (registrations rs m))"
proof (induction rs m rule: registrations.induct)
  case (2 addr port rs m)
  then show ?case using Register_inv [of m addr port] by (auto split: prod.splits)
qed simp

lemma registrations_N [simp]: "m_N (snd (registrations rs m)) = m_N m"
proof (induction rs m rule: registrations.induct)
  case (2 addr port rs m)
  then show ?case using Register_N [of addr port m] by (auto split: prod.splits simp del: Register_N)
qed simp

lemma registrations_nodes:
  "\<exists>new. m_nodeList (snd (registrations rs m)) = m_nodeList m @ new
     \<and> set (m_nodeList m @ new) = set (m_nodeList m) \<union> (\<lambda>(a, p). addrPort a p) ` set rs"
proof (induction rs m rule: registrations.induct)
  case (2 addr port rs m)
  obtain r m1 where r: "Register addr port m = (r, m1)" by fastforce
  from 2 [OF r [symmetric]] obtain new where new: "m_nodeList (snd (registrations rs m1)) = m_nodeList m1 @ new"
    "set (m_nodeList m1 @ new) = set (m_nodeList m1) \<union> (\<lambda>(a, p). addrPort a p) ` set rs" by blast
  have m1: "m_nodeList m1 = (if addrPort addr port \<in> set (m_nodeList m) then m_nodeList m
      else m_nodeList m @ [addrPort addr port])"
    using Register_nodeList [of addr port m] r by simp
  show ?case
  proof (cases "addrPort addr port \<in> set (m_nodeList m)")
    case True
    with new m1 r show ?thesis by (auto split: prod.splits)
  next
    case False
    with new m1 r show ?thesis
      by (intro exI [of _ "addrPort addr port # new"]) (auto split: prod.splits)
  qed
qed simp

lemma registration_facts:
  assumes "master_inv m" and "run_ready m" and "addrPort addr port \<in> set (m_nodeList m)"
  shows "rr_NodeList (fst (Register addr port m)) = m_nodeList m"
    and "m_nodeList m ! rr_ReplicaId (fst (Register addr port m)) = addrPort addr port"
proof -
  have "index_of 0 (addrPort addr port) (m_nodeList m) \<noteq> length (m_nodeList m)"
    using assms (3) by (simp add: index_of_eq_iff)
  then have r: "Register addr port m =
      (\<lparr>rr_ReplicaId = index_of 0 (addrPort addr port) (m_nodeList m), rr_NodeList = m_nodeList m,
        rr_Ready = True\<rparr>, m)"
    using assms (2) by (simp add: Register_def Let_def run_ready_def)
  show "rr_NodeList (fst (Register addr port m)) = m_nodeList m"
    "m_nodeList m ! rr_ReplicaId (fst (Register addr port m)) = addrPort addr port"
    using index_of_in [OF assms(3), of 0] by (simp_all add: r)
qed

section \<open>Leader facts\<close>

text \<open>Which nodes vote for \<open>l\<close> among the first \<open>n\<close>.\<close>

definition votes :: "bool list \<Rightarrow> (nat \<Rightarrow> bool) \<Rightarrow> (nat \<Rightarrow> int option) \<Rightarrow> nat \<Rightarrow> int \<Rightarrow> nat set" where
  "votes nodes alive_at answer n l =
     {i. i < n \<and> nodes ! i \<and> alive_at i \<and> answer i = Some l \<and> 0 \<le> l}"

lemma votes_finite [simp]: "finite (votes nodes alive_at answer n l)"
  by (simp add: votes_def)

lemma votes_Suc:
  "votes nodes alive_at answer (Suc n) l =
     (if nodes ! n \<and> alive_at n \<and> answer n = Some l \<and> 0 \<le> l
      then insert n (votes nodes alive_at answer n l) else votes nodes alive_at answer n l)"
  by (auto simp: votes_def less_Suc_eq)

lemma count_leaders_votes:
  "(case count_leaders nodes alive_at answer l of None \<Rightarrow> 0 | Some c \<Rightarrow> c)
     = card (votes nodes alive_at answer (length nodes) l)"
proof -
  define step where "step = (\<lambda>i (counts :: int \<rightharpoonup> nat).
        if \<not> nodes ! i then counts
        else if \<not> alive_at i then counts
        else case answer i of
               Some l \<Rightarrow> if l \<ge> 0 then counts(l \<mapsto> (case counts l of None \<Rightarrow> 0 | Some c \<Rightarrow> c) + 1) else counts
             | None \<Rightarrow> counts)"
  have "(case fold step [0..<n] Map.empty l of None \<Rightarrow> 0 | Some c \<Rightarrow> c) = card (votes nodes alive_at answer n l)"
    for n
  proof (induction n)
    case 0
    then show ?case by (simp add: votes_def)
  next
    case (Suc n)
    have "n \<notin> votes nodes alive_at answer n l" by (simp add: votes_def)
    with Suc show ?case
      by (auto simp: votes_Suc step_def split: option.splits)
  qed
  then show ?thesis by (simp add: count_leaders_def step_def)
qed

lemma votes_disjoint: "l \<noteq> l' \<Longrightarrow> votes nodes alive_at answer n l \<inter> votes nodes alive_at answer n l' = {}"
  by (auto simp: votes_def)

text \<open>Two leaders cannot both have a majority of the nodes.\<close>

lemma majority_unique:
  assumes "int (card (votes nodes alive_at answer n l)) > int n div 2"
    and "int (card (votes nodes alive_at answer n l')) > int n div 2"
  shows "l = l'"
proof (rule ccontr)
  assume "l \<noteq> l'"
  then have "card (votes nodes alive_at answer n l \<union> votes nodes alive_at answer n l')
      = card (votes nodes alive_at answer n l) + card (votes nodes alive_at answer n l')"
    by (simp add: card_Un_disjoint votes_disjoint)
  moreover have "card (votes nodes alive_at answer n l \<union> votes nodes alive_at answer n l') \<le> card {0..<n}"
    by (rule card_mono) (auto simp: votes_def)
  ultimately show False using assms by simp
qed

lemma best_leader_cases:
  "best_leader N counts order = - 1 \<or>
     (best_leader N counts order \<in> set order
      \<and> int (case counts (best_leader N counts order) of None \<Rightarrow> 0 | Some c \<Rightarrow> c) > N div 2)"
  by (induction order) auto

lemma best_leader_none:
  "(\<forall>l \<in> set order. \<not> int (case counts l of None \<Rightarrow> 0 | Some c \<Rightarrow> c) > N div 2) \<Longrightarrow>
     best_leader N counts order = - 1"
  by (induction order) auto

lemma best_leader_unique:
  assumes "l \<in> set order" and "int (case counts l of None \<Rightarrow> 0 | Some c \<Rightarrow> c) > N div 2"
    and "\<And>l'. int (case counts l' of None \<Rightarrow> 0 | Some c \<Rightarrow> c) > N div 2 \<Longrightarrow> l' = l"
  shows "best_leader N counts order = l"
  using assms (1)
proof (induction order)
  case (Cons x xs)
  show ?case
  proof (cases "int (case counts x of None \<Rightarrow> 0 | Some c \<Rightarrow> c) > N div 2")
    case True
    with assms (3) [OF True] show ?thesis by (simp del: of_nat_eq_iff)
  next
    case False
    with Cons assms(2) show ?thesis by auto
  qed
qed simp

section \<open>Properties\<close>

text \<open>Registration is idempotent and final: once all replicas are registered, every later
  registration of one of them is answered at once with the same complete list and with the position at
  which its own address stands in it.\<close>

theorem registration_is_stable:
  assumes "master_inv m" and "run_ready m" and "addrPort addr port \<in> set (m_nodeList m)"
  shows "snd (Register addr port m) = m
    \<and> rr_Ready (fst (Register addr port m))
    \<and> rr_NodeList (fst (Register addr port m)) = m_nodeList m
    \<and> rr_ReplicaId (fst (Register addr port m)) < length (m_nodeList m)
    \<and> m_nodeList m ! rr_ReplicaId (fst (Register addr port m)) = addrPort addr port"
proof -
  have "index_of 0 (addrPort addr port) (m_nodeList m) \<noteq> length (m_nodeList m)"
    using assms (3) by (simp add: index_of_eq_iff)
  then have r: "Register addr port m =
      (\<lparr>rr_ReplicaId = index_of 0 (addrPort addr port) (m_nodeList m), rr_NodeList = m_nodeList m,
        rr_Ready = True\<rparr>, m)"
    using assms (2) by (simp add: Register_def Let_def run_ready_def)
  then show ?thesis using index_of_in [OF assms(3), of 0] by simp
qed

text \<open>Starting from nothing, whatever the order and however often the replicas repeat their
  registration: if the replicas that register are exactly as many as the master waits for, they all
  have, at the end, the same list of all of them, and two different replicas have different ids.\<close>

theorem registration_assigns_distinct_ids:
  assumes "card (set rs) = n" and "m = snd (registrations rs (newMaster n start))"
    and "(a, p) \<in> set rs" and "(b, q) \<in> set rs"
  shows "run_ready m
    \<and> rr_NodeList (fst (Register a p m)) = rr_NodeList (fst (Register b q m))
    \<and> set (rr_NodeList (fst (Register a p m))) = (\<lambda>(a, p). addrPort a p) ` set rs
    \<and> (rr_ReplicaId (fst (Register a p m)) = rr_ReplicaId (fst (Register b q m)) \<longleftrightarrow> (a, p) = (b, q))"
proof -
  have inv: "master_inv m" using registrations_inv newMaster_inv assms (2) by blast
  have N: "m_N m = int n" using assms (2) by (simp add: newMaster_def)
  have set: "set (m_nodeList m) = (\<lambda>(a, p). addrPort a p) ` set rs"
    using registrations_nodes [of rs "newMaster n start"] assms (2) by (auto simp: newMaster_def)
  have "inj_on (\<lambda>(a, p). addrPort a p) (set rs)" by (auto simp: inj_on_def addrPort_inject)
  then have "card (set (m_nodeList m)) = n" using assms (1) by (simp add: set card_image)
  moreover have "distinct (m_nodeList m)" using inv unfolding master_inv_def by blast
  ultimately have ready: "run_ready m" using N distinct_card [of "m_nodeList m"] by (simp add: run_ready_def)
  have "addrPort a p \<in> set (m_nodeList m)" "addrPort b q \<in> set (m_nodeList m)"
    using assms (3,4) set by auto
  note s = registration_facts [OF inv ready this(1)] registration_facts [OF inv ready this(2)]
  then show ?thesis using ready set by (metis addrPort_inject prod.inject)
qed

text \<open>A replica too many makes the service useless for good: once more addresses have registered
  than the master waits for, no registration is ever answered as ready and no replica list is given out.\<close>

theorem registration_beyond_capacity_blocks:
  assumes "m_N m < int (length (m_nodeList m))"
  shows "m_N (snd (registrations rs m)) < int (length (m_nodeList (snd (registrations rs m))))
    \<and> \<not> rr_Ready (fst (Register addr port (snd (registrations rs m))))
    \<and> GetReplicaList (snd (registrations rs m)) = ([], False)"
proof -
  define m' where "m' = snd (registrations rs m)"
  have big: "m_N m' < int (length (m_nodeList m'))"
    using registrations_nodes [of rs m] assms by (auto simp: m'_def)
  then have "m_N m' < int (length (m_nodeList (snd (Register addr port m'))))"
    by (simp add: Register_nodeList)
  then have "\<not> rr_Ready (fst (Register addr port m'))"
    using Register_N [of addr port m'] by (auto simp: Register_def Let_def split: if_splits)
  with big show ?thesis by (simp add: m'_def [symmetric] GetReplicaList_def)
qed


text \<open>A cached leader is reported only within half a second of the query that found it, and only
  while the replica still answers the master's pings.\<close>

theorem cached_leader_is_alive:
  assumes "master_inv m" and "cached_leader now m = Some l"
  shows "0 \<le> l \<and> l < m_N m \<and> m_alive m ! nat l \<and> now - m_leaderCacheAt m < 500"
  using assms by (auto simp: cached_leader_def master_inv_def split: if_splits)

section \<open>Witnesses\<close>

definition sample_registrations :: "(string \<times> int) list" where
  "sample_registrations = [(''a'', 70), (''b'', 70), (''a'', 70), (''c'', 71)]"

definition sample_master :: Master where
  "sample_master = snd (registrations sample_registrations (newMaster 3 0))"

lemma sample_master_inv: "master_inv sample_master"
  by (simp add: sample_master_def registrations_inv newMaster_inv)

lemma sample_master_nodes: "m_nodeList sample_master = [''a:70'', ''b:70'', ''c:71'']" "run_ready sample_master"
  by code_simp+

lemma addrPort_b: "addrPort ''b'' 70 = ''b:70''"
  by code_simp

lemma registration_is_stable_witness:
  "rr_NodeList (fst (Register ''b'' 70 sample_master)) = [''a:70'', ''b:70'', ''c:71'']"
  using registration_is_stable [OF sample_master_inv sample_master_nodes(2), of "''b''" 70]
  by (simp add: sample_master_nodes addrPort_b)

lemma registration_assigns_distinct_ids_witness:
  "rr_ReplicaId (fst (Register ''a'' 70 sample_master)) \<noteq> rr_ReplicaId (fst (Register ''c'' 71 sample_master))"
proof -
  have "card (set sample_registrations) = 3" by (simp add: sample_registrations_def card_insert_if)
  from registration_assigns_distinct_ids [OF this, where m = sample_master and start = 0
      and a = "''a''" and p = 70 and b = "''c''" and q = 71]
  show ?thesis by (simp add: sample_master_def sample_registrations_def)
qed

definition crowded_master :: Master where
  "crowded_master = snd (registrations [(''a'', 1), (''b'', 1), (''c'', 1)] (newMaster 2 0))"

lemma registration_beyond_capacity_blocks_witness:
  "GetReplicaList (snd (registrations [(''a'', 1), (''d'', 1)] crowded_master)) = ([], False)"
proof -
  have "m_N crowded_master < int (length (m_nodeList crowded_master))" by code_simp
  from registration_beyond_capacity_blocks [OF this] show ?thesis by blast
qed

definition voting_master :: Master where
  "voting_master = run_ping 2 True (run_ping 1 True (run_ping 0 True
     (run_dial 2 True (run_dial 1 True (run_dial 0 True sample_master)))))"

lemma voting_master_inv: "master_inv voting_master"
proof -
  have "master_inv m \<Longrightarrow> master_inv (run_dial i ok m)" for i ok m by (simp add: master_inv_def run_dial_def)
  moreover have "master_inv m \<Longrightarrow> master_inv (run_ping i ok m)" for i ok m
    by (simp add: master_inv_def run_ping_def)
  ultimately show ?thesis by (simp add: voting_master_def sample_master_inv)
qed

definition sample_answer :: "nat \<Rightarrow> int option" where
  "sample_answer i = (if i = 0 then Some 2 else if i = 1 then None else Some 2)"


lemma cached_leader_is_alive_witness:
  "m_alive (snd (GetLeader 1000 (\<lambda>_. True) sample_answer [2] 1001 voting_master)) ! nat 2"
proof -
  let ?m = "snd (GetLeader 1000 (\<lambda>_. True) sample_answer [2] 1001 voting_master)"
  have "master_inv m \<Longrightarrow> master_inv (snd (GetLeader now alive_at answer order finish m))"
    for now alive_at answer order finish m
    by (auto simp: GetLeader_def master_inv_def Let_def split: option.splits)
  then have i: "master_inv ?m" using voting_master_inv by blast
  have c: "cached_leader 1200 ?m = Some 2" by code_simp
  from cached_leader_is_alive [OF i c] show ?thesis by blast
qed

end
