(* ===== verification/Adapter_Pending.thy ===== *)
theory Adapter_Pending
  imports Lab_Proto
begin

text \<open>
  Request tracking, which the adapters around the etcd Raft core and around the EPaxos library share
  (\<^verbatim>\<open>pending\<close> in \<^verbatim>\<open>lab/adapters/etcdraft/main.go\<close> and \<^verbatim>\<open>lab/adapters/nvbepaxos/main.go\<close>): a
  table from request identifiers to the channels of the waiting handlers, the client handler
  \<^verbatim>\<open>handlePropose\<close>, and the loop that applies committed commands and delivers their results.

  The handlers run concurrently with the loop that applies commands; each works on the shared state in
  the atomic steps its mutex and atomic counters give it. The model is the sequence of those steps:
  a handler registers its request and hands the command to the library, a command is applied, a handler
  takes its result, a handler's timer fires. A handler is named by the position of its request.

  The two adapters differ in how an identifier is made from the replica's index and the request's
  number, and in what they hand to the library. These are the parameters of the interface
  \<open>request_ids\<close>, whose lemma says that a client is answered with the result of its own command.
\<close>

section \<open>The table\<close>

record pending =
  pd_m :: "u64 \<rightharpoonup> nat"
  pd_base :: u64
  pd_seq :: u64

definition pending_add :: "u64 \<Rightarrow> nat \<Rightarrow> pending \<Rightarrow> pending" where
  "pending_add reqID ch p = p\<lparr>pd_m := (pd_m p)(reqID \<mapsto> ch)\<rparr>"

definition pending_drop :: "u64 \<Rightarrow> pending \<Rightarrow> pending" where
  "pending_drop reqID p = p\<lparr>pd_m := (pd_m p)(reqID := None)\<rparr>"

text \<open>The channel the value goes to, if a handler still waits.\<close>

definition pending_deliver :: "u64 \<Rightarrow> pending \<Rightarrow> nat option \<times> pending" where
  "pending_deliver reqID p =
     (case pd_m p reqID of
        None \<Rightarrow> (None, p)
      | Some ch \<Rightarrow> (Some ch, p\<lparr>pd_m := (pd_m p)(reqID := None)\<rparr>))"

section \<open>A replica\<close>

text \<open>\<open>rq_ch\<close> is the value in the handler's buffered channel.\<close>

record request =
  rq_prop :: Propose
  rq_id :: u64
  rq_now :: u64
  rq_ch :: "u64 option"
  rq_done :: bool

record 'd replica =
  ad_st :: State
  ad_pend :: pending
  ad_requests :: "request list"
  ad_proposed :: "'d list"
  ad_appliedN :: int
  ad_replies :: "(nat \<times> ProposeReplyTS) list"

definition start_replica :: "pending \<Rightarrow> 'd replica" where
  "start_replica p =
     \<lparr>ad_st = InitState, ad_pend = p, ad_requests = [], ad_proposed = [], ad_appliedN = 0, ad_replies = []\<rparr>"

definition reply_to :: "request \<Rightarrow> byte \<Rightarrow> u64 \<Rightarrow> ProposeReplyTS" where
  "reply_to q ok v =
     \<lparr>ts_OK = ok, ts_CommandId = pr_CommandId (rq_prop q), ts_Value = v, ts_Timestamp = rq_now q\<rparr>"

text \<open>\<open>handlePropose\<close> up to the \<^verbatim>\<open>select\<close>; \<open>err\<close> is whether the library refuses the proposal.\<close>

definition propose_start ::
  "(pending \<Rightarrow> u64 \<times> pending) \<Rightarrow> (u64 \<Rightarrow> Command \<Rightarrow> 'd) \<Rightarrow> Propose \<Rightarrow> u64 \<Rightarrow> bool \<Rightarrow> 'd replica \<Rightarrow> 'd replica" where
  "propose_start nextID encode prop now err r =
     (let (reqID, p1) = nextID (ad_pend r);
          ch = length (ad_requests r);
          p2 = pending_add reqID ch p1;
          data = encode reqID (pr_Command prop);
          q = \<lparr>rq_prop = prop, rq_id = reqID, rq_now = now, rq_ch = None, rq_done = err\<rparr>;
          r1 = r\<lparr>ad_requests := ad_requests r @ [q], ad_proposed := ad_proposed r @ [data]\<rparr>
      in if err
         then r1\<lparr>ad_pend := pending_drop reqID p2, ad_replies := ad_replies r @ [(ch, reply_to q 0 0)]\<rparr>
         else r1\<lparr>ad_pend := p2\<rparr>)"

text \<open>The \<^verbatim>\<open>select\<close>: the handler receives the value, or its timer fires.\<close>

definition propose_receive :: "nat \<Rightarrow> 'd replica \<Rightarrow> 'd replica" where
  "propose_receive ch r =
     (if ch < length (ad_requests r) \<and> \<not> rq_done (ad_requests r ! ch) then
        (let q = ad_requests r ! ch in
         case rq_ch q of
           None \<Rightarrow> r
         | Some v \<Rightarrow> r\<lparr>ad_requests := (ad_requests r)[ch := q\<lparr>rq_done := True\<rparr>],
                       ad_replies := ad_replies r @ [(ch, reply_to q 1 v)]\<rparr>)
      else r)"

definition propose_timeout :: "nat \<Rightarrow> 'd replica \<Rightarrow> 'd replica" where
  "propose_timeout ch r =
     (if ch < length (ad_requests r) \<and> \<not> rq_done (ad_requests r ! ch) then
        (let q = ad_requests r ! ch in
         r\<lparr>ad_pend := pending_drop (rq_id q) (ad_pend r),
           ad_requests := (ad_requests r)[ch := q\<lparr>rq_done := True\<rparr>],
           ad_replies := ad_replies r @ [(ch, reply_to q 0 0)]\<rparr>)
      else r)"

text \<open>One committed command.\<close>

definition apply_command :: "('d \<Rightarrow> (u64 \<times> Command) option) \<Rightarrow> 'd \<Rightarrow> 'd replica \<Rightarrow> 'd replica" where
  "apply_command decode data r =
     (case decode data of
        None \<Rightarrow> r
      | Some (reqID, cmd) \<Rightarrow>
          (let (v, st') = Execute cmd (ad_st r);
               (target, p') = pending_deliver reqID (ad_pend r);
               reqs = (case target of
                         None \<Rightarrow> ad_requests r
                       | Some ch \<Rightarrow> (ad_requests r)[ch := (ad_requests r ! ch)\<lparr>rq_ch := Some v\<rparr>])
           in r\<lparr>ad_st := st', ad_pend := p', ad_requests := reqs, ad_appliedN := ad_appliedN r + 1\<rparr>))"

datatype 'd event = Ev_Propose Propose u64 bool | Ev_Receive nat | Ev_Timeout nat | Ev_Apply 'd

definition ad_step ::
  "(pending \<Rightarrow> u64 \<times> pending) \<Rightarrow> (u64 \<Rightarrow> Command \<Rightarrow> 'd) \<Rightarrow> ('d \<Rightarrow> (u64 \<times> Command) option)
     \<Rightarrow> 'd event \<Rightarrow> 'd replica \<Rightarrow> 'd replica" where
  "ad_step nextID encode decode e r =
     (case e of
        Ev_Propose prop now err \<Rightarrow> propose_start nextID encode prop now err r
      | Ev_Receive ch \<Rightarrow> propose_receive ch r
      | Ev_Timeout ch \<Rightarrow> propose_timeout ch r
      | Ev_Apply data \<Rightarrow> apply_command decode data r)"

text \<open>What the harness reads: the store, and the number of applied commands. The two are read one after
  the other, so the second may see a later state.\<close>

definition ad_GetState :: "'d replica \<Rightarrow> 'd replica \<Rightarrow> (u64 \<rightharpoonup> u64) \<times> int" where
  "ad_GetState r later = (Snapshot (ad_st r), ad_appliedN later)"

lemma length_requests_step:
  "length (ad_requests r) \<le> length (ad_requests (ad_step nextID encode decode e r))"
  by (auto simp: ad_step_def propose_start_def propose_receive_def propose_timeout_def apply_command_def
      Let_def split: event.split option.split prod.split)

section \<open>Interface: identifiers that no two requests share\<close>

locale request_ids =
  fixes newp :: "nat \<Rightarrow> pending"
    and nextID :: "pending \<Rightarrow> u64 \<times> pending"
    and encode :: "u64 \<Rightarrow> Command \<Rightarrow> 'd"
    and decode :: "'d \<Rightarrow> (u64 \<times> Command) option"
    and ident :: "nat \<Rightarrow> nat \<Rightarrow> u64"
    and R :: nat
    and S :: nat
  assumes new_m: "pd_m (newp k) = Map.empty"
    and new_seq: "pd_seq (newp k) = 0"
    and next_ident: "k < R \<Longrightarrow> n < S \<Longrightarrow> pd_base p = pd_base (newp k) \<Longrightarrow> pd_seq p = of_nat n \<Longrightarrow>
      nextID p = (ident k (Suc n), p\<lparr>pd_seq := of_nat (Suc n)\<rparr>)"
    and ident_inject: "j < R \<Longrightarrow> k < R \<Longrightarrow> 0 < m \<Longrightarrow> m \<le> S \<Longrightarrow> 0 < n \<Longrightarrow> n \<le> S \<Longrightarrow>
      ident j m = ident k n \<longleftrightarrow> j = k \<and> m = n"
    and decode_encode: "decode (encode reqID c) = Some (reqID, c)"
begin

definition run :: "nat \<Rightarrow> 'd event list \<Rightarrow> 'd replica" where
  "run k es = fold (ad_step nextID encode decode) es (start_replica (newp k))"

lemma run_snoc: "run k (es @ [e]) = ad_step nextID encode decode e (run k es)"
  by (simp add: run_def)

text \<open>What holds of replica \<open>k\<close> after the events \<open>es\<close>.\<close>

definition table_ok :: "nat \<Rightarrow> 'd replica \<Rightarrow> bool" where
  "table_ok k r \<longleftrightarrow>
     pd_base (ad_pend r) = pd_base (newp k)
     \<and> pd_seq (ad_pend r) = of_nat (length (ad_requests r))
     \<and> (\<forall>t < length (ad_requests r). rq_id (ad_requests r ! t) = ident k (Suc t))
     \<and> (\<forall>i t. pd_m (ad_pend r) i = Some t \<longrightarrow>
          t < length (ad_requests r) \<and> i = ident k (Suc t))"

definition proposals_ok :: "'d replica \<Rightarrow> bool" where
  "proposals_ok r \<longleftrightarrow>
     (\<forall>d \<in> set (ad_proposed r). \<exists>t < length (ad_requests r).
        d = encode (rq_id (ad_requests r ! t)) (pr_Command (rq_prop (ad_requests r ! t))))"

text \<open>The value in a channel is the answer some applied command with the request's identifier gave.\<close>

definition answered :: "nat \<Rightarrow> 'd event list \<Rightarrow> u64 \<Rightarrow> u64 \<Rightarrow> bool" where
  "answered k es i v \<longleftrightarrow>
     (\<exists>pre d post c. es = pre @ Ev_Apply d # post \<and> decode d = Some (i, c)
        \<and> v = fst (Execute c (ad_st (run k pre))))"

definition channels_ok :: "nat \<Rightarrow> 'd event list \<Rightarrow> 'd replica \<Rightarrow> bool" where
  "channels_ok k es r \<longleftrightarrow>
     (\<forall>t < length (ad_requests r). \<forall>v. rq_ch (ad_requests r ! t) = Some v \<longrightarrow>
        answered k es (rq_id (ad_requests r ! t)) v)"

definition replies_ok :: "nat \<Rightarrow> 'd event list \<Rightarrow> 'd replica \<Rightarrow> bool" where
  "replies_ok k es r \<longleftrightarrow>
     distinct (map fst (ad_replies r))
     \<and> (\<forall>(t, p) \<in> set (ad_replies r). t < length (ad_requests r) \<and> rq_done (ad_requests r ! t)
          \<and> ts_CommandId p = pr_CommandId (rq_prop (ad_requests r ! t))
          \<and> (ts_OK p \<noteq> 0 \<longrightarrow> answered k es (rq_id (ad_requests r ! t)) (ts_Value p)))"

lemma answered_snoc: "answered k es i v \<Longrightarrow> answered k (es @ [e]) i v"
  unfolding answered_def by (metis append.assoc append_Cons)

lemma answered_apply:
  "decode d = Some (i, c) \<Longrightarrow> answered k (es @ [Ev_Apply d]) i (fst (Execute c (ad_st (run k es))))"
  unfolding answered_def by blast

definition good :: "nat \<Rightarrow> 'd event list \<Rightarrow> 'd replica \<Rightarrow> bool" where
  "good k es r \<longleftrightarrow> table_ok k r \<and> proposals_ok r \<and> channels_ok k es r \<and> replies_ok k es r"

lemma good_start: "good k [] (start_replica (newp k))"
  by (simp add: good_def table_ok_def proposals_ok_def channels_ok_def replies_ok_def start_replica_def
      new_m new_seq)

lemma answered_snoc_all: "channels_ok k es r \<Longrightarrow> channels_ok k (es @ [e]) r"
  unfolding channels_ok_def using answered_snoc by blast

lemma replies_snoc: "replies_ok k es r \<Longrightarrow> replies_ok k (es @ [e]) r"
  unfolding replies_ok_def using answered_snoc by fast

lemma good_propose:
  assumes "good k es r" and "k < R" and "length (ad_requests r) < S"
  shows "good k (es @ [e]) (propose_start nextID encode prop now err r)"
proof -
  let ?n = "length (ad_requests r)"
  have t: "table_ok k r" and p: "proposals_ok r" and c: "channels_ok k es r" and rp: "replies_ok k es r"
    using assms (1) by (simp_all add: good_def)
  have id: "ident k (Suc ?n) \<noteq> ident k (Suc u)" if "u < ?n" for u
    using that assms (2,3) ident_inject [of k k "Suc ?n" "Suc u"] by simp
  define i where "i = ident k (Suc ?n)"
  have nx: "nextID (ad_pend r) = (i, (ad_pend r)\<lparr>pd_seq := of_nat (Suc ?n)\<rparr>)"
    unfolding i_def using t assms (2,3) by (intro next_ident) (auto simp: table_ok_def)
  define q where "q = \<lparr>rq_prop = prop, rq_id = i, rq_now = now, rq_ch = None, rq_done = err\<rparr>"
  define r' where "r' = propose_start nextID encode prop now err r"
  have reqs: "ad_requests r' = ad_requests r @ [q]"
    and prps: "ad_proposed r' = ad_proposed r @ [encode i (pr_Command prop)]"
    and reps: "ad_replies r' = ad_replies r @ (if err then [(?n, reply_to q 0 0)] else [])"
    and pnd: "ad_pend r' = (ad_pend r)\<lparr>pd_seq := of_nat (Suc ?n),
        pd_m := (pd_m (ad_pend r))(i := if err then None else Some ?n)\<rparr>"
    by (simp_all add: r'_def propose_start_def nx q_def Let_def pending_add_def pending_drop_def)
  have "table_ok k r'"
    using t id unfolding table_ok_def reqs pnd
    by (auto simp: nth_append q_def i_def less_Suc_eq split: if_splits)
  moreover have "proposals_ok r'"
    unfolding proposals_ok_def
  proof
    fix d assume "d \<in> set (ad_proposed r')"
    then consider "d \<in> set (ad_proposed r)" | "d = encode i (pr_Command prop)" by (auto simp: prps)
    then show "\<exists>t < length (ad_requests r').
        d = encode (rq_id (ad_requests r' ! t)) (pr_Command (rq_prop (ad_requests r' ! t)))"
    proof cases
      case 1
      then obtain u where "u < ?n" "d = encode (rq_id (ad_requests r ! u)) (pr_Command (rq_prop (ad_requests r ! u)))"
        using p unfolding proposals_ok_def by blast
      then show ?thesis by (intro exI [of _ u]) (simp add: reqs nth_append)
    next
      case 2
      then show ?thesis by (intro exI [of _ ?n]) (simp add: reqs q_def)
    qed
  qed
  moreover have "channels_ok k (es @ [e]) r'"
    using answered_snoc_all [OF c] unfolding channels_ok_def reqs
    by (auto simp: nth_append q_def less_Suc_eq)
  moreover have "replies_ok k (es @ [e]) r'"
    using replies_snoc [OF rp, of e] unfolding replies_ok_def reqs reps
    by (force simp: nth_append q_def reply_to_def)
  ultimately show ?thesis by (simp add: good_def r'_def)
qed

lemma good_finish:
  assumes "good k es r" and "ch < length (ad_requests r)" and "\<not> rq_done (ad_requests r ! ch)"
    and "ok \<noteq> 0 \<longrightarrow> rq_ch (ad_requests r ! ch) = Some v"
    and "table_ok k r \<Longrightarrow> table_ok k (r\<lparr>ad_pend := p'\<rparr>)"
  shows "good k (es @ [e]) (r\<lparr>ad_pend := p',
      ad_requests := (ad_requests r)[ch := (ad_requests r ! ch)\<lparr>rq_done := True\<rparr>],
      ad_replies := ad_replies r @ [(ch, reply_to (ad_requests r ! ch) ok v)]\<rparr>)"
proof -
  let ?reqs = "(ad_requests r)[ch := (ad_requests r ! ch)\<lparr>rq_done := True\<rparr>]"
  have t: "table_ok k (r\<lparr>ad_pend := p'\<rparr>)" and p: "proposals_ok r" and c: "channels_ok k (es @ [e]) r"
    and rp: "replies_ok k (es @ [e]) r"
    using assms (1,5) answered_snoc_all replies_snoc by (simp_all add: good_def)
  have same: "rq_id (?reqs ! u) = rq_id (ad_requests r ! u)" "rq_prop (?reqs ! u) = rq_prop (ad_requests r ! u)"
    "rq_ch (?reqs ! u) = rq_ch (ad_requests r ! u)"
    "rq_done (?reqs ! u) \<longleftrightarrow> u = ch \<or> rq_done (ad_requests r ! u)" for u
    using assms (2) by (cases "u = ch"; simp)+
  have new: "ch \<notin> fst ` set (ad_replies r)" using rp assms (3) unfolding replies_ok_def by fastforce
  have ans: "ok \<noteq> 0 \<Longrightarrow> answered k (es @ [e]) (rq_id (ad_requests r ! ch)) v"
    using c assms (2,4) by (simp add: channels_ok_def)
  show ?thesis
    unfolding good_def
  proof (intro conjI)
    show "replies_ok k (es @ [e]) (r\<lparr>ad_pend := p', ad_requests := ?reqs,
        ad_replies := ad_replies r @ [(ch, reply_to (ad_requests r ! ch) ok v)]\<rparr>)"
      using rp new ans assms (2) unfolding replies_ok_def
      by (auto simp: same reply_to_def)
  qed (use t p c in \<open>simp_all add: table_ok_def proposals_ok_def channels_ok_def same\<close>)
qed

lemma good_receive: "good k es r \<Longrightarrow> good k (es @ [e]) (propose_receive ch r)"
  using good_finish [of k es r ch 1 _ "ad_pend r" e]
  by (auto simp: propose_receive_def Let_def good_def answered_snoc_all replies_snoc split: option.split)

lemma good_timeout: "good k es r \<Longrightarrow> good k (es @ [e]) (propose_timeout ch r)"
proof (cases "ch < length (ad_requests r) \<and> \<not> rq_done (ad_requests r ! ch)")
  case True
  assume g: "good k es r"
  have "table_ok k r \<Longrightarrow> table_ok k (r\<lparr>ad_pend := pending_drop (rq_id (ad_requests r ! ch)) (ad_pend r)\<rparr>)"
    by (auto simp: table_ok_def pending_drop_def)
  with good_finish [OF g, of ch 0 0 _ e] True show ?thesis by (simp add: propose_timeout_def Let_def)
next
  case False
  assume "good k es r"
  with False show ?thesis by (auto simp: propose_timeout_def good_def answered_snoc_all replies_snoc)
qed

lemma good_apply:
  assumes g: "good k es r" and r: "r = run k es"
  shows "good k (es @ [Ev_Apply d]) (apply_command decode d r)"
proof (cases "decode d")
  case None
  with g show ?thesis by (simp add: apply_command_def good_def answered_snoc_all replies_snoc)
next
  case (Some a)
  obtain i c where ic: "a = (i, c)" by fastforce
  let ?es = "es @ [Ev_Apply d]"
  obtain v st' where ex: "Execute c (ad_st r) = (v, st')" by fastforce
  have ans: "answered k ?es i v"
    using answered_apply [of d i c k es] Some ic ex r by simp
  have t: "table_ok k r" and p: "proposals_ok r" and c: "channels_ok k ?es r" and rp: "replies_ok k ?es r"
    using g answered_snoc_all replies_snoc by (simp_all add: good_def)
  show ?thesis
  proof (cases "pd_m (ad_pend r) i")
    case None
    with Some ic ex t p c rp show ?thesis
      by (simp add: apply_command_def pending_deliver_def good_def table_ok_def proposals_ok_def
          channels_ok_def replies_ok_def)
  next
    case (Some ch)
    then have ch: "ch < length (ad_requests r)" "rq_id (ad_requests r ! ch) = i"
      using t unfolding table_ok_def by metis+
    let ?reqs = "(ad_requests r)[ch := (ad_requests r ! ch)\<lparr>rq_ch := Some v\<rparr>]"
    have same: "rq_id (?reqs ! u) = rq_id (ad_requests r ! u)" "rq_prop (?reqs ! u) = rq_prop (ad_requests r ! u)"
      "rq_done (?reqs ! u) = rq_done (ad_requests r ! u)"
      "rq_ch (?reqs ! u) = (if u = ch then Some v else rq_ch (ad_requests r ! u))" for u
      using ch by (cases "u = ch"; simp)+
    have e: "apply_command decode d r =
        r\<lparr>ad_st := st', ad_pend := (ad_pend r)\<lparr>pd_m := (pd_m (ad_pend r))(i := None)\<rparr>,
          ad_requests := ?reqs, ad_appliedN := ad_appliedN r + 1\<rparr>"
      using \<open>decode d = Some a\<close> ic ex Some by (simp add: apply_command_def pending_deliver_def Let_def)
    show ?thesis
      unfolding e good_def
    proof (intro conjI)
      show "table_ok k (r\<lparr>ad_st := st', ad_pend := (ad_pend r)\<lparr>pd_m := (pd_m (ad_pend r))(i := None)\<rparr>,
          ad_requests := ?reqs, ad_appliedN := ad_appliedN r + 1\<rparr>)"
        using t by (auto simp: table_ok_def same)
    qed (use p c rp ans ch in \<open>auto simp: proposals_ok_def channels_ok_def replies_ok_def same\<close>)
  qed
qed

text \<open>The number of requests a run issues.\<close>

definition issued :: "'d event list \<Rightarrow> nat" where
  "issued es = length (filter (\<lambda>e. case e of Ev_Propose _ _ _ \<Rightarrow> True | _ \<Rightarrow> False) es)"

lemma length_requests_run: "length (ad_requests (run k es)) = issued es"
proof (induction es rule: rev_induct)
  case Nil
  then show ?case by (simp add: run_def start_replica_def issued_def)
next
  case (snoc e es)
  then show ?case
    by (auto simp: run_snoc issued_def ad_step_def propose_start_def propose_receive_def propose_timeout_def
        apply_command_def Let_def split: event.split option.split prod.split)
qed

lemma good_run: "k < R \<Longrightarrow> issued es \<le> S \<Longrightarrow> good k es (run k es)"
proof (induction es rule: rev_induct)
  case Nil
  then show ?case using good_start by (simp add: run_def)
next
  case (snoc e es)
  have "issued es \<le> issued (es @ [e])" by (simp add: issued_def)
  with snoc have g: "good k es (run k es)" by simp
  show ?case
  proof (cases e)
    case (Ev_Propose pr now err)
    with snoc.prems have "length (ad_requests (run k es)) < S"
      by (simp add: length_requests_run issued_def)
    from good_propose [OF g snoc.prems(1) this] Ev_Propose show ?thesis by (simp add: run_snoc ad_step_def)
  next
    case (Ev_Receive ch)
    with good_receive [OF g] show ?thesis by (simp add: run_snoc ad_step_def)
  next
    case (Ev_Timeout ch)
    with good_timeout [OF g] show ?thesis by (simp add: run_snoc ad_step_def)
  next
    case (Ev_Apply d)
    with good_apply [OF g refl] show ?thesis by (simp add: run_snoc ad_step_def)
  qed
qed

text \<open>What the consensus library promises: a command it delivers was handed to it, by this replica or
  by another one of the cluster (or it is none of the clients' commands).\<close>

definition genuine :: "nat \<Rightarrow> 'd event list \<Rightarrow> bool" where
  "genuine k es \<longleftrightarrow>
     (\<forall>d. Ev_Apply d \<in> set es \<longrightarrow>
        decode d = None
        \<or> d \<in> set (ad_proposed (run k es))
        \<or> (\<exists>j n c. j < R \<and> j \<noteq> k \<and> 0 < n \<and> n \<le> S \<and> d = encode (ident j n) c))"

theorem reply_is_own_answer:
  assumes "k < R" and "issued es \<le> S" and "genuine k es"
    and "(t, p) \<in> set (ad_replies (run k es))" and "ts_OK p \<noteq> 0"
  shows "\<exists>pre d post. es = pre @ Ev_Apply d # post
    \<and> d = encode (rq_id (ad_requests (run k es) ! t)) (pr_Command (rq_prop (ad_requests (run k es) ! t)))
    \<and> ts_Value p = fst (Execute (pr_Command (rq_prop (ad_requests (run k es) ! t))) (ad_st (run k pre)))"
proof -
  let ?r = "run k es"
  let ?q = "ad_requests ?r ! t"
  have g: "good k es ?r" using good_run assms (1,2) by blast
  have t: "t < length (ad_requests ?r)" "answered k es (rq_id ?q) (ts_Value p)"
    using g assms (4,5) by (auto simp: good_def replies_ok_def)
  then obtain pre d post c where es: "es = pre @ Ev_Apply d # post" and dec: "decode d = Some (rq_id ?q, c)"
    and v: "ts_Value p = fst (Execute c (ad_st (run k pre)))"
    unfolding answered_def by blast
  have idt: "rq_id (ad_requests ?r ! u) = ident k (Suc u)" if "u < length (ad_requests ?r)" for u
    using g that by (simp add: good_def table_ok_def)
  have le: "length (ad_requests ?r) \<le> S" using assms (2) by (simp add: length_requests_run)
  have "Ev_Apply d \<in> set es" by (simp add: es)
  then have "decode d = None \<or> d \<in> set (ad_proposed ?r)
      \<or> (\<exists>j n c. j < R \<and> j \<noteq> k \<and> 0 < n \<and> n \<le> S \<and> d = encode (ident j n) c)"
    using assms (3) unfolding genuine_def by blast
  with dec consider "d \<in> set (ad_proposed ?r)"
    | j n c' where "j < R" "j \<noteq> k" "0 < n" "n \<le> S" "d = encode (ident j n) c'"
    by (elim disjE exE) auto
  then show ?thesis
  proof cases
    case 1
    then obtain u where u: "u < length (ad_requests ?r)"
      "d = encode (rq_id (ad_requests ?r ! u)) (pr_Command (rq_prop (ad_requests ?r ! u)))"
      using g unfolding good_def proposals_ok_def by blast
    then have "rq_id (ad_requests ?r ! u) = rq_id ?q" "c = pr_Command (rq_prop (ad_requests ?r ! u))"
      using dec by (simp_all add: decode_encode)
    moreover from this have "u = t"
      using ident_inject [of k k "Suc u" "Suc t"] idt u t le assms (1) by simp
    ultimately show ?thesis using es u v by blast
  next
    case 2
    then have "ident j n = ident k (Suc t)" using dec idt [OF t(1)] by (simp add: decode_encode)
    with 2 t le assms (1) ident_inject [of j k n "Suc t"] show ?thesis by simp
  qed
qed

theorem reply_at_most_once:
  assumes "k < R" and "issued es \<le> S"
  shows "distinct (map fst (ad_replies (run k es)))"
  using good_run [OF assms] by (simp add: good_def replies_ok_def)

end

text \<open>What the replica's store and counter are: the result of the delivered client commands, in order.\<close>

definition delivered :: "('d \<Rightarrow> (u64 \<times> Command) option) \<Rightarrow> 'd event list \<Rightarrow> Command list" where
  "delivered decode es =
     List.map_filter (\<lambda>e. case e of Ev_Apply d \<Rightarrow> map_option snd (decode d) | _ \<Rightarrow> None) es"

lemma run_state:
  "ad_st (fold (ad_step nextID encode decode) es r) = fold (\<lambda>c s. snd (Execute c s)) (delivered decode es) (ad_st r)
   \<and> ad_appliedN (fold (ad_step nextID encode decode) es r) = ad_appliedN r + int (length (delivered decode es))"
proof (induction es arbitrary: r)
  case Nil
  then show ?case by (simp add: delivered_def map_filter_simps)
next
  case (Cons e es)
  show ?case
    unfolding fold_simps comp_apply
    by (auto simp: Cons.IH delivered_def map_filter_simps ad_step_def propose_start_def propose_receive_def
        propose_timeout_def apply_command_def Let_def split: event.split option.split prod.split)
qed

end
