(* ===== verification/Adapter_Etcd.thy ===== *)
theory Adapter_Etcd
  imports Adapter_Pending
begin

text \<open>
  Request handling of the adapter around the etcd Raft core (\<^verbatim>\<open>lab/adapters/etcdraft/main.go\<close>):
  request identifiers, the payload a proposal carries, and the handlers, as an instance of
  \<open>Adapter_Pending\<close>. An identifier is the replica's index in the top byte and the request's number
  below it.
\<close>

section \<open>Identifiers and payloads\<close>

definition newPending :: "nat \<Rightarrow> pending" where
  "newPending replicaID = \<lparr>pd_m = Map.empty, pd_base = push_bit 56 (of_nat replicaID), pd_seq = 0\<rparr>"

definition pending_next :: "pending \<Rightarrow> u64 \<times> pending" where
  "pending_next p =
     (let s = pd_seq p + 1 in (pd_base p OR (s AND 0x00FFFFFFFFFFFFFF), p\<lparr>pd_seq := s\<rparr>))"

definition reqIDLen :: nat where "reqIDLen = 8"

definition encodeCommand :: "u64 \<Rightarrow> bytes \<Rightarrow> bytes" where
  "encodeCommand reqID cmd = be_bytes 8 reqID @ cmd"

definition decodeCommand :: "bytes \<Rightarrow> (u64 \<times> Command) option" where
  "decodeCommand b =
     (if length b \<le> reqIDLen then None
      else case Command_Unmarshal zero_Command (drop reqIDLen b) of
             (Some e, _, _) \<Rightarrow> None
           | (None, cmd, _) \<Rightarrow> Some (be_word (take reqIDLen b), cmd))"

definition etcd_encode :: "u64 \<Rightarrow> Command \<Rightarrow> bytes" where
  "etcd_encode reqID cmd = encodeCommand reqID (Command_Marshal cmd)"

text \<open>The entry an election leaves in the log is empty and skipped.\<close>

definition etcd_decode :: "bytes \<Rightarrow> (u64 \<times> Command) option" where
  "etcd_decode data = (if length data = 0 then None else decodeCommand data)"

section \<open>Handlers\<close>

definition etcd_propose :: "Propose \<Rightarrow> u64 \<Rightarrow> bool \<Rightarrow> bytes replica \<Rightarrow> bytes replica" where
  "etcd_propose = propose_start pending_next etcd_encode"

definition etcd_apply :: "bytes \<Rightarrow> bytes replica \<Rightarrow> bytes replica" where
  "etcd_apply = apply_command etcd_decode"

definition etcd_run :: "nat \<Rightarrow> bytes event list \<Rightarrow> bytes replica" where
  "etcd_run k es = fold (ad_step pending_next etcd_encode etcd_decode) es (start_replica (newPending k))"

text \<open>The leader the adapter reports: Raft identifiers are positions in the list plus one, and 0 is no
  leader.\<close>

definition soft_state_lead :: "u64 \<Rightarrow> int" where
  "soft_state_lead lead = (if lead = 0 then - 1 else sint lead - 1)"

definition ticksFor :: "int \<Rightarrow> int" where
  "ticksFor ms = (let t = ms div 100 in if t < 1 then 1 else t)"

section \<open>Facts\<close>

definition etcd_ident :: "nat \<Rightarrow> nat \<Rightarrow> u64" where
  "etcd_ident k n = push_bit 56 (of_nat k) OR of_nat n"

lemma encodeCommand_inject: "encodeCommand i c = encodeCommand j d \<longleftrightarrow> i = j \<and> c = d"
  by (simp add: encodeCommand_def be_bytes_inj64)

lemma decodeCommand_encodeCommand: "decodeCommand (etcd_encode i c) = Some (i, c)"
  using Command_dec_enc [of zero_Command c "[]"]
  by (simp add: decodeCommand_def etcd_encode_def encodeCommand_def reqIDLen_def)

lemma etcd_decode_encode: "etcd_decode (etcd_encode i c) = Some (i, c)"
proof -
  have "length (etcd_encode i c) \<noteq> 0" by (simp add: etcd_encode_def encodeCommand_def)
  then show ?thesis by (simp only: etcd_decode_def decodeCommand_encodeCommand if_False)
qed

text \<open>A payload that decodes begins with the encoding of what it decodes to.\<close>

lemma decodeCommand_sound:
  assumes "decodeCommand b = Some (i, c)"
  shows "\<exists>rest. b = etcd_encode i c @ rest"
proof -
  from assms have len: "8 < length b"
    by (auto simp: decodeCommand_def reqIDLen_def split: if_splits)
  with assms obtain rest where c: "Command_Unmarshal zero_Command (drop 8 b) = (None, c, rest)"
    and i: "i = be_word (take 8 b)"
    by (auto simp: decodeCommand_def reqIDLen_def split: prod.splits option.splits)
  have "be_bytes 8 i = take 8 b"
    using le64_inv [of "rev (take 8 b)"] len by (simp add: i be_word_def be_bytes_def)
  with Command_dec_sound [OF c] have "take 8 b @ drop 8 b = etcd_encode i c @ rest"
    by (simp add: etcd_encode_def encodeCommand_def)
  then show ?thesis by auto
qed

lemma mask56: "n < 2 ^ 56 \<Longrightarrow> (of_nat n :: u64) AND 0x00FFFFFFFFFFFFFF = of_nat n"
proof -
  assume n: "n < 2 ^ 56"
  have m: "(0x00FFFFFFFFFFFFFF :: u64) = mask 56" by (simp add: mask_eq_exp_minus_1)
  have "take_bit 56 (of_nat n :: u64) = of_nat (take_bit 56 n)" by (simp add: take_bit_of_nat)
  with n show ?thesis by (simp add: m take_bit_eq_mask [symmetric] take_bit_nat_eq_self)
qed


lemma etcd_ident_parts:
  assumes "k < 256" and "n < 2 ^ 56"
  shows "drop_bit 56 (etcd_ident k n) = of_nat k" and "take_bit 56 (etcd_ident k n) = of_nat n"
proof -
  have kb: "\<not> bit k i" if "8 \<le> i" for i using nat_bit_bound [of k 8 i] that assms (1) by simp
  have nb: "\<not> bit n i" if "56 \<le> i" for i using nat_bit_bound [of n 56 i] that assms (2) by simp
  show "drop_bit 56 (etcd_ident k n) = of_nat k"
  proof (rule bit_word_eqI)
    fix i
    assume "i < LENGTH(64)"
    show "bit (drop_bit 56 (etcd_ident k n)) i = bit (of_nat k :: u64) i"
      using kb [of i] nb [of "56 + i"] by (cases "i < 8") (auto simp: etcd_ident_def bit_simps not_less)
  qed
  show "take_bit 56 (etcd_ident k n) = of_nat n"
  proof (rule bit_word_eqI)
    fix i
    assume "i < LENGTH(64)"
    show "bit (take_bit 56 (etcd_ident k n)) i = bit (of_nat n :: u64) i"
      using nb [of i] by (cases "i < 56") (auto simp: etcd_ident_def bit_simps not_less)
  qed
qed

lemma etcd_ident_inject:
  assumes "j < 256" "k < 256" "m \<le> 2 ^ 56 - 1" "n \<le> 2 ^ 56 - 1"
  shows "etcd_ident j m = etcd_ident k n \<longleftrightarrow> j = k \<and> m = n"
proof
  have b: "m < 2 ^ 56" "n < 2 ^ 56" using assms by simp_all
  assume e: "etcd_ident j m = etcd_ident k n"
  have "(of_nat j :: u64) = of_nat k" "(of_nat m :: u64) = of_nat n"
    using etcd_ident_parts [OF assms(1) b(1)] etcd_ident_parts [OF assms(2) b(2)] e by simp_all
  moreover have "j < 2 ^ 64" "k < 2 ^ 64" "m < 2 ^ 64" "n < 2 ^ 64" using assms b by simp_all
  ultimately show "j = k \<and> m = n" by (simp only: of_nat_u64_inject simp_thms)
qed simp

lemma etcd_next:
  assumes "n < 2 ^ 56 - 1" and "pd_base p = pd_base (newPending k)" and "pd_seq p = of_nat n"
  shows "pending_next p = (etcd_ident k (Suc n), p\<lparr>pd_seq := of_nat (Suc n)\<rparr>)"
proof -
  have "pd_seq p + 1 = of_nat (Suc n)" using assms (3) by simp
  moreover have "Suc n < 2 ^ 56" using assms (1) by simp
  ultimately show ?thesis
    using mask56 [of "Suc n"] assms (2)
    by (simp add: pending_next_def etcd_ident_def newPending_def Let_def del: of_nat_Suc)
qed

interpretation etcd: request_ids newPending pending_next etcd_encode etcd_decode etcd_ident 256 "2 ^ 56 - 1"
  by unfold_locales
    (simp_all add: newPending_def etcd_ident_inject etcd_decode_encode etcd_next del: of_nat_Suc)

lemma etcd_run_eq: "etcd_run k es = etcd.run k es"
  by (simp add: etcd_run_def etcd.run_def)

section \<open>Properties\<close>


text \<open>A payload carries its request and its command: it decodes to exactly what was encoded, and
  whatever decodes to them begins with their encoding.\<close>

theorem etcd_payload_roundtrip:
  "decodeCommand (encodeCommand i (Command_Marshal c)) = Some (i, c)
   \<and> (decodeCommand b = Some (i, c) \<longrightarrow> take 25 b = encodeCommand i (Command_Marshal c))"
proof (intro conjI impI)
  show "decodeCommand (encodeCommand i (Command_Marshal c)) = Some (i, c)"
    using decodeCommand_encodeCommand by (simp add: etcd_encode_def)
  assume "decodeCommand b = Some (i, c)"
  from decodeCommand_sound [OF this] show "take 25 b = encodeCommand i (Command_Marshal c)"
    by (auto simp: etcd_encode_def encodeCommand_def)
qed

text \<open>The numbering starts again when a replica is restarted, so an entry the replica proposed before
  the restart and applies again from its log is taken for the new client's command: the client is told
  OK with the answer of the old command, and its own has not been executed.\<close>

theorem etcd_restart_answers_old_command:
  assumes "k < 256"
  shows "ad_replies (etcd_run k [Ev_Propose prp now False, Ev_Apply (etcd_encode (etcd_ident k 1) old), Ev_Receive 0])
      = [(0, \<lparr>ts_OK = 1, ts_CommandId = pr_CommandId prp, ts_Value = fst (Execute old InitState),
             ts_Timestamp = now\<rparr>)]
    \<and> delivered etcd_decode [Ev_Propose prp now False, Ev_Apply (etcd_encode (etcd_ident k 1) old), Ev_Receive 0]
      = [old]"
proof -
  have nx: "pending_next (newPending k) = (etcd_ident k 1, (newPending k)\<lparr>pd_seq := 1\<rparr>)"
    using etcd_next [of 0 "newPending k" k] by (simp add: newPending_def)
  have ex: "Execute old InitState = (fst (Execute old InitState), snd (Execute old InitState))" by simp
  show ?thesis
    unfolding etcd_run_def start_replica_def delivered_def
    by (simp add: ad_step_def propose_start_def nx apply_command_def etcd_decode_encode pending_deliver_def
        pending_add_def propose_receive_def reply_to_def Let_def split_beta map_filter_simps)
qed

section \<open>Witnesses\<close>

lemma etcd_restart_answers_old_command_witness:
  "ad_replies (etcd_run 1 [Ev_Propose \<lparr>pr_CommandId = 4,
        pr_Command = \<lparr>cmd_Op = PUT, cmd_K = 5, cmd_V = 6\<rparr>, pr_Timestamp = 9\<rparr> 100 False,
      Ev_Apply (etcd_encode (etcd_ident 1 1) \<lparr>cmd_Op = GET, cmd_K = 1, cmd_V = 0\<rparr>), Ev_Receive 0])
    = [(0, \<lparr>ts_OK = 1, ts_CommandId = 4, ts_Value = 0, ts_Timestamp = 100\<rparr>)]"
proof -
  have k: "(1::nat) < 256" by simp
  have v: "fst (Execute \<lparr>cmd_Op = GET, cmd_K = 1, cmd_V = 0\<rparr> InitState) = 0" by code_simp
  have p: "pr_CommandId \<lparr>pr_CommandId = 4, pr_Command = \<lparr>cmd_Op = PUT, cmd_K = 5, cmd_V = 6\<rparr>,
      pr_Timestamp = 9\<rparr> = 4" by simp
  from etcd_restart_answers_old_command [OF k, THEN conjunct1, of "\<lparr>pr_CommandId = 4,
        pr_Command = \<lparr>cmd_Op = PUT, cmd_K = 5, cmd_V = 6\<rparr>, pr_Timestamp = 9\<rparr>" 100
      "\<lparr>cmd_Op = GET, cmd_K = 1, cmd_V = 0\<rparr>"]
  show ?thesis by (simp only: v p)
qed

definition sample_put :: "u64 \<Rightarrow> u64 \<Rightarrow> Propose" where
  "sample_put key v =
     \<lparr>pr_CommandId = 4, pr_Command = \<lparr>cmd_Op = PUT, cmd_K = key, cmd_V = v\<rparr>, pr_Timestamp = 9\<rparr>"

text \<open>Replica 1 applies a command of replica 2 before its own client's.\<close>

definition sample_events :: "bytes event list" where
  "sample_events =
     [Ev_Propose (sample_put 5 6) 100 False,
      Ev_Apply (etcd_encode (etcd_ident 2 1) (pr_Command (sample_put 5 7))),
      Ev_Apply (etcd_encode (etcd_ident 1 1) (pr_Command (sample_put 5 6))),
      Ev_Receive 0]"

lemma sample_events_run:
  "ad_replies (etcd_run 1 sample_events) = [(0, \<lparr>ts_OK = 1, ts_CommandId = 4, ts_Value = 6, ts_Timestamp = 100\<rparr>)]"
  by code_simp

lemma sample_events_proposed:
  "ad_proposed (etcd_run 1 sample_events) = [etcd_encode (etcd_ident 1 1) (pr_Command (sample_put 5 6))]"
  by code_simp

lemma sample_genuine: "etcd.genuine 1 sample_events"
proof -
  have "d \<in> set (ad_proposed (etcd_run 1 sample_events))
      \<or> (\<exists>j n c. j < 256 \<and> j \<noteq> 1 \<and> 0 < n \<and> n \<le> 2 ^ 56 - 1 \<and> d = etcd_encode (etcd_ident j n) c)"
    if "Ev_Apply d \<in> set sample_events" for d
  proof -
    from that consider "d = etcd_encode (etcd_ident 2 1) (pr_Command (sample_put 5 7))"
      | "d = etcd_encode (etcd_ident 1 1) (pr_Command (sample_put 5 6))"
      by (auto simp: sample_events_def)
    then show ?thesis
    proof cases
      case 1
      then have "(2::nat) < 256 \<and> (2::nat) \<noteq> 1 \<and> 0 < (1::nat) \<and> (1::nat) \<le> 2 ^ 56 - 1
          \<and> d = etcd_encode (etcd_ident 2 1) (pr_Command (sample_put 5 7))" by simp
      then show ?thesis by blast
    next
      case 2
      then show ?thesis by (simp only: sample_events_proposed) simp
    qed
  qed
  then show ?thesis unfolding etcd.genuine_def etcd_run_eq [symmetric] by blast
qed


lemma etcd_payload_roundtrip_witness:
  "take 25 (encodeCommand 3 (Command_Marshal \<lparr>cmd_Op = PUT, cmd_K = 1, cmd_V = 2\<rparr>) @ [0, 0])
     = encodeCommand 3 (Command_Marshal \<lparr>cmd_Op = PUT, cmd_K = 1, cmd_V = 2\<rparr>)"
proof -
  have "decodeCommand (encodeCommand 3 (Command_Marshal \<lparr>cmd_Op = PUT, cmd_K = 1, cmd_V = 2\<rparr>) @ [0, 0])
      = Some (3, \<lparr>cmd_Op = PUT, cmd_K = 1, cmd_V = 2\<rparr>)" by code_simp
  with etcd_payload_roundtrip show ?thesis by blast
qed

end
