(* ===== verification/Adapter_Raft.thy ===== *)
theory Adapter_Raft
  imports Lab_Proto
begin

text \<open>
  The adapter around HashiCorp Raft (\<^verbatim>\<open>lab/adapters/raft/main.go\<close>): the state machine it gives the
  library with its snapshots, the leader it reports, the transport that drops votes on demand, and the
  resolution of peer addresses. The library calls \<open>fsm_Apply\<close> with committed entries, \<open>fsm_Snapshot\<close> and
  \<open>fsm_Restore\<close>; each holds the mutex for its whole body, so each is one step. Go iterates the store in
  an order of its choosing: \<open>order\<close>, some enumeration of the keys.
\<close>

section \<open>The state machine\<close>

record fsm =
  fs_st :: State
  fs_applied :: int

definition newFSM :: fsm where
  "newFSM = \<lparr>fs_st = InitState, fs_applied = 0\<rparr>"

definition fsm_Apply :: "bytes \<Rightarrow> fsm \<Rightarrow> u64 \<times> fsm" where
  "fsm_Apply data f =
     (case Command_Unmarshal zero_Command data of
        (Some e, _, _) \<Rightarrow> (NIL, f)
      | (None, cmd, _) \<Rightarrow>
          (case Execute cmd (fs_st f) of
             (v, st') \<Rightarrow> (v, f\<lparr>fs_st := st', fs_applied := fs_applied f + 1\<rparr>)))"

definition snapshot_entry :: "u64 \<times> u64 \<Rightarrow> bytes" where
  "snapshot_entry kv = le_bytes 8 (fst kv) @ le_bytes 8 (snd kv)"

definition fsm_Snapshot :: "u64 list \<Rightarrow> fsm \<Rightarrow> bytes" where
  "fsm_Snapshot order f =
     le_bytes 4 (of_nat (length order) :: u32)
     @ concat (map (\<lambda>k. snapshot_entry (k, the (Store (fs_st f) k))) order)"

fun restore_loop :: "nat \<Rightarrow> (u64 \<rightharpoonup> u64) \<Rightarrow> bytes \<Rightarrow> io_error + (u64 \<rightharpoonup> u64)" where
  "restore_loop 0 m rc = Inr m"
| "restore_loop (Suc n) m rc =
     (case readFull 8 rc of
        (Inl e, _) \<Rightarrow> Inl e
      | (Inr k, rc1) \<Rightarrow>
          (case readFull 8 rc1 of
             (Inl e, _) \<Rightarrow> Inl e
           | (Inr v, rc2) \<Rightarrow> restore_loop n (m(le_word k \<mapsto> le_word v)) rc2))"

definition fsm_Restore :: "bytes \<Rightarrow> fsm \<Rightarrow> io_error option \<times> fsm" where
  "fsm_Restore rc f =
     (case readFull 4 rc of
        (Inl e, _) \<Rightarrow> (Some e, f)
      | (Inr n, rc1) \<Rightarrow>
          (case restore_loop (unat (le_word n :: u32)) Map.empty rc1 of
             Inl e \<Rightarrow> (Some e, f)
           | Inr m \<Rightarrow> (None, f\<lparr>fs_st := (fs_st f)\<lparr>Store := m\<rparr>\<rparr>)))"

definition fsm_GetState :: "fsm \<Rightarrow> (u64 \<rightharpoonup> u64) \<times> int" where
  "fsm_GetState f = (Store (fs_st f), fs_applied f)"

section \<open>Serving clients\<close>

text \<open>The payload of a proposal, and the reply once the library's future has resolved: \<open>None\<close> is an
  error.\<close>

definition raft_payload :: "Propose \<Rightarrow> bytes" where
  "raft_payload prp = Command_Marshal (pr_Command prp)"

definition raft_reply :: "Propose \<Rightarrow> u64 \<Rightarrow> u64 option \<Rightarrow> ProposeReplyTS" where
  "raft_reply prp now response =
     (let reply = \<lparr>ts_OK = 0, ts_CommandId = pr_CommandId prp, ts_Value = 0, ts_Timestamp = now\<rparr>
      in case response of None \<Rightarrow> reply\<lparr>ts_OK := 0\<rparr> | Some v \<Rightarrow> reply\<lparr>ts_OK := 1, ts_Value := v\<rparr>)"

section \<open>The leader\<close>

fun leader_index :: "nat \<Rightarrow> string \<Rightarrow> string list \<Rightarrow> int" where
  "leader_index i addr [] = - 1"
| "leader_index i addr (p # ps) = (if p = addr then int i else leader_index (Suc i) addr ps)"

definition LeaderId :: "string list \<Rightarrow> string \<Rightarrow> int" where
  "LeaderId peers addr = (if addr = '''' then - 1 else leader_index 0 addr peers)"

section \<open>The isolating transport\<close>

record isolating =
  is_until :: "int option"
  is_droppedPreV :: int
  is_droppedV :: int

definition is_isolateFor :: "int \<Rightarrow> int \<Rightarrow> isolating \<Rightarrow> isolating" where
  "is_isolateFor now d t = t\<lparr>is_until := Some (now + d)\<rparr>"

definition is_clear :: "isolating \<Rightarrow> isolating" where
  "is_clear t = t\<lparr>is_until := None\<rparr>"

definition is_isolated :: "int \<Rightarrow> isolating \<Rightarrow> bool" where
  "is_isolated now t = (case is_until t of None \<Rightarrow> False | Some u \<Rightarrow> now < u)"

text \<open>The reply of \<^verbatim>\<open>IsolateElections\<close>; a replica without the wrapper answers not OK.\<close>

definition raft_IsolateElections :: "int \<Rightarrow> int \<Rightarrow> isolating option \<Rightarrow> bool \<times> isolating option" where
  "raft_IsolateElections now durationMS wrapper =
     (case wrapper of
        None \<Rightarrow> (False, None)
      | Some t \<Rightarrow>
          (True, Some (if durationMS \<le> 0 then is_clear t else is_isolateFor now (durationMS * 1000000) t)))"

text \<open>\<open>forward\<close> is the answer of the wrapped transport, \<open>prevote\<close> whether it supports pre-votes.\<close>

definition RequestVote :: "int \<Rightarrow> 'a \<Rightarrow> isolating \<Rightarrow> (string + 'a) \<times> isolating" where
  "RequestVote now forward t =
     (if is_isolated now t then (Inl ''vote request dropped'', t\<lparr>is_droppedV := is_droppedV t + 1\<rparr>)
      else (Inr forward, t))"

definition RequestPreVote :: "int \<Rightarrow> bool \<Rightarrow> 'a \<Rightarrow> isolating \<Rightarrow> (string + 'a) \<times> isolating" where
  "RequestPreVote now prevote forward t =
     (if is_isolated now t
      then (Inl ''pre-vote request dropped'', t\<lparr>is_droppedPreV := is_droppedPreV t + 1\<rparr>)
      else if prevote then (Inr forward, t)
      else (Inl ''underlying transport does not support pre-vote'', t))"

section \<open>Peers\<close>

definition JoinHostPort :: "string \<Rightarrow> string \<Rightarrow> string" where
  "JoinHostPort host port =
     (if CHR '':'' \<in> set host then ''['' @ host @ '']:'' @ port else host @ '':'' @ port)"

text \<open>The answers of successive look-ups, at most sixty of them.\<close>

fun resolve_loop :: "nat \<Rightarrow> int \<Rightarrow> string list option list \<Rightarrow> string option" where
  "resolve_loop 0 port answers = None"
| "resolve_loop (Suc n) port answers =
     (case answers of
        Some (ip # ips) # _ \<Rightarrow> Some (JoinHostPort ip (itoa port))
      | _ \<Rightarrow> resolve_loop n port (tl answers))"

definition resolvePeerAddr :: "int \<Rightarrow> string list option list \<Rightarrow> string option" where
  "resolvePeerAddr port answers = resolve_loop 60 port answers"

definition host_of :: "string \<Rightarrow> string" where
  "host_of ap = takeWhile (\<lambda>c. c \<noteq> CHR '':'') ap"

text \<open>The peer list in the order of the master's node list, and this replica's own address; \<open>None\<close> when a
  peer does not resolve or this replica is not in the list.\<close>

fun build_peers :: "(string \<Rightarrow> string option) \<Rightarrow> string \<Rightarrow> string list \<Rightarrow> string list \<times> string \<Rightarrow> (string list \<times> string) option" where
  "build_peers resolve myAddr [] acc = (if snd acc = '''' then None else Some acc)"
| "build_peers resolve myAddr (ap # aps) acc =
     (case resolve (host_of ap) of
        None \<Rightarrow> None
      | Some addr \<Rightarrow>
          build_peers resolve myAddr aps
            (fst acc @ [addr], if host_of ap = myAddr then addr else snd acc))"

section \<open>Facts\<close>

lemma length_snapshot_entry [simp]: "length (snapshot_entry kv) = 16"
  by (simp add: snapshot_entry_def)

lemma restore_entries:
  "restore_loop (length kvs) m (concat (map snapshot_entry kvs) @ rest) = Inr (m ++ map_of (rev kvs))"
proof (induction kvs arbitrary: m)
  case (Cons kv kvs)
  obtain k v where kv: "kv = (k, v)" by fastforce
  show ?case
  proof -
    have step: "restore_loop (Suc (length kvs)) m (snapshot_entry (k, v) @ r)
        = restore_loop (length kvs) (m(k \<mapsto> v)) r" for r
      by (simp add: wire_simps snapshot_entry_def)
    have upd: "m(k \<mapsto> v) ++ map_of (rev kvs) = m ++ map_of (rev ((k, v) # kvs))"
      by (simp add: map_add_assoc)
    show ?thesis
      using step [of "concat (map snapshot_entry kvs) @ rest"] Cons.IH [of "m(k \<mapsto> v)"]
      unfolding upd [symmetric] kv by (simp only: list.map concat.simps length_Cons append_assoc)
  qed
qed simp

lemma restore_short:
  "length rc < 16 * n \<Longrightarrow> \<exists>e. restore_loop n m rc = Inl e"
proof (induction n arbitrary: m rc)
  case (Suc n)
  then show ?case
    by (auto split: prod.splits sum.splits dest!: readFull_Inr)
qed simp

lemma fsm_Snapshot_map:
  "fsm_Snapshot order f = le_bytes 4 (of_nat (length order) :: u32)
     @ concat (map snapshot_entry (map (\<lambda>k. (k, the (Store (fs_st f) k))) order))"
  by (simp add: fsm_Snapshot_def comp_def)

lemma map_of_graph:
  assumes "distinct order" and "set order = dom m"
  shows "map_of (rev (map (\<lambda>k. (k, the (m k))) order)) = m"
proof -
  have "map_of (rev (map (\<lambda>k. (k, the (m k))) order)) = map_of (map (\<lambda>k. (k, the (m k))) order)"
    using assms (1) by (intro map_of_eqI [symmetric])
      (auto simp: comp_def rev_map [symmetric] map_of_map_restrict image_image)
  also have "\<dots> = m"
    using assms (2) by (auto simp: map_of_map_restrict restrict_map_def domIff fun_eq_iff)
  finally show ?thesis .
qed

lemma fsm_Restore_Snapshot:
  assumes "distinct order" and "set order = dom (Store (fs_st f))" and "length order < 2 ^ 32"
  shows "fsm_Restore (fsm_Snapshot order f) g = (None, g\<lparr>fs_st := (fs_st g)\<lparr>Store := Store (fs_st f)\<rparr>\<rparr>)"
proof -
  define n where "n = (of_nat (length order) :: u32)"
  have u: "unat n = length order"
    using assms (3) by (simp add: n_def unsigned_of_nat take_bit_nat_eq_self)
  let ?kvs = "map (\<lambda>k. (k, the (Store (fs_st f) k))) order"
  have "fsm_Snapshot order f = le_bytes 4 n @ concat (map snapshot_entry ?kvs)"
    unfolding fsm_Snapshot_map n_def ..
  then have r: "readFull 4 (fsm_Snapshot order f) = (Inr (le_bytes 4 n), concat (map snapshot_entry ?kvs))"
    using readFull_append [of "le_bytes 4 n" 4] by simp
  have "restore_loop (length ?kvs) Map.empty (concat (map snapshot_entry ?kvs) @ [])
      = Inr (Map.empty ++ map_of (rev ?kvs))"
    by (rule restore_entries)
  then have "restore_loop (length order) Map.empty (concat (map snapshot_entry ?kvs)) = Inr (Store (fs_st f))"
    using map_of_graph [OF assms(1,2)] by simp
  then show ?thesis by (simp add: fsm_Restore_def r u del: map_map)
qed

definition fsm_run :: "bytes list \<Rightarrow> fsm \<Rightarrow> fsm" where
  "fsm_run log f = fold (\<lambda>d f. snd (fsm_Apply d f)) log f"

lemma fsm_Apply_store:
  "Store (fs_st f) = Store (fs_st g) \<Longrightarrow>
     fst (fsm_Apply d f) = fst (fsm_Apply d g)
     \<and> Store (fs_st (snd (fsm_Apply d f))) = Store (fs_st (snd (fsm_Apply d g)))"
  by (auto simp: fsm_Apply_def Execute_def split: prod.splits option.splits)

lemma fsm_run_store:
  "Store (fs_st f) = Store (fs_st g) \<Longrightarrow> Store (fs_st (fsm_run log f)) = Store (fs_st (fsm_run log g))"
proof (induction log arbitrary: f g)
  case (Cons d log)
  have "Store (fs_st (snd (fsm_Apply d f))) = Store (fs_st (snd (fsm_Apply d g)))"
    using fsm_Apply_store [OF Cons.prems] by blast
  from Cons.IH [OF this] show ?case by (simp add: fsm_run_def)
qed (simp add: fsm_run_def)

lemma fsm_run_append: "fsm_run (xs @ ys) f = fsm_run ys (fsm_run xs f)"
  by (simp add: fsm_run_def)

lemma fsm_run_applied: "fs_applied (fsm_run log f) \<le> fs_applied f + int (length log)"
proof (induction log arbitrary: f)
  case (Cons d log)
  have "fs_applied (snd (fsm_Apply d f)) \<le> fs_applied f + 1"
    by (auto simp: fsm_Apply_def split: prod.splits option.splits)
  with Cons [of "snd (fsm_Apply d f)"] show ?case by (simp add: fsm_run_def)
qed (simp add: fsm_run_def)

lemma leader_index_nth:
  "distinct peers \<Longrightarrow> i < length peers \<Longrightarrow> leader_index k (peers ! i) peers = int (k + i)"
proof (induction peers arbitrary: i k)
  case (Cons p ps)
  then show ?case by (cases i) (auto dest: nth_mem)
qed simp

lemma leader_index_notin: "addr \<notin> set peers \<Longrightarrow> leader_index k addr peers = - 1"
  by (induction peers arbitrary: k) auto

lemma build_peers_result:
  "build_peers resolve myAddr aps acc = Some (peers, local) \<Longrightarrow>
     \<exists>addrs. map (resolve \<circ> host_of) aps = map Some addrs \<and> peers = fst acc @ addrs"
proof (induction aps arbitrary: acc)
  case (Cons ap aps)
  from Cons.prems obtain addr where r: "resolve (host_of ap) = Some addr"
    and b: "build_peers resolve myAddr aps
      (fst acc @ [addr], if host_of ap = myAddr then addr else snd acc) = Some (peers, local)"
    by (auto split: option.splits)
  from Cons.IH [OF b] obtain addrs where "map (resolve \<circ> host_of) aps = map Some addrs"
    "peers = (fst acc @ [addr]) @ addrs" by (auto simp only: fst_conv)
  with r show ?case by (intro exI [of _ "addr # addrs"]) (simp only: list.map comp_def append.simps append_assoc simp_thms)
qed (auto split: if_splits)

section \<open>Properties\<close>

text \<open>C22: Recovery from a snapshot is equivalent to replaying the whole log: a replica that restores the
  snapshot taken after a prefix of the log and then applies the rest holds the same store as one that
  applied everything, in whatever order the snapshot enumerated the keys.\<close>

theorem snapshot_recovery_equivalent:
  assumes "distinct order" and "set order = dom (Store (fs_st (fsm_run pre newFSM)))"
    and "length order < 2 ^ 32"
  shows "fst (fsm_Restore (fsm_Snapshot order (fsm_run pre newFSM)) newFSM) = None
    \<and> Store (fs_st (fsm_run post (snd (fsm_Restore (fsm_Snapshot order (fsm_run pre newFSM)) newFSM))))
      = Store (fs_st (fsm_run (pre @ post) newFSM))"
  using fsm_Restore_Snapshot [OF assms, of newFSM]
  by (simp add: fsm_run_append) (intro fsm_run_store, simp)

text \<open>The count of applied commands is not part of a snapshot: after recovery a replica whose state is
  complete reports only the commands it applied since, so a harness that waits for the full count
  never sees it catch up.\<close>

theorem snapshot_forgets_applied_count:
  assumes "distinct order" and "set order = dom (Store (fs_st (fsm_run pre newFSM)))"
    and "length order < 2 ^ 32" and "length post < expected"
  shows "snd (fsm_GetState (fsm_run post (snd (fsm_Restore (fsm_Snapshot order (fsm_run pre newFSM)) newFSM))))
    < int expected"
proof -
  let ?f = "snd (fsm_Restore (fsm_Snapshot order (fsm_run pre newFSM)) newFSM)"
  have "fs_applied ?f = 0" using fsm_Restore_Snapshot [OF assms(1-3), of newFSM] by (simp add: newFSM_def)
  with fsm_run_applied [of "post" ?f] assms (4) show ?thesis by (simp add: fsm_GetState_def)
qed

text \<open>A truncated snapshot is refused and leaves the state machine as it was.\<close>

theorem truncated_snapshot_refused:
  assumes "length order < 2 ^ 32" and "k < length (fsm_Snapshot order f)"
  shows "fst (fsm_Restore (take k (fsm_Snapshot order f)) g) \<noteq> None
    \<and> snd (fsm_Restore (take k (fsm_Snapshot order f)) g) = g"
proof -
  define n where "n = (of_nat (length order) :: u32)"
  have u: "unat n = length order"
    using assms (1) by (simp add: n_def unsigned_of_nat take_bit_nat_eq_self)
  define body where "body = concat (map (\<lambda>k. snapshot_entry (k, the (Store (fs_st f) k))) order)"
  have len: "length body = 16 * length order"
    unfolding body_def by (induction order) simp_all
  have s: "fsm_Snapshot order f = le_bytes 4 n @ body" by (simp add: fsm_Snapshot_def n_def body_def)
  show ?thesis
  proof (cases "k < 4")
    case True
    then have "\<not> 4 \<le> length (take k (fsm_Snapshot order f))" by simp
    then have "readFull 4 (take k (fsm_Snapshot order f)) =
        (Inl (if take k (fsm_Snapshot order f) = [] then EOF else UnexpectedEOF), [])"
      unfolding readFull_def by (simp only: if_False)
    then show ?thesis by (simp add: fsm_Restore_def)
  next
    case False
    then have t: "take k (fsm_Snapshot order f) = le_bytes 4 n @ take (k - 4) body" by (simp add: s)
    have "readFull 4 (take k (fsm_Snapshot order f)) = (Inr (le_bytes 4 n), take (k - 4) body)"
      unfolding t by (rule readFull_append) simp
    moreover have "length (take (k - 4) body) < 16 * length order"
      using assms (2) False by (simp add: s len)
    then obtain e where "restore_loop (length order) Map.empty (take (k - 4) body) = Inl e"
      using restore_short by blast
    ultimately show ?thesis by (simp add: fsm_Restore_def u)
  qed
qed

text \<open>The leader a replica reports is the leader's position in the master's node list, when the peers'
  addresses differ, and -1 when the library knows none or it is not a peer.\<close>

theorem leader_id_is_list_position:
  assumes "build_peers resolve myAddr nodeList ([], '''') = Some (peers, localAddr)"
    and "distinct peers" and "i < length nodeList" and "resolve (host_of (nodeList ! i)) = Some addr"
    and "addr \<noteq> ''''"
  shows "LeaderId peers addr = int i \<and> LeaderId peers '''' = - 1
    \<and> (other \<notin> set peers \<longrightarrow> LeaderId peers other = - 1)"
proof -
  from build_peers_result [OF assms(1)] obtain addrs where
    a: "map (resolve \<circ> host_of) nodeList = map Some addrs" "peers = addrs" by auto
  then have l: "length nodeList = length peers" by (metis length_map)
  have "Some (peers ! i) = resolve (host_of (nodeList ! i))"
    using arg_cong [OF a(1), of "\<lambda>xs. xs ! i"] assms (3) l a(2) by simp
  with assms (4) have "peers ! i = addr" by simp
  then show ?thesis
    using leader_index_nth [OF assms(2), of i 0] assms (3,5) l leader_index_notin [of other peers 0]
    by (auto simp: LeaderId_def)
qed

section \<open>Witnesses\<close>

definition sample_log :: "bytes list" where
  "sample_log =
     [Command_Marshal \<lparr>cmd_Op = PUT, cmd_K = 1, cmd_V = 5\<rparr>,
      Command_Marshal \<lparr>cmd_Op = PUT, cmd_K = 2, cmd_V = 6\<rparr>]"

lemma sample_log_store: "Store (fs_st (fsm_run sample_log newFSM)) = [1 \<mapsto> 5, 2 \<mapsto> 6]"
  using Command_dec_enc [of zero_Command _ "[]"]
  by (simp add: sample_log_def fsm_run_def fsm_Apply_def Execute_def newFSM_def InitState_def)

lemma sample_order: "distinct [2, 1 :: u64]" "set [2, 1] = dom (Store (fs_st (fsm_run sample_log newFSM)))"
  "length [2, 1 :: u64] < 2 ^ 32"
  by (auto simp: sample_log_store)

lemma snapshot_recovery_equivalent_witness:
  "Store (fs_st (snd (fsm_Restore (fsm_Snapshot [2, 1] (fsm_run sample_log newFSM)) newFSM))) = [1 \<mapsto> 5, 2 \<mapsto> 6]"
  using snapshot_recovery_equivalent [OF sample_order, of "[]"] sample_log_store by (simp add: fsm_run_def)

lemma snapshot_forgets_applied_count_witness:
  "snd (fsm_GetState (snd (fsm_Restore (fsm_Snapshot [2, 1] (fsm_run sample_log newFSM)) newFSM))) < 2"
  using snapshot_forgets_applied_count [OF sample_order, of "[]" 2] by (simp add: fsm_run_def)

lemma truncated_snapshot_refused_witness:
  "fst (fsm_Restore (take 20 (fsm_Snapshot [2, 1] (fsm_run sample_log newFSM))) newFSM) \<noteq> None"
proof -
  have "20 < length (fsm_Snapshot [2, 1] (fsm_run sample_log newFSM))" by (simp add: fsm_Snapshot_def)
  from truncated_snapshot_refused [OF sample_order(3) this] show ?thesis by blast
qed

lemma leader_id_is_list_position_witness:
  "LeaderId [''10.0.0.1:6000'', ''10.0.0.2:6000''] ''10.0.0.2:6000'' = 1"
proof -
  let ?res = "\<lambda>h. if h = ''a'' then Some ''10.0.0.1:6000'' else Some ''10.0.0.2:6000''"
  have b: "build_peers ?res ''a'' [''a:7070'', ''b:7070''] ([], '''') =
      Some ([''10.0.0.1:6000'', ''10.0.0.2:6000''], ''10.0.0.1:6000'')"
    by (simp add: host_of_def)
  from leader_id_is_list_position [OF b, of 1 "''10.0.0.2:6000''"] show ?thesis by (simp add: host_of_def)
qed

end
