(* ===== verification/Adapter_Server.thy ===== *)
theory Adapter_Server
  imports Lab_Proto Adapter_Raft
begin

text \<open>
  A client's connection to a replica (\<^verbatim>\<open>handleClient\<close>, the same in the three adapters under
  \<^verbatim>\<open>lab/adapters\<close>): requests are read and answered one at a time, and the connection is closed at the
  end of the stream, at an unknown message type and at a request that does not parse.
\<close>

section \<open>The loop\<close>

text \<open>\<open>h\<close> is \<^verbatim>\<open>handlePropose\<close>: the reply it writes and the replica afterwards. The bytes written to the
  connection, and the replica when it is closed.\<close>

function handleClient :: "(Propose \<Rightarrow> 's \<Rightarrow> ProposeReplyTS \<times> 's) \<Rightarrow> bytes \<Rightarrow> 's \<Rightarrow> bytes \<times> 's" where
  "handleClient h reader s =
     (case readFull 1 reader of
        (Inl _, _) \<Rightarrow> ([], s)
      | (Inr msgType, r1) \<Rightarrow>
          if msgType ! 0 = PROPOSE then
            (case Propose_Unmarshal zero_Propose r1 of
               (Some _, _, _) \<Rightarrow> ([], s)
             | (None, prop, r2) \<Rightarrow>
                 (let (reply, s1) = h prop s;
                      (out, s2) = handleClient h r2 s1
                  in (ProposeReplyTS_Marshal reply @ out, s2)))
          else ([], s))"
  by pat_completeness auto
termination
proof (relation "measure (\<lambda>(h, reader, s). length reader)", goal_cases)
  case (2 h reader s x r1 msgType y t p r2)
  then have "readFull 1 reader = (Inr msgType, r1)" "Propose_Unmarshal zero_Propose r1 = (None, p, r2)" by simp_all
  then have "reader = msgType @ r1" "r1 = Propose_Marshal p @ r2"
    using readFull_Inr Propose_dec_sound by blast+
  moreover have "length (Propose_Marshal p) = 29" by (simp add: Propose_Marshal_def)
  ultimately show ?case by simp
qed simp

declare handleClient.simps [simp del]

section \<open>The handler of the Raft adapter\<close>

text \<open>\<open>apply\<close> is \<^verbatim>\<open>raft.Apply\<close> and its future: the value the state machine returned for the entry, or
  \<open>None\<close> for an error.\<close>

definition raft_handlePropose :: "(bytes \<Rightarrow> 's \<Rightarrow> u64 option \<times> 's) \<Rightarrow> u64 \<Rightarrow> Propose \<Rightarrow> 's \<Rightarrow> ProposeReplyTS \<times> 's" where
  "raft_handlePropose apply now prp s =
     (case apply (raft_payload prp) s of (response, s1) \<Rightarrow> (raft_reply prp now response, s1))"

definition raft_handleClient :: "(bytes \<Rightarrow> 's \<Rightarrow> u64 option \<times> 's) \<Rightarrow> u64 \<Rightarrow> bytes \<Rightarrow> 's \<Rightarrow> bytes \<times> 's" where
  "raft_handleClient apply now = handleClient (raft_handlePropose apply now)"

section \<open>What a client sees\<close>

text \<open>The specification: the requests handled one after the other.\<close>

fun serve_all :: "(Propose \<Rightarrow> 's \<Rightarrow> ProposeReplyTS \<times> 's) \<Rightarrow> Propose list \<Rightarrow> 's \<Rightarrow> ProposeReplyTS list \<times> 's" where
  "serve_all h [] s = ([], s)"
| "serve_all h (p # ps) s =
     (let (reply, s1) = h p s; (rs, s2) = serve_all h ps s1 in (reply # rs, s2))"

definition request_bytes :: "Propose \<Rightarrow> bytes" where
  "request_bytes p = PROPOSE # Propose_Marshal p"

lemma handleClient_request:
  "handleClient h (request_bytes p @ rest) s =
     (let (reply, s1) = h p s; (out, s2) = handleClient h rest s1
      in (ProposeReplyTS_Marshal reply @ out, s2))"
proof -
  have "readFull 1 (request_bytes p @ rest) = (Inr [PROPOSE], Propose_Marshal p @ rest)"
    using readFull_append [of "[PROPOSE]" 1 "Propose_Marshal p @ rest"] by (simp add: request_bytes_def)
  then show ?thesis by (subst handleClient.simps) (simp add: Propose_dec_enc)
qed

definition closes :: "bytes \<Rightarrow> bool" where
  "closes rest \<longleftrightarrow>
     (case rest of [] \<Rightarrow> True | b # r \<Rightarrow> b \<noteq> PROPOSE \<or> fst (Propose_Unmarshal zero_Propose r) \<noteq> None)"

lemma handleClient_closes:
  assumes "closes rest"
  shows "handleClient h rest s = ([], s)"
proof (cases rest)
  case Nil
  then show ?thesis by (subst handleClient.simps) (simp add: readFull_def)
next
  case (Cons b r)
  then have "readFull 1 rest = (Inr [b], r)" using readFull_append [of "[b]" 1 r] by simp
  with assms Cons show ?thesis
    by (subst handleClient.simps) (auto simp: closes_def split: prod.splits option.splits)
qed

lemma handleClient_requests:
  assumes "closes rest"
  shows "handleClient h (concat (map request_bytes ps) @ rest) s
    = (concat (map ProposeReplyTS_Marshal (fst (serve_all h ps s))), snd (serve_all h ps s))"
  by (induction ps arbitrary: s)
    (simp_all add: handleClient_closes [OF assms] handleClient_request Let_def split_beta)

lemma length_serve_all [simp]: "length (fst (serve_all h ps s)) = length ps"
  by (induction ps arbitrary: s) (simp_all add: split_beta Let_def)

section \<open>Properties\<close>

text \<open>C17: A connection answers its requests one for one and in order: what the client decodes from the
  connection is what the handler answered to the requests it sent, each handled in the state the one
  before it left, and a stream that then ends, goes on with an unknown message or is cut off inside a
  request changes nothing more.\<close>

theorem connection_answers_in_order:
  assumes "rest = [] \<or> (\<exists>b r. rest = b # r \<and> (b \<noteq> PROPOSE \<or> (\<exists>p lost. Propose_Marshal p = r @ lost \<and> lost \<noteq> [])))"
  shows "decode_stream ProposeReplyTS_Unmarshal u (length ps)
      (fst (handleClient h (concat (map (\<lambda>p. PROPOSE # Propose_Marshal p) ps) @ rest) s))
      = (None, fst (serve_all h ps s), [])
    \<and> snd (handleClient h (concat (map (\<lambda>p. PROPOSE # Propose_Marshal p) ps) @ rest) s) = snd (serve_all h ps s)"
proof -
  have "closes rest" using assms propose.truncated_fails by (auto simp: closes_def split: list.splits)
  note run = handleClient_requests [OF this, of h ps s]
  from propose_reply_ts.decode_stream_concat [of u "fst (serve_all h ps s)" "[]"]
  show ?thesis using run unfolding request_bytes_def by simp
qed

section \<open>Witnesses\<close>

definition two_requests :: "Propose list" where
  "two_requests =
     [\<lparr>pr_CommandId = 1, pr_Command = \<lparr>cmd_Op = PUT, cmd_K = 7, cmd_V = 3\<rparr>, pr_Timestamp = 0\<rparr>,
      \<lparr>pr_CommandId = 2, pr_Command = \<lparr>cmd_Op = GET, cmd_K = 7, cmd_V = 0\<rparr>, pr_Timestamp = 0\<rparr>]"

text \<open>A Raft cluster of one replica.\<close>

definition apply_at_once :: "bytes \<Rightarrow> fsm \<Rightarrow> u64 option \<times> fsm" where
  "apply_at_once data f = (case fsm_Apply data f of (v, f1) \<Rightarrow> (Some v, f1))"

definition blank_reply :: ProposeReplyTS where
  "blank_reply = \<lparr>ts_OK = 0, ts_CommandId = 0, ts_Value = 0, ts_Timestamp = 0\<rparr>"

lemma connection_answers_in_order_witness:
  "decode_stream ProposeReplyTS_Unmarshal blank_reply 2
     (fst (raft_handleClient apply_at_once 9 (concat (map (\<lambda>p. PROPOSE # Propose_Marshal p) two_requests) @ [PROPOSE]) newFSM))
   = (None, [\<lparr>ts_OK = 1, ts_CommandId = 1, ts_Value = 3, ts_Timestamp = 9\<rparr>,
             \<lparr>ts_OK = 1, ts_CommandId = 2, ts_Value = 3, ts_Timestamp = 9\<rparr>], [])"
proof -
  have ans: "fst (serve_all (raft_handlePropose apply_at_once 9) two_requests newFSM)
      = [\<lparr>ts_OK = 1, ts_CommandId = 1, ts_Value = 3, ts_Timestamp = 9\<rparr>,
         \<lparr>ts_OK = 1, ts_CommandId = 2, ts_Value = 3, ts_Timestamp = 9\<rparr>]"
    using Command_dec_enc [of zero_Command _ "[]"]
    by (simp add: two_requests_def raft_handlePropose_def raft_payload_def raft_reply_def apply_at_once_def
        fsm_Apply_def newFSM_def InitState_def Execute_def op_defs Let_def)
  have cut: "Propose_Marshal zero_Propose = [] @ Propose_Marshal zero_Propose" "Propose_Marshal zero_Propose \<noteq> []"
    by (simp_all add: Propose_Marshal_def Command_Marshal_def)
  have len: "length two_requests = 2" by (simp add: two_requests_def)
  from connection_answers_in_order [of "[PROPOSE]" blank_reply two_requests "raft_handlePropose apply_at_once 9" newFSM]
    cut show ?thesis unfolding raft_handleClient_def len ans by blast
qed

end
