(* ===== verification/Etcd_Wal.thy ===== *)
theory Etcd_Wal
  imports Prelude
begin

text \<open>
  The write-ahead log of the etcd adapter (\<^verbatim>\<open>lab/adapters/etcdraft/wal.go\<close>): framing, the batch
  append and the replay. The types of hard states, entries and of the library's \<^verbatim>\<open>MemoryStorage\<close>,
  their protobuf form and their operations are parameters, gathered in \<open>raft_lib\<close>; the log relies on
  \<open>raft_lib_ok\<close>: decoding gives back what was encoded. A file is its bytes; a failing write leaves some
  prefix of the buffer behind.
\<close>

section \<open>The library\<close>

record ('h, 'e, 's) raft_lib =
  rl_enc_hs :: "'h \<Rightarrow> bytes option"
  rl_dec_hs :: "bytes \<Rightarrow> 'h option"
  rl_enc_entry :: "'e \<Rightarrow> bytes option"
  rl_dec_entry :: "bytes \<Rightarrow> 'e option"
  rl_empty_hs :: "'h \<Rightarrow> bool"
  rl_append :: "'e list \<Rightarrow> 's \<Rightarrow> string + 's"
  rl_set_hs :: "'h \<Rightarrow> 's \<Rightarrow> string + 's"

definition raft_lib_ok :: "('h, 'e, 's) raft_lib \<Rightarrow> bool" where
  "raft_lib_ok L \<longleftrightarrow>
     (\<forall>h b. rl_enc_hs L h = Some b \<longrightarrow> rl_dec_hs L b = Some h)
     \<and> (\<forall>e b. rl_enc_entry L e = Some b \<longrightarrow> rl_dec_entry L b = Some e)"

section \<open>Writing\<close>

definition walKindHardState :: byte where "walKindHardState = 1"
definition walKindEntry :: byte where "walKindEntry = 2"

definition frame :: "byte \<Rightarrow> bytes \<Rightarrow> bytes" where
  "frame kind body = be_bytes 4 (of_nat (1 + length body) :: u32) @ [kind] @ body"

fun entry_records :: "('h, 'e, 's) raft_lib \<Rightarrow> 'e list \<Rightarrow> string + bytes list" where
  "entry_records L [] = Inr []"
| "entry_records L (e # es) =
     (case rl_enc_entry L e of
        None \<Rightarrow> Inl ''marshal''
      | Some body \<Rightarrow>
          (case entry_records L es of
             Inl err \<Rightarrow> Inl err
           | Inr recs \<Rightarrow> Inr (frame walKindEntry body # recs)))"

text \<open>\<open>hs\<close> may be nil.\<close>

definition wal_records :: "('h, 'e, 's) raft_lib \<Rightarrow> 'h option \<Rightarrow> 'e list \<Rightarrow> string + bytes list" where
  "wal_records L hs entries =
     (let entries_after = (\<lambda>recs. case entry_records L entries of
             Inl err \<Rightarrow> Inl err | Inr rs \<Rightarrow> Inr (recs @ rs))
      in case hs of
           None \<Rightarrow> entries_after []
         | Some h \<Rightarrow>
             (if rl_empty_hs L h then entries_after []
              else case rl_enc_hs L h of
                     None \<Rightarrow> Inl ''marshal''
                   | Some body \<Rightarrow> entries_after [frame walKindHardState body]))"

fun batch_bytes :: "('h, 'e, 's) raft_lib \<Rightarrow> ('h option \<times> 'e list) list \<Rightarrow> string + bytes" where
  "batch_bytes L [] = Inr []"
| "batch_bytes L ((hs, entries) # items) =
     (case wal_records L hs entries of
        Inl err \<Rightarrow> Inl err
      | Inr recs \<Rightarrow>
          (case batch_bytes L items of
             Inl err \<Rightarrow> Inl err
           | Inr buf \<Rightarrow> Inr (concat recs @ buf)))"

record wal =
  w_file :: bytes
  w_off :: nat
  w_synced :: nat

definition openWAL :: "bytes \<Rightarrow> wal" where
  "openWAL file = \<lparr>w_file = file, w_off = length file, w_synced = 0\<rparr>"

text \<open>\<open>failed_after\<close> is \<open>Some k\<close> when the write fails with \<open>k\<close> bytes written; \<open>w_synced\<close> is how much of the
  file is known to be on stable storage.\<close>

definition appendBatch ::
  "('h, 'e, 's) raft_lib \<Rightarrow> nat option \<Rightarrow> bool \<Rightarrow> ('h option \<times> 'e list) list \<Rightarrow> bool \<Rightarrow> wal
     \<Rightarrow> string option \<times> wal" where
  "appendBatch L failed_after sync_fails items sync w =
     (case batch_bytes L items of
        Inl err \<Rightarrow> (Some err, w)
      | Inr buf \<Rightarrow>
          (if length buf = 0 then (None, w)
           else case failed_after of
             Some k \<Rightarrow> (Some ''write'', w\<lparr>w_file := take (w_off w) (w_file w) @ take k buf\<rparr>)
           | None \<Rightarrow>
               (let w1 = w\<lparr>w_file := take (w_off w) (w_file w) @ buf, w_off := w_off w + length buf\<rparr>
                in if sync
                   then (if sync_fails then (Some ''sync'', w1) else (None, w1\<lparr>w_synced := w_off w1\<rparr>))
                   else (None, w1))))"

section \<open>Replay\<close>

definition wal_flush :: "('h, 'e, 's) raft_lib \<Rightarrow> 'e list \<Rightarrow> 's \<Rightarrow> string + 's" where
  "wal_flush L entries ms = (if entries = [] then Inr ms else rl_append L entries ms)"

lemma readFull_shrinks: "(Inr xs, ys) = readFull n bs \<Longrightarrow> length bs = length ys + n"
  using readFull_Inr [of n bs xs ys] by auto

function load_loop :: "('h, 'e, 's) raft_lib \<Rightarrow> 'e list \<Rightarrow> bytes \<Rightarrow> 's \<Rightarrow> string + 's" where
  "load_loop L entries f ms =
     (case readFull 4 f of
        (Inl err, _) \<Rightarrow> wal_flush L entries ms
      | (Inr lenBuf, f1) \<Rightarrow>
          (let n = be_word lenBuf :: u32 in
           if n = 0 then Inl ''zero-length record''
           else case readFull (unat n) f1 of
             (Inl EOF, _) \<Rightarrow> Inl ''EOF''
           | (Inl UnexpectedEOF, _) \<Rightarrow> Inl ''unexpected EOF''
           | (Inr body, f2) \<Rightarrow>
               (if body ! 0 = walKindHardState then
                  (case rl_dec_hs L (drop 1 body) of
                     None \<Rightarrow> Inl ''unmarshal''
                   | Some hs \<Rightarrow>
                       (case wal_flush L entries ms of
                          Inl err \<Rightarrow> Inl err
                        | Inr ms1 \<Rightarrow>
                            (case rl_set_hs L hs ms1 of
                               Inl err \<Rightarrow> Inl err
                             | Inr ms2 \<Rightarrow> load_loop L [] f2 ms2)))
                else if body ! 0 = walKindEntry then
                  (case rl_dec_entry L (drop 1 body) of
                     None \<Rightarrow> Inl ''unmarshal''
                   | Some e \<Rightarrow> load_loop L (entries @ [e]) f2 ms)
                else Inl ''unknown record kind'')))"
  by pat_completeness auto

termination
  by (relation "measure (\<lambda>(L, entries, f, ms). length f)") (auto dest!: readFull_shrinks)

declare load_loop.simps [simp del]

text \<open>A missing file (\<open>None\<close>) is a fresh replica.\<close>

definition loadWAL :: "('h, 'e, 's) raft_lib \<Rightarrow> bytes option \<Rightarrow> 's \<Rightarrow> string + 's" where
  "loadWAL L file ms = (case file of None \<Rightarrow> Inr ms | Some f \<Rightarrow> load_loop L [] f ms)"

section \<open>What a log means\<close>

text \<open>The specification: a log is a list of records, and replaying it hands each maximal run of entries
  between two hard states to the storage in one piece.\<close>

datatype ('h, 'e) walrec = Hard 'h | Ent 'e

fun replay :: "('h, 'e, 's) raft_lib \<Rightarrow> 'e list \<Rightarrow> ('h, 'e) walrec list \<Rightarrow> 's \<Rightarrow> string + 's" where
  "replay L entries [] ms = wal_flush L entries ms"
| "replay L entries (Ent e # rs) ms = replay L (entries @ [e]) rs ms"
| "replay L entries (Hard h # rs) ms =
     (case wal_flush L entries ms of
        Inl err \<Rightarrow> Inl err
      | Inr ms1 \<Rightarrow> (case rl_set_hs L h ms1 of Inl err \<Rightarrow> Inl err | Inr ms2 \<Rightarrow> replay L [] rs ms2))"

definition item_records :: "('h, 'e, 's) raft_lib \<Rightarrow> 'h option \<times> 'e list \<Rightarrow> ('h, 'e) walrec list" where
  "item_records L it =
     (case fst it of None \<Rightarrow> [] | Some h \<Rightarrow> if rl_empty_hs L h then [] else [Hard h]) @ map Ent (snd it)"

fun rec_bytes :: "('h, 'e, 's) raft_lib \<Rightarrow> ('h, 'e) walrec \<Rightarrow> bytes" where
  "rec_bytes L (Hard h) = frame walKindHardState (the (rl_enc_hs L h))"
| "rec_bytes L (Ent e) = frame walKindEntry (the (rl_enc_entry L e))"

text \<open>The record can be encoded, in less than 2 ^ 32 bytes.\<close>

fun rec_fits :: "('h, 'e, 's) raft_lib \<Rightarrow> ('h, 'e) walrec \<Rightarrow> bool" where
  "rec_fits L (Hard h) = (case rl_enc_hs L h of None \<Rightarrow> False | Some b \<Rightarrow> length b < 2 ^ 32 - 1)"
| "rec_fits L (Ent e) = (case rl_enc_entry L e of None \<Rightarrow> False | Some b \<Rightarrow> length b < 2 ^ 32 - 1)"

section \<open>Facts\<close>

lemma frame_length: "length (frame kind body) = 5 + length body"
  by (simp add: frame_def)

lemma unat_frame_len: "length body < 2 ^ 32 - 1 \<Longrightarrow> unat (of_nat (1 + length body) :: u32) = 1 + length body"
  by (simp add: unsigned_of_nat take_bit_nat_eq_self del: of_nat_add of_nat_Suc)

lemma load_frame:
  assumes "length body < 2 ^ 32 - 1"
  shows "load_loop L entries (frame kind body @ rest) ms =
    (if kind = walKindHardState then
       (case rl_dec_hs L body of
          None \<Rightarrow> Inl ''unmarshal''
        | Some hs \<Rightarrow>
            (case wal_flush L entries ms of
               Inl err \<Rightarrow> Inl err
             | Inr ms1 \<Rightarrow> (case rl_set_hs L hs ms1 of Inl err \<Rightarrow> Inl err | Inr ms2 \<Rightarrow> load_loop L [] rest ms2)))
     else if kind = walKindEntry then
       (case rl_dec_entry L body of
          None \<Rightarrow> Inl ''unmarshal''
        | Some e \<Rightarrow> load_loop L (entries @ [e]) rest ms)
     else Inl ''unknown record kind'')"
proof -
  define n where "n = (of_nat (1 + length body) :: u32)"
  have u: "unat n = 1 + length body" unfolding n_def by (rule unat_frame_len [OF assms])
  then have nz: "n \<noteq> 0" by auto
  have "frame kind body @ rest = be_bytes 4 n @ (kind # body @ rest)" by (simp add: frame_def n_def)
  then have r1: "readFull 4 (frame kind body @ rest) = (Inr (be_bytes 4 n), kind # body @ rest)"
    using readFull_append [of "be_bytes 4 n" 4] by simp
  have r2: "readFull (unat n) (kind # body @ rest) = (Inr (kind # body), rest)"
    using readFull_append [of "kind # body" "unat n" rest] by (simp add: u)
  show ?thesis
    by (subst load_loop.simps) (simp add: r1 nz r2 Let_def)
qed

lemma load_record:
  assumes "raft_lib_ok L" and "rec_fits L r"
  shows "load_loop L entries (rec_bytes L r @ rest) ms =
    (case r of
       Hard h \<Rightarrow>
         (case wal_flush L entries ms of
            Inl err \<Rightarrow> Inl err
          | Inr ms1 \<Rightarrow> (case rl_set_hs L h ms1 of Inl err \<Rightarrow> Inl err | Inr ms2 \<Rightarrow> load_loop L [] rest ms2))
     | Ent e \<Rightarrow> load_loop L (entries @ [e]) rest ms)"
proof (cases r)
  case (Hard h)
  with assms obtain b where "rl_enc_hs L h = Some b" "length b < 2 ^ 32 - 1" "rl_dec_hs L b = Some h"
    by (auto simp: raft_lib_ok_def split: option.splits)
  with Hard show ?thesis by (simp add: load_frame)
next
  case (Ent e)
  with assms obtain b where "rl_enc_entry L e = Some b" "length b < 2 ^ 32 - 1" "rl_dec_entry L b = Some e"
    by (auto simp: raft_lib_ok_def split: option.splits)
  with Ent show ?thesis by (simp add: load_frame walKindEntry_def walKindHardState_def)
qed

text \<open>Replaying a prefix first: what is left to do when the next record is damaged.\<close>

fun replay_then ::
  "('h, 'e, 's) raft_lib \<Rightarrow> 'e list \<Rightarrow> ('h, 'e) walrec list \<Rightarrow> ('e list \<Rightarrow> 's \<Rightarrow> string + 's) \<Rightarrow> 's \<Rightarrow> string + 's" where
  "replay_then L entries [] k ms = k entries ms"
| "replay_then L entries (Ent e # rs) k ms = replay_then L (entries @ [e]) rs k ms"
| "replay_then L entries (Hard h # rs) k ms =
     (case wal_flush L entries ms of
        Inl err \<Rightarrow> Inl err
      | Inr ms1 \<Rightarrow> (case rl_set_hs L h ms1 of Inl err \<Rightarrow> Inl err | Inr ms2 \<Rightarrow> replay_then L [] rs k ms2))"

lemma replay_then_flush: "replay_then L entries rs (wal_flush L) ms = replay L entries rs ms"
  by (induction L entries rs ms rule: replay.induct) (auto split: sum.split)

lemma replay_then_error:
  assumes "\<And>es ms. \<exists>err. f es ms = Inl err"
  shows "\<exists>err. replay_then L es rs f ms = Inl err"
proof (induction rs arbitrary: es ms)
  case Nil
  then show ?case by (simp add: assms)
next
  case (Cons r rs)
  then show ?case by (cases r) (auto split: sum.split)
qed

lemma load_records_then:
  assumes "raft_lib_ok L" and "\<forall>r \<in> set rs. rec_fits L r"
  shows "load_loop L entries (concat (map (rec_bytes L) rs) @ rest) ms =
    replay_then L entries rs (\<lambda>es. load_loop L es rest) ms"
  using assms (2)
proof (induction rs arbitrary: entries ms)
  case (Cons r rs)
  let ?rest = "concat (map (rec_bytes L) rs) @ rest"
  have "rec_fits L r" using Cons.prems by simp
  note step = load_record [OF assms(1) this, of entries ?rest ms]
  have "load_loop L entries (concat (map (rec_bytes L) (r # rs)) @ rest) ms
      = load_loop L entries (rec_bytes L r @ ?rest) ms" by simp
  note eq = this [unfolded step]
  show ?case
    unfolding eq using Cons.prems by (cases r) (auto simp: Cons.IH split: sum.split)
qed simp

lemma load_short: "length f < 4 \<Longrightarrow> load_loop L entries f ms = wal_flush L entries ms"
  by (subst load_loop.simps) (simp add: readFull_def)

lemma load_torn_body:
  assumes "length body < 2 ^ 32 - 1" and "4 \<le> k" and "k < 5 + length body"
  shows "\<exists>err. load_loop L entries (take k (frame kind body)) ms = Inl err"
proof -
  define n where "n = (of_nat (1 + length body) :: u32)"
  have u: "unat n = 1 + length body" unfolding n_def by (rule unat_frame_len [OF assms(1)])
  then have nz: "n \<noteq> 0" by auto
  have f: "frame kind body = be_bytes 4 n @ (kind # body)" by (simp add: frame_def n_def)
  have t: "take k (frame kind body) = be_bytes 4 n @ take (k - 4) (kind # body)"
    unfolding f using assms (2) by (simp add: take_append)
  have r1: "readFull 4 (take k (frame kind body)) = (Inr (be_bytes 4 n), take (k - 4) (kind # body))"
    unfolding t by (rule readFull_append) simp
  have "length (take (k - 4) (kind # body)) < unat n" using assms (3) by (simp only: u) auto
  then have "\<not> unat n \<le> length (take (k - 4) (kind # body))" by (simp only: not_le)
  then obtain e where r2: "readFull (unat n) (take (k - 4) (kind # body)) = (Inl e, [])"
    unfolding readFull_def by (simp only: if_False)
  show ?thesis
    by (subst load_loop.simps) (cases e; simp add: r1 nz r2 Let_def)
qed

lemma entry_records_bytes:
  "entry_records L es = Inr recs \<Longrightarrow>
     concat recs = concat (map (rec_bytes L) (map Ent es))
     \<and> (\<forall>e \<in> set es. rl_enc_entry L e \<noteq> None)"
  by (induction L es arbitrary: recs rule: entry_records.induct) (auto split: option.splits sum.splits)

lemma wal_records_bytes:
  "wal_records L hs es = Inr recs \<Longrightarrow> concat recs = concat (map (rec_bytes L) (item_records L (hs, es)))"
  by (auto simp: wal_records_def item_records_def Let_def dest!: entry_records_bytes
      split: option.splits sum.splits if_splits)

lemma batch_bytes_records:
  "batch_bytes L items = Inr buf \<Longrightarrow>
     buf = concat (map (rec_bytes L) (concat (map (item_records L) items)))"
proof (induction L items arbitrary: buf rule: batch_bytes.induct)
  case (2 L hs entries items)
  then obtain recs buf' where r: "wal_records L hs entries = Inr recs" "batch_bytes L items = Inr buf'"
    "buf = concat recs @ buf'"
    by (auto split: sum.splits)
  with "2.IH" [OF r(1) r(2)] wal_records_bytes [OF r(1)] show ?case by simp
qed simp

text \<open>A sequence of successful appends.\<close>

definition appended :: "('h, 'e, 's) raft_lib \<Rightarrow> (('h option \<times> 'e list) list \<times> bool) list \<Rightarrow> wal \<Rightarrow> wal" where
  "appended L batches w = fold (\<lambda>(items, sync) w. snd (appendBatch L None False items sync w)) batches w"

lemma appendBatch_file:
  assumes "w_off w = length (w_file w)" and "batch_bytes L items = Inr buf"
  shows "w_file (snd (appendBatch L None False items sync w)) = w_file w @ buf"
    and "w_off (snd (appendBatch L None False items sync w)) = length (w_file w @ buf)"
  using assms by (auto simp: appendBatch_def Let_def)

lemma appended_file:
  assumes "w_off w = length (w_file w)"
    and "\<forall>(items, sync) \<in> set batches. \<exists>buf. batch_bytes L items = Inr buf"
  shows "w_file (appended L batches w) = w_file w
    @ concat (map (rec_bytes L) (concat (map (item_records L) (concat (map fst batches)))))"
  using assms
proof (induction batches arbitrary: w)
  case (Cons b batches)
  obtain items sync where b: "b = (items, sync)" by fastforce
  with Cons.prems obtain buf where buf: "batch_bytes L items = Inr buf" by auto
  note f = appendBatch_file [OF Cons.prems(1) buf, of sync]
  have "w_file (appended L batches (snd (appendBatch L None False items sync w)))
      = w_file (snd (appendBatch L None False items sync w))
        @ concat (map (rec_bytes L) (concat (map (item_records L) (concat (map fst batches)))))"
    using Cons.prems f by (intro Cons.IH) auto
  then show ?case
    using f batch_bytes_records [OF buf] by (simp add: appended_def b)
qed (simp add: appended_def)

section \<open>Properties\<close>

text \<open>C18: A replica that restarts from its log resumes with what it had persisted: replaying the file that a
  sequence of successful batch appends left behind has the effect of the hard states and entries of all
  batches, in order, whether or not the appends were synced.\<close>

theorem wal_replay_restores:
  assumes "raft_lib_ok L"
    and "\<forall>(items, sync) \<in> set batches. \<exists>buf. batch_bytes L items = Inr buf"
    and "recs = concat (map (item_records L) (concat (map fst batches)))"
    and "\<forall>r \<in> set recs. rec_fits L r"
  shows "loadWAL L (Some (w_file (appended L batches (openWAL [])))) ms = replay L [] recs ms"
proof -
  have "w_file (appended L batches (openWAL [])) = concat (map (rec_bytes L) recs)"
    using appended_file [of "openWAL []" batches L] assms (2,3) by (simp add: openWAL_def)
  moreover have "(\<lambda>es. load_loop L es []) = wal_flush L" by (intro ext load_short) simp
  ultimately show ?thesis
    using load_records_then [OF assms(1,4), of "[]" "[]" ms]
    by (simp add: loadWAL_def replay_then_flush)
qed

text \<open>A write torn in the four length bytes of a record loses that record silently, a write torn
  later makes the log unreadable: the replica that finds it does not start.\<close>

theorem torn_wal:
  assumes "raft_lib_ok L" and "\<forall>r \<in> set recs. rec_fits L r" and "rec_fits L r"
    and "k < length (rec_bytes L r)"
  shows "(k < 4 \<longrightarrow> loadWAL L (Some (concat (map (rec_bytes L) recs) @ take k (rec_bytes L r))) ms
        = replay L [] recs ms)
    \<and> (4 \<le> k \<longrightarrow>
        (\<exists>err. loadWAL L (Some (concat (map (rec_bytes L) recs) @ take k (rec_bytes L r))) ms = Inl err))"
proof (intro conjI impI)
  note split = load_records_then [OF assms(1,2), of "[]" "take k (rec_bytes L r)" ms]
  {
    assume k: "k < 4"
    have "(\<lambda>es. load_loop L es (take k (rec_bytes L r))) = wal_flush L"
      using k by (intro ext load_short) simp
    then show "loadWAL L (Some (concat (map (rec_bytes L) recs) @ take k (rec_bytes L r))) ms
        = replay L [] recs ms"
      using split by (simp add: loadWAL_def replay_then_flush)
  }
  {
    assume k: "4 \<le> k"
    obtain kind body where b: "rec_bytes L r = frame kind body" "length body < 2 ^ 32 - 1"
    proof (cases r)
      case (Hard h)
      with assms (3) that show ?thesis by (auto split: option.splits)
    next
      case (Ent e)
      with assms (3) that show ?thesis by (auto split: option.splits)
    qed
    have "\<exists>err. load_loop L es (take k (rec_bytes L r)) ms' = Inl err" for es ms'
      unfolding b(1) using load_torn_body [OF b(2) k] assms (4) b(1) by (simp add: frame_length)
    then have err: "\<exists>err. (\<lambda>es. load_loop L es (take k (rec_bytes L r))) es ms' = Inl err" for es ms' by simp
    from replay_then_error [OF err] split
    show "\<exists>err. loadWAL L (Some (concat (map (rec_bytes L) recs) @ take k (rec_bytes L r))) ms = Inl err"
      by (simp add: loadWAL_def)
  }
qed

section \<open>Witnesses\<close>

text \<open>A storage that keeps everything, with one-byte hard states and entries.\<close>

definition sample_lib :: "(byte, byte, byte list \<times> byte) raft_lib" where
  "sample_lib =
     \<lparr>rl_enc_hs = (\<lambda>h. Some [h]), rl_dec_hs = (\<lambda>b. case b of [h] \<Rightarrow> Some h | _ \<Rightarrow> None),
      rl_enc_entry = (\<lambda>e. Some [e]), rl_dec_entry = (\<lambda>b. case b of [e] \<Rightarrow> Some e | _ \<Rightarrow> None),
      rl_empty_hs = (\<lambda>h. h = 0), rl_append = (\<lambda>es (xs, h). Inr (xs @ es, h)),
      rl_set_hs = (\<lambda>h (xs, _). Inr (xs, h))\<rparr>"

lemma sample_lib_ok: "raft_lib_ok sample_lib"
  by (simp add: raft_lib_ok_def sample_lib_def)

definition sample_batches :: "((byte option \<times> byte list) list \<times> bool) list" where
  "sample_batches = [([(Some 7, [1, 2]), (Some 0, [3])], True), ([(Some 8, [])], False)]"

lemma wal_replay_restores_witness:
  "loadWAL sample_lib (Some (w_file (appended sample_lib sample_batches (openWAL [])))) ([], 0)
     = Inr ([1, 2, 3], 8)"
proof -
  let ?recs = "[Hard 7, Ent 1, Ent 2, Ent 3, Hard 8] :: (byte, byte) walrec list"
  have e: "?recs = concat (map (item_records sample_lib) (concat (map fst sample_batches)))"
    by (simp add: sample_batches_def item_records_def sample_lib_def)
  have b: "\<forall>(items, sync) \<in> set sample_batches. \<exists>buf. batch_bytes sample_lib items = Inr buf"
    by (simp add: sample_batches_def sample_lib_def wal_records_def Let_def)
  have f: "\<forall>r \<in> set ?recs. rec_fits sample_lib r" by (simp add: sample_lib_def)
  have "replay sample_lib [] ?recs ([], 0) = Inr ([1, 2, 3], 8)"
    by (simp add: sample_lib_def wal_flush_def)
  with wal_replay_restores [OF sample_lib_ok b e f] show ?thesis by simp
qed

lemma torn_wal_witness:
  "loadWAL sample_lib (Some (rec_bytes sample_lib (Ent 1) @ take 3 (rec_bytes sample_lib (Ent 2)))) ([], 0)
     = Inr ([1], 0)
   \<and> (\<exists>err. loadWAL sample_lib (Some (rec_bytes sample_lib (Ent 1) @ take 5 (rec_bytes sample_lib (Ent 2))))
        ([], 0) = Inl err)"
proof -
  have f: "\<forall>r \<in> set [Ent 1]. rec_fits sample_lib r" "rec_fits sample_lib (Ent 2)"
    by (simp_all add: sample_lib_def)
  have l: "3 < length (rec_bytes sample_lib (Ent 2))" "5 < length (rec_bytes sample_lib (Ent 2))"
    by (simp_all add: frame_length sample_lib_def)
  have r: "replay sample_lib [] [Ent 1] ([], 0) = Inr ([1], 0)" by (simp add: sample_lib_def wal_flush_def)
  from torn_wal [OF sample_lib_ok f l(1), of "([], 0)"] torn_wal [OF sample_lib_ok f l(2), of "([], 0)"] r
  show ?thesis by simp
qed

end
