(* ===== verification/Etcd_Node.thy ===== *)
theory Etcd_Node
  imports Etcd_Wal
begin

text \<open>
  The network and storage side of the etcd adapter (\<^verbatim>\<open>lab/adapters/etcdraft/main.go\<close>): the peer
  transport with its frames, per-peer queues and the election-failure injection; the thread that owns the
  durable log; and the routing of a \<^verbatim>\<open>Ready\<close>.

  A Raft message is what the adapter sees of it: its type, its destination, its protobuf form (\<open>None\<close> when
  it cannot be marshalled) and, for a storage message, entries, responses and hard state. Delivering a
  message to the local node and queueing a frame for a peer are recorded in order; whether the isolation
  is active is read at each message.
\<close>

section \<open>Transport\<close>

datatype pb_type = MsgVote | MsgPreVote | MsgOther

record pb_message =
  pb_Type :: pb_type
  pb_To :: u64
  pb_body :: "bytes option"

record transport =
  tp_selfID :: u64
  tp_outbox :: "u64 \<rightharpoonup> bytes list"
  tp_isoUntil :: int
  tp_droppedPre :: int
  tp_droppedV :: int
  tp_steps :: "pb_message list"

definition newTransport :: "u64 \<Rightarrow> u64 list \<Rightarrow> transport" where
  "newTransport selfID addrs =
     \<lparr>tp_selfID = selfID, tp_outbox = map_of (map (\<lambda>id. (id, [])) addrs), tp_isoUntil = 0,
      tp_droppedPre = 0, tp_droppedV = 0, tp_steps = []\<rparr>"

definition isolateFor :: "int \<Rightarrow> int \<Rightarrow> transport \<Rightarrow> transport" where
  "isolateFor now d t = t\<lparr>tp_isoUntil := now + d\<rparr>"

definition clear_isolation :: "transport \<Rightarrow> transport" where
  "clear_isolation t = t\<lparr>tp_isoUntil := 0\<rparr>"

definition isolated :: "int \<Rightarrow> transport \<Rightarrow> bool" where
  "isolated now t \<longleftrightarrow> tp_isoUntil t \<noteq> 0 \<and> now < tp_isoUntil t"

definition IsolateElections :: "int \<Rightarrow> int \<Rightarrow> transport \<Rightarrow> transport" where
  "IsolateElections now durationMS t =
     (if durationMS \<le> 0 then clear_isolation t else isolateFor now (durationMS * 1000000) t)"

definition transport_frame :: "bytes \<Rightarrow> bytes" where
  "transport_frame body = be_bytes 4 (of_nat (length body) :: u32) @ body"

text \<open>One message, with the time at which it is handled. Sending to a replica without a queue blocks for
  ever (\<open>None\<close>).\<close>

definition send_one :: "int \<times> pb_message \<Rightarrow> transport \<Rightarrow> transport option" where
  "send_one nm t =
     (let (now, m) = nm in
      if isolated now t \<and> pb_Type m = MsgPreVote then Some (t\<lparr>tp_droppedPre := tp_droppedPre t + 1\<rparr>)
      else if isolated now t \<and> pb_Type m = MsgVote then Some (t\<lparr>tp_droppedV := tp_droppedV t + 1\<rparr>)
      else if pb_To m = tp_selfID t then Some (t\<lparr>tp_steps := tp_steps t @ [m]\<rparr>)
      else case pb_body m of
        None \<Rightarrow> Some t
      | Some body \<Rightarrow>
          (case tp_outbox t (pb_To m) of
             None \<Rightarrow> None
           | Some q \<Rightarrow> Some (t\<lparr>tp_outbox := (tp_outbox t)(pb_To m \<mapsto> q @ [transport_frame body])\<rparr>)))"

fun send :: "(int \<times> pb_message) list \<Rightarrow> transport \<Rightarrow> transport option" where
  "send [] t = Some t"
| "send (m # ms) t = (case send_one m t of None \<Rightarrow> None | Some t1 \<Rightarrow> send ms t1)"

text \<open>The receiving side: the messages handed to the node, until the stream ends or is given up.\<close>

definition maxFrame :: nat where "maxFrame = 8388608"

function serve :: "(bytes \<Rightarrow> 'm option) \<Rightarrow> ('m \<Rightarrow> bool) \<Rightarrow> bytes \<Rightarrow> 'm list" where
  "serve dec step_ok r =
     (case readFull 4 r of
        (Inl _, _) \<Rightarrow> []
      | (Inr hdr, r1) \<Rightarrow>
          (let n = be_word hdr :: u32 in
           if n = 0 \<or> unat n > maxFrame then []
           else case readFull (unat n) r1 of
             (Inl _, _) \<Rightarrow> []
           | (Inr buf, r2) \<Rightarrow>
               (case dec buf of
                  None \<Rightarrow> []
                | Some m \<Rightarrow> if step_ok m then m # serve dec step_ok r2 else [m])))"
  by pat_completeness auto

termination
  by (relation "measure (\<lambda>(dec, ok, r). length r)") (auto dest!: readFull_shrinks)

declare serve.simps [simp del]

text \<open>The persistent connection of a peer: one write, and a second one on a fresh connection if it fails.
  \<open>dials\<close> and \<open>writes\<close> say how the attempts end.\<close>

definition pc_write :: "bool \<Rightarrow> bool \<Rightarrow> bool \<Rightarrow> bool \<times> bool" where
  "pc_write connected dial_ok write_ok =
     (if \<not> connected \<and> \<not> dial_ok then (False, False) else (write_ok, True))"

definition sendOne :: "bool \<times> bool \<Rightarrow> bool \<times> bool \<Rightarrow> bool \<Rightarrow> bool \<times> bool" where
  "sendOne first second connected =
     (case pc_write connected (fst first) (snd first) of
        (True, c) \<Rightarrow> (True, c)
      | (False, _) \<Rightarrow>
          (case pc_write False (fst second) (snd second) of
             (True, c) \<Rightarrow> (True, c)
           | (False, _) \<Rightarrow> (False, False)))"

section \<open>The thread that owns the log\<close>

record ('h, 'e, 'r, 'n) append_msg =
  am_hs :: 'h
  am_Entries :: "'e list"
  am_Responses :: "'r list"
  am_Snapshot :: "'n option"

datatype ('h, 'e, 'r, 'n) effect =
    Apply_snapshot 'n
  | Wal_append "('h option \<times> 'e list) list" bool
  | Storage_append "'e list"
  | Set_hard_state 'h
  | Compact nat
  | Respond 'r

definition appendBatchMax :: nat where "appendBatchMax = 64"

text \<open>How many of the waiting messages the thread takes in one batch.\<close>

definition take_batch :: "'m list \<Rightarrow> 'm list \<times> 'm list" where
  "take_batch waiting = (take appendBatchMax waiting, drop appendBatchMax waiting)"

definition batch_items :: "('h \<Rightarrow> bool) \<Rightarrow> ('h, 'e, 'r, 'n) append_msg list \<Rightarrow> ('h option \<times> 'e list) list" where
  "batch_items isEmpty batch =
     map (\<lambda>m. (Some (am_hs m), am_Entries m))
       (filter (\<lambda>m. \<not> isEmpty (am_hs m) \<or> length (am_Entries m) > 0) batch)"

definition batch_sync :: "('h, 'e, 'r, 'n) append_msg list \<Rightarrow> bool" where
  "batch_sync batch = list_ex (\<lambda>m. length (am_Responses m) > 0) batch"

definition last_appended :: "('e \<Rightarrow> nat) \<Rightarrow> ('h, 'e, 'r, 'n) append_msg list \<Rightarrow> nat" where
  "last_appended index batch =
     fold (\<lambda>m l. if length (am_Entries m) > 0 then index (last (am_Entries m)) else l) batch 0"

text \<open>One turn of \<^verbatim>\<open>appendThread\<close>; \<open>durable\<close> is whether there is a write-ahead log, \<open>compacts\<close> whether
  \<^verbatim>\<open>Compact\<close> succeeds. The new \<open>lastCompact\<close>, and the effects in order.\<close>

definition append_turn ::
  "('h \<Rightarrow> bool) \<Rightarrow> ('e \<Rightarrow> nat) \<Rightarrow> bool \<Rightarrow> nat \<Rightarrow> nat \<Rightarrow> bool \<Rightarrow> nat \<Rightarrow> ('h, 'e, 'r, 'n) append_msg list
     \<Rightarrow> nat \<times> ('h, 'e, 'r, 'n) effect list" where
  "append_turn isEmpty index durable trailingLog applied compacts lastCompact batch =
     (let snaps = concat (map (\<lambda>m. case am_Snapshot m of None \<Rightarrow> [] | Some s \<Rightarrow> [Apply_snapshot s]) batch);
          wal = (if durable then [Wal_append (batch_items isEmpty batch) (batch_sync batch)] else []);
          storage = concat (map (\<lambda>m.
              (if length (am_Entries m) > 0 then [Storage_append (am_Entries m)] else [])
              @ (if isEmpty (am_hs m) then [] else [Set_hard_state (am_hs m)])) batch);
          to = applied - trailingLog;
          wanted = (applied > trailingLog + 1 \<and> to > lastCompact \<and> to \<le> last_appended index batch);
          responses = concat (map (\<lambda>m. map Respond (am_Responses m)) batch)
      in (if wanted \<and> compacts then to else lastCompact,
          snaps @ wal @ storage @ (if wanted then [Compact to] else []) @ responses))"

section \<open>Routing\<close>

datatype route = To_append | To_apply | To_peer

definition route_message :: "u64 \<Rightarrow> u64 \<Rightarrow> u64 \<Rightarrow> route" where
  "route_message localAppend localApply to =
     (if to = localAppend then To_append else if to = localApply then To_apply else To_peer)"

section \<open>Facts\<close>

lemma serve_frame:
  assumes "0 < length body" and "length body \<le> maxFrame"
  shows "serve dec step_ok (transport_frame body @ rest) =
    (case dec body of None \<Rightarrow> [] | Some m \<Rightarrow> if step_ok m then m # serve dec step_ok rest else [m])"
proof -
  define n where "n = (of_nat (length body) :: u32)"
  have "length body < 2 ^ 32" using assms (2) by (simp add: maxFrame_def)
  then have u: "unat n = length body" by (simp add: n_def unsigned_of_nat take_bit_nat_eq_self)
  then have nz: "n \<noteq> 0" using assms (1) by auto
  have "transport_frame body @ rest = be_bytes 4 n @ (body @ rest)" by (simp add: transport_frame_def n_def)
  then have r1: "readFull 4 (transport_frame body @ rest) = (Inr (be_bytes 4 n), body @ rest)"
    using readFull_append [of "be_bytes 4 n" 4] by simp
  have r2: "readFull (length body) (body @ rest) = (Inr body, rest)"
    by (rule readFull_append) simp
  show ?thesis
    using assms by (subst serve.simps) (simp add: r1 r2 nz u Let_def)
qed

lemma serve_Nil: "serve dec step_ok [] = []"
  by (subst serve.simps) (simp add: readFull_Nil)

definition dropped :: "pb_type \<Rightarrow> int \<Rightarrow> (int \<times> pb_message) list \<Rightarrow> nat" where
  "dropped ty until nms =
     length (filter (\<lambda>(now, m). until \<noteq> 0 \<and> now < until \<and> pb_Type m = ty) nms)"

text \<open>The messages for a peer that are not dropped, framed.\<close>

definition passed :: "u64 \<Rightarrow> int \<Rightarrow> (int \<times> pb_message) list \<Rightarrow> bytes list" where
  "passed p until nms =
     List.map_filter (\<lambda>(now, m).
        if pb_To m = p \<and> \<not> (until \<noteq> 0 \<and> now < until \<and> pb_Type m \<in> {MsgVote, MsgPreVote})
        then map_option transport_frame (pb_body m) else None) nms"

lemma send_spec:
  assumes "send nms t = Some t'"
  shows "tp_isoUntil t' = tp_isoUntil t \<and> tp_selfID t' = tp_selfID t
    \<and> tp_droppedPre t' = tp_droppedPre t + int (dropped MsgPreVote (tp_isoUntil t) nms)
    \<and> tp_droppedV t' = tp_droppedV t + int (dropped MsgVote (tp_isoUntil t) nms)
    \<and> (p \<noteq> tp_selfID t \<longrightarrow> tp_outbox t p = Some q \<longrightarrow>
        tp_outbox t' p = Some (q @ passed p (tp_isoUntil t) nms))"
  using assms
proof (induction nms arbitrary: t q)
  case Nil
  then show ?case by (simp add: dropped_def passed_def map_filter_simps)
next
  case (Cons nm nms)
  obtain now m where nm: "nm = (now, m)" by fastforce
  from Cons.prems obtain t1 where t1: "send_one nm t = Some t1" and rest: "send nms t1 = Some t'"
    by (auto split: option.splits)
  define q1 where "q1 = q @ passed p (tp_isoUntil t) [nm]"
  have one: "tp_isoUntil t1 = tp_isoUntil t \<and> tp_selfID t1 = tp_selfID t
    \<and> tp_droppedPre t1 = tp_droppedPre t + int (dropped MsgPreVote (tp_isoUntil t) [nm])
    \<and> tp_droppedV t1 = tp_droppedV t + int (dropped MsgVote (tp_isoUntil t) [nm])
    \<and> (p \<noteq> tp_selfID t \<longrightarrow> tp_outbox t p = Some q \<longrightarrow> tp_outbox t1 p = Some q1)"
    using t1
    by (auto simp: nm send_one_def isolated_def dropped_def passed_def q1_def map_filter_simps
        split: if_splits option.splits)
  have d: "dropped ty u (nm # nms) = dropped ty u [nm] + dropped ty u nms" for ty u
    by (simp add: dropped_def)
  have ps: "passed p u (nm # nms) = passed p u [nm] @ passed p u nms" for u
    by (simp add: passed_def map_filter_simps split: option.splits)
  from Cons.IH [OF rest, of q1] one show ?case by (auto simp: d ps q1_def)
qed

section \<open>Properties\<close>

text \<open>C21: A peer steps exactly the messages that were framed for it, in order, as long as each is between
  one byte and the frame limit and the node accepts it.\<close>

theorem transport_delivers_in_order:
  assumes "\<forall>m \<in> set ms. dec (enc m) = Some m \<and> 0 < length (enc m) \<and> length (enc m) \<le> maxFrame"
    and "\<forall>m \<in> set ms. step_ok m"
  shows "serve dec step_ok (concat (map (transport_frame \<circ> enc) ms)) = ms"
  using assms by (induction ms) (simp_all add: serve_Nil serve_frame)

text \<open>The election-failure injection drops exactly the vote and pre-vote messages sent while it is
  active, counts each of them once, and leaves every other message of every peer in order.\<close>

theorem isolation_drops_votes_only:
  assumes "send nms t = Some t'" and "p \<noteq> tp_selfID t" and "tp_outbox t p = Some q"
  shows "tp_outbox t' p = Some (q @ passed p (tp_isoUntil t) nms)
    \<and> tp_droppedPre t' = tp_droppedPre t + int (dropped MsgPreVote (tp_isoUntil t) nms)
    \<and> tp_droppedV t' = tp_droppedV t + int (dropped MsgVote (tp_isoUntil t) nms)"
  using send_spec [OF assms(1)] assms (2,3) by blast

text \<open>C20: A response is sent only after the batch it belongs to was written to the log, and the write is
  synced whenever there is a response to send; the log is never compacted past what is appended or
  past the applied index less the trailing entries.\<close>

theorem responses_wait_for_the_log:
  fixes batch :: "('h, 'e, 'r, 'n) append_msg list"
  assumes "append_turn isEmpty index True trailing applied compacts lastCompact batch = (lc, effects)"
    and "effects = pre @ Respond r # post"
  shows "Wal_append (batch_items isEmpty batch) True \<in> set pre
    \<and> (\<forall>m \<in> set batch. am_Entries m \<noteq> [] \<longrightarrow> Storage_append (am_Entries m) \<in> set pre)
    \<and> (\<forall>to. Compact to \<in> set effects \<longrightarrow> to \<le> last_appended index batch \<and> to + trailing \<le> applied)"
proof -
  let ?snaps = "concat (map (\<lambda>m. case am_Snapshot m of None \<Rightarrow> [] | Some s \<Rightarrow> [Apply_snapshot s]) batch)"
  let ?storage = "concat (map (\<lambda>m.
      (if length (am_Entries m) > 0 then [Storage_append (am_Entries m)] else [])
      @ (if isEmpty (am_hs m) then [] else [Set_hard_state (am_hs m)])) batch)"
  let ?to = "applied - trailing"
  let ?wanted = "applied > trailing + 1 \<and> ?to > lastCompact \<and> ?to \<le> last_appended index batch"
  let ?compact = "if ?wanted then [Compact ?to] else []"
  let ?resp = "concat (map (\<lambda>m. map Respond (am_Responses m)) batch)"
  define bef :: "('h, 'e, 'r, 'n) effect list" where "bef = ?snaps @ [Wal_append (batch_items isEmpty batch) (batch_sync batch)]
    @ ?storage @ ?compact"
  have e: "effects = bef @ ?resp"
    using assms (1) by (simp add: append_turn_def bef_def Let_def split: if_splits)
  have nb: "Respond r \<notin> set bef"
    by (auto simp: bef_def split: option.splits if_splits)
  have "Respond r \<in> set effects" by (simp add: assms (2))
  then have resp: "Respond r \<in> set ?resp" using nb e by auto
  have "length bef \<le> length pre"
  proof (rule ccontr)
    assume "\<not> length bef \<le> length pre"
    then have l: "length pre < length bef" by simp
    have "effects ! length pre = Respond r" by (simp add: assms (2))
    then have "bef ! length pre = Respond r" using l by (simp add: e nth_append)
    with l nb show False by (metis nth_mem)
  qed
  then have sub: "set bef \<subseteq> set pre"
    using e assms (2) by (metis append_eq_append_conv_if set_take_subset)
  have "batch_sync batch" using resp by (force simp: batch_sync_def list_ex_iff)
  then have "Wal_append (batch_items isEmpty batch) True \<in> set bef" by (simp add: bef_def)
  moreover have "Storage_append (am_Entries m) \<in> set bef" if "m \<in> set batch" "am_Entries m \<noteq> []" for m
    using that by (auto simp: bef_def)
  moreover have "to \<le> last_appended index batch \<and> to + trailing \<le> applied" if "Compact to \<in> set effects" for to
    using that by (auto simp: e bef_def split: option.splits if_splits)
  ultimately show ?thesis using sub by blast
qed

section \<open>Witnesses\<close>

definition sample_enc :: "byte \<Rightarrow> bytes" where
  "sample_enc m = [m, 1]"

definition sample_dec :: "bytes \<Rightarrow> byte option" where
  "sample_dec b = (case b of [m, _] \<Rightarrow> Some m | _ \<Rightarrow> None)"

lemma transport_delivers_in_order_witness:
  "serve sample_dec (\<lambda>_. True) (concat (map (transport_frame \<circ> sample_enc) [3, 0, 9])) = [3, 0, 9]"
  by (rule transport_delivers_in_order) (simp_all add: sample_enc_def sample_dec_def maxFrame_def)

definition sample_pb :: "pb_type \<Rightarrow> u64 \<Rightarrow> pb_message" where
  "sample_pb ty to = \<lparr>pb_Type = ty, pb_To = to, pb_body = Some [7]\<rparr>"

lemma isolation_drops_votes_only_witness:
  "map_option (\<lambda>t. (tp_droppedPre t, tp_droppedV t, tp_outbox t 2))
     (send [(5, sample_pb MsgPreVote 2), (6, sample_pb MsgOther 2), (20, sample_pb MsgVote 2)]
       (isolateFor 0 10 (newTransport 1 [1, 2])))
   = Some (1, 0, Some [transport_frame [7], transport_frame [7]])"
proof -
  let ?nms = "[(5, sample_pb MsgPreVote 2), (6, sample_pb MsgOther 2), (20, sample_pb MsgVote 2)]"
  let ?t = "isolateFor 0 10 (newTransport 1 [1, 2])"
  have o: "tp_outbox ?t 2 = Some []" "(2::u64) \<noteq> tp_selfID ?t" "tp_isoUntil ?t = 10"
    "tp_droppedPre ?t = 0" "tp_droppedV ?t = 0"
    by (simp_all add: isolateFor_def newTransport_def)
  obtain t' where t': "send ?nms ?t = Some t'"
    by (simp add: send_one_def isolated_def isolateFor_def newTransport_def sample_pb_def)
  have p: "passed 2 10 ?nms = [transport_frame [7], transport_frame [7]]"
    "dropped MsgPreVote 10 ?nms = 1" "dropped MsgVote 10 ?nms = 0"
    by (simp_all add: passed_def dropped_def sample_pb_def map_filter_simps)
  from isolation_drops_votes_only [OF t' o(2) o(1)] t' p o show ?thesis by simp
qed

definition sample_append :: "nat list \<Rightarrow> string list \<Rightarrow> (nat, nat, string, unit) append_msg" where
  "sample_append es rs = \<lparr>am_hs = 3, am_Entries = es, am_Responses = rs, am_Snapshot = None\<rparr>"

lemma responses_wait_for_the_log_witness:
  "Wal_append [(Some 3, [11]), (Some 3, [12])] True
     \<in> set (butlast (snd (append_turn (\<lambda>h. h = 0) id True 4 10 True 2
          [sample_append [11] [], sample_append [12] [''ack'']])))"
proof -
  let ?batch = "[sample_append [11] [], sample_append [12] [''ack'']]"
  let ?r = "append_turn (\<lambda>h. h = 0) id True 4 10 True 2 ?batch"
  have r: "?r = (6, [Wal_append [(Some 3, [11]), (Some 3, [12])] True, Storage_append [11], Set_hard_state 3,
      Storage_append [12], Set_hard_state 3, Compact 6, Respond ''ack''])"
    by (simp add: append_turn_def sample_append_def batch_items_def batch_sync_def last_appended_def Let_def)
  have s: "snd ?r = butlast (snd ?r) @ Respond ''ack'' # []" by (simp add: r)
  have p: "?r = (fst ?r, snd ?r)" by simp
  have i: "batch_items (\<lambda>h. h = 0) ?batch = [(Some 3, [11]), (Some 3, [12])]"
    by (simp add: batch_items_def sample_append_def)
  from responses_wait_for_the_log [OF p s] show ?thesis by (simp only: i)
qed

end
