(* ===== verification/Nvb_Types.thy ===== *)
theory Nvb_Types
  imports Prelude
begin

text \<open>
  Data of the EPaxos core (\<^verbatim>\<open>lab/upstream/nvb-epaxos/epaxos/epaxospb\<close>): keys, spans and commands with
  the interference relation, instance identifiers and their order, instance status and state, and the
  protocol messages. The message structs are those of \<^verbatim>\<open>epaxos.pb.go\<close>; a nil \<^verbatim>\<open>*Command\<close> is
  \<^term>\<open>None\<close>. Wire encoding of these structs is generated code and not modelled.
\<close>

section \<open>Keys and spans\<close>

type_synonym ReplicaID = u64
type_synonym InstanceNum = u64
type_synonym SeqNum = u64

text \<open>\<^verbatim>\<open>bytes.Compare\<close>: the sign of the lexicographic comparison.\<close>

fun bytes_compare :: "bytes \<Rightarrow> bytes \<Rightarrow> int" where
  "bytes_compare [] [] = 0"
| "bytes_compare [] (_ # _) = - 1"
| "bytes_compare (_ # _) [] = 1"
| "bytes_compare (a # as) (b # bs) =
     (if a < b then - 1 else if b < a then 1 else bytes_compare as bs)"

record Span =
  sp_Key :: bytes
  sp_EndKey :: bytes

definition Key_Equal :: "bytes \<Rightarrow> bytes \<Rightarrow> bool" where
  "Key_Equal k k2 \<longleftrightarrow> k = k2"

definition Key_Compare :: "bytes \<Rightarrow> bytes \<Rightarrow> int" where
  "Key_Compare k k2 = bytes_compare k k2"

definition Span_Equal :: "Span \<Rightarrow> Span \<Rightarrow> bool" where
  "Span_Equal s t \<longleftrightarrow> Key_Equal (sp_Key s) (sp_Key t) \<and> Key_Equal (sp_EndKey s) (sp_EndKey t)"

definition Overlaps :: "Span \<Rightarrow> Span \<Rightarrow> bool" where
  "Overlaps s t \<longleftrightarrow>
     (if length (sp_EndKey s) = 0 \<and> length (sp_EndKey t) = 0 then Key_Equal (sp_Key s) (sp_Key t)
      else if length (sp_EndKey s) = 0
        then bytes_compare (sp_Key s) (sp_Key t) \<ge> 0 \<and> bytes_compare (sp_Key s) (sp_EndKey t) < 0
      else if length (sp_EndKey t) = 0
        then bytes_compare (sp_Key t) (sp_Key s) \<ge> 0 \<and> bytes_compare (sp_Key t) (sp_EndKey s) < 0
      else bytes_compare (sp_EndKey s) (sp_Key t) > 0 \<and> bytes_compare (sp_Key s) (sp_EndKey t) < 0)"

section \<open>Commands\<close>

record NCommand =
  nc_ID :: u64
  nc_Span :: Span
  nc_Writing :: bool
  nc_Data :: bytes

definition Interferes :: "NCommand \<Rightarrow> NCommand \<Rightarrow> bool" where
  "Interferes c d \<longleftrightarrow> (nc_Writing c \<or> nc_Writing d) \<and> Overlaps (nc_Span c) (nc_Span d)"

section \<open>Instances\<close>

datatype InstanceID = IID (iid_rep: ReplicaID) (iid_num: InstanceNum)

definition InstanceID_Less :: "InstanceID \<Rightarrow> InstanceID \<Rightarrow> bool" where
  "InstanceID_Less a b \<longleftrightarrow>
     (if iid_rep a \<noteq> iid_rep b then iid_rep a < iid_rep b else iid_num a < iid_num b)"

instantiation InstanceID :: linorder
begin

definition less_InstanceID :: "InstanceID \<Rightarrow> InstanceID \<Rightarrow> bool" where
  "less_InstanceID = InstanceID_Less"

definition less_eq_InstanceID :: "InstanceID \<Rightarrow> InstanceID \<Rightarrow> bool" where
  "less_eq_InstanceID a b \<longleftrightarrow> InstanceID_Less a b \<or> a = b"

instance
proof
  fix x y :: InstanceID
  show "x \<le> y \<or> y \<le> x"
    by (cases x, cases y) (auto simp: less_eq_InstanceID_def InstanceID_Less_def)
qed (auto simp: less_InstanceID_def less_eq_InstanceID_def InstanceID_Less_def split: if_splits)

end

datatype Status = NoStatus | PreAccepted | Accepted | Committed | Executed

definition status_num :: "Status \<Rightarrow> nat" where
  "status_num s = (case s of NoStatus \<Rightarrow> 0 | PreAccepted \<Rightarrow> 1 | Accepted \<Rightarrow> 2 | Committed \<Rightarrow> 3 | Executed \<Rightarrow> 4)"

instantiation Status :: linorder
begin

definition less_Status :: "Status \<Rightarrow> Status \<Rightarrow> bool" where
  "less_Status a b \<longleftrightarrow> status_num a < status_num b"

definition less_eq_Status :: "Status \<Rightarrow> Status \<Rightarrow> bool" where
  "less_eq_Status a b \<longleftrightarrow> status_num a \<le> status_num b"

instance
  by intro_classes (auto simp: less_Status_def less_eq_Status_def status_num_def split: Status.splits)

end

record InstanceData =
  id_Command :: "NCommand option"
  id_SeqNum :: SeqNum
  id_Deps :: "InstanceID list"

record InstanceState =
  is_ID :: InstanceID
  is_Status :: Status
  is_Data :: InstanceData

definition MaxInstanceNum :: "InstanceNum \<Rightarrow> InstanceNum \<Rightarrow> InstanceNum" where
  "MaxInstanceNum a b = (if a > b then a else b)"

definition MaxSeqNum :: "SeqNum \<Rightarrow> SeqNum \<Rightarrow> SeqNum" where
  "MaxSeqNum a b = (if a > b then a else b)"

record Ballot =
  bl_Epoch :: u64
  bl_Number :: u64
  bl_ReplicaID :: ReplicaID

definition Ballot_Compare :: "Ballot \<Rightarrow> Ballot \<Rightarrow> int" where
  "Ballot_Compare b b2 =
     (if bl_Epoch b < bl_Epoch b2 then - 1
      else if bl_Epoch b > bl_Epoch b2 then 1
      else if bl_Number b < bl_Number b2 then - 1
      else if bl_Number b > bl_Number b2 then 1
      else if bl_ReplicaID b < bl_ReplicaID b2 then - 1
      else if bl_ReplicaID b > bl_ReplicaID b2 then 1
      else 0)"

section \<open>Messages\<close>

datatype MsgType =
    MPreAccept InstanceData
  | MPreAcceptOK
  | MPreAcceptReply (updatedSeqNum: SeqNum) (updatedDeps: "InstanceID list")
  | MAccept InstanceData
  | MAcceptOK
  | MCommit InstanceData

record Message =
  m_To :: ReplicaID
  m_Ballot :: Ballot
  m_InstanceID :: InstanceID
  m_Type :: MsgType

definition zero_Ballot :: Ballot where
  "zero_Ballot = \<lparr>bl_Epoch = 0, bl_Number = 0, bl_ReplicaID = 0\<rparr>"

definition WrapMessage :: "MsgType \<Rightarrow> Message" where
  "WrapMessage t = \<lparr>m_To = 0, m_Ballot = zero_Ballot, m_InstanceID = IID 0 0, m_Type = t\<rparr>"

definition WithDestination :: "Message \<Rightarrow> ReplicaID \<Rightarrow> Message" where
  "WithDestination msg dest = msg\<lparr>m_To := dest\<rparr>"

definition IsReply :: "MsgType \<Rightarrow> bool" where
  "IsReply t =
     (case t of MPreAcceptOK \<Rightarrow> True | MPreAcceptReply _ _ \<Rightarrow> True | MAcceptOK \<Rightarrow> True | _ \<Rightarrow> False)"

section \<open>Facts\<close>

lemma bytes_compare_eq_0 [simp]: "bytes_compare a b = 0 \<longleftrightarrow> a = b"
  by (induction a b rule: bytes_compare.induct) auto

lemma bytes_compare_refl [simp]: "bytes_compare k k = 0"
  by simp

lemma bytes_compare_swap: "bytes_compare b a = - bytes_compare a b"
  by (induction a b rule: bytes_compare.induct) auto

lemma bytes_compare_Nil: "bytes_compare [] k \<le> 0" "bytes_compare [] k < 0 \<longleftrightarrow> k \<noteq> []"
  by (cases k; simp)+

lemma bytes_compare_trans:
  "bytes_compare a b < 0 \<Longrightarrow> bytes_compare b c < 0 \<Longrightarrow> bytes_compare a c < 0"
proof (induction a b arbitrary: c rule: bytes_compare.induct)
  case (4 a as b bs)
  then show ?case by (cases c) (auto split: if_splits)
next
  case (2 b bs)
  then show ?case by (cases c) (auto simp: bytes_compare_Nil)
qed auto

lemma bytes_compare_le_trans:
  "bytes_compare a b \<le> 0 \<Longrightarrow> bytes_compare b c < 0 \<Longrightarrow> bytes_compare a c < 0"
  using bytes_compare_trans bytes_compare_eq_0 by (metis linorder_not_le order_le_less)

lemma bytes_compare_append_0: "bytes_compare k x < 0 \<longleftrightarrow> bytes_compare (k @ [0]) x \<le> 0"
  by (induction k x rule: bytes_compare.induct) (auto simp: bytes_compare_Nil)

text \<open>The keys a span stands for: one key when \<^verbatim>\<open>EndKey\<close> is empty, else a half-open interval.\<close>

definition span_keys :: "Span \<Rightarrow> bytes set" where
  "span_keys s =
     (if sp_EndKey s = [] then {sp_Key s}
      else {k. bytes_compare (sp_Key s) k \<le> 0 \<and> bytes_compare k (sp_EndKey s) < 0})"

lemma Overlaps_sym: "Overlaps s t \<longleftrightarrow> Overlaps t s"
proof -
  have lt: "bytes_compare a b > 0 \<longleftrightarrow> bytes_compare b a < 0" for a b
    using bytes_compare_swap [of a b] by auto
  show ?thesis by (auto simp: Overlaps_def Key_Equal_def lt)
qed

lemma Interferes_sym: "Interferes c d \<longleftrightarrow> Interferes d c"
  using Overlaps_sym by (auto simp: Interferes_def)

lemma Overlaps_imp_common_key:
  assumes "span_keys s \<noteq> {}" and "span_keys t \<noteq> {}" and "Overlaps s t"
  shows "span_keys s \<inter> span_keys t \<noteq> {}"
proof -
  have swap: "bytes_compare a b \<ge> 0 \<longleftrightarrow> bytes_compare b a \<le> 0" for a b
    using bytes_compare_swap [of a b] by auto
  have lt: "bytes_compare a b > 0 \<longleftrightarrow> bytes_compare b a < 0" for a b
    using bytes_compare_swap [of a b] by auto
  consider "sp_EndKey s = []" "sp_EndKey t = []" | "sp_EndKey s = []" "sp_EndKey t \<noteq> []"
    | "sp_EndKey s \<noteq> []" "sp_EndKey t = []" | "sp_EndKey s \<noteq> []" "sp_EndKey t \<noteq> []" by blast
  then show ?thesis
  proof cases
    case 4
    let ?m = "if bytes_compare (sp_Key s) (sp_Key t) \<le> 0 then sp_Key t else sp_Key s"
    have ne: "bytes_compare (sp_Key u) (sp_EndKey u) < 0" if u: "span_keys u \<noteq> {}" "sp_EndKey u \<noteq> []" for u
      using u bytes_compare_le_trans by (auto simp: span_keys_def)
    have "?m \<in> span_keys s \<inter> span_keys t"
      using assms (3) 4 ne [OF assms (1)] ne [OF assms (2)] bytes_compare_swap [of "sp_Key s" "sp_Key t"]
      by (auto simp: Overlaps_def span_keys_def lt)
    then show ?thesis by blast
  qed (use assms (3) in \<open>auto simp: Overlaps_def span_keys_def Key_Equal_def swap\<close>)
qed

lemma common_key_imp_Overlaps:
  assumes "k \<in> span_keys s" and "k \<in> span_keys t"
  shows "Overlaps s t"
proof -
  have swap: "bytes_compare a b \<ge> 0 \<longleftrightarrow> bytes_compare b a \<le> 0" for a b
    using bytes_compare_swap [of a b] by auto
  have lt: "bytes_compare a b > 0 \<longleftrightarrow> bytes_compare b a < 0" for a b
    using bytes_compare_swap [of a b] by auto
  show ?thesis
    using assms bytes_compare_le_trans
    by (auto simp: Overlaps_def span_keys_def Key_Equal_def swap lt split: if_splits)
qed

lemma point_Overlaps:
  "sp_EndKey s = [] \<Longrightarrow> sp_EndKey t = [] \<Longrightarrow> Overlaps s t \<longleftrightarrow> sp_Key s = sp_Key t"
  by (simp add: Overlaps_def Key_Equal_def)

lemma Ballot_Compare_swap: "Ballot_Compare c b = - Ballot_Compare b c"
  by (auto simp: Ballot_Compare_def)

lemma Ballot_Compare_eq: "Ballot_Compare b c = 0 \<longleftrightarrow> b = c"
  by (cases b, cases c) (auto simp: Ballot_Compare_def)

lemma MaxSeqNum_max: "MaxSeqNum a b = max a b"
  by (auto simp: MaxSeqNum_def max_def)

end
