(* ===== verification/Nvb_State.thy ===== *)
theory Nvb_State
  imports Nvb_Types
begin

text \<open>
  State of one EPaxos replica (\<^verbatim>\<open>epaxos.go\<close>, \<^verbatim>\<open>instance.go\<close>, \<^verbatim>\<open>storage.go\<close>, \<^verbatim>\<open>timer.go\<close>,
  \<^verbatim>\<open>messaging.go\<close> of \<^verbatim>\<open>lab/upstream/nvb-epaxos/epaxos\<close>). A replica's instances are kept in one
  ordered tree per known replica; a tree is the ascending list of its items. Code holds pointers to
  instances and changes them in place: \<open>setInstance\<close> is such a write. A storage keeps the value an
  instance had when it was last persisted. Panics are values of \<open>panic\<close>.
\<close>

datatype panic =
    UnexpectedTransition Status Status | UnexpectedState Status | NilTransition | NilCommand
  | UnknownReplica ReplicaID | MissingInstance | BadConfig string | ExecutorStuck

definition bind_p :: "panic + 'a \<Rightarrow> ('a \<Rightarrow> panic + 'b) \<Rightarrow> panic + 'b" where
  "bind_p r f = (case r of Inl e \<Rightarrow> Inl e | Inr x \<Rightarrow> f x)"

lemma bind_p_simps [simp]: "bind_p (Inl e) f = Inl e" "bind_p (Inr x) f = f x"
  by (simp_all add: bind_p_def)

lemma bind_p_Inr_iff: "bind_p r f = Inr y \<longleftrightarrow> (\<exists>x. r = Inr x \<and> f x = Inr y)"
  by (cases r) auto

section \<open>Ordered trees\<close>

definition bt_get :: "('a \<Rightarrow> u64) \<Rightarrow> u64 \<Rightarrow> 'a list \<Rightarrow> 'a option" where
  "bt_get key i t = find (\<lambda>x. key x = i) t"

fun bt_put :: "('a \<Rightarrow> u64) \<Rightarrow> 'a \<Rightarrow> 'a list \<Rightarrow> 'a list" where
  "bt_put key x [] = [x]"
| "bt_put key x (y # t) =
     (if key x < key y then x # y # t
      else if key x = key y then x # t
      else y # bt_put key x t)"

definition bt_max :: "'a list \<Rightarrow> 'a option" where
  "bt_max t = (if t = [] then None else Some (last t))"

lemma bt_get_put: "bt_get key i (bt_put key x t) = (if i = key x then Some x else bt_get key i t)"
  by (induction key x t rule: bt_put.induct) (auto simp: bt_get_def)

lemma set_bt_put: "set (bt_put key x t) \<subseteq> insert x (set t)"
  by (induction key x t rule: bt_put.induct) auto

lemma bt_put_sorted:
  "sorted_wrt (\<lambda>a b. key a < key b) t \<Longrightarrow> sorted_wrt (\<lambda>a b. key a < key b) (bt_put key x t)"
proof (induction key x t rule: bt_put.induct)
  case (2 key x y t)
  then show ?case using set_bt_put [of key x t] by (auto simp: not_less)
qed simp

lemma bt_get_Some: "bt_get key i t = Some x \<Longrightarrow> x \<in> set t \<and> key x = i"
  by (auto simp: bt_get_def find_Some_iff)

lemma bt_max_ge:
  fixes key :: "'a \<Rightarrow> u64"
  assumes "sorted_wrt (\<lambda>a b. key a < key b) t" and "x \<in> set t" and "bt_max t = Some m"
  shows "key x \<le> key m"
proof -
  from assms (2,3) obtain t' where t: "t = t' @ [m]"
    by (cases t rule: rev_exhaust) (auto simp: bt_max_def)
  with assms (1,2) show ?thesis by (auto simp: sorted_wrt_append)
qed

section \<open>Timers\<close>

record tickingTimer =
  tt_timeout :: int
  tt_ticksElapsed :: int
  tt_paused :: bool

definition makeTickingTimer :: "int \<Rightarrow> tickingTimer" where
  "makeTickingTimer timeout = \<lparr>tt_timeout = timeout, tt_ticksElapsed = 0, tt_paused = True\<rparr>"

text \<open>\<open>timer_tick\<close> returns the timer and whether \<^verbatim>\<open>onTimeout\<close> is to be called.\<close>

definition timer_tick :: "tickingTimer \<Rightarrow> tickingTimer \<times> bool" where
  "timer_tick t =
     (if tt_paused t then (t, False)
      else let t1 = t\<lparr>tt_ticksElapsed := tt_ticksElapsed t + 1\<rparr> in
           if tt_ticksElapsed t1 \<ge> tt_timeout t1 then (t1\<lparr>tt_paused := True\<rparr>, True) else (t1, False))"

definition timer_reset :: "tickingTimer \<Rightarrow> tickingTimer" where
  "timer_reset t = t\<lparr>tt_paused := False, tt_ticksElapsed := 0\<rparr>"

definition timer_resetWithJitter :: "int \<Rightarrow> tickingTimer \<Rightarrow> tickingTimer" where
  "timer_resetWithJitter jitter t = t\<lparr>tt_paused := False, tt_ticksElapsed := jitter\<rparr>"

definition timer_stop :: "tickingTimer \<Rightarrow> tickingTimer" where
  "timer_stop t = t\<lparr>tt_paused := True, tt_ticksElapsed := 0\<rparr>"

definition timer_isSet :: "tickingTimer \<Rightarrow> bool" where
  "timer_isSet t \<longleftrightarrow> \<not> tt_paused t"

definition slowPathTimeout :: int where "slowPathTimeout = 2"

section \<open>Instances\<close>

record Instance =
  in_is :: InstanceState
  in_preAcceptReplies :: int
  in_differentReplies :: bool
  in_slowPathTimer :: tickingTimer
  in_acceptReplies :: int

abbreviation in_ID :: "Instance \<Rightarrow> InstanceID" where "in_ID inst \<equiv> is_ID (in_is inst)"
abbreviation in_num :: "Instance \<Rightarrow> InstanceNum" where "in_num inst \<equiv> iid_num (in_ID inst)"
abbreviation in_Status :: "Instance \<Rightarrow> Status" where "in_Status inst \<equiv> is_Status (in_is inst)"
abbreviation in_Command :: "Instance \<Rightarrow> NCommand option" where
  "in_Command inst \<equiv> id_Command (is_Data (in_is inst))"
abbreviation in_SeqNum :: "Instance \<Rightarrow> SeqNum" where "in_SeqNum inst \<equiv> id_SeqNum (is_Data (in_is inst))"
abbreviation in_Deps :: "Instance \<Rightarrow> InstanceID list" where "in_Deps inst \<equiv> id_Deps (is_Data (in_is inst))"

abbreviation with_Status :: "Status \<Rightarrow> Instance \<Rightarrow> Instance" where
  "with_Status st inst \<equiv> inst\<lparr>in_is := (in_is inst)\<lparr>is_Status := st\<rparr>\<rparr>"

abbreviation with_Data :: "InstanceData \<Rightarrow> Instance \<Rightarrow> Instance" where
  "with_Data d inst \<equiv> inst\<lparr>in_is := (in_is inst)\<lparr>is_Data := d\<rparr>\<rparr>"

definition newInstanceFromState :: "InstanceState \<Rightarrow> Instance" where
  "newInstanceFromState is =
     \<lparr>in_is = is, in_preAcceptReplies = 0, in_differentReplies = False,
      in_slowPathTimer = makeTickingTimer slowPathTimeout, in_acceptReplies = 0\<rparr>"

definition newInstance :: "ReplicaID \<Rightarrow> InstanceNum \<Rightarrow> Instance" where
  "newInstance r i =
     newInstanceFromState
       \<lparr>is_ID = IID r i, is_Status = NoStatus,
        is_Data = \<lparr>id_Command = None, id_SeqNum = 0, id_Deps = []\<rparr>\<rparr>"

definition instanceDataWithoutCommand :: "Instance \<Rightarrow> InstanceData" where
  "instanceDataWithoutCommand inst =
     \<lparr>id_Command = None, id_SeqNum = in_SeqNum inst, id_Deps = in_Deps inst\<rparr>"

definition instanceData :: "Instance \<Rightarrow> InstanceData" where
  "instanceData inst = (instanceDataWithoutCommand inst)\<lparr>id_Command := in_Command inst\<rparr>"

definition replaceInstanceData :: "SeqNum \<Rightarrow> InstanceID list \<Rightarrow> Instance \<Rightarrow> Instance" where
  "replaceInstanceData newSeq newDeps inst =
     with_Data ((is_Data (in_is inst))\<lparr>id_SeqNum := newSeq, id_Deps := newDeps\<rparr>) inst"

definition isStates :: "Status list \<Rightarrow> Instance \<Rightarrow> bool" where
  "isStates sts inst \<longleftrightarrow> in_Status inst \<in> set sts"

text \<open>Dependency slices are made from maps and sorted.\<close>

definition depSliceFromMap :: "InstanceID list \<Rightarrow> InstanceID list" where
  "depSliceFromMap deps = sort (remdups deps)"

definition unionDepSlices :: "InstanceID list \<Rightarrow> InstanceID list \<Rightarrow> InstanceID list" where
  "unionDepSlices a b = depSliceFromMap (a @ b)"

lemma set_depSliceFromMap [simp]: "set (depSliceFromMap deps) = set deps"
  by (simp add: depSliceFromMap_def)

lemma depSlice_sorted_distinct: "sorted (depSliceFromMap deps) \<and> distinct (depSliceFromMap deps)"
  by (simp add: depSliceFromMap_def)

section \<open>Storage\<close>

record HardState =
  hs_ReplicaID :: ReplicaID
  hs_Nodes :: "ReplicaID list"

record MemoryStorage =
  ms_hardState :: "HardState option"
  ms_instances :: "ReplicaID \<rightharpoonup> InstanceState list"

definition NewMemoryStorage :: "ReplicaID list \<Rightarrow> MemoryStorage" where
  "NewMemoryStorage nodes =
     \<lparr>ms_hardState = None, ms_instances = (\<lambda>r. if r \<in> set nodes then Some [] else None)\<rparr>"

definition PersistHardState :: "HardState \<Rightarrow> MemoryStorage \<Rightarrow> MemoryStorage" where
  "PersistHardState hs ms = ms\<lparr>ms_hardState := Some hs\<rparr>"

text \<open>\<open>reps\<close> is the order in which the Go loop meets the replicas of the map.\<close>

definition Instances :: "ReplicaID list \<Rightarrow> MemoryStorage \<Rightarrow> InstanceState list" where
  "Instances reps ms = concat (map (\<lambda>r. case ms_instances ms r of None \<Rightarrow> [] | Some t \<Rightarrow> t) reps)"

definition PersistInstance :: "InstanceState \<Rightarrow> MemoryStorage \<Rightarrow> panic + MemoryStorage" where
  "PersistInstance is ms =
     (let r = iid_rep (is_ID is) in
      case ms_instances ms r of
        None \<Rightarrow> Inl (UnknownReplica r)
      | Some t \<Rightarrow>
          Inr (ms\<lparr>ms_instances := (ms_instances ms)(r \<mapsto> bt_put (\<lambda>x. iid_num (is_ID x)) is t)\<rparr>))"

section \<open>The replica\<close>

record epaxos =
  p_id :: ReplicaID
  p_nodes :: "ReplicaID list"
  p_storage :: MemoryStorage
  p_commands :: "ReplicaID \<rightharpoonup> Instance list"
  p_vertices :: "InstanceID list"
  p_timers :: "InstanceID list"
  p_msgs :: "Message list"
  p_executedCmds :: "NCommand list"

definition getInstance :: "epaxos \<Rightarrow> ReplicaID \<Rightarrow> InstanceNum \<Rightarrow> panic + Instance option" where
  "getInstance p r i =
     (case p_commands p r of None \<Rightarrow> Inl (UnknownReplica r) | Some t \<Rightarrow> Inr (bt_get in_num i t))"

definition maxInstance :: "epaxos \<Rightarrow> ReplicaID \<Rightarrow> panic + Instance option" where
  "maxInstance p r =
     (case p_commands p r of None \<Rightarrow> Inl (UnknownReplica r) | Some t \<Rightarrow> Inr (bt_max t))"

definition maxInstanceNum :: "epaxos \<Rightarrow> ReplicaID \<Rightarrow> panic + InstanceNum" where
  "maxInstanceNum p r =
     bind_p (maxInstance p r) (\<lambda>m. Inr (case m of Some inst \<Rightarrow> in_num inst | None \<Rightarrow> 0))"

definition maxSeqNum :: "epaxos \<Rightarrow> ReplicaID \<Rightarrow> panic + SeqNum" where
  "maxSeqNum p r =
     bind_p (maxInstance p r) (\<lambda>m. Inr (case m of Some inst \<Rightarrow> in_SeqNum inst | None \<Rightarrow> 0))"

definition maxDeps :: "epaxos \<Rightarrow> ReplicaID \<Rightarrow> panic + InstanceID list" where
  "maxDeps p r =
     bind_p (maxInstance p r) (\<lambda>m. Inr (case m of Some inst \<Rightarrow> in_Deps inst | None \<Rightarrow> []))"

definition hasAccepted :: "epaxos \<Rightarrow> ReplicaID \<Rightarrow> InstanceNum \<Rightarrow> panic + bool" where
  "hasAccepted p r i =
     bind_p (getInstance p r i)
       (\<lambda>m. Inr (case m of Some inst \<Rightarrow> in_Status inst \<ge> Accepted | None \<Rightarrow> False))"

definition hasExecuted :: "epaxos \<Rightarrow> InstanceID \<Rightarrow> panic + bool" where
  "hasExecuted p d =
     bind_p (getInstance p (iid_rep d) (iid_num d))
       (\<lambda>m. Inr (case m of Some inst \<Rightarrow> in_Status inst = Executed | None \<Rightarrow> False))"

definition setInstance :: "Instance \<Rightarrow> epaxos \<Rightarrow> epaxos" where
  "setInstance inst p =
     (let r = iid_rep (in_ID inst) in
      case p_commands p r of
        None \<Rightarrow> p
      | Some t \<Rightarrow> p\<lparr>p_commands := (p_commands p)(r \<mapsto> bt_put in_num inst t)\<rparr>)"

definition inst_at :: "epaxos \<Rightarrow> InstanceID \<Rightarrow> Instance option" where
  "inst_at p d =
     (case p_commands p (iid_rep d) of None \<Rightarrow> None | Some t \<Rightarrow> bt_get in_num (iid_num d) t)"

text \<open>A handler of an instance starts from the instance the pointer leads to.\<close>

definition with_inst :: "epaxos \<Rightarrow> InstanceID \<Rightarrow> (Instance \<Rightarrow> panic + 'a) \<Rightarrow> panic + 'a" where
  "with_inst p d f = (case inst_at p d of None \<Rightarrow> Inl MissingInstance | Some inst \<Rightarrow> f inst)"

definition F :: "epaxos \<Rightarrow> int" where
  "F p = (int (length (p_nodes p)) + 1) div 2 - 1"

definition quorum :: "epaxos \<Rightarrow> int \<Rightarrow> bool" where
  "quorum p val \<longleftrightarrow> val > int (length (p_nodes p)) div 2"

definition fastQuorum :: "epaxos \<Rightarrow> int \<Rightarrow> bool" where
  "fastQuorum p val \<longleftrightarrow> val \<ge> int (length (p_nodes p)) - 1"

fun inReplicaSlice :: "ReplicaID \<Rightarrow> ReplicaID list \<Rightarrow> bool" where
  "inReplicaSlice r [] = False"
| "inReplicaSlice r (n # s) = (if n = r then True else inReplicaSlice r s)"

definition knownReplica :: "epaxos \<Rightarrow> ReplicaID \<Rightarrow> bool" where
  "knownReplica p r = inReplicaSlice r (p_nodes p)"

lemma inReplicaSlice_iff [simp]: "inReplicaSlice r s \<longleftrightarrow> r \<in> set s"
  by (induction s) auto

section \<open>Outbox\<close>

definition sendTo :: "MsgType \<Rightarrow> ReplicaID \<Rightarrow> Instance \<Rightarrow> epaxos \<Rightarrow> epaxos" where
  "sendTo m to inst p =
     p\<lparr>p_msgs := p_msgs p @ [(WrapMessage m)\<lparr>m_To := to, m_InstanceID := in_ID inst\<rparr>]\<rparr>"

fun broadcast_loop :: "MsgType \<Rightarrow> Instance \<Rightarrow> ReplicaID list \<Rightarrow> epaxos \<Rightarrow> epaxos" where
  "broadcast_loop m inst [] p = p"
| "broadcast_loop m inst (node # nodes) p =
     broadcast_loop m inst nodes (if node \<noteq> p_id p then sendTo m node inst p else p)"

definition broadcast :: "MsgType \<Rightarrow> Instance \<Rightarrow> epaxos \<Rightarrow> epaxos" where
  "broadcast m inst p = broadcast_loop m inst (p_nodes p) p"

definition reply :: "MsgType \<Rightarrow> Instance \<Rightarrow> epaxos \<Rightarrow> epaxos" where
  "reply m inst p = sendTo m (iid_rep (in_ID inst)) inst p"

definition deliverExecutedCommand :: "NCommand \<Rightarrow> epaxos \<Rightarrow> epaxos" where
  "deliverExecutedCommand c p = p\<lparr>p_executedCmds := p_executedCmds p @ [c]\<rparr>"

definition clearExecutedCommands :: "epaxos \<Rightarrow> epaxos" where
  "clearExecutedCommands p = p\<lparr>p_executedCmds := []\<rparr>"

definition clearMsgs :: "epaxos \<Rightarrow> epaxos" where
  "clearMsgs p = p\<lparr>p_msgs := []\<rparr>"

section \<open>Facts\<close>

lemma inst_at_ID: "inst_at p d = Some inst \<Longrightarrow> in_num inst = iid_num d"
  by (auto simp: inst_at_def dest: bt_get_Some split: option.splits)

lemma inst_at_setInstance:
  "iid_rep (in_ID inst) \<in> dom (p_commands p) \<Longrightarrow>
     inst_at (setInstance inst p) d = (if d = in_ID inst then Some inst else inst_at p d)"
  by (cases d; cases "in_ID inst") (auto simp: inst_at_def setInstance_def Let_def bt_get_put split: option.splits)

lemma setInstance_fields [simp]:
  "p_id (setInstance i p) = p_id p" "p_nodes (setInstance i p) = p_nodes p"
  "p_storage (setInstance i p) = p_storage p" "p_vertices (setInstance i p) = p_vertices p"
  "p_timers (setInstance i p) = p_timers p" "p_msgs (setInstance i p) = p_msgs p"
  "p_executedCmds (setInstance i p) = p_executedCmds p"
  "dom (p_commands (setInstance i p)) = dom (p_commands p)"
  by (auto simp: setInstance_def Let_def split: option.splits)

text \<open>A broadcast only appends to the outbox: one copy for every other node.\<close>

lemma broadcast_loop_eq:
  "broadcast_loop m inst nodes p =
     p\<lparr>p_msgs := p_msgs p @ map (\<lambda>n. (WrapMessage m)\<lparr>m_To := n, m_InstanceID := in_ID inst\<rparr>)
                                (filter (\<lambda>n. n \<noteq> p_id p) nodes)\<rparr>"
  by (induction nodes arbitrary: p) (auto simp: sendTo_def)

lemmas outbox_defs = broadcast_def broadcast_loop_eq reply_def sendTo_def deliverExecutedCommand_def

lemma inst_at_msgs [simp]:
  "inst_at (p\<lparr>p_msgs := ms\<rparr>) d = inst_at p d" "inst_at (p\<lparr>p_executedCmds := cs\<rparr>) d = inst_at p d"
  "inst_at (p\<lparr>p_vertices := vs\<rparr>) d = inst_at p d" "inst_at (p\<lparr>p_timers := ts\<rparr>) d = inst_at p d"
  "inst_at (p\<lparr>p_storage := st\<rparr>) d = inst_at p d"
  by (simp_all add: inst_at_def)

text \<open>Two majorities share a node, and a fast quorum of at least three nodes is a quorum.\<close>

lemma quorums_intersect:
  assumes "finite N" and "card N = length (p_nodes p)" and "A \<subseteq> N" and "B \<subseteq> N"
    and "quorum p (int (card A))" and "quorum p (int (card B))"
  shows "A \<inter> B \<noteq> {}"
proof
  assume "A \<inter> B = {}"
  then have "card (A \<union> B) = card A + card B"
    using assms (1,3,4) by (meson card_Un_disjoint finite_subset)
  moreover have "card (A \<union> B) \<le> card N" using assms (1,3,4) by (simp add: card_mono)
  ultimately show False using assms (2,5,6) by (simp add: quorum_def)
qed

lemma fastQuorum_quorum: "3 \<le> length (p_nodes p) \<Longrightarrow> fastQuorum p n \<Longrightarrow> quorum p n"
  by (simp add: quorum_def fastQuorum_def)

lemma F_majority:
  "odd (length (p_nodes p)) \<Longrightarrow> quorum p n \<longleftrightarrow> n \<ge> F p + 1"
  by (auto simp: quorum_def F_def elim!: oddE)

end
