(* ===== verification/Nvb_Tarjan.thy ===== *)
theory Nvb_Tarjan
  imports Main
begin

text \<open>
  The executor's dependency sort (\<^verbatim>\<open>lab/upstream/nvb-epaxos/epaxos/execute.go\<close>, \<^verbatim>\<open>strongConnect\<close>
  and \<^verbatim>\<open>visit\<close>): Tarjan's algorithm over the nodes of one run. \<open>g v\<close> is the list
  \<^verbatim>\<open>v.depNodes\<close>. The per-node fields \<^verbatim>\<open>index\<close>, \<^verbatim>\<open>lowlink\<close> and \<^verbatim>\<open>onStack\<close>, which
  \<^verbatim>\<open>tarjanNode.reset\<close> sets before every run, are maps of the run's state; an unvisited node
  (index \<open>-1\<close>) has no index. The stack's top is the head of the list. The Go loop over the map of
  vertices visits them in any order: \<open>order\<close> is that order.

  \<open>visit\<close> is recursive to a depth of at most the number of unvisited nodes, which the fuel counts;
  \<open>None\<close> is running out of fuel or popping an empty stack, and \<open>strongConnect_correct\<close> shows that
  neither happens: the result is the list of strongly connected components, each once, every
  component after those it depends on.
\<close>

section \<open>The algorithm\<close>

record 'v tarjan =
  tj_index :: "'v \<rightharpoonup> nat"
  tj_lowlink :: "'v \<Rightarrow> nat"
  tj_onStack :: "'v \<Rightarrow> bool"
  tj_next :: nat
  tj_stack :: "'v list"
  tj_components :: "'v list list"

definition tj_init :: "'v tarjan" where
  "tj_init = \<lparr>tj_index = Map.empty, tj_lowlink = (\<lambda>_. 0), tj_onStack = (\<lambda>_. False), tj_next = 0,
     tj_stack = [], tj_components = []\<rparr>"

definition tj_enter :: "'v \<Rightarrow> 'v tarjan \<Rightarrow> 'v tarjan" where
  "tj_enter v s =
     s\<lparr>tj_index := (tj_index s)(v \<mapsto> tj_next s), tj_lowlink := (tj_lowlink s)(v := tj_next s),
       tj_next := tj_next s + 1, tj_onStack := (tj_onStack s)(v := True),
       tj_stack := v # tj_stack s\<rparr>"

fun pop_component ::
  "'v \<Rightarrow> 'v list \<Rightarrow> ('v \<Rightarrow> bool) \<Rightarrow> ('v list \<times> 'v list \<times> ('v \<Rightarrow> bool)) option" where
  "pop_component v [] on = None"
| "pop_component v (w # st) on =
     (if w = v then Some ([w], st, on(w := False))
      else case pop_component v st (on(w := False)) of
             None \<Rightarrow> None
           | Some (c, st', on') \<Rightarrow> Some (w # c, st', on'))"

definition tj_leave :: "'v \<Rightarrow> 'v tarjan \<Rightarrow> 'v tarjan option" where
  "tj_leave v s =
     (if Some (tj_lowlink s v) = tj_index s v
      then (case pop_component v (tj_stack s) (tj_onStack s) of
              None \<Rightarrow> None
            | Some (c, st, on) \<Rightarrow>
                Some (s\<lparr>tj_stack := st, tj_onStack := on, tj_components := tj_components s @ [c]\<rparr>))
      else Some s)"

definition tj_lower :: "'v \<Rightarrow> nat \<Rightarrow> 'v tarjan \<Rightarrow> 'v tarjan" where
  "tj_lower v i s = s\<lparr>tj_lowlink := (tj_lowlink s)(v := min (tj_lowlink s v) i)\<rparr>"

fun visit :: "nat \<Rightarrow> ('v \<Rightarrow> 'v list) \<Rightarrow> 'v \<Rightarrow> 'v tarjan \<Rightarrow> 'v tarjan option"
  and visit_deps :: "nat \<Rightarrow> ('v \<Rightarrow> 'v list) \<Rightarrow> 'v \<Rightarrow> 'v list \<Rightarrow> 'v tarjan \<Rightarrow> 'v tarjan option" where
  "visit 0 g v s = None"
| "visit (Suc n) g v s =
     (case visit_deps n g v (g v) (tj_enter v s) of None \<Rightarrow> None | Some s1 \<Rightarrow> tj_leave v s1)"
| "visit_deps n g v [] s = Some s"
| "visit_deps n g v (w # ws) s =
     (case tj_index s w of
        None \<Rightarrow>
          (case visit n g w s of
             None \<Rightarrow> None
           | Some s1 \<Rightarrow> visit_deps n g v ws (tj_lower v (tj_lowlink s1 w) s1))
      | Some i \<Rightarrow>
          (if tj_onStack s w then visit_deps n g v ws (tj_lower v i s)
           else visit_deps n g v ws s))"

fun visit_all :: "nat \<Rightarrow> ('v \<Rightarrow> 'v list) \<Rightarrow> 'v list \<Rightarrow> 'v tarjan \<Rightarrow> 'v tarjan option" where
  "visit_all n g [] s = Some s"
| "visit_all n g (v # vs) s =
     (if tj_index s v = None
      then (case visit n g v s of None \<Rightarrow> None | Some s1 \<Rightarrow> visit_all n g vs s1)
      else visit_all n g vs s)"

definition strongConnect :: "('v \<Rightarrow> 'v list) \<Rightarrow> 'v list \<Rightarrow> 'v list list option" where
  "strongConnect g order =
     map_option tj_components (visit_all (length order) g order tj_init)"

section \<open>Invariants\<close>

definition reach :: "('v \<Rightarrow> 'v list) \<Rightarrow> ('v \<times> 'v) set" where
  "reach g = {(u, w). w \<in> set (g u)}\<^sup>*"

abbreviation idx :: "'v tarjan \<Rightarrow> 'v \<Rightarrow> nat" where
  "idx s u \<equiv> the (tj_index s u)"

text \<open>A component list in construction: each component is strongly connected and depends only on
  itself and on the components before it.\<close>

inductive comps_ok :: "('v \<Rightarrow> 'v list) \<Rightarrow> 'v list list \<Rightarrow> bool" for g where
  comps_Nil: "comps_ok g []"
| comps_snoc: "comps_ok g cs \<Longrightarrow> c \<noteq> [] \<Longrightarrow> \<forall>u \<in> set c. set (g u) \<subseteq> set (concat cs) \<union> set c \<Longrightarrow>
     \<forall>u \<in> set c. \<forall>w \<in> set c. (u, w) \<in> reach g \<Longrightarrow> comps_ok g (cs @ [c])"

lemma reach_refl [simp, intro]: "(u, u) \<in> reach g"
  by (simp add: reach_def)

lemma reach_edge: "w \<in> set (g u) \<Longrightarrow> (u, w) \<in> reach g"
  by (auto simp: reach_def)

lemma reach_trans: "(u, v) \<in> reach g \<Longrightarrow> (v, w) \<in> reach g \<Longrightarrow> (u, w) \<in> reach g"
  unfolding reach_def by (rule rtrancl_trans)

lemma reach_closed:
  assumes "(u, w) \<in> reach g" and "u \<in> C" and "\<And>x. x \<in> C \<Longrightarrow> set (g x) \<subseteq> C"
  shows "w \<in> C"
  using assms (1,2) unfolding reach_def
  by (induction rule: rtrancl_induct) (use assms (3) in auto)

lemma comps_ok_closed: "comps_ok g cs \<Longrightarrow> x \<in> set (concat cs) \<Longrightarrow> set (g x) \<subseteq> set (concat cs)"
  by (induction rule: comps_ok.induct) auto

lemma comps_ok_reach:
  assumes "comps_ok g cs" and "u \<in> set (concat cs)" and "(u, w) \<in> reach g"
  shows "w \<in> set (concat cs)"
  by (rule reach_closed [OF assms (3,2)]) (rule comps_ok_closed [OF assms(1)])

lemma comps_ok_prefix: "comps_ok g (cs @ ds) \<Longrightarrow> comps_ok g cs"
proof (induction ds rule: rev_induct)
  case (snoc d ds)
  from snoc.prems have "comps_ok g ((cs @ ds) @ [d])" by simp
  then have "comps_ok g (cs @ ds)" by (cases rule: comps_ok.cases) auto
  then show ?case by (rule snoc.IH)
qed simp

lemma comps_ok_member:
  assumes "comps_ok g (pre @ c # post)"
  shows "c \<noteq> []" and "u \<in> set c \<Longrightarrow> set (g u) \<subseteq> set (concat pre) \<union> set c"
    and "u \<in> set c \<Longrightarrow> w \<in> set c \<Longrightarrow> (u, w) \<in> reach g"
proof -
  have "comps_ok g (pre @ [c])" using comps_ok_prefix [of g "pre @ [c]" post] assms by simp
  then have "c \<noteq> [] \<and> (\<forall>u \<in> set c. set (g u) \<subseteq> set (concat pre) \<union> set c) \<and>
      (\<forall>u \<in> set c. \<forall>w \<in> set c. (u, w) \<in> reach g)"
    by (cases rule: comps_ok.cases) auto
  then show "c \<noteq> []" "u \<in> set c \<Longrightarrow> set (g u) \<subseteq> set (concat pre) \<union> set c"
    "u \<in> set c \<Longrightarrow> w \<in> set c \<Longrightarrow> (u, w) \<in> reach g" by auto
qed

definition tj_done :: "'v tarjan \<Rightarrow> 'v set" where
  "tj_done s = set (concat (tj_components s))"

definition tj_wf :: "('v \<Rightarrow> 'v list) \<Rightarrow> 'v set \<Rightarrow> 'v tarjan \<Rightarrow> bool" where
  "tj_wf g V s \<longleftrightarrow>
     distinct (tj_stack s) \<and> distinct (concat (tj_components s))
     \<and> set (tj_stack s) \<inter> tj_done s = {} \<and> dom (tj_index s) = set (tj_stack s) \<union> tj_done s
     \<and> dom (tj_index s) \<subseteq> V
     \<and> (\<forall>u. tj_onStack s u \<longleftrightarrow> u \<in> set (tj_stack s))
     \<and> sorted_wrt (\<lambda>a b. idx s b < idx s a) (tj_stack s)
     \<and> (\<forall>u \<in> dom (tj_index s). idx s u < tj_next s)
     \<and> comps_ok g (tj_components s)"

text \<open>What a visit leaves alone.\<close>

definition tj_frame :: "'v tarjan \<Rightarrow> 'v tarjan \<Rightarrow> bool" where
  "tj_frame s t \<longleftrightarrow>
     tj_index s \<subseteq>\<^sub>m tj_index t \<and> (\<forall>u \<in> dom (tj_index s). tj_lowlink t u = tj_lowlink s u)
     \<and> tj_next s \<le> tj_next t \<and> tj_done s \<subseteq> tj_done t"

text \<open>The nodes \<open>ns\<close> pushed since the visit of \<open>v\<close> began, apart from \<open>v\<close>: their successors are
  visited, no edge of theirs leads to a node below \<open>low\<close>, \<open>v\<close> reaches them and they reach a node
  further down.\<close>

definition tj_pushed :: "('v \<Rightarrow> 'v list) \<Rightarrow> 'v \<Rightarrow> nat \<Rightarrow> 'v list \<Rightarrow> 'v tarjan \<Rightarrow> bool" where
  "tj_pushed g v low ns s \<longleftrightarrow>
     (\<forall>u \<in> set ns.
        set (g u) \<subseteq> dom (tj_index s)
        \<and> (\<forall>w \<in> set (g u) \<inter> set (tj_stack s). low \<le> idx s w)
        \<and> (v, u) \<in> reach g
        \<and> (\<exists>w \<in> set (tj_stack s). idx s w < idx s u \<and> (u, w) \<in> reach g))"

definition loop_inv :: "('v \<Rightarrow> 'v list) \<Rightarrow> 'v set \<Rightarrow> 'v tarjan \<Rightarrow> 'v \<Rightarrow> 'v list \<Rightarrow> 'v tarjan \<Rightarrow> bool" where
  "loop_inv g V s0 v dn s \<longleftrightarrow>
     tj_wf g V s0 \<and> tj_wf g V s \<and> tj_frame s0 s \<and> v \<notin> dom (tj_index s0)
     \<and> tj_index s v = Some (tj_next s0) \<and> tj_next s0 < tj_next s
     \<and> set dn \<subseteq> dom (tj_index s)
     \<and> (\<forall>w \<in> set dn \<inter> set (tj_stack s). tj_lowlink s v \<le> idx s w)
     \<and> tj_lowlink s v \<le> tj_next s0
     \<and> (\<exists>w \<in> set (tj_stack s). idx s w = tj_lowlink s v \<and> (v, w) \<in> reach g)
     \<and> (\<exists>mid. tj_stack s = mid @ v # tj_stack s0 \<and> tj_pushed g v (tj_lowlink s v) mid s)"

lemma loop_invI:
  assumes "tj_wf g V s0" and "tj_wf g V s" and "tj_frame s0 s" and "v \<notin> dom (tj_index s0)"
    and "tj_index s v = Some (tj_next s0)" and "tj_next s0 < tj_next s" and "set dn \<subseteq> dom (tj_index s)"
    and "\<And>w. w \<in> set dn \<Longrightarrow> w \<in> set (tj_stack s) \<Longrightarrow> tj_lowlink s v \<le> idx s w"
    and "tj_lowlink s v \<le> tj_next s0"
    and "\<exists>w \<in> set (tj_stack s). idx s w = tj_lowlink s v \<and> (v, w) \<in> reach g"
    and "tj_stack s = mid @ v # tj_stack s0" and "tj_pushed g v (tj_lowlink s v) mid s"
  shows "loop_inv g V s0 v dn s"
  using assms unfolding loop_inv_def by blast

definition visit_post :: "('v \<Rightarrow> 'v list) \<Rightarrow> 'v set \<Rightarrow> 'v \<Rightarrow> 'v tarjan \<Rightarrow> 'v tarjan \<Rightarrow> bool" where
  "visit_post g V v s t \<longleftrightarrow>
     tj_wf g V t \<and> tj_frame s t \<and> v \<in> dom (tj_index t) \<and> tj_lowlink t v \<le> idx t v
     \<and> (\<exists>ns. tj_stack t = ns @ tj_stack s \<and> tj_pushed g v (tj_lowlink t v) ns t
          \<and> (v \<in> set ns \<and> (\<exists>w \<in> set (tj_stack t). idx t w = tj_lowlink t v \<and> (v, w) \<in> reach g)
             \<or> ns = [] \<and> tj_next s \<le> tj_lowlink t v))"

section \<open>The steps keep the invariants\<close>

lemma loop_inv_enter:
  assumes "tj_wf g V s" and "v \<in> V" and "v \<notin> dom (tj_index s)"
  shows "loop_inv g V s v [] (tj_enter v s)"
proof -
  have st: "set (tj_stack s) \<subseteq> dom (tj_index s)" and lt: "\<forall>u \<in> dom (tj_index s). idx s u < tj_next s"
    using assms (1) by (auto simp: tj_wf_def)
  then have ne: "u \<noteq> v \<and> idx s u < tj_next s" if "u \<in> set (tj_stack s)" for u
    using that assms (3) by auto
  have "sorted_wrt (\<lambda>a b. idx (tj_enter v s) b < idx (tj_enter v s) a) (tj_stack s)"
    by (rule sorted_wrt_mono_rel [of _ "\<lambda>a b. idx s b < idx s a"])
      (use assms (1) ne in \<open>auto simp: tj_wf_def tj_enter_def\<close>)
  then have "sorted_wrt (\<lambda>a b. idx (tj_enter v s) b < idx (tj_enter v s) a) (tj_stack (tj_enter v s))"
    using ne by (auto simp: tj_enter_def)
  moreover have "tj_done (tj_enter v s) = tj_done s" by (simp add: tj_done_def tj_enter_def)
  ultimately have wf: "tj_wf g V (tj_enter v s)"
    using assms unfolding tj_wf_def by (auto simp: tj_enter_def less_Suc_eq)
  have "tj_frame s (tj_enter v s)"
    using assms (3) by (auto simp: tj_frame_def tj_enter_def map_le_def tj_done_def)
  with assms wf show ?thesis
    by (auto simp: loop_inv_def tj_enter_def tj_pushed_def intro: exI [of _ "[]"])
qed

lemma tj_lower_simps [simp]:
  "tj_index (tj_lower v i s) = tj_index s" "tj_onStack (tj_lower v i s) = tj_onStack s"
  "tj_next (tj_lower v i s) = tj_next s" "tj_stack (tj_lower v i s) = tj_stack s"
  "tj_components (tj_lower v i s) = tj_components s"
  "tj_lowlink (tj_lower v i s) = (tj_lowlink s)(v := min (tj_lowlink s v) i)"
  "tj_done (tj_lower v i s) = tj_done s"
  by (simp_all add: tj_lower_def tj_done_def)

lemma tj_wf_lower [simp]: "tj_wf g V (tj_lower v i s) = tj_wf g V s"
  by (simp add: tj_wf_def)

lemma tj_frame_lower: "v \<notin> dom (tj_index s) \<Longrightarrow> tj_frame s (tj_lower v i t) = tj_frame s t"
  by (auto simp: tj_frame_def)

lemma tj_pushed_mono: "tj_pushed g v low ns s \<Longrightarrow> low' \<le> low \<Longrightarrow> tj_pushed g v low' ns s"
  unfolding tj_pushed_def using le_trans by blast

lemma loop_inv_off_stack:
  assumes "loop_inv g V s0 v dn s" and "w \<in> dom (tj_index s)" and "w \<notin> set (tj_stack s)"
  shows "loop_inv g V s0 v (dn @ [w]) s"
  using assms by (auto simp: loop_inv_def)

lemma loop_inv_on_stack:
  assumes inv: "loop_inv g V s0 v dn s" and i: "tj_index s w = Some i" and st: "w \<in> set (tj_stack s)"
    and e: "w \<in> set (g v)"
  shows "loop_inv g V s0 v (dn @ [w]) (tj_lower v i s)"
proof -
  let ?m = "min (tj_lowlink s v) i"
  from inv obtain mid where mid: "tj_stack s = mid @ v # tj_stack s0" "tj_pushed g v (tj_lowlink s v) mid s"
    and wfs: "tj_wf g V s0" "tj_wf g V s" and fr: "tj_frame s0 s" and v0: "v \<notin> dom (tj_index s0)"
    and vi: "tj_index s v = Some (tj_next s0)" "tj_next s0 < tj_next s" "tj_lowlink s v \<le> tj_next s0"
    and dn: "set dn \<subseteq> dom (tj_index s)" "\<forall>x \<in> set dn \<inter> set (tj_stack s). tj_lowlink s v \<le> idx s x"
    and x: "\<exists>x \<in> set (tj_stack s). idx s x = tj_lowlink s v \<and> (v, x) \<in> reach g"
    unfolding loop_inv_def by blast
  have low: "\<exists>x \<in> set (tj_stack s). idx s x = ?m \<and> (v, x) \<in> reach g"
  proof (cases "tj_lowlink s v \<le> i")
    case True
    with x show ?thesis by (simp add: min_def)
  next
    case False
    with st reach_edge [of w g v, OF e] i show ?thesis by (intro bexI [of _ w]) (auto simp: min_def)
  qed
  have p: "tj_pushed g v ?m mid (tj_lower v i s)"
    using tj_pushed_mono [OF mid (2), of ?m] by (simp add: tj_pushed_def)
  have le: "?m \<le> idx s y" if "y \<in> set (dn @ [w])" "y \<in> set (tj_stack s)" for y
  proof (cases "y = w")
    case True
    with i show ?thesis by simp
  next
    case False
    with that dn (2) have "tj_lowlink s v \<le> idx s y" by auto
    then show ?thesis by simp
  qed
  show ?thesis
    by (rule loop_invI [where mid = mid])
      (use wfs fr v0 vi dn (1) low p le mid (1) i in \<open>simp_all add: tj_frame_lower domI\<close>)
qed

lemma tj_frame_trans: "tj_frame s t \<Longrightarrow> tj_frame t u \<Longrightarrow> tj_frame s u"
  by (force simp: tj_frame_def map_le_def dom_def)

lemma tj_frame_idx: "tj_frame s t \<Longrightarrow> u \<in> dom (tj_index s) \<Longrightarrow> tj_index t u = tj_index s u"
  by (auto simp: tj_frame_def map_le_def)

lemma tj_pushed_frame:
  assumes p: "tj_pushed g v low ns s" and f: "tj_frame s t" and wf: "tj_wf g V s" "tj_wf g V t"
    and st: "tj_stack t = ps @ tj_stack s" and ns: "set ns \<subseteq> set (tj_stack s)"
  shows "tj_pushed g v low ns t"
  unfolding tj_pushed_def
proof (intro ballI conjI)
  fix u assume u: "u \<in> set ns"
  have dom: "dom (tj_index s) \<subseteq> dom (tj_index t)" using f by (auto simp: tj_frame_def map_le_def dom_def)
  have us: "u \<in> dom (tj_index s)" using u ns wf (1) by (auto simp: tj_wf_def)
  show "set (g u) \<subseteq> dom (tj_index t)" using p u dom by (fastforce simp: tj_pushed_def)
  show "(v, u) \<in> reach g" using p u by (simp add: tj_pushed_def)
  from p u obtain w where w: "w \<in> set (tj_stack s)" "idx s w < idx s u" "(u, w) \<in> reach g"
    by (auto simp: tj_pushed_def)
  with us wf (1) have "idx t w < idx t u" by (simp add: tj_frame_idx [OF f] tj_wf_def)
  with w st show "\<exists>w \<in> set (tj_stack t). idx t w < idx t u \<and> (u, w) \<in> reach g" by auto
next
  fix u w assume u: "u \<in> set ns" and w: "w \<in> set (g u) \<inter> set (tj_stack t)"
  from p u w have ws: "w \<in> dom (tj_index s)" by (auto simp: tj_pushed_def)
  have "w \<notin> tj_done s"
    using w f wf (2) by (auto simp: tj_frame_def tj_wf_def)
  with ws wf (1) have "w \<in> set (tj_stack s)" by (auto simp: tj_wf_def)
  with p u w show "low \<le> idx t w" by (simp add: tj_frame_idx [OF f ws] tj_pushed_def)
qed

lemma loop_inv_visit:
  assumes inv: "loop_inv g V s0 v dn s" and new: "w \<notin> dom (tj_index s)"
    and post: "visit_post g V w s t" and e: "w \<in> set (g v)"
  shows "loop_inv g V s0 v (dn @ [w]) (tj_lower v (tj_lowlink t w) t)"
proof -
  let ?l = "tj_lowlink s v" and ?m = "min (tj_lowlink s v) (tj_lowlink t w)"
  let ?t = "tj_lower v (tj_lowlink t w) t"
  from inv obtain mid where mid: "tj_stack s = mid @ v # tj_stack s0" "tj_pushed g v ?l mid s"
    and wfs: "tj_wf g V s0" "tj_wf g V s" and fr: "tj_frame s0 s" and v0: "v \<notin> dom (tj_index s0)"
    and vi: "tj_index s v = Some (tj_next s0)" "tj_next s0 < tj_next s" "?l \<le> tj_next s0"
    and dn: "set dn \<subseteq> dom (tj_index s)" "\<forall>x \<in> set dn \<inter> set (tj_stack s). ?l \<le> idx s x"
    by (auto simp: loop_inv_def)
  from inv obtain x where x: "x \<in> set (tj_stack s)" "idx s x = ?l" "(v, x) \<in> reach g"
    by (auto simp: loop_inv_def)
  from post obtain ns where ns: "tj_stack t = ns @ tj_stack s" "tj_pushed g w (tj_lowlink t w) ns t"
    and alt: "w \<in> set ns \<and> (\<exists>y \<in> set (tj_stack t). idx t y = tj_lowlink t w \<and> (w, y) \<in> reach g)
              \<or> ns = [] \<and> tj_next s \<le> tj_lowlink t w"
    and wft: "tj_wf g V t" and frt: "tj_frame s t" and wt: "w \<in> dom (tj_index t)" "tj_lowlink t w \<le> idx t w"
    unfolding visit_post_def by blast
  have dom: "dom (tj_index s) \<subseteq> dom (tj_index t)" using frt by (auto simp: tj_frame_def map_le_def dom_def)
  have lv: "tj_lowlink t v = ?l" using frt vi (1) by (auto simp: tj_frame_def)
  have vw: "(v, w) \<in> reach g" by (rule reach_edge [of w g v, OF e])
  have old: "tj_pushed g v ?m mid t"
    using tj_pushed_mono [OF tj_pushed_frame [OF mid (2) frt wfs (2) wft ns (1)], of ?m] mid (1) by auto
  have new_ns: "tj_pushed g v ?m ns t"
    using tj_pushed_mono [OF ns (2), of ?m] reach_trans [OF vw]
    by (simp add: tj_pushed_def)
  have pushed: "tj_pushed g v ?m (ns @ mid) ?t"
    using old new_ns by (auto simp: tj_pushed_def)
  have low: "\<exists>y \<in> set (tj_stack t). idx t y = ?m \<and> (v, y) \<in> reach g"
  proof (cases "tj_lowlink t w < ?l")
    case True
    with alt vi (2,3) have "\<exists>y \<in> set (tj_stack t). idx t y = tj_lowlink t w \<and> (w, y) \<in> reach g"
      by auto
    with True reach_trans [OF vw] show ?thesis by (auto simp: min_def)
  next
    case False
    have "x \<in> dom (tj_index s)" using x (1) wfs (2) by (auto simp: tj_wf_def)
    then have "idx t x = ?l" using x (2) by (simp add: tj_frame_idx [OF frt])
    with False x ns (1) show ?thesis by (auto simp: min_def)
  qed
  have dnt: "?m \<le> idx t y" if y: "y \<in> set (dn @ [w])" "y \<in> set (tj_stack t)" for y
  proof (cases "y = w")
    case True
    with wt (2) show ?thesis by simp
  next
    case False
    with y dn (1) have ys: "y \<in> dom (tj_index s)" by auto
    have "y \<notin> tj_done s" using y (2) frt wft by (auto simp: tj_frame_def tj_wf_def)
    with ys wfs (2) have "y \<in> set (tj_stack s)" by (auto simp: tj_wf_def)
    with False y dn (2) have "?l \<le> idx s y" by auto
    then show ?thesis by (simp add: tj_frame_idx [OF frt ys])
  qed
  have vt: "tj_index t v = Some (tj_next s0)" using vi (1) tj_frame_idx [OF frt, of v] by (simp add: domI)
  have "tj_next s0 < tj_next t" using vi (2) frt by (auto simp: tj_frame_def)
  then show ?thesis
    by (intro loop_invI [where mid = "ns @ mid"])
      (use low dnt vt vi (3) pushed wfs (1) wft tj_frame_trans [OF fr frt] v0 mid (1) ns (1) dn (1) dom
         wt (1) lv in \<open>simp_all add: tj_frame_lower order_trans [OF _ dom] min_le_iff_disj\<close>)
qed

lemma pop_component_spec:
  "v \<notin> set mid \<Longrightarrow> pop_component v (mid @ v # st) on =
     Some (mid @ [v], st, \<lambda>u. on u \<and> u \<notin> set (mid @ [v]))"
  by (induction mid arbitrary: on) (auto simp: fun_eq_iff)


text \<open>Leaving \<open>v\<close>: either it stays on the stack, or it and what lies above it form a component.\<close>

lemma leave_component:
  assumes inv: "loop_inv g V s v (g v) t" and low: "tj_lowlink t v = tj_next s"
    and mid: "tj_stack t = mid @ v # tj_stack s" "tj_pushed g v (tj_lowlink t v) mid t"
    and u: "u \<in> set (mid @ [v])"
  shows "set (g u) \<subseteq> tj_done t \<union> set (mid @ [v])" and "(v, u) \<in> reach g \<and> (u, v) \<in> reach g"
proof -
  have wf: "tj_wf g V s" "tj_wf g V t" and fr: "tj_frame s t"
    and vi: "tj_index t v = Some (tj_next s)" and dn: "set (g v) \<subseteq> dom (tj_index t)"
      "\<forall>w \<in> set (g v) \<inter> set (tj_stack t). tj_lowlink t v \<le> idx t w"
    using inv by (auto simp: loop_inv_def)
  have base: "idx t w < tj_next s" if w: "w \<in> set (tj_stack s)" for w
  proof -
    have "w \<in> dom (tj_index s)" using w wf (1) by (auto simp: tj_wf_def)
    with wf (1) show ?thesis by (simp add: tj_frame_idx [OF fr] tj_wf_def)
  qed
  have closed: "set (g x) \<subseteq> tj_done t \<union> set (mid @ [v])" if x: "x \<in> set (mid @ [v])" for x
  proof
    fix w assume w: "w \<in> set (g x)"
    have "w \<in> dom (tj_index t)" using x w dn (1) mid (2) by (auto simp: tj_pushed_def)
    moreover have "w \<in> set (tj_stack t) \<Longrightarrow> tj_next s \<le> idx t w"
      using x w dn (2) mid (2) low by (auto simp: tj_pushed_def)
    moreover have "dom (tj_index t) = set (mid @ v # tj_stack s) \<union> tj_done t"
      using wf (2) mid (1) by (simp add: tj_wf_def)
    moreover have "w \<notin> set (tj_stack s)" if "tj_next s \<le> idx t w" using that base [of w] by linarith
    ultimately show "w \<in> tj_done t \<union> set (mid @ [v])" using mid (1) by auto
  qed
  then show "set (g u) \<subseteq> tj_done t \<union> set (mid @ [v])" using u by blast
  have inside: "w \<in> tj_done t \<union> set (mid @ [v])" if "(x, w) \<in> reach g" "x \<in> set (mid @ [v])" for x w
  proof (rule reach_closed [OF that (1)])
    show "x \<in> tj_done t \<union> set (mid @ [v])" using that (2) by blast
    show "set (g y) \<subseteq> tj_done t \<union> set (mid @ [v])" if "y \<in> tj_done t \<union> set (mid @ [v])" for y
      using that closed comps_ok_closed [of g "tj_components t" y] wf (2)
      by (auto simp: tj_wf_def tj_done_def simp del: set_concat)
  qed
  have up: "(x, v) \<in> reach g" if "x \<in> set (mid @ [v])" for x
    using that
  proof (induction "idx t x" arbitrary: x rule: less_induct)
    case less
    show ?case
    proof (cases "x = v")
      case False
      with less.prems have "x \<in> set mid" by auto
      with mid (2) obtain w where w: "w \<in> set (tj_stack t)" "idx t w < idx t x" "(x, w) \<in> reach g"
        by (auto simp: tj_pushed_def)
      have "w \<notin> tj_done t" using w (1) wf (2) by (auto simp: tj_wf_def)
      with inside [OF w (3) less.prems] have "w \<in> set (mid @ [v])" by auto
      from less.hyps [OF w (2) this] reach_trans [OF w (3)] show ?thesis by blast
    qed simp
  qed
  show "(v, u) \<in> reach g \<and> (u, v) \<in> reach g"
    using up [OF u] u mid (2) by (auto simp: tj_pushed_def)
qed

lemma visit_leave:
  assumes inv: "loop_inv g V s v (g v) t"
  shows "\<exists>t'. tj_leave v t = Some t' \<and> visit_post g V v s t'"
proof -
  from inv obtain mid where mid: "tj_stack t = mid @ v # tj_stack s" "tj_pushed g v (tj_lowlink t v) mid t"
    by (auto simp: loop_inv_def)
  have wf: "tj_wf g V s" "tj_wf g V t" and fr: "tj_frame s t"
    and vi: "tj_index t v = Some (tj_next s)" and low: "tj_lowlink t v \<le> tj_next s"
    using inv by (auto simp: loop_inv_def)
  from wf (2) mid (1) have dist: "v \<notin> set mid" "distinct (mid @ v # tj_stack s)" by (auto simp: tj_wf_def)
  show ?thesis
  proof (cases "tj_lowlink t v = tj_next s")
    case True
    note comp = leave_component [OF inv True mid]
    let ?t' = "t\<lparr>tj_stack := tj_stack s, tj_onStack := (\<lambda>u. tj_onStack t u \<and> u \<notin> set (mid @ [v])),
        tj_components := tj_components t @ [mid @ [v]]\<rparr>"
    have leave: "tj_leave v t = Some ?t'"
      using True vi by (simp add: tj_leave_def mid (1) pop_component_spec [OF dist (1)])
    have done': "tj_done ?t' = tj_done t \<union> set (mid @ [v])" by (auto simp: tj_done_def)
    have ok: "comps_ok g (tj_components ?t')"
    proof -
      have "comps_ok g (tj_components t)" using wf (2) by (simp add: tj_wf_def)
      then have "comps_ok g (tj_components t @ [mid @ [v]])"
      proof (rule comps_snoc)
        show "\<forall>u \<in> set (mid @ [v]). set (g u) \<subseteq> set (concat (tj_components t)) \<union> set (mid @ [v])"
          using comp (1) unfolding tj_done_def by blast
        show "\<forall>u \<in> set (mid @ [v]). \<forall>w \<in> set (mid @ [v]). (u, w) \<in> reach g"
        proof (intro ballI)
          fix u w assume "u \<in> set (mid @ [v])" "w \<in> set (mid @ [v])"
          with comp (2) have "(u, v) \<in> reach g" "(v, w) \<in> reach g" by blast+
          then show "(u, w) \<in> reach g" by (rule reach_trans)
        qed
      qed simp
      then show ?thesis by simp
    qed
    have disj: "set (mid @ v # tj_stack s) \<inter> tj_done t = {}"
      using wf (2) mid (1) by (simp add: tj_wf_def)
    have "distinct (concat (tj_components ?t'))"
      using wf (2) disj dist by (auto simp: tj_wf_def tj_done_def)
    moreover have "set (tj_stack s) \<inter> tj_done ?t' = {}"
      using disj dist unfolding done' by auto
    moreover have "dom (tj_index ?t') = set (tj_stack s) \<union> tj_done ?t'"
      using wf (2) mid (1) unfolding done' by (auto simp: tj_wf_def)
    ultimately have wf': "tj_wf g V ?t'"
      using wf (2) mid (1) ok dist unfolding tj_wf_def by (auto simp: sorted_wrt_append)
    have "tj_frame s ?t'" using fr unfolding tj_frame_def done' by auto
    with wf' True vi have "visit_post g V v s ?t'"
      unfolding visit_post_def by (auto simp: tj_pushed_def)
    with leave show ?thesis by blast
  next
    case False
    with low have lt: "tj_lowlink t v < tj_next s" by simp
    from False vi have leave: "tj_leave v t = Some t" by (simp add: tj_leave_def)
    obtain w where w: "w \<in> set (tj_stack t)" "idx t w = tj_lowlink t v" "(v, w) \<in> reach g"
      using inv by (auto simp: loop_inv_def)
    have "set (g v) \<subseteq> dom (tj_index t) \<and> (\<forall>w \<in> set (g v) \<inter> set (tj_stack t). tj_lowlink t v \<le> idx t w)"
      using inv by (simp add: loop_inv_def)
    moreover have "\<exists>w \<in> set (tj_stack t). idx t w < idx t v \<and> (v, w) \<in> reach g"
      using w lt vi by (intro bexI [of _ w]) auto
    ultimately have p: "tj_pushed g v (tj_lowlink t v) (mid @ [v]) t"
      using mid (2) unfolding tj_pushed_def by simp
    have "\<exists>ns. tj_stack t = ns @ tj_stack s \<and> tj_pushed g v (tj_lowlink t v) ns t
          \<and> (v \<in> set ns \<and> (\<exists>w \<in> set (tj_stack t). idx t w = tj_lowlink t v \<and> (v, w) \<in> reach g)
             \<or> ns = [] \<and> tj_next s \<le> tj_lowlink t v)"
      using mid (1) w p by (intro exI [of _ "mid @ [v]"]) auto
    with wf (2) fr vi low have "visit_post g V v s t"
      unfolding visit_post_def by (simp add: domI)
    with leave show ?thesis by blast
  qed
qed

section \<open>Correctness\<close>

lemma visit_correct:
  assumes fin: "finite V"
  shows "\<forall>x \<in> V. set (g x) \<subseteq> V \<Longrightarrow> tj_wf g V s \<Longrightarrow> v \<in> V \<Longrightarrow> v \<notin> dom (tj_index s) \<Longrightarrow>
           card (V - dom (tj_index s)) \<le> n \<Longrightarrow> \<exists>t. visit n g v s = Some t \<and> visit_post g V v s t"
    and "\<forall>x \<in> V. set (g x) \<subseteq> V \<Longrightarrow> loop_inv g V s0 v dn s \<Longrightarrow> v \<in> V \<Longrightarrow> g v = dn @ ws \<Longrightarrow>
           card (V - dom (tj_index s)) \<le> n \<Longrightarrow>
           \<exists>t. visit_deps n g v ws s = Some t \<and> loop_inv g V s0 v (g v) t"
proof (induction n g v s and n g v ws s arbitrary: and s0 dn rule: visit_visit_deps.induct)
  case (1 g v s)
  then show ?case using fin by auto
next
  case (2 n g v s)
  have e: "loop_inv g V s v [] (tj_enter v s)" by (rule loop_inv_enter [OF "2.prems" (2-4)])
  have "dom (tj_index (tj_enter v s)) = insert v (dom (tj_index s))" by (auto simp: tj_enter_def)
  then have "V - dom (tj_index (tj_enter v s)) \<subset> V - dom (tj_index s)" using "2.prems" (3,4) by auto
  from psubset_card_mono [OF _ this] "2.prems" (5) fin
  have "card (V - dom (tj_index (tj_enter v s))) \<le> n" by simp
  from "2.IH" [OF "2.prems" (1) e "2.prems" (3) _ this] obtain t where
    t: "visit_deps n g v (g v) (tj_enter v s) = Some t" "loop_inv g V s v (g v) t" by auto
  from visit_leave [OF t (2)] t (1) show ?case by auto
next
  case (3 n g v s)
  then show ?case by auto
next
  case (4 n g v w ws s)
  have w: "w \<in> set (g v)" "w \<in> V" using "4.prems" by auto
  have wf: "tj_wf g V s" using "4.prems" (2) by (simp add: loop_inv_def)
  have gv: "g v = (dn @ [w]) @ ws" using "4.prems" (4) by simp
  show ?case
  proof (cases "tj_index s w")
    case None
    then have new: "w \<notin> dom (tj_index s)" by auto
    from "4.IH" (1) [OF None "4.prems" (1) wf w (2) new "4.prems" (5)]
    obtain t where t: "visit n g w s = Some t" "visit_post g V w s t" by blast
    let ?t = "tj_lower v (tj_lowlink t w) t"
    have inv: "loop_inv g V s0 v (dn @ [w]) ?t" by (rule loop_inv_visit [OF "4.prems" (2) new t (2) w (1)])
    have "dom (tj_index s) \<subseteq> dom (tj_index ?t)"
      using t (2) by (auto simp: visit_post_def tj_frame_def map_le_def dom_def)
    then have "V - dom (tj_index ?t) \<subseteq> V - dom (tj_index s)" by auto
    from card_mono [OF _ this] fin "4.prems" (5) have "card (V - dom (tj_index ?t)) \<le> n" by auto
    from "4.IH" (2) [OF None t (1) "4.prems" (1) inv "4.prems" (3) gv this] None t (1)
    show ?thesis by auto
  next
    case (Some i)
    show ?thesis
    proof (cases "tj_onStack s w")
      case True
      with wf have "w \<in> set (tj_stack s)" by (simp add: tj_wf_def)
      from "4.IH" (3) [OF Some True "4.prems" (1) loop_inv_on_stack [OF "4.prems" (2) Some this w (1)]
          "4.prems" (3) gv] "4.prems" (5) Some True
      show ?thesis by auto
    next
      case False
      with wf have "w \<notin> set (tj_stack s)" by (simp add: tj_wf_def)
      with loop_inv_off_stack [OF "4.prems" (2) domI [of "tj_index s", OF Some]]
      have inv: "loop_inv g V s0 v (dn @ [w]) s" by blast
      from "4.IH" (4) [OF Some False "4.prems" (1) inv "4.prems" (3) gv "4.prems" (5)] Some False
      show ?thesis by auto
    qed
  qed
qed

text \<open>Between visits the stack is empty.\<close>

lemma visit_from_empty:
  assumes "visit_post g V v s t" and "tj_stack s = []" and "tj_wf g V s"
  shows "tj_stack t = []"
proof -
  from assms (1,2) obtain ns where ns: "tj_stack t = ns" "tj_pushed g v (tj_lowlink t v) ns t" and wf: "tj_wf g V t"
    by (auto simp: visit_post_def)
  have "u \<notin> set ns" for u
  proof (induction "idx t u" arbitrary: u rule: less_induct)
    case less
    show ?case using less.hyps ns unfolding tj_pushed_def by blast
  qed
  with ns (1) show ?thesis by (cases ns) auto
qed

lemma visit_all_correct:
  assumes fin: "finite V" and clos: "\<forall>x \<in> V. set (g x) \<subseteq> V" and n: "card V \<le> n"
  shows "tj_wf g V s \<Longrightarrow> tj_stack s = [] \<Longrightarrow> set vs \<subseteq> V \<Longrightarrow>
     \<exists>t. visit_all n g vs s = Some t \<and> tj_wf g V t \<and> tj_stack t = [] \<and> tj_frame s t
       \<and> set vs \<subseteq> dom (tj_index t)"
proof (induction vs arbitrary: s)
  case Nil
  then show ?case by (auto simp: tj_frame_def)
next
  case (Cons v vs)
  show ?case
  proof (cases "tj_index s v")
    case None
    have "card (V - dom (tj_index s)) \<le> n"
      using n card_mono [of V "V - dom (tj_index s)"] fin by auto
    with visit_correct (1) [OF fin clos Cons.prems (1), of v n] None Cons.prems (3)
    obtain t where t: "visit n g v s = Some t" "visit_post g V v s t" by auto
    have wf: "tj_wf g V t" "tj_stack t = []" "tj_frame s t" "v \<in> dom (tj_index t)"
      using t (2) visit_from_empty [OF t (2) Cons.prems (2,1)] by (auto simp: visit_post_def)
    from Cons.IH [OF wf (1,2)] Cons.prems (3) obtain u where
      u: "visit_all n g vs t = Some u" "tj_wf g V u" "tj_stack u = []" "tj_frame t u" "set vs \<subseteq> dom (tj_index u)"
      by auto
    have "v \<in> dom (tj_index u)" using wf (4) u (4) by (auto simp: tj_frame_def map_le_def dom_def)
    with None t (1) u tj_frame_trans [OF wf (3) u (4)] show ?thesis by auto
  next
    case (Some i)
    from Cons.IH [OF Cons.prems (1,2)] Cons.prems (3) obtain u where
      u: "visit_all n g vs s = Some u" "tj_wf g V u" "tj_stack u = []" "tj_frame s u" "set vs \<subseteq> dom (tj_index u)"
      by auto
    have "v \<in> dom (tj_index u)" using Some u (4) by (auto simp: tj_frame_def map_le_def dom_def)
    with Some u show ?thesis by auto
  qed
qed

theorem strongConnect_correct:
  assumes "\<forall>v \<in> set order. set (g v) \<subseteq> set order"
  shows "\<exists>cs. strongConnect g order = Some cs \<and> comps_ok g cs
           \<and> distinct (concat cs) \<and> set (concat cs) = set order"
proof -
  have "tj_wf g (set order) tj_init"
    by (simp add: tj_wf_def tj_init_def tj_done_def comps_Nil)
  from visit_all_correct [OF _ assms card_length this _ order.refl] obtain t where
    t: "visit_all (length order) g order tj_init = Some t" "tj_wf g (set order) t" "tj_stack t = []"
      "set order \<subseteq> dom (tj_index t)"
    by (auto simp: tj_init_def)
  then show ?thesis
    by (auto simp: strongConnect_def tj_wf_def tj_done_def simp del: set_concat)
qed

text \<open>Each component is a maximal set of mutually reachable nodes.\<close>

lemma comps_ok_scc:
  assumes ok: "comps_ok g (pre @ c # post)" and dist: "distinct (concat (pre @ c # post))"
    and u: "u \<in> set c" and w: "(u, w) \<in> reach g" "(w, u) \<in> reach g"
  shows "w \<in> set c"
proof -
  have ok': "comps_ok g (pre @ [c])" and ok'': "comps_ok g pre"
    using comps_ok_prefix [of g "pre @ [c]" post] comps_ok_prefix [of g pre "c # post"] ok by auto
  have "w \<in> set (concat (pre @ [c]))"
    by (rule comps_ok_reach [OF ok' _ w (1)]) (use u in simp)
  moreover have "w \<notin> set (concat pre)"
  proof
    assume "w \<in> set (concat pre)"
    from comps_ok_reach [OF ok'' this w (2)] u dist show False by auto
  qed
  ultimately show ?thesis by auto
qed

end
