(* ===== verification/Nvb_Core.thy ===== *)
theory Nvb_Core
  imports Nvb_State Nvb_Tarjan
begin

text \<open>
  The EPaxos state machine (\<^verbatim>\<open>command.go\<close>, \<^verbatim>\<open>instance.go\<close>, \<^verbatim>\<open>execute.go\<close>, \<^verbatim>\<open>epaxos.go\<close> of
  \<^verbatim>\<open>lab/upstream/nvb-epaxos/epaxos\<close>): dependency computation, the executor, the transition table, the
  message handlers, ticking and start-up. Parameters: \<open>ops\<close> are the operations of the third-party
  \<^verbatim>\<open>interval.RangeGroup\<close> (empty whenever \<^verbatim>\<open>seqAndDepsForCommand\<close> is entered, because it clears the
  group after every replica), and \<open>ord\<close> is the order in which a Go loop over a map meets its keys.
\<close>

section \<open>Sequence number and dependencies of a command\<close>

record Range =
  rg_Start :: bytes
  rg_End :: bytes

record 'g range_ops =
  rg_new :: 'g
  rg_Add :: "Range \<Rightarrow> 'g \<Rightarrow> bool \<times> 'g"
  rg_Len :: "'g \<Rightarrow> int"
  rg_Encloses :: "Range \<Rightarrow> 'g \<Rightarrow> bool"
  rg_Overlaps :: "Range \<Rightarrow> 'g \<Rightarrow> bool"

definition rangeForCmd :: "NCommand \<Rightarrow> Range" where
  "rangeForCmd cmd =
     (let startKey = sp_Key (nc_Span cmd); endKey = sp_EndKey (nc_Span cmd) in
      \<lparr>rg_Start = startKey, rg_End = (if length endKey = 0 then startKey @ [0] else endKey)\<rparr>)"

text \<open>The callback given to \<^verbatim>\<open>Descend\<close>, over the remaining instances of replica \<open>rID\<close>.\<close>

fun descend_deps ::
  "'g range_ops \<Rightarrow> NCommand \<Rightarrow> InstanceID \<Rightarrow> ReplicaID \<Rightarrow> Instance list \<Rightarrow> 'g \<Rightarrow> SeqNum
     \<Rightarrow> InstanceID list \<Rightarrow> panic + SeqNum \<times> InstanceID list" where
  "descend_deps ops cmd ignored rID [] g maxSeq deps = Inr (maxSeq, deps)"
| "descend_deps ops cmd ignored rID (inst # rest) g maxSeq deps =
     (if in_ID inst = ignored then descend_deps ops cmd ignored rID rest g maxSeq deps
      else case in_Command inst of
        None \<Rightarrow> Inl NilCommand
      | Some otherCmd \<Rightarrow>
          if Interferes otherCmd cmd then
            (let maxSeq' = MaxSeqNum maxSeq (in_SeqNum inst);
                 otherRange = rangeForCmd otherCmd;
                 deps' = IID rID (in_num inst) # deps
             in
             if nc_Writing otherCmd then
               (case rg_Add ops otherRange g of (grew, g') \<Rightarrow>
                  if grew then
                    (if rg_Len ops g' = 1 \<and> rg_Encloses ops (rangeForCmd cmd) g' then Inr (maxSeq', deps')
                     else descend_deps ops cmd ignored rID rest g' maxSeq' deps')
                  else descend_deps ops cmd ignored rID rest g' maxSeq' deps)
             else if \<not> rg_Overlaps ops otherRange g
               then descend_deps ops cmd ignored rID rest g maxSeq' deps'
             else descend_deps ops cmd ignored rID rest g maxSeq' deps)
          else descend_deps ops cmd ignored rID rest g maxSeq deps)"

fun replicas_deps ::
  "'g range_ops \<Rightarrow> epaxos \<Rightarrow> NCommand \<Rightarrow> InstanceID \<Rightarrow> ReplicaID list \<Rightarrow> SeqNum
     \<Rightarrow> InstanceID list \<Rightarrow> panic + SeqNum \<times> InstanceID list" where
  "replicas_deps ops p cmd ignored [] maxSeq deps = Inr (maxSeq, deps)"
| "replicas_deps ops p cmd ignored (rID # rs) maxSeq deps =
     bind_p (descend_deps ops cmd ignored rID
               (rev (case p_commands p rID of None \<Rightarrow> [] | Some t \<Rightarrow> t)) (rg_new ops) maxSeq deps)
       (\<lambda>(maxSeq', deps'). replicas_deps ops p cmd ignored rs maxSeq' deps')"

definition seqAndDepsForCommand ::
  "'g range_ops \<Rightarrow> epaxos \<Rightarrow> NCommand option \<Rightarrow> InstanceID \<Rightarrow> panic + SeqNum \<times> InstanceID list" where
  "seqAndDepsForCommand ops p cmd ignored =
     (case cmd of
        None \<Rightarrow> Inl NilCommand
      | Some c \<Rightarrow> replicas_deps ops p c ignored (remdups (p_nodes p)) 0 [])"

section \<open>Transition to Executed\<close>

definition persist :: "InstanceID \<Rightarrow> epaxos \<Rightarrow> panic + epaxos" where
  "persist d p =
     with_inst p d (\<lambda>inst.
       bind_p (PersistInstance (in_is inst) (p_storage p)) (\<lambda>st. Inr (p\<lparr>p_storage := st\<rparr>)))"

text \<open>\<^verbatim>\<open>instance.Execute\<close>: \<^verbatim>\<open>transitionTo(Executed)\<close>, whose only table entry is from Committed.
  \<open>transitionTo\<close> below agrees with it (\<open>transitionTo_Executed\<close>).\<close>

definition Execute_action :: "InstanceID \<Rightarrow> epaxos \<Rightarrow> panic + epaxos" where
  "Execute_action d p =
     with_inst p d (\<lambda>inst.
       case in_Command inst of
         None \<Rightarrow> Inl NilCommand
       | Some c \<Rightarrow> Inr (deliverExecutedCommand c p))"

definition Execute_inst :: "InstanceID \<Rightarrow> epaxos \<Rightarrow> panic + epaxos" where
  "Execute_inst d p =
     with_inst p d (\<lambda>inst.
       if in_Status inst = Committed
       then bind_p (Execute_action d (setInstance (with_Status Executed inst) p)) (persist d)
       else Inl (UnexpectedTransition (in_Status inst) Executed))"

section \<open>The executor\<close>

definition Dependencies :: "epaxos \<Rightarrow> InstanceID \<Rightarrow> InstanceID list" where
  "Dependencies p d = (case inst_at p d of None \<Rightarrow> [] | Some inst \<Rightarrow> in_Deps inst)"

definition depNodes :: "epaxos \<Rightarrow> InstanceID \<Rightarrow> InstanceID list" where
  "depNodes p d = filter (\<lambda>w. w \<in> set (p_vertices p)) (Dependencies p d)"

definition ExecutesBefore :: "epaxos \<Rightarrow> InstanceID \<Rightarrow> InstanceID \<Rightarrow> bool" where
  "ExecutesBefore p a b =
     (case (inst_at p a, inst_at p b) of
        (Some x, Some y) \<Rightarrow>
          (if in_SeqNum x \<noteq> in_SeqNum y then in_SeqNum x < in_SeqNum y
           else iid_rep (in_ID x) < iid_rep (in_ID y))
      | _ \<Rightarrow> False)"

definition addExec :: "InstanceID \<Rightarrow> epaxos \<Rightarrow> epaxos" where
  "addExec d p = (if d \<in> set (p_vertices p) then p else p\<lparr>p_vertices := p_vertices p @ [d]\<rparr>)"

text \<open>The check of \<^verbatim>\<open>executeSCC\<close>: every dependency is in this component or has executed.\<close>

fun deps_ready :: "epaxos \<Rightarrow> InstanceID list \<Rightarrow> InstanceID list \<Rightarrow> panic + bool" where
  "deps_ready p scc [] = Inr True"
| "deps_ready p scc (dep # deps) =
     (if dep \<in> set (p_vertices p) \<and> dep \<in> set scc then deps_ready p scc deps
      else bind_p (hasExecuted p dep)
             (\<lambda>e. if e then deps_ready p scc deps else Inr False))"

fun scc_ready :: "epaxos \<Rightarrow> InstanceID list \<Rightarrow> InstanceID list \<Rightarrow> panic + bool" where
  "scc_ready p scc [] = Inr True"
| "scc_ready p scc (v # vs) =
     bind_p (deps_ready p scc (Dependencies p v))
       (\<lambda>r. if r then scc_ready p scc vs else Inr False)"

text \<open>\<^verbatim>\<open>sort.Slice\<close>; it may leave elements the comparison does not separate in any order, here in
  their order in the component.\<close>

fun insert_by :: "('a \<Rightarrow> 'a \<Rightarrow> bool) \<Rightarrow> 'a \<Rightarrow> 'a list \<Rightarrow> 'a list" where
  "insert_by lt x [] = [x]"
| "insert_by lt x (y # ys) = (if lt y x then y # insert_by lt x ys else x # y # ys)"

definition sort_by :: "('a \<Rightarrow> 'a \<Rightarrow> bool) \<Rightarrow> 'a list \<Rightarrow> 'a list" where
  "sort_by lt xs = foldr (insert_by lt) xs []"

fun execute_all :: "InstanceID list \<Rightarrow> epaxos \<Rightarrow> panic + epaxos" where
  "execute_all [] p = Inr p"
| "execute_all (v # vs) p =
     bind_p (Execute_inst v (p\<lparr>p_vertices := removeAll v (p_vertices p)\<rparr>)) (execute_all vs)"

definition executeSCC :: "InstanceID list \<Rightarrow> epaxos \<Rightarrow> panic + epaxos" where
  "executeSCC scc p =
     bind_p (scc_ready p scc scc)
       (\<lambda>r. if r then execute_all (sort_by (ExecutesBefore p) scc) p else Inr p)"

fun executeSCCs :: "InstanceID list list \<Rightarrow> epaxos \<Rightarrow> panic + epaxos" where
  "executeSCCs [] p = Inr p"
| "executeSCCs (scc # sccs) p = bind_p (executeSCC scc p) (executeSCCs sccs)"

type_synonym map_order = "InstanceID list \<Rightarrow> InstanceID list"

definition executor_run :: "map_order \<Rightarrow> epaxos \<Rightarrow> panic + epaxos" where
  "executor_run ord p =
     (case strongConnect (depNodes p) (ord (p_vertices p)) of
        None \<Rightarrow> Inl ExecutorStuck
      | Some sccs \<Rightarrow> executeSCCs sccs p)"

definition prepareToExecute :: "map_order \<Rightarrow> InstanceID \<Rightarrow> epaxos \<Rightarrow> panic + epaxos" where
  "prepareToExecute ord d p =
     with_inst p d (\<lambda>inst.
       if isStates [Committed] inst then executor_run ord (addExec d p)
       else Inl (UnexpectedState (in_Status inst)))"

section \<open>The transition table\<close>

definition broadcastPreAccept :: "Instance \<Rightarrow> epaxos \<Rightarrow> epaxos" where
  "broadcastPreAccept inst p = broadcast (MPreAccept (instanceData inst)) inst p"

definition broadcastAccept :: "Instance \<Rightarrow> epaxos \<Rightarrow> epaxos" where
  "broadcastAccept inst p = broadcast (MAccept (instanceDataWithoutCommand inst)) inst p"

definition broadcastCommit :: "Instance \<Rightarrow> epaxos \<Rightarrow> epaxos" where
  "broadcastCommit inst p = broadcast (MCommit (instanceData inst)) inst p"

text \<open>\<open>None\<close> is a pair of states the table does not have.\<close>

definition stateTransitions ::
  "map_order \<Rightarrow> Status \<times> Status \<Rightarrow> (InstanceID \<Rightarrow> epaxos \<Rightarrow> panic + epaxos) option" where
  "stateTransitions ord st =
     (if st = (NoStatus, PreAccepted) then
        Some (\<lambda>d p. with_inst p d (\<lambda>inst. Inr (broadcastPreAccept inst p)))
      else if st = (PreAccepted, Accepted) then
        Some (\<lambda>d p. with_inst p d (\<lambda>inst. Inr (broadcastAccept inst p)))
      else if st = (PreAccepted, Committed) \<or> st = (Accepted, Committed) then
        Some (\<lambda>d p. with_inst p d (\<lambda>inst. prepareToExecute ord d (broadcastCommit inst p)))
      else if st = (Committed, Executed) then Some Execute_action
      else None)"

definition transitionTo :: "map_order \<Rightarrow> InstanceID \<Rightarrow> Status \<Rightarrow> epaxos \<Rightarrow> panic + epaxos" where
  "transitionTo ord d to p =
     with_inst p d (\<lambda>inst.
       case stateTransitions ord (in_Status inst, to) of
         None \<Rightarrow> Inl (UnexpectedTransition (in_Status inst) to)
       | Some action \<Rightarrow> bind_p (action d (setInstance (with_Status to inst) p)) (persist d))"

lemma transitionTo_Executed: "transitionTo ord d Executed p = Execute_inst d p"
  by (auto simp: transitionTo_def Execute_inst_def stateTransitions_def with_inst_def split: option.split)

definition restartTransition :: "map_order \<Rightarrow> InstanceID \<Rightarrow> epaxos \<Rightarrow> panic + epaxos" where
  "restartTransition ord d p =
     with_inst p d (\<lambda>inst.
       let cur = in_Status inst;
           prev = (case cur of NoStatus \<Rightarrow> None | PreAccepted \<Rightarrow> Some NoStatus | Accepted \<Rightarrow> Some PreAccepted
                   | Committed \<Rightarrow> Some Accepted | Executed \<Rightarrow> Some Committed)
       in case prev of
            None \<Rightarrow> Inl NilTransition
          | Some from \<Rightarrow>
              (case stateTransitions ord (from, cur) of
                 None \<Rightarrow> Inl NilTransition
               | Some action \<Rightarrow> action d p))"

section \<open>Timers\<close>

definition registerOneTimeTimer :: "Instance \<Rightarrow> epaxos \<Rightarrow> epaxos" where
  "registerOneTimeTimer inst p =
     setInstance (inst\<lparr>in_slowPathTimer := timer_reset (in_slowPathTimer inst)\<rparr>)
       (p\<lparr>p_timers := List.insert (in_ID inst) (p_timers p)\<rparr>)"

definition unregisterTimer :: "Instance \<Rightarrow> epaxos \<Rightarrow> epaxos" where
  "unregisterTimer inst p =
     setInstance (inst\<lparr>in_slowPathTimer := timer_stop (in_slowPathTimer inst)\<rparr>)
       (p\<lparr>p_timers := removeAll (in_ID inst) (p_timers p)\<rparr>)"

text \<open>A registered timer's callback was instrumented to unregister it first.\<close>

definition slowPathTimeout_fires :: "map_order \<Rightarrow> Instance \<Rightarrow> epaxos \<Rightarrow> panic + epaxos" where
  "slowPathTimeout_fires ord inst p = transitionTo ord (in_ID inst) Accepted (unregisterTimer inst p)"

fun Tick_loop :: "map_order \<Rightarrow> InstanceID list \<Rightarrow> epaxos \<Rightarrow> panic + epaxos" where
  "Tick_loop ord [] p = Inr p"
| "Tick_loop ord (d # ds) p =
     (if d \<in> set (p_timers p) then
        with_inst p d (\<lambda>inst.
          case timer_tick (in_slowPathTimer inst) of (t, fired) \<Rightarrow>
            let inst' = inst\<lparr>in_slowPathTimer := t\<rparr>; p' = setInstance inst' p in
            bind_p (if fired then slowPathTimeout_fires ord inst' p' else Inr p') (Tick_loop ord ds))
      else Tick_loop ord ds p)"

definition Tick :: "map_order \<Rightarrow> epaxos \<Rightarrow> panic + epaxos" where
  "Tick ord p = Tick_loop ord (ord (p_timers p)) p"

section \<open>Message handlers\<close>

definition onPreAccept :: "'g range_ops \<Rightarrow> InstanceData \<Rightarrow> Instance \<Rightarrow> epaxos \<Rightarrow> panic + epaxos" where
  "onPreAccept ops pa inst p =
     (if \<not> isStates [NoStatus, PreAccepted] inst then Inr p
      else
        let inst1 = with_Status PreAccepted inst; p1 = setInstance inst1 p in
        bind_p (seqAndDepsForCommand ops p1 (id_Command pa) (in_ID inst1))
          (\<lambda>(maxLocalSeq, localDeps).
             let seq = MaxSeqNum (id_SeqNum pa) (maxLocalSeq + 1);
                 deps = depSliceFromMap (localDeps @ id_Deps pa);
                 inst2 = with_Data \<lparr>id_Command = id_Command pa, id_SeqNum = seq, id_Deps = deps\<rparr> inst1;
                 p2 = setInstance inst2 p1
             in if seq = id_SeqNum pa \<and> length deps = length (id_Deps pa)
                then Inr (reply MPreAcceptOK inst2 p2)
                else Inr (reply (MPreAcceptReply seq deps) inst2 p2)))"

definition fastPathAvailable :: "Instance \<Rightarrow> bool" where
  "fastPathAvailable inst \<longleftrightarrow> \<not> in_differentReplies inst"

definition onEitherPreAcceptReply :: "map_order \<Rightarrow> Instance \<Rightarrow> epaxos \<Rightarrow> panic + epaxos" where
  "onEitherPreAcceptReply ord inst p =
     (let replies = in_preAcceptReplies inst + 1 in
      if \<not> in_differentReplies inst \<and> fastQuorum p replies
        then transitionTo ord (in_ID inst) Committed (unregisterTimer inst p)
      else if quorum p replies then
        (if \<not> fastPathAvailable inst
           then transitionTo ord (in_ID inst) Accepted (unregisterTimer inst p)
         else if \<not> timer_isSet (in_slowPathTimer inst) then Inr (registerOneTimeTimer inst p)
         else Inr p)
      else Inr p)"

definition onPreAcceptOK :: "map_order \<Rightarrow> Instance \<Rightarrow> epaxos \<Rightarrow> panic + epaxos" where
  "onPreAcceptOK ord inst p =
     (if \<not> isStates [PreAccepted] inst then Inr p
      else
        let inst1 = inst\<lparr>in_preAcceptReplies := in_preAcceptReplies inst + 1\<rparr> in
        onEitherPreAcceptReply ord inst1 (setInstance inst1 p))"

definition merge_reply :: "SeqNum \<Rightarrow> InstanceID list \<Rightarrow> Instance \<Rightarrow> Instance" where
  "merge_reply newSeq newDeps inst =
     (let inst1 = (if newSeq > in_SeqNum inst
                   then (replaceInstanceData newSeq (in_Deps inst) inst)\<lparr>in_differentReplies := True\<rparr>
                   else inst);
          deps = unionDepSlices (in_Deps inst1) newDeps;
          inst2 = replaceInstanceData (in_SeqNum inst1) deps inst1
      in if length (in_Deps inst1) \<noteq> length deps then inst2\<lparr>in_differentReplies := True\<rparr> else inst2)"

definition onPreAcceptReply ::
  "map_order \<Rightarrow> SeqNum \<Rightarrow> InstanceID list \<Rightarrow> Instance \<Rightarrow> epaxos \<Rightarrow> panic + epaxos" where
  "onPreAcceptReply ord newSeq newDeps inst p =
     (if \<not> isStates [PreAccepted] inst then Inr p
      else
        let inst1 = merge_reply newSeq newDeps inst;
            inst2 = inst1\<lparr>in_preAcceptReplies := in_preAcceptReplies inst1 + 1\<rparr>
        in onEitherPreAcceptReply ord inst2 (setInstance inst2 p))"

definition onAccept :: "InstanceData \<Rightarrow> Instance \<Rightarrow> epaxos \<Rightarrow> panic + epaxos" where
  "onAccept a inst p =
     (if \<not> isStates [NoStatus, PreAccepted, Accepted] inst then Inr p
      else
        let inst1 = replaceInstanceData (id_SeqNum a) (id_Deps a) (with_Status Accepted inst) in
        Inr (reply MAcceptOK inst1 (setInstance inst1 p)))"

definition onAcceptOK :: "map_order \<Rightarrow> Instance \<Rightarrow> epaxos \<Rightarrow> panic + epaxos" where
  "onAcceptOK ord inst p =
     (if \<not> isStates [Accepted] inst then Inr p
      else
        let inst1 = inst\<lparr>in_acceptReplies := in_acceptReplies inst + 1\<rparr>; p1 = setInstance inst1 p in
        if quorum p1 (in_acceptReplies inst1 + 1) then transitionTo ord (in_ID inst1) Committed p1
        else Inr p1)"

definition onCommit :: "map_order \<Rightarrow> InstanceData \<Rightarrow> Instance \<Rightarrow> epaxos \<Rightarrow> panic + epaxos" where
  "onCommit ord c inst p =
     (if \<not> isStates [NoStatus, PreAccepted, Accepted] inst then Inr p
      else
        let inst1 = with_Data \<lparr>id_Command = id_Command c, id_SeqNum = id_SeqNum c, id_Deps = id_Deps c\<rparr>
                      (with_Status Committed inst)
        in prepareToExecute ord (in_ID inst1) (setInstance inst1 p))"

section \<open>Entry points\<close>

definition validateMessage :: "epaxos \<Rightarrow> Message \<Rightarrow> bool" where
  "validateMessage p m \<longleftrightarrow>
     (if m_To m \<noteq> p_id p then False
      else if IsReply (m_Type m) then
        (if iid_rep (m_InstanceID m) \<noteq> p_id p then False else True)
      else
        (if iid_rep (m_InstanceID m) = p_id p then False
         else if \<not> knownReplica p (iid_rep (m_InstanceID m)) then False
         else True))"

definition dispatch :: "'g range_ops \<Rightarrow> map_order \<Rightarrow> MsgType \<Rightarrow> Instance \<Rightarrow> epaxos \<Rightarrow> panic + epaxos" where
  "dispatch ops ord t inst p =
     (case t of
        MPreAccept d \<Rightarrow> onPreAccept ops d inst p
      | MPreAcceptOK \<Rightarrow> onPreAcceptOK ord inst p
      | MPreAcceptReply s ds \<Rightarrow> onPreAcceptReply ord s ds inst p
      | MAccept d \<Rightarrow> onAccept d inst p
      | MAcceptOK \<Rightarrow> onAcceptOK ord inst p
      | MCommit d \<Rightarrow> onCommit ord d inst p)"

definition Step :: "'g range_ops \<Rightarrow> map_order \<Rightarrow> Message \<Rightarrow> epaxos \<Rightarrow> panic + epaxos" where
  "Step ops ord m p =
     (if \<not> validateMessage p m then Inr p
      else
        let r = iid_rep (m_InstanceID m); i = iid_num (m_InstanceID m) in
        bind_p (getInstance p r i)
          (\<lambda>found.
             case found of
               Some inst \<Rightarrow> dispatch ops ord (m_Type m) inst p
             | None \<Rightarrow>
                 if r = p_id p then Inr p
                 else let inst = newInstance r i in
                      dispatch ops ord (m_Type m) inst (setInstance inst p)))"

definition onRequest :: "'g range_ops \<Rightarrow> map_order \<Rightarrow> NCommand \<Rightarrow> epaxos \<Rightarrow> panic + epaxos" where
  "onRequest ops ord cmd p =
     bind_p (maxInstanceNum p (p_id p)) (\<lambda>m.
       let i = m + 1 in
       bind_p (seqAndDepsForCommand ops p (Some cmd) (IID 0 0)) (\<lambda>(maxLocalSeq, localDeps).
         let newInst = with_Data \<lparr>id_Command = Some cmd, id_SeqNum = maxLocalSeq + 1,
                                  id_Deps = depSliceFromMap localDeps\<rparr> (newInstance (p_id p) i)
         in transitionTo ord (in_ID newInst) PreAccepted (setInstance newInst p)))"

definition Request :: "'g range_ops \<Rightarrow> map_order \<Rightarrow> NCommand \<Rightarrow> epaxos \<Rightarrow> panic + epaxos" where
  "Request ops ord cmd p = onRequest ops ord cmd p"

section \<open>Start-up\<close>

record Config =
  c_ID :: ReplicaID
  c_Nodes :: "ReplicaID list"
  c_Storage :: "MemoryStorage option"

definition Config_validate :: "Config \<Rightarrow> string + MemoryStorage" where
  "Config_validate c =
     (if \<not> inReplicaSlice (c_ID c) (c_Nodes c) then Inl ''ID not in Nodes slice''
      else case c_Storage c of
        None \<Rightarrow> Inr (NewMemoryStorage (c_Nodes c))
      | Some st \<Rightarrow>
          (case ms_hardState st of
             None \<Rightarrow> Inr st
           | Some hs \<Rightarrow>
               if hs_ReplicaID hs \<noteq> c_ID c then Inl ''ID different than in HardState''
               else if hs_Nodes hs \<noteq> c_Nodes c then Inl ''Node set different than in HardState''
               else Inr st))"

fun load_instances :: "map_order \<Rightarrow> InstanceState list \<Rightarrow> epaxos \<Rightarrow> panic + epaxos" where
  "load_instances ord [] p = Inr p"
| "load_instances ord (is # iss) p =
     (let inst = newInstanceFromState is; r = iid_rep (is_ID is) in
      case p_commands p r of
        None \<Rightarrow> Inl (UnknownReplica r)
      | Some _ \<Rightarrow>
          let p1 = setInstance inst p in
          bind_p (if r = p_id p \<and> \<not> isStates [Executed] inst then restartTransition ord (in_ID inst) p1
                  else Inr p1)
            (load_instances ord iss))"

definition initStorage ::
  "map_order \<Rightarrow> (ReplicaID list \<Rightarrow> ReplicaID list) \<Rightarrow> Config \<Rightarrow> epaxos \<Rightarrow> panic + epaxos" where
  "initStorage ord rord c p =
     (let s = p_storage p;
          s1 = (case ms_hardState s of
                  None \<Rightarrow> PersistHardState \<lparr>hs_ReplicaID = c_ID c, hs_Nodes = c_Nodes c\<rparr> s
                | Some _ \<Rightarrow> s)
      in load_instances ord (Instances (rord (remdups (c_Nodes c))) s1) (p\<lparr>p_storage := s1\<rparr>))"

definition newEPaxos ::
  "map_order \<Rightarrow> (ReplicaID list \<Rightarrow> ReplicaID list) \<Rightarrow> Config \<Rightarrow> panic + epaxos" where
  "newEPaxos ord rord c =
     (case Config_validate c of
        Inl e \<Rightarrow> Inl (BadConfig e)
      | Inr st \<Rightarrow>
          initStorage ord rord c
            \<lparr>p_id = c_ID c, p_nodes = c_Nodes c, p_storage = st,
             p_commands = (\<lambda>r. if r \<in> set (c_Nodes c) then Some [] else None),
             p_vertices = [], p_timers = [], p_msgs = [], p_executedCmds = []\<rparr>)"

section \<open>The node's loop\<close>

text \<open>One iteration of \<^verbatim>\<open>node.run\<close> (\<^verbatim>\<open>node.go\<close>) takes one event; \<open>Ready\<close> hands the outbox and the
  executed commands to the application and clears them.\<close>

datatype node_event = EvTick | EvPropose NCommand | EvStep Message | EvReady

definition node_step :: "'g range_ops \<Rightarrow> map_order \<Rightarrow> node_event \<Rightarrow> epaxos \<Rightarrow> panic + epaxos" where
  "node_step ops ord ev p =
     (case ev of
        EvTick \<Rightarrow> Tick ord p
      | EvPropose cmd \<Rightarrow> Request ops ord cmd p
      | EvStep m \<Rightarrow> Step ops ord m p
      | EvReady \<Rightarrow> Inr (clearExecutedCommands (clearMsgs p)))"

definition containsUpdates :: "epaxos \<Rightarrow> bool" where
  "containsUpdates p \<longleftrightarrow> length (p_msgs p) > 0 \<or> length (p_executedCmds p) > 0"

fun node_run :: "'g range_ops \<Rightarrow> map_order \<Rightarrow> node_event list \<Rightarrow> epaxos \<Rightarrow> panic + epaxos" where
  "node_run ops ord [] p = Inr p"
| "node_run ops ord (ev # evs) p = bind_p (node_step ops ord ev p) (node_run ops ord evs)"

text \<open>The commands the application received from the \<open>Ready\<close>s of a run, in order.\<close>

fun received :: "'g range_ops \<Rightarrow> map_order \<Rightarrow> node_event list \<Rightarrow> epaxos \<Rightarrow> NCommand list" where
  "received ops ord [] p = []"
| "received ops ord (ev # evs) p =
     (if ev = EvReady then p_executedCmds p else [])
     @ (case node_step ops ord ev p of Inl _ \<Rightarrow> [] | Inr p' \<Rightarrow> received ops ord evs p')"

end
