(* ===== verification/Nvb_Execute.thy ===== *)
theory Nvb_Execute
  imports Nvb_Core "HOL-Library.Multiset"
begin

text \<open>
  What a run of the executor does (\<^verbatim>\<open>execute.go\<close>): it delivers whole strongly connected components of
  committed instances, each after everything it depends on, ordered inside by sequence number and
  replica, and it delivers every instance whose dependencies are all committed or executed.
\<close>

section \<open>Well-formed replicas\<close>

definition nvb_wf :: "epaxos \<Rightarrow> bool" where
  "nvb_wf p \<longleftrightarrow>
     p_id p \<in> set (p_nodes p) \<and> dom (p_commands p) = set (p_nodes p)
     \<and> dom (ms_instances (p_storage p)) = set (p_nodes p)
     \<and> (\<forall>r t. p_commands p r = Some t \<longrightarrow>
          sorted_wrt (\<lambda>a b. in_num a < in_num b) t \<and> (\<forall>i \<in> set t. iid_rep (in_ID i) = r))"

definition status_at :: "epaxos \<Rightarrow> InstanceID \<Rightarrow> Status option" where
  "status_at p d = map_option in_Status (inst_at p d)"

definition command_at :: "epaxos \<Rightarrow> InstanceID \<Rightarrow> NCommand option" where
  "command_at p d = (case inst_at p d of None \<Rightarrow> None | Some inst \<Rightarrow> in_Command inst)"

lemma wf_inst_at:
  assumes "nvb_wf p" and "inst_at p d = Some inst"
  shows "in_ID inst = d" and "iid_rep d \<in> set (p_nodes p)"
proof -
  from assms (2) obtain t where t: "p_commands p (iid_rep d) = Some t" "bt_get in_num (iid_num d) t = Some inst"
    by (auto simp: inst_at_def split: option.splits)
  with bt_get_Some [OF t (2)] assms (1) show "in_ID inst = d"
    by (auto simp: nvb_wf_def intro: InstanceID.expand)
  from t assms (1) show "iid_rep d \<in> set (p_nodes p)" by (auto simp: nvb_wf_def)
qed

lemma wf_known:
  assumes "nvb_wf p" and "r \<in> set (p_nodes p)"
  obtains t s where "p_commands p r = Some t" "ms_instances (p_storage p) r = Some s"
proof -
  from assms have "r \<in> dom (p_commands p)" "r \<in> dom (ms_instances (p_storage p))"
    by (simp_all add: nvb_wf_def)
  with that show ?thesis by blast
qed

lemma bt_get_member:
  fixes key :: "'a \<Rightarrow> u64"
  shows "sorted_wrt (\<lambda>a b. key a < key b) t \<Longrightarrow> x \<in> set t \<Longrightarrow> bt_get key (key x) t = Some x"
  by (induction t) (auto simp: bt_get_def)

lemma wf_tree_inst_at:
  assumes "nvb_wf p" and "p_commands p r = Some t" and "i \<in> set t"
  shows "inst_at p (in_ID i) = Some i" and "iid_rep (in_ID i) = r"
proof -
  from assms show r: "iid_rep (in_ID i) = r" by (auto simp: nvb_wf_def)
  from assms (1,2) have "sorted_wrt (\<lambda>a b. in_num a < in_num b) t" by (auto simp: nvb_wf_def)
  from bt_get_member [OF this assms (3)] assms (2) r show "inst_at p (in_ID i) = Some i"
    by (simp add: inst_at_def)
qed

lemma wf_setInstance:
  assumes "nvb_wf p" and "iid_rep (in_ID inst) \<in> set (p_nodes p)"
  shows "nvb_wf (setInstance inst p)"
proof -
  let ?r = "iid_rep (in_ID inst)"
  from wf_known [OF assms] obtain t where t: "p_commands p ?r = Some t" .
  from assms (1) t have "sorted_wrt (\<lambda>a b. in_num a < in_num b) (bt_put in_num inst t)"
    and "\<forall>i \<in> set (bt_put in_num inst t). iid_rep (in_ID i) = ?r"
    using bt_put_sorted [of in_num t inst] set_bt_put [of in_num inst t] by (auto simp: nvb_wf_def)
  moreover have "p_commands (setInstance inst p) = (p_commands p)(?r \<mapsto> bt_put in_num inst t)"
    using t by (simp add: setInstance_def)
  moreover have "dom (p_commands (setInstance inst p)) = dom (p_commands p)" by simp
  ultimately show ?thesis using assms (1) unfolding nvb_wf_def by auto
qed

lemma wf_fields [simp]:
  "nvb_wf (p\<lparr>p_msgs := ms\<rparr>) = nvb_wf p" "nvb_wf (p\<lparr>p_executedCmds := cs\<rparr>) = nvb_wf p"
  "nvb_wf (p\<lparr>p_vertices := vs\<rparr>) = nvb_wf p" "nvb_wf (p\<lparr>p_timers := ts\<rparr>) = nvb_wf p"
  by (simp_all add: nvb_wf_def)

lemma wf_inst_at_setInstance:
  "nvb_wf p \<Longrightarrow> iid_rep (in_ID inst) \<in> set (p_nodes p) \<Longrightarrow>
     inst_at (setInstance inst p) d = (if d = in_ID inst then Some inst else inst_at p d)"
  using inst_at_setInstance by (simp add: nvb_wf_def)

lemma persist_ok:
  assumes "nvb_wf p" and "inst_at p d = Some inst"
  shows "\<exists>st. persist d p = Inr (p\<lparr>p_storage := st\<rparr>) \<and> nvb_wf (p\<lparr>p_storage := st\<rparr>)"
proof -
  have d: "in_ID inst = d" "iid_rep d \<in> set (p_nodes p)" using wf_inst_at [OF assms] by auto
  from wf_known [OF assms (1) d (2)] obtain t where t: "ms_instances (p_storage p) (iid_rep d) = Some t" .
  let ?st = "(p_storage p)\<lparr>ms_instances :=
      (ms_instances (p_storage p))(iid_rep d \<mapsto> bt_put (\<lambda>x. iid_num (is_ID x)) (in_is inst) t)\<rparr>"
  have "persist d p = Inr (p\<lparr>p_storage := ?st\<rparr>)"
    using assms (2) t d by (simp add: persist_def with_inst_def PersistInstance_def)
  moreover have "nvb_wf (p\<lparr>p_storage := ?st\<rparr>)"
    using assms (1) t d (2) by (auto simp: nvb_wf_def)
  ultimately show ?thesis by blast
qed

section \<open>Executing a list of instances\<close>

definition same_env :: "epaxos \<Rightarrow> epaxos \<Rightarrow> bool" where
  "same_env p p' \<longleftrightarrow> p_id p' = p_id p \<and> p_nodes p' = p_nodes p \<and> p_timers p' = p_timers p
     \<and> p_msgs p' = p_msgs p"

text \<open>\<open>executed vs p p'\<close>: from \<open>p\<close> to \<open>p'\<close> exactly the instances \<open>vs\<close> were executed, in this order.\<close>

definition executed :: "InstanceID list \<Rightarrow> epaxos \<Rightarrow> epaxos \<Rightarrow> bool" where
  "executed vs p p' \<longleftrightarrow>
     nvb_wf p' \<and> same_env p p'
     \<and> (\<forall>e. inst_at p' e = (if e \<in> set vs then map_option (with_Status Executed) (inst_at p e) else inst_at p e))
     \<and> p_vertices p' = filter (\<lambda>v. v \<notin> set vs) (p_vertices p)
     \<and> p_executedCmds p' = p_executedCmds p @ map (\<lambda>v. the (command_at p v)) vs"

definition runnable :: "epaxos \<Rightarrow> InstanceID \<Rightarrow> bool" where
  "runnable p v \<longleftrightarrow> status_at p v = Some Committed \<and> command_at p v \<noteq> None"

lemma executed_refl: "nvb_wf p \<Longrightarrow> executed [] p p"
  by (simp add: executed_def same_env_def)

lemma executed_command_at: "executed vs p p' \<Longrightarrow> command_at p' = command_at p"
  by (rule ext) (auto simp: executed_def command_at_def option.map_comp split: option.splits)

lemma executed_Dependencies: "executed vs p p' \<Longrightarrow> Dependencies p' = Dependencies p"
  by (rule ext) (auto simp: executed_def Dependencies_def split: option.splits)

lemma executed_status_at:
  "executed vs p p' \<Longrightarrow> status_at p' e =
     (if e \<in> set vs then map_option (\<lambda>_. Executed) (status_at p e) else status_at p e)"
  by (auto simp: executed_def status_at_def option.map_comp comp_def)

lemma executed_ExecutesBefore: "executed vs p p' \<Longrightarrow> ExecutesBefore p' = ExecutesBefore p"
  by (rule ext, rule ext) (auto simp: executed_def ExecutesBefore_def split: option.splits)

lemma executed_trans:
  assumes "executed vs p p1" and "executed ws p1 p2"
  shows "executed (vs @ ws) p p2"
proof -
  have "inst_at p2 e = (if e \<in> set (vs @ ws) then map_option (with_Status Executed) (inst_at p e) else inst_at p e)"
    for e
    using assms by (cases "inst_at p e") (auto simp: executed_def)
  moreover have "command_at p1 = command_at p" by (rule executed_command_at [OF assms (1)])
  ultimately show ?thesis using assms by (auto simp: executed_def same_env_def intro: filter_cong)
qed

lemma Execute_inst_ok:
  assumes "nvb_wf p" and "runnable p d"
  shows "\<exists>p'. Execute_inst d (p\<lparr>p_vertices := removeAll d (p_vertices p)\<rparr>) = Inr p' \<and> executed [d] p p'"
proof -
  from assms (2) obtain inst c where i: "inst_at p d = Some inst" "in_Status inst = Committed"
    "in_Command inst = Some c"
    by (auto simp: runnable_def status_at_def command_at_def split: option.splits)
  have d: "in_ID inst = d" "iid_rep d \<in> set (p_nodes p)" using wf_inst_at [OF assms (1) i (1)] by auto
  let ?p0 = "p\<lparr>p_vertices := removeAll d (p_vertices p)\<rparr>"
  let ?x = "with_Status Executed inst"
  let ?p1 = "setInstance ?x ?p0"
  have wf1: "nvb_wf ?p1" by (rule wf_setInstance) (use assms (1) d in auto)
  have at1: "inst_at ?p1 e = (if e = d then Some ?x else inst_at p e)" for e
    using wf_inst_at_setInstance [of ?p0 ?x e] assms (1) d by simp
  let ?p2 = "deliverExecutedCommand c ?p1"
  have "Execute_action d ?p1 = Inr ?p2" using at1 i by (simp add: Execute_action_def with_inst_def)
  moreover obtain st where st: "persist d ?p2 = Inr (?p2\<lparr>p_storage := st\<rparr>)" "nvb_wf (?p2\<lparr>p_storage := st\<rparr>)"
    using persist_ok [of ?p2 d ?x] wf1 at1 by (auto simp: deliverExecutedCommand_def)
  ultimately have "Execute_inst d ?p0 = Inr (?p2\<lparr>p_storage := st\<rparr>)"
    using i by (simp add: Execute_inst_def with_inst_def)
  moreover have "executed [d] p (?p2\<lparr>p_storage := st\<rparr>)"
    using st (2) at1 i by (auto simp: executed_def same_env_def deliverExecutedCommand_def command_at_def
        removeAll_filter_not_eq intro: filter_cong)
  ultimately show ?thesis by blast
qed

lemma execute_all_ok:
  "nvb_wf p \<Longrightarrow> distinct vs \<Longrightarrow> \<forall>v \<in> set vs. runnable p v \<Longrightarrow>
     \<exists>p'. execute_all vs p = Inr p' \<and> executed vs p p'"
proof (induction vs arbitrary: p)
  case Nil
  then show ?case by (simp add: executed_refl)
next
  case (Cons v vs)
  obtain p1 where p1: "Execute_inst v (p\<lparr>p_vertices := removeAll v (p_vertices p)\<rparr>) = Inr p1" "executed [v] p p1"
    using Execute_inst_ok [OF Cons.prems (1)] Cons.prems (3) by auto
  have "\<forall>w \<in> set vs. runnable p1 w"
    using Cons.prems (2,3) executed_status_at [OF p1 (2)] executed_command_at [OF p1 (2)]
    by (auto simp: runnable_def)
  with Cons.IH [of p1] p1 (2) Cons.prems (2) obtain p2 where p2: "execute_all vs p1 = Inr p2" "executed vs p1 p2"
    by (auto simp: executed_def)
  from executed_trans [OF p1 (2) p2 (2)] p1 (1) p2 (1) show ?case by auto
qed

section \<open>The order inside a component\<close>

lemma mset_insert_by [simp]: "mset (insert_by lt x ys) = add_mset x (mset ys)"
  by (induction ys) auto

lemma mset_sort_by [simp]: "mset (sort_by lt xs) = mset xs"
  by (induction xs) (auto simp: sort_by_def)

lemma set_sort_by [simp]: "set (sort_by lt xs) = set xs"
  using mset_sort_by by (metis set_mset_mset)

lemma distinct_sort_by [simp]: "distinct (sort_by lt xs) = distinct xs"
  using mset_sort_by by (metis mset_eq_imp_distinct_iff)

lemma insert_by_sorted:
  assumes asym: "\<And>a b. lt a b \<Longrightarrow> \<not> lt b a" and ntrans: "\<And>a b c. lt a c \<Longrightarrow> lt a b \<or> lt b c"
  shows "sorted_wrt (\<lambda>a b. \<not> lt b a) ys \<Longrightarrow> sorted_wrt (\<lambda>a b. \<not> lt b a) (insert_by lt x ys)"
proof (induction ys)
  case (Cons y ys)
  have s: "set (insert_by lt x zs) = insert x (set zs)" for zs
    by (metis mset_insert_by set_mset_add_mset_insert set_mset_mset)
  show ?case
  proof (cases "lt y x")
    case True
    with Cons asym show ?thesis by (auto simp: s)
  next
    case False
    have "\<not> lt z x" if "z \<in> set ys" for z
      using that Cons.prems ntrans [of z x y] False asym by auto
    with False Cons.prems show ?thesis by auto
  qed
qed simp

lemma sort_by_sorted:
  assumes "\<And>a b. lt a b \<Longrightarrow> \<not> lt b a" and "\<And>a b c. lt a c \<Longrightarrow> lt a b \<or> lt b c"
  shows "sorted_wrt (\<lambda>a b. \<not> lt b a) (sort_by lt xs)"
proof (induction xs)
  case (Cons x xs)
  from insert_by_sorted [of lt, OF assms Cons.IH] show ?case by (simp add: sort_by_def)
qed (simp add: sort_by_def)

lemma ExecutesBefore_asym: "ExecutesBefore p a b \<Longrightarrow> \<not> ExecutesBefore p b a"
  by (auto simp: ExecutesBefore_def split: option.splits if_splits)

text \<open>On instances that exist, the comparison is a strict weak order.\<close>

definition exec_key :: "epaxos \<Rightarrow> InstanceID \<Rightarrow> SeqNum \<times> ReplicaID" where
  "exec_key p d = (case inst_at p d of None \<Rightarrow> (0, 0) | Some x \<Rightarrow> (in_SeqNum x, iid_rep (in_ID x)))"

definition exec_key_less :: "epaxos \<Rightarrow> InstanceID \<Rightarrow> InstanceID \<Rightarrow> bool" where
  "exec_key_less p a b \<longleftrightarrow>
     fst (exec_key p a) < fst (exec_key p b)
     \<or> fst (exec_key p a) = fst (exec_key p b) \<and> snd (exec_key p a) < snd (exec_key p b)"

lemma ExecutesBefore_key:
  "inst_at p a \<noteq> None \<Longrightarrow> inst_at p b \<noteq> None \<Longrightarrow> ExecutesBefore p a b \<longleftrightarrow> exec_key_less p a b"
  by (auto simp: ExecutesBefore_def exec_key_less_def exec_key_def)

lemma sort_by_cong:
  "(\<And>a b. a \<in> set xs \<Longrightarrow> b \<in> set xs \<Longrightarrow> lt a b = lt' a b) \<Longrightarrow> sort_by lt xs = sort_by lt' xs"
proof (induction xs)
  case (Cons x xs)
  have "insert_by lt x ys = insert_by lt' x ys" if "set ys \<subseteq> set xs" for ys
    using that Cons.prems by (induction ys) auto
  moreover from Cons have "sort_by lt xs = sort_by lt' xs" by simp
  moreover have "set (sort_by lt' xs) = set xs" by simp
  ultimately show ?case unfolding sort_by_def by (simp add: set_eq_subset)
qed (simp add: sort_by_def)

lemma sort_by_ExecutesBefore:
  assumes "\<forall>v \<in> set xs. inst_at p v \<noteq> None"
  shows "sorted_wrt (\<lambda>a b. \<not> ExecutesBefore p b a) (sort_by (ExecutesBefore p) xs)"
proof -
  have "sort_by (ExecutesBefore p) xs = sort_by (exec_key_less p) xs"
    using assms ExecutesBefore_key by (intro sort_by_cong) blast
  moreover have "sorted_wrt (\<lambda>a b. \<not> exec_key_less p b a) (sort_by (exec_key_less p) xs)"
    by (rule sort_by_sorted) (auto simp: exec_key_less_def)
  ultimately show ?thesis
    by (auto elim!: sorted_wrt_mono_rel [rotated]
        simp: ExecutesBefore_def exec_key_less_def exec_key_def split: option.splits if_splits)
qed

section \<open>A run of the executor\<close>

definition deps_known :: "epaxos \<Rightarrow> InstanceID \<Rightarrow> bool" where
  "deps_known p d \<longleftrightarrow> (\<forall>e \<in> set (Dependencies p d). iid_rep e \<in> set (p_nodes p))"

definition exec_pre :: "epaxos \<Rightarrow> bool" where
  "exec_pre p \<longleftrightarrow> nvb_wf p \<and> distinct (p_vertices p)
     \<and> (\<forall>v \<in> set (p_vertices p). runnable p v \<and> deps_known p v)"

definition is_executed :: "epaxos \<Rightarrow> InstanceID \<Rightarrow> bool" where
  "is_executed p e \<longleftrightarrow> status_at p e = Some Executed"

lemma hasExecuted_eq:
  assumes "nvb_wf p" and "iid_rep d \<in> set (p_nodes p)"
  shows "hasExecuted p d = Inr (is_executed p d)"
proof -
  from wf_known [OF assms] obtain t where "p_commands p (iid_rep d) = Some t" .
  then show ?thesis
    by (simp add: hasExecuted_def getInstance_def is_executed_def status_at_def inst_at_def split: option.split)
qed

lemma deps_ready_eq:
  assumes "nvb_wf p" and "\<forall>e \<in> set deps. iid_rep e \<in> set (p_nodes p)"
  shows "deps_ready p scc deps =
    Inr (\<forall>e \<in> set deps. e \<in> set (p_vertices p) \<and> e \<in> set scc \<or> is_executed p e)"
  using assms by (induction deps) (auto simp: hasExecuted_eq)

lemma scc_ready_eq:
  assumes "nvb_wf p" and "\<forall>v \<in> set vs. deps_known p v"
  shows "scc_ready p scc vs =
    Inr (\<forall>v \<in> set vs. \<forall>e \<in> set (Dependencies p v). e \<in> set (p_vertices p) \<and> e \<in> set scc \<or> is_executed p e)"
  using assms by (induction vs) (auto simp: deps_ready_eq deps_known_def)

text \<open>The specification of a run: going through the components in order, those whose dependencies are
  inside, already done in this run, or executed before it are done, each sorted.\<close>

definition ready :: "epaxos \<Rightarrow> InstanceID list \<Rightarrow> InstanceID list \<Rightarrow> bool" where
  "ready p rn scc \<longleftrightarrow>
     (\<forall>v \<in> set scc. \<forall>e \<in> set (Dependencies p v). e \<in> set scc \<or> e \<in> set rn \<or> is_executed p e)"

fun batches :: "epaxos \<Rightarrow> InstanceID list \<Rightarrow> InstanceID list list \<Rightarrow> InstanceID list list" where
  "batches p rn [] = []"
| "batches p rn (c # cs) =
     (if ready p rn c
      then sort_by (ExecutesBefore p) c # batches p (rn @ sort_by (ExecutesBefore p) c) cs
      else batches p rn cs)"

lemma batches_append:
  "batches p rn (cs @ ds) = batches p rn cs @ batches p (rn @ concat (batches p rn cs)) ds"
  by (induction cs arbitrary: rn) auto

lemma set_batches: "set (concat (batches p rn cs)) \<subseteq> set (concat cs)"
  by (induction cs arbitrary: rn) auto

lemma executed_preserves:
  assumes pre: "exec_pre p" and rn: "executed rn p p1"
  shows "nvb_wf p1" and "v \<in> set (p_vertices p) \<Longrightarrow> deps_known p1 v"
    and "v \<in> set (p_vertices p) \<Longrightarrow> v \<notin> set rn \<Longrightarrow> runnable p1 v \<and> v \<in> set (p_vertices p1)"
  using assms executed_status_at [OF rn] executed_command_at [OF rn] executed_Dependencies [OF rn]
  by (auto simp: exec_pre_def executed_def deps_known_def runnable_def same_env_def)

lemma is_executed_after:
  assumes "exec_pre p" and "executed rn p p1" and "set rn \<subseteq> set (p_vertices p)"
  shows "is_executed p1 e \<longleftrightarrow> e \<in> set rn \<or> is_executed p e"
  using assms executed_status_at [OF assms (2), of e]
  by (auto simp: is_executed_def exec_pre_def runnable_def)

lemma executeSCC_ok:
  assumes pre: "exec_pre p" and rn: "executed rn p p1" "set rn \<subseteq> set (p_vertices p)"
    and scc: "distinct c" "set c \<subseteq> set (p_vertices p)" "set c \<inter> set rn = {}"
  shows "\<exists>p2. executeSCC c p1 = Inr p2 \<and>
    (if ready p rn c then executed (rn @ sort_by (ExecutesBefore p) c) p p2 else p2 = p1)"
proof -
  note keep = executed_preserves [OF pre rn (1)]
  have wf: "nvb_wf p1" and known: "\<forall>v \<in> set c. deps_known p1 v"
    and can: "\<forall>v \<in> set c. runnable p1 v \<and> v \<in> set (p_vertices p1)"
    using keep scc by auto
  have "(\<forall>v \<in> set c. \<forall>e \<in> set (Dependencies p1 v). e \<in> set (p_vertices p1) \<and> e \<in> set c \<or> is_executed p1 e)
      \<longleftrightarrow> ready p rn c"
    using can unfolding ready_def executed_Dependencies [OF rn (1)] is_executed_after [OF pre rn] by blast
  then have r: "scc_ready p1 c c = Inr (ready p rn c)" using scc_ready_eq [OF wf known] by simp
  show ?thesis
  proof (cases "ready p rn c")
    case True
    have "\<forall>v \<in> set (sort_by (ExecutesBefore p1) c). runnable p1 v" using can by simp
    with execute_all_ok [OF wf, of "sort_by (ExecutesBefore p1) c"] scc (1) obtain p2 where
      p2: "execute_all (sort_by (ExecutesBefore p1) c) p1 = Inr p2"
        "executed (sort_by (ExecutesBefore p1) c) p1 p2" by auto
    then show ?thesis
      using True r executed_trans [OF rn (1) p2 (2)]
      by (simp add: executeSCC_def executed_ExecutesBefore [OF rn (1)])
  next
    case False
    with r show ?thesis by (simp add: executeSCC_def)
  qed
qed

lemma executeSCCs_ok:
  assumes pre: "exec_pre p"
  shows "executed rn p p1 \<Longrightarrow> set rn \<subseteq> set (p_vertices p) \<Longrightarrow> distinct (concat cs) \<Longrightarrow>
    set (concat cs) \<subseteq> set (p_vertices p) \<Longrightarrow> set (concat cs) \<inter> set rn = {} \<Longrightarrow>
    \<exists>p2. executeSCCs cs p1 = Inr p2 \<and> executed (rn @ concat (batches p rn cs)) p p2"
proof (induction cs arbitrary: rn p1)
  case Nil
  then show ?case by simp
next
  case (Cons c cs)
  have "distinct c" "set c \<subseteq> set (p_vertices p)" "set c \<inter> set rn = {}" using Cons.prems by auto
  from executeSCC_ok [OF pre Cons.prems (1,2) this] obtain p2 where
    p2: "executeSCC c p1 = Inr p2"
      "if ready p rn c then executed (rn @ sort_by (ExecutesBefore p) c) p p2 else p2 = p1" by blast
  show ?case
  proof (cases "ready p rn c")
    case True
    let ?rn = "rn @ sort_by (ExecutesBefore p) c"
    have "set ?rn \<subseteq> set (p_vertices p)" "set (concat cs) \<inter> set ?rn = {}"
      using Cons.prems by auto
    with Cons.IH [of ?rn p2] p2 True Cons.prems (3,4) obtain p3 where
      "executeSCCs cs p2 = Inr p3" "executed (?rn @ concat (batches p ?rn cs)) p p3" by auto
    with p2 (1) True show ?thesis by auto
  next
    case False
    with Cons.IH [of rn p1] p2 Cons.prems obtain p3 where
      "executeSCCs cs p1 = Inr p3" "executed (rn @ concat (batches p rn cs)) p p3" by auto
    with p2 False show ?thesis by auto
  qed
qed

definition is_map_order :: "map_order \<Rightarrow> bool" where
  "is_map_order ord \<longleftrightarrow> (\<forall>xs. mset (ord xs) = mset xs)"

lemma is_map_order_set: "is_map_order ord \<Longrightarrow> set (ord xs) = set xs"
  unfolding is_map_order_def by (metis set_mset_mset)

lemma executor_run_ok:
  assumes pre: "exec_pre p" and ord: "is_map_order ord"
  shows "\<exists>cs p'. strongConnect (depNodes p) (ord (p_vertices p)) = Some cs
    \<and> comps_ok (depNodes p) cs \<and> distinct (concat cs) \<and> set (concat cs) = set (p_vertices p)
    \<and> executor_run ord p = Inr p' \<and> executed (concat (batches p [] cs)) p p'"
proof -
  have "\<forall>v \<in> set (ord (p_vertices p)). set (depNodes p v) \<subseteq> set (ord (p_vertices p))"
    using is_map_order_set [OF ord] by (auto simp: depNodes_def)
  from strongConnect_correct [OF this] is_map_order_set [OF ord] obtain cs where
    cs: "strongConnect (depNodes p) (ord (p_vertices p)) = Some cs" "comps_ok (depNodes p) cs"
      "distinct (concat cs)" "set (concat cs) = set (p_vertices p)" by auto
  have "executed [] p p" using pre by (simp add: exec_pre_def executed_refl)
  from executeSCCs_ok [OF pre this _ cs (3)] cs (4) obtain p' where
    "executeSCCs cs p = Inr p'" "executed (concat (batches p [] cs)) p p'" by auto
  with cs show ?thesis by (auto simp: executor_run_def)
qed

text \<open>What was executed depends only on what was executed with it or before it.\<close>

lemma batches_closed:
  "batches p rn cs = pre @ b # post \<Longrightarrow> v \<in> set b \<Longrightarrow> e \<in> set (Dependencies p v) \<Longrightarrow>
     e \<in> set b \<or> e \<in> set (concat pre) \<or> e \<in> set rn \<or> is_executed p e"
proof (induction cs arbitrary: rn pre)
  case (Cons c cs)
  show ?case
  proof (cases "ready p rn c")
    case True
    show ?thesis
    proof (cases pre)
      case Nil
      with Cons.prems (1,2) True have "v \<in> set c" "b = sort_by (ExecutesBefore p) c" by auto
      with True Cons.prems (3) show ?thesis unfolding ready_def by auto
    next
      case (Cons a pre')
      with Cons.prems True Cons.IH [of _ pre'] show ?thesis by fastforce
    qed
  next
    case False
    with Cons.prems Cons.IH [of rn pre] show ?thesis by simp
  qed
qed simp

lemma batches_from_component:
  "b \<in> set (batches p rn cs) \<Longrightarrow> \<exists>c \<in> set cs. b = sort_by (ExecutesBefore p) c"
  by (induction cs arbitrary: rn) (auto split: if_splits)

section \<open>Nothing ready is left behind\<close>

definition dep_closure :: "epaxos \<Rightarrow> InstanceID \<Rightarrow> InstanceID set" where
  "dep_closure p v = {e. (v, e) \<in> {(a, b). b \<in> set (Dependencies p a)}\<^sup>*}"

definition settled :: "epaxos \<Rightarrow> InstanceID \<Rightarrow> bool" where
  "settled p v \<longleftrightarrow> (\<forall>e \<in> dep_closure p v. e \<in> set (p_vertices p) \<or> is_executed p e)"

lemma dep_closure_reach: "(v, u) \<in> reach (depNodes p) \<Longrightarrow> u \<in> dep_closure p v"
  unfolding reach_def dep_closure_def
  by (simp, erule rtrancl_mono [THEN subsetD, rotated]) (auto simp: depNodes_def)

lemma settled_dep: "settled p v \<Longrightarrow> u \<in> dep_closure p v \<Longrightarrow> settled p u"
  unfolding settled_def dep_closure_def by (auto dest: rtrancl_trans)

lemma batches_complete:
  assumes "comps_ok (depNodes p) cs"
  shows "\<forall>v \<in> set (concat cs). settled p v \<longrightarrow> v \<in> set (concat (batches p [] cs))"
  using assms
proof (induction rule: comps_ok.induct)
  case comps_Nil
  then show ?case by simp
next
  case (comps_snoc cs c)
  let ?rn = "concat (batches p [] cs)"
  have "ready p ?rn c" if v: "v \<in> set c" "settled p v" for v
    unfolding ready_def
  proof (intro ballI)
    fix u e assume u: "u \<in> set c" and e: "e \<in> set (Dependencies p u)"
    have "u \<in> dep_closure p v" using comps_snoc.hyps (4) u v (1) by (intro dep_closure_reach) blast
    then have su: "settled p u" using v (2) settled_dep by blast
    have eu: "e \<in> dep_closure p u" using e by (auto simp: dep_closure_def)
    show "e \<in> set c \<or> e \<in> set ?rn \<or> is_executed p e"
    proof (cases "is_executed p e")
      case False
      with su eu have "e \<in> set (depNodes p u)" using e by (auto simp: settled_def depNodes_def)
      with comps_snoc.hyps (3) u have "e \<in> set (concat cs) \<or> e \<in> set c" by blast
      moreover have "settled p e" using su eu settled_dep by blast
      ultimately show ?thesis using comps_snoc.IH by blast
    qed simp
  qed
  with comps_snoc.IH show ?case by (auto simp: batches_append)
qed

end
