(* ===== verification/Nvb_Safety.thy ===== *)
theory Nvb_Safety
  imports Nvb_Execute
begin

text \<open>
  The invariant of a running replica and its preservation by every event of the node's loop
  (\<^verbatim>\<open>Step\<close>, \<^verbatim>\<open>Request\<close>, \<^verbatim>\<open>Tick\<close>, delivery). While the invariant holds no event panics, an instance's
  status never goes back, what has been committed never changes, and an executed instance's
  dependencies are all executed. Its hypotheses on a message are \<open>message_ok\<close>.
\<close>

section \<open>Invariant\<close>

definition inst_ok :: "epaxos \<Rightarrow> Instance \<Rightarrow> bool" where
  "inst_ok p inst \<longleftrightarrow>
     in_Command inst \<noteq> None \<and> (\<forall>e \<in> set (in_Deps inst). iid_rep e \<in> set (p_nodes p))"

text \<open>\<open>X\<close>: instances committed but not yet handed to the executor; \<open>Y\<close>: instances whose command
  is still to be filled in. Both are empty between events.\<close>

definition core_inv :: "InstanceID set \<Rightarrow> InstanceID set \<Rightarrow> epaxos \<Rightarrow> bool" where
  "core_inv X Y p \<longleftrightarrow>
     nvb_wf p \<and> distinct (p_vertices p) \<and> X \<inter> set (p_vertices p) = {}
     \<and> (\<forall>d. d \<in> X \<union> set (p_vertices p) \<longleftrightarrow> status_at p d = Some Committed)
     \<and> (\<forall>d inst. inst_at p d = Some inst \<longrightarrow> d \<notin> Y \<longrightarrow> inst_ok p inst)
     \<and> (\<forall>d. is_executed p d \<longrightarrow> (\<forall>e \<in> set (Dependencies p d). is_executed p e))
     \<and> (\<forall>d \<in> set (p_timers p). status_at p d = Some PreAccepted \<and> iid_rep d = p_id p)"

definition nvb_inv :: "epaxos \<Rightarrow> bool" where
  "nvb_inv p \<longleftrightarrow> core_inv {} {} p"

text \<open>What no event takes back.\<close>

definition keeps :: "epaxos \<Rightarrow> epaxos \<Rightarrow> bool" where
  "keeps p p' \<longleftrightarrow>
     p_id p' = p_id p \<and> p_nodes p' = p_nodes p
     \<and> (\<forall>d inst. inst_at p d = Some inst \<longrightarrow>
          (\<exists>inst'. inst_at p' d = Some inst' \<and> in_Status inst \<le> in_Status inst'
             \<and> (Committed \<le> in_Status inst \<longrightarrow> is_Data (in_is inst') = is_Data (in_is inst))))"

lemma keeps_refl [simp]: "keeps p p"
  by (simp add: keeps_def)

lemma keeps_trans: "keeps p q \<Longrightarrow> keeps q r \<Longrightarrow> keeps p r"
proof -
  assume a: "keeps p q" and b: "keeps q r"
  have "\<exists>k. inst_at r d = Some k \<and> in_Status i \<le> in_Status k
      \<and> (Committed \<le> in_Status i \<longrightarrow> is_Data (in_is k) = is_Data (in_is i))"
    if "inst_at p d = Some i" for d i
  proof -
    from a that obtain j where j: "inst_at q d = Some j" "in_Status i \<le> in_Status j"
      "Committed \<le> in_Status i \<longrightarrow> is_Data (in_is j) = is_Data (in_is i)"
      by (auto simp: keeps_def)
    from b j (1) obtain k where "inst_at r d = Some k" "in_Status j \<le> in_Status k"
      "Committed \<le> in_Status j \<longrightarrow> is_Data (in_is k) = is_Data (in_is j)"
      by (auto simp: keeps_def)
    with j (2,3) show ?thesis by (intro exI [of _ k]) auto
  qed
  with a b show "keeps p r" by (simp add: keeps_def)
qed

lemma keeps_fields [simp]:
  "keeps p (q\<lparr>p_msgs := ms\<rparr>) = keeps p q" "keeps p (q\<lparr>p_executedCmds := cs\<rparr>) = keeps p q"
  "keeps p (q\<lparr>p_vertices := vs\<rparr>) = keeps p q" "keeps p (q\<lparr>p_timers := ts\<rparr>) = keeps p q"
  "keeps p (q\<lparr>p_storage := st\<rparr>) = keeps p q"
  by (simp_all add: keeps_def)

lemma core_inv_msgs [simp]:
  "core_inv X Y (p\<lparr>p_msgs := ms\<rparr>) = core_inv X Y p"
  "core_inv X Y (p\<lparr>p_executedCmds := cs\<rparr>) = core_inv X Y p"
  by (simp_all add: core_inv_def status_at_def inst_ok_def is_executed_def Dependencies_def)

lemma core_inv_storage:
  "core_inv X Y p \<Longrightarrow> nvb_wf (p\<lparr>p_storage := st\<rparr>) \<Longrightarrow> core_inv X Y (p\<lparr>p_storage := st\<rparr>)"
  by (simp add: core_inv_def status_at_def inst_ok_def is_executed_def Dependencies_def)

lemma core_inv_timers:
  "core_inv X Y p \<Longrightarrow> \<forall>d \<in> set ts. status_at p d = Some PreAccepted \<and> iid_rep d = p_id p \<Longrightarrow>
     core_inv X Y (p\<lparr>p_timers := ts\<rparr>)"
  by (simp add: core_inv_def status_at_def inst_ok_def is_executed_def Dependencies_def)

lemma status_order [simp]:
  "\<not> Executed < s" "Executed \<le> s \<longleftrightarrow> s = Executed" "s \<le> Executed" "NoStatus \<le> s"
  "s < Executed \<longleftrightarrow> s \<noteq> Executed" "\<not> Committed < Accepted" "\<not> Committed < PreAccepted"
  by (cases s; simp add: less_Status_def less_eq_Status_def status_num_def)+

lemma status_bounds: "s < Committed \<longleftrightarrow> s = NoStatus \<or> s = PreAccepted \<or> s = Accepted"
  "Committed \<le> s \<longleftrightarrow> s = Committed \<or> s = Executed"
  by (cases s; simp add: less_Status_def less_eq_Status_def status_num_def)+

lemma status_at_setInstance:
  "nvb_wf p \<Longrightarrow> iid_rep (in_ID inst) \<in> set (p_nodes p) \<Longrightarrow>
     status_at (setInstance inst p) d = (if d = in_ID inst then Some (in_Status inst) else status_at p d)"
  by (simp add: status_at_def wf_inst_at_setInstance)

section \<open>The log of executed instances\<close>

definition executed_closed :: "epaxos \<Rightarrow> bool" where
  "executed_closed p \<longleftrightarrow>
     (\<forall>d i. inst_at p d = Some i \<longrightarrow> in_ID i = d)
     \<and> (\<forall>d. is_executed p d \<longrightarrow> (\<forall>e \<in> set (Dependencies p d). is_executed p e))"

text \<open>In the order \<open>h\<close>, an instance stands before one it depends on only when each depends on the other,
  and then in the order of sequence number and replica.\<close>

definition log_ordered :: "epaxos \<Rightarrow> InstanceID list \<Rightarrow> bool" where
  "log_ordered p h \<longleftrightarrow>
     sorted_wrt (\<lambda>x y. y \<in> dep_closure p x \<longrightarrow> x \<in> dep_closure p y \<and> \<not> ExecutesBefore p y x) h"

definition logs :: "epaxos \<Rightarrow> epaxos \<Rightarrow> InstanceID list \<Rightarrow> bool" where
  "logs p p' h \<longleftrightarrow>
     p_executedCmds p' = p_executedCmds p @ map (\<lambda>v. the (command_at p' v)) h \<and> distinct h
     \<and> (\<forall>v. is_executed p' v \<longleftrightarrow> v \<in> set h \<or> is_executed p v) \<and> (\<forall>v \<in> set h. \<not> is_executed p v)
     \<and> log_ordered p' h"

text \<open>What no event takes back, together with what it appends to the executed commands.\<close>

definition advances :: "epaxos \<Rightarrow> epaxos \<Rightarrow> bool" where
  "advances p p' \<longleftrightarrow>
     keeps p p' \<and> (executed_closed p \<longrightarrow> executed_closed p' \<and> (\<exists>h. logs p p' h))"

lemma keeps_executed:
  assumes "keeps p q" and "is_executed p d"
  shows "is_executed q d" and "Dependencies q d = Dependencies p d" and "command_at q d = command_at p d"
    and "\<exists>i j. inst_at p d = Some i \<and> inst_at q d = Some j \<and> in_SeqNum j = in_SeqNum i"
proof -
  from assms (2) obtain i where i: "inst_at p d = Some i" "in_Status i = Executed"
    by (auto simp: is_executed_def status_at_def)
  with assms (1) obtain j where j: "inst_at q d = Some j" "in_Status j = Executed"
    "is_Data (in_is j) = is_Data (in_is i)"
    unfolding keeps_def by (metis status_bounds(2) status_order(2))
  show "is_executed q d" "Dependencies q d = Dependencies p d" "command_at q d = command_at p d"
    "\<exists>i j. inst_at p d = Some i \<and> inst_at q d = Some j \<and> in_SeqNum j = in_SeqNum i"
    using i j by (simp_all add: is_executed_def status_at_def Dependencies_def command_at_def)
qed

lemma keeps_ExecutesBefore:
  assumes "keeps p q" and "executed_closed p" and "executed_closed q" and "is_executed p x" and "is_executed p y"
  shows "ExecutesBefore q x y = ExecutesBefore p x y"
proof -
  from keeps_executed (4) [OF assms(1,4)] keeps_executed (4) [OF assms(1,5)] obtain i j k l where
    "inst_at p x = Some i" "inst_at q x = Some j" "in_SeqNum j = in_SeqNum i"
    "inst_at p y = Some k" "inst_at q y = Some l" "in_SeqNum l = in_SeqNum k" by blast
  with assms(2,3) show ?thesis by (simp add: ExecutesBefore_def executed_closed_def)
qed

lemma dep_closure_executed:
  assumes "executed_closed p" and "is_executed p d" and "e \<in> dep_closure p d"
  shows "is_executed p e"
proof -
  from assms(3) have "(d, e) \<in> {(a, b). b \<in> set (Dependencies p a)}\<^sup>*" by (simp add: dep_closure_def)
  then show ?thesis by (induction rule: rtrancl_induct) (use assms(1,2) in \<open>auto simp: executed_closed_def\<close>)
qed

lemma dep_closure_cong:
  assumes eq: "\<And>a. is_executed p a \<Longrightarrow> Dependencies q a = Dependencies p a"
    and closed: "executed_closed p" and d: "is_executed p d"
  shows "dep_closure q d = dep_closure p d"
proof -
  have step: "(d, e) \<in> {(a, b). b \<in> set (Dependencies s a)}\<^sup>* \<and> is_executed p e"
    if "(d, e) \<in> {(a, b). b \<in> set (Dependencies r a)}\<^sup>*" "r = p \<and> s = q \<or> r = q \<and> s = p" for e r s
    using that(1)
  proof (induction rule: rtrancl_induct)
    case base
    then show ?case using d by simp
  next
    case (step a b)
    have "b \<in> set (Dependencies s a)" using step that(2) eq by auto
    moreover have "is_executed p b" using step that(2) eq [of a] closed by (auto simp: executed_closed_def)
    ultimately show ?case using step.IH by (auto intro: rtrancl_into_rtrancl)
  qed
  show ?thesis unfolding dep_closure_def using step [of _ p q] step [of _ q p] by blast
qed

lemma dep_closure_keeps:
  assumes "keeps p q" and "executed_closed p" and "is_executed p d"
  shows "dep_closure q d = dep_closure p d"
  by (rule dep_closure_cong [OF keeps_executed (2) [OF assms(1)] assms(2,3)])

lemma advances_refl [simp]: "advances p p"
  by (auto simp: advances_def logs_def log_ordered_def)

lemma advances_trans:
  assumes pq: "advances p q" and qr: "advances q r"
  shows "advances p r"
proof -
  have k: "keeps p q" "keeps q r" using assms by (simp_all add: advances_def)
  have "executed_closed r \<and> (\<exists>h. logs p r h)" if "executed_closed p"
  proof -
    from that pq obtain h where q: "executed_closed q" "logs p q h" by (auto simp: advances_def)
    with qr obtain h' where r: "executed_closed r" "logs q r h'" by (auto simp: advances_def)
    have ex: "is_executed q v" if "v \<in> set h" for v using that q(2) by (auto simp: logs_def)
    have cmd: "map (\<lambda>v. the (command_at r v)) h = map (\<lambda>v. the (command_at q v)) h"
      using ex keeps_executed (3) [OF k(2)] by simp
    have cl: "dep_closure r v = dep_closure q v" if "v \<in> set h" for v
      using dep_closure_keeps [OF k(2) q(1) ex [OF that]] .
    have h: "log_ordered r h"
      using q(2) cl keeps_ExecutesBefore [OF k(2) q(1) r(1)] ex unfolding logs_def log_ordered_def
      by (auto elim!: sorted_wrt_mono_rel [rotated])
    have "y \<notin> dep_closure r x" if "x \<in> set h" "y \<in> set h'" for x y
      using dep_closure_executed [OF q(1) ex [OF that(1)], of y] cl [OF that(1)] that(2) r(2)
      by (auto simp: logs_def)
    with h r(2) have "log_ordered r (h @ h')" by (auto simp: log_ordered_def logs_def sorted_wrt_append)
    then have "logs p r (h @ h')"
      using q(2) r(2) cmd unfolding logs_def by auto
    with r(1) show ?thesis by blast
  qed
  with k keeps_trans show ?thesis unfolding advances_def by blast
qed

lemma logs_fields [simp]:
  "logs p (q\<lparr>p_msgs := ms\<rparr>) h = logs p q h" "logs p (q\<lparr>p_vertices := vs\<rparr>) h = logs p q h"
  "logs p (q\<lparr>p_timers := ts\<rparr>) h = logs p q h" "logs p (q\<lparr>p_storage := st\<rparr>) h = logs p q h"
  "logs (p\<lparr>p_vertices := vs\<rparr>) q h = logs p q h" "logs (p\<lparr>p_timers := ts\<rparr>) q h = logs p q h"
  by (simp_all add: logs_def log_ordered_def is_executed_def status_at_def command_at_def dep_closure_def
      Dependencies_def ExecutesBefore_def)

lemma executed_closed_fields [simp]:
  "executed_closed (q\<lparr>p_msgs := ms\<rparr>) = executed_closed q" "executed_closed (q\<lparr>p_vertices := vs\<rparr>) = executed_closed q"
  "executed_closed (q\<lparr>p_timers := ts\<rparr>) = executed_closed q" "executed_closed (q\<lparr>p_storage := st\<rparr>) = executed_closed q"
  "executed_closed (q\<lparr>p_executedCmds := cs\<rparr>) = executed_closed q"
  by (simp_all add: executed_closed_def is_executed_def status_at_def Dependencies_def)

lemma advances_fields [simp]:
  "advances p (q\<lparr>p_msgs := ms\<rparr>) = advances p q" "advances p (q\<lparr>p_vertices := vs\<rparr>) = advances p q"
  "advances p (q\<lparr>p_timers := ts\<rparr>) = advances p q" "advances p (q\<lparr>p_storage := st\<rparr>) = advances p q"
  "advances (p\<lparr>p_vertices := vs\<rparr>) q = advances p q" "advances (p\<lparr>p_timers := ts\<rparr>) q = advances p q"
  by (simp_all add: advances_def keeps_def)

lemma advances_keeps: "advances p q \<Longrightarrow> keeps p q"
  by (simp add: advances_def)

lemma advances_inst_at: "advances p q \<Longrightarrow> inst_at p d \<noteq> None \<Longrightarrow> inst_at q d \<noteq> None"
  by (fastforce simp: advances_def keeps_def)

text \<open>A step that executes nothing.\<close>

lemma advances_same:
  assumes "keeps p q" and "nvb_wf q" and "\<And>d. is_executed q d = is_executed p d"
    and "p_executedCmds q = p_executedCmds p"
  shows "advances p q"
proof -
  have "executed_closed q" if "executed_closed p"
    using that assms(3) keeps_executed (2) [OF assms(1)] wf_inst_at(1) [OF assms(2)]
    by (auto simp: executed_closed_def)
  moreover have "logs p q []" using assms(3,4) by (simp add: logs_def log_ordered_def)
  ultimately show ?thesis using assms(1) by (auto simp: advances_def)
qed

text \<open>Writing an instance that was not committed yet.\<close>

lemma core_inv_setInstance:
  assumes inv: "core_inv X Y p" and known: "iid_rep (in_ID inst) \<in> set (p_nodes p)"
    and old: "\<forall>s. status_at p (in_ID inst) = Some s \<longrightarrow> s < Committed"
    and new: "in_Status inst < Executed" and ok: "in_ID inst \<notin> Y' \<Longrightarrow> inst_ok p inst"
    and Y: "Y \<subseteq> insert (in_ID inst) Y'"
    and timer: "in_ID inst \<in> set (p_timers p) \<Longrightarrow> in_Status inst = PreAccepted"
    and X: "X' = (if in_Status inst = Committed then insert (in_ID inst) X else X)"
  shows "core_inv X' Y' (setInstance inst p)"
proof -
  let ?q = "setInstance inst p"
  have wf: "nvb_wf p" using inv by (simp add: core_inv_def)
  note st = status_at_setInstance [OF wf known] and at = wf_inst_at_setInstance [OF wf known]
  have notex: "\<not> is_executed p (in_ID inst)" "\<not> is_executed ?q (in_ID inst)"
    and notcom: "status_at p (in_ID inst) \<noteq> Some Committed"
    using old new by (auto simp: is_executed_def st)
  have ex: "is_executed ?q d = is_executed p d" for d
    using notex by (cases "d = in_ID inst") (auto simp: is_executed_def st)
  have dep: "d \<noteq> in_ID inst \<Longrightarrow> Dependencies ?q d = Dependencies p d" for d
    by (simp add: Dependencies_def at)
  have "in_ID inst \<notin> X \<union> set (p_vertices p)" using inv notcom by (auto simp: core_inv_def)
  then have a: "X' \<inter> set (p_vertices p) = {}" using inv X by (auto simp: core_inv_def)
  have b: "d \<in> X' \<union> set (p_vertices p) \<longleftrightarrow> status_at ?q d = Some Committed" for d
    using inv X \<open>in_ID inst \<notin> X \<union> set (p_vertices p)\<close> by (auto simp: core_inv_def st)
  have c: "inst_ok ?q i" if "inst_at ?q d = Some i" "d \<notin> Y'" for d i
  proof (cases "d = in_ID inst")
    case True
    with that ok show ?thesis by (simp add: at inst_ok_def)
  next
    case False
    with that Y have "d \<notin> Y" "inst_at p d = Some i" by (auto simp: at)
    with inv show ?thesis by (simp add: core_inv_def inst_ok_def)
  qed
  have d: "is_executed ?q e" if "is_executed ?q d" "e \<in> set (Dependencies ?q d)" for d e
    using that inv ex dep notex by (cases "d = in_ID inst") (auto simp: core_inv_def)
  have t: "status_at ?q d = Some PreAccepted \<and> iid_rep d = p_id p" if "d \<in> set (p_timers p)" for d
    using that inv timer by (auto simp: core_inv_def st)
  show ?thesis
    using wf_setInstance [OF wf known] inv a b c d t by (simp add: core_inv_def)
qed

lemma advances_setInstance:
  assumes "nvb_wf p" and "iid_rep (in_ID inst) \<in> set (p_nodes p)"
    and "\<forall>s. status_at p (in_ID inst) = Some s \<longrightarrow> s < Committed \<and> s \<le> in_Status inst"
    and "in_Status inst \<noteq> Executed"
  shows "advances p (setInstance inst p)"
proof (rule advances_same)
  show "keeps p (setInstance inst p)"
    using assms (3) by (auto simp: keeps_def wf_inst_at_setInstance [OF assms (1,2)] status_at_def)
  show "is_executed (setInstance inst p) d = is_executed p d" for d
    using assms (3,4) by (auto simp: is_executed_def status_at_setInstance [OF assms (1,2)])
  show "p_executedCmds (setInstance inst p) = p_executedCmds p" by (simp add: setInstance_def Let_def split: option.split)
qed (rule wf_setInstance [OF assms(1,2)])

section \<open>The executor advances the invariant\<close>

lemma executed_keeps:
  assumes "exec_pre p" and "executed vs p p'" and "set vs \<subseteq> set (p_vertices p)"
  shows "keeps p p'"
proof -
  have "in_Status inst = Committed" if "v \<in> set vs" "inst_at p v = Some inst" for v inst
    using assms (1,3) that by (fastforce simp: exec_pre_def runnable_def status_at_def)
  moreover have "Committed \<le> Executed" by (simp add: less_eq_Status_def status_num_def)
  ultimately show ?thesis
    using assms (2) by (auto simp: keeps_def executed_def same_env_def)
qed

text \<open>The batches of one run, one after the other, are in log order.\<close>

lemma batches_closure:
  assumes closed: "executed_closed p" and bs: "batches p [] cs = pre @ b # post"
    and x: "x \<in> set b \<or> x \<in> set (concat pre)" and y: "y \<in> dep_closure p x"
  shows "y \<in> set b \<or> y \<in> set (concat pre) \<or> is_executed p y"
proof -
  from y have "(x, y) \<in> {(a, b). b \<in> set (Dependencies p a)}\<^sup>*" by (simp add: dep_closure_def)
  then show ?thesis
  proof (induction rule: rtrancl_induct)
    case base
    then show ?case using x by blast
  next
    case (step u w)
    then have w: "w \<in> set (Dependencies p u)" by simp
    consider "u \<in> set b" | c where "c \<in> set pre" "u \<in> set c" | "is_executed p u" using step.IH by auto
    then show ?case
    proof cases
      case 1
      from batches_closed [OF bs this w] show ?thesis by auto
    next
      case (2 c)
      then obtain pre1 post1 where pre: "pre = pre1 @ c # post1" by (meson split_list)
      with bs have "batches p [] cs = pre1 @ c # (post1 @ b # post)" by simp
      from batches_closed [OF this 2(2) w] pre show ?thesis by auto
    next
      case 3
      with w closed show ?thesis by (auto simp: executed_closed_def)
    qed
  qed
qed

lemma batches_log_ordered:
  assumes closed: "executed_closed p" and comps: "comps_ok (depNodes p) cs" and dist: "distinct (concat cs)"
    and vs: "\<forall>v \<in> set (concat cs). inst_at p v \<noteq> None \<and> \<not> is_executed p v"
  shows "batches p [] cs = pre @ post \<Longrightarrow> distinct (concat (batches p [] cs)) \<Longrightarrow> log_ordered p (concat pre)"
proof (induction pre arbitrary: post rule: rev_induct)
  case Nil
  then show ?case by (simp add: log_ordered_def)
next
  case (snoc b pre)
  let ?R = "\<lambda>x y. y \<in> dep_closure p x \<longrightarrow> x \<in> dep_closure p y \<and> \<not> ExecutesBefore p y x"
  have bs: "batches p [] cs = pre @ b # post" using snoc.prems by simp
  then obtain c where c: "c \<in> set cs" "b = sort_by (ExecutesBefore p) c"
    using batches_from_component [of b p "[]" cs] by auto
  have "x \<in> dep_closure p y" if "x \<in> set b" "y \<in> set b" for x y
  proof -
    from c(1) obtain l r where "cs = l @ c # r" by (meson split_list)
    with comps_ok_member [of "depNodes p" l c r] comps dist that c(2) have "(y, x) \<in> reach (depNodes p)" by auto
    then show ?thesis by (rule dep_closure_reach)
  qed
  moreover have "sorted_wrt (\<lambda>x y. \<not> ExecutesBefore p y x) b"
    using sort_by_ExecutesBefore [of c p] c vs by auto
  ultimately have "sorted_wrt ?R b" by (auto elim!: sorted_wrt_mono_rel [rotated])
  moreover have "y \<notin> dep_closure p x" if x: "x \<in> set (concat pre)" and y: "y \<in> set b" for x y
  proof
    assume cl: "y \<in> dep_closure p x"
    from x obtain a where a: "a \<in> set pre" "x \<in> set a" by auto
    then obtain pre1 post1 where pre: "pre = pre1 @ a # post1" by (meson split_list)
    with bs have "batches p [] cs = pre1 @ a # (post1 @ b # post)" by simp
    from batches_closure [OF closed this _ cl] a(2)
    have "y \<in> set a \<or> y \<in> set (concat pre1) \<or> is_executed p y" by blast
    moreover have "\<not> is_executed p y" using y c vs by auto
    ultimately show False using snoc.prems(2) y unfolding bs pre by auto
  qed
  moreover have "sorted_wrt ?R (concat pre)" using snoc.IH [of "b # post"] bs snoc.prems(2) by (simp add: log_ordered_def)
  ultimately show ?case by (auto simp: log_ordered_def sorted_wrt_append)
qed

lemma distinct_batches: "distinct (concat cs) \<Longrightarrow> distinct (concat (batches p rn cs))"
proof (induction cs arbitrary: rn)
  case (Cons d cs)
  have "set (concat (batches p r cs)) \<inter> set d = {}" for r
    using Cons.prems set_batches [of p r cs] by auto
  with Cons.IH [of rn] Cons.IH [of "rn @ sort_by (ExecutesBefore p) d"] Cons.prems show ?case
    by (auto simp del: set_concat)
qed simp

lemma executed_advances:
  assumes pre: "exec_pre p" and comps: "comps_ok (depNodes p) cs" and dist: "distinct (concat cs)"
    and cs: "set (concat cs) = set (p_vertices p)" and ex: "executed (concat (batches p [] cs)) p p'"
  shows "advances p p'"
proof -
  let ?h = "concat (batches p [] cs)"
  have sub: "set ?h \<subseteq> set (p_vertices p)" using set_batches [of p "[]" cs] cs by blast
  have k: "keeps p p'" by (rule executed_keeps [OF pre ex sub])
  have run: "runnable p v" if "v \<in> set (p_vertices p)" for v using pre that by (simp add: exec_pre_def)
  then have notex: "inst_at p v \<noteq> None \<and> \<not> is_executed p v" if "v \<in> set (concat cs)" for v
    using that cs by (fastforce simp: runnable_def status_at_def is_executed_def)
  note isx = is_executed_after [OF pre ex sub]
  have "executed_closed p' \<and> logs p p' ?h" if closed: "executed_closed p"
  proof
    have dep: "e \<in> set ?h \<or> is_executed p e" if "d \<in> set ?h \<or> is_executed p d" "e \<in> set (Dependencies p d)" for d e
    proof (cases "d \<in> set ?h")
      case True
      then obtain b where "b \<in> set (batches p [] cs)" "d \<in> set b" by auto
      then obtain l r where "batches p [] cs = l @ b # r" by (meson split_list)
      with batches_closed [OF this \<open>d \<in> set b\<close> that(2)] show ?thesis by auto
    next
      case False
      with that closed show ?thesis by (auto simp: executed_closed_def)
    qed
    have wf: "nvb_wf p'" using ex by (simp add: executed_def)
    show "executed_closed p'"
      using dep wf_inst_at(1) [OF wf] unfolding executed_closed_def isx executed_Dependencies [OF ex] by blast
    have "log_ordered p ?h"
      using batches_log_ordered [OF closed comps dist, of "batches p [] cs" "[]"] notex distinct_batches [OF dist]
      by simp
    then have ord: "log_ordered p' ?h"
      unfolding log_ordered_def dep_closure_def executed_Dependencies [OF ex] executed_ExecutesBefore [OF ex] .
    have "\<not> is_executed p v" if "v \<in> set ?h" for v using that sub notex cs by blast
    then show "logs p p' ?h"
      using ex distinct_batches [OF dist, of p "[]"] ord
      unfolding logs_def isx executed_command_at [OF ex] executed_def by blast
  qed
  with k show ?thesis by (auto simp: advances_def)
qed

lemma core_inv_exec_pre:
  assumes "core_inv {} {} p" shows "exec_pre p"
proof -
  have "runnable p v \<and> deps_known p v" if "v \<in> set (p_vertices p)" for v
  proof -
    from that assms have "status_at p v = Some Committed" by (auto simp: core_inv_def)
    then obtain inst where i: "inst_at p v = Some inst" by (auto simp: status_at_def)
    with assms have "inst_ok p inst" by (auto simp: core_inv_def)
    with i \<open>status_at p v = Some Committed\<close> show ?thesis
      by (auto simp: runnable_def deps_known_def command_at_def Dependencies_def inst_ok_def)
  qed
  with assms show ?thesis by (simp add: exec_pre_def core_inv_def)
qed

lemma batches_dependencies:
  assumes inv: "core_inv {} {} p" and v: "v \<in> set (concat (batches p [] cs))"
    and e: "e \<in> set (Dependencies p v)"
  shows "e \<in> set (concat (batches p [] cs)) \<or> is_executed p e"
proof -
  from v obtain b where "b \<in> set (batches p [] cs)" "v \<in> set b" by auto
  then obtain pre post where "batches p [] cs = pre @ b # post" by (meson split_list)
  with batches_closed [OF this \<open>v \<in> set b\<close> e] show ?thesis by auto
qed

lemma executor_run_inv:
  assumes inv: "core_inv {} {} p" and ord: "is_map_order ord"
  shows "\<exists>p'. executor_run ord p = Inr p' \<and> core_inv {} {} p' \<and> advances p p'"
proof -
  note pre = core_inv_exec_pre [OF inv]
  from executor_run_ok [OF pre ord] obtain cs p' where
    comps: "comps_ok (depNodes p) cs" "distinct (concat cs)" and cs: "set (concat cs) = set (p_vertices p)" and
    run: "executor_run ord p = Inr p'" and ex: "executed (concat (batches p [] cs)) p p'" by blast
  let ?vs = "concat (batches p [] cs)"
  have sub: "set ?vs \<subseteq> set (p_vertices p)" using set_batches [of p "[]" cs] cs by blast
  note st = executed_status_at [OF ex] and dep = executed_Dependencies [OF ex]
  have isx: "is_executed p' e \<longleftrightarrow> e \<in> set ?vs \<or> is_executed p e" for e
    by (rule is_executed_after [OF pre ex sub])
  have com: "status_at p d = Some Committed \<longleftrightarrow> d \<in> set (p_vertices p)" for d
    using inv by (auto simp: core_inv_def)
  have v: "p_vertices p' = filter (\<lambda>v. v \<notin> set ?vs) (p_vertices p)" using ex by (simp add: executed_def)
  have "d \<in> set (p_vertices p') \<longleftrightarrow> status_at p' d = Some Committed" for d
    using com [of d] by (auto simp: v st simp del: set_concat)
  moreover have "inst_ok p' i" if "inst_at p' d = Some i" for d i
  proof -
    from that ex obtain j where "inst_at p d = Some j" "is_Data (in_is i) = is_Data (in_is j)"
      by (auto simp: executed_def split: if_splits)
    with inv ex show ?thesis by (auto simp: core_inv_def inst_ok_def executed_def same_env_def)
  qed
  moreover have "is_executed p' e" if "is_executed p' d" "e \<in> set (Dependencies p' d)" for d e
  proof -
    have "is_executed p d \<Longrightarrow> is_executed p e" using that (2) inv by (simp add: dep core_inv_def)
    then show ?thesis
      using that batches_dependencies [OF inv, of d cs e] unfolding isx dep by blast
  qed
  moreover have "status_at p' d = Some PreAccepted \<and> iid_rep d = p_id p'" if "d \<in> set (p_timers p')" for d
  proof -
    from that inv ex have a: "status_at p d = Some PreAccepted" "iid_rep d = p_id p'"
      by (auto simp: core_inv_def executed_def same_env_def)
    then have "d \<notin> set (p_vertices p)" using com [of d] by simp
    then have "d \<notin> set ?vs" using sub by (meson subsetD)
    with a show ?thesis by (simp add: st del: set_concat)
  qed
  ultimately have "core_inv {} {} p'"
    using inv ex unfolding core_inv_def by (simp add: executed_def del: set_concat)
  with run executed_advances [OF pre comps cs ex] show ?thesis by blast
qed

lemma prepareToExecute_ok:
  assumes inv: "core_inv {d} {} p" and ord: "is_map_order ord"
  shows "\<exists>p'. prepareToExecute ord d p = Inr p' \<and> nvb_inv p' \<and> advances p p'"
proof -
  have st: "status_at p d = Some Committed" and nv: "d \<notin> set (p_vertices p)"
    using inv by (auto simp: core_inv_def)
  then obtain inst where i: "inst_at p d = Some inst" "in_Status inst = Committed"
    by (auto simp: status_at_def)
  have "core_inv {} {} (addExec d p)"
    using inv nv by (auto simp: core_inv_def addExec_def status_at_def inst_ok_def is_executed_def Dependencies_def)
  from executor_run_inv [OF this ord] i nv show ?thesis
    by (auto simp: prepareToExecute_def with_inst_def isStates_def nvb_inv_def addExec_def)
qed

section \<open>Transitions\<close>

lemma persist_inv:
  assumes "core_inv X Y p" and "inst_at p d \<noteq> None"
  shows "\<exists>p'. persist d p = Inr p' \<and> core_inv X Y p' \<and> advances p p'"
proof -
  from assms (2) obtain inst where "inst_at p d = Some inst" by blast
  moreover have "nvb_wf p" using assms (1) by (simp add: core_inv_def)
  ultimately obtain st where "persist d p = Inr (p\<lparr>p_storage := st\<rparr>)" "nvb_wf (p\<lparr>p_storage := st\<rparr>)"
    using persist_ok by blast
  with core_inv_storage [OF assms (1)] show ?thesis by auto
qed


text \<open>\<open>safe\<close>: the outcome of an event that advances the invariant and takes nothing back.\<close>

definition safe :: "epaxos \<Rightarrow> panic + epaxos \<Rightarrow> bool" where
  "safe p r \<longleftrightarrow> (\<exists>p'. r = Inr p' \<and> nvb_inv p' \<and> advances p p')"

lemma safeI: "nvb_inv p' \<Longrightarrow> advances p p' \<Longrightarrow> safe p (Inr p')"
  by (simp add: safe_def)

lemma safe_trans: "advances p q \<Longrightarrow> safe q r \<Longrightarrow> safe p r"
  unfolding safe_def using advances_trans by blast

lemma safe_persist:
  assumes "safe p r" and "inst_at p d \<noteq> None"
  shows "safe p (bind_p r (persist d))"
proof -
  from assms (1) obtain q where q: "r = Inr q" "core_inv {} {} q" "advances p q"
    by (auto simp: safe_def nvb_inv_def)
  from persist_inv [OF q (2) advances_inst_at [OF q (3) assms (2)]] obtain q' where
    "persist d q = Inr q'" "core_inv {} {} q'" "advances q q'" by blast
  with q advances_trans show ?thesis unfolding safe_def nvb_inv_def by auto
qed

lemma inv_wf: "nvb_inv p \<Longrightarrow> nvb_wf p"
  by (simp add: nvb_inv_def core_inv_def)

lemma inv_inst:
  assumes "nvb_inv p" and "inst_at p d = Some inst"
  shows "in_ID inst = d" and "iid_rep d \<in> set (p_nodes p)" and "inst_ok p inst"
  using wf_inst_at [OF inv_wf [OF assms (1)] assms (2)] assms by (auto simp: nvb_inv_def core_inv_def)

text \<open>Setting a status on the way up, with the instance out of the timers.\<close>

lemma set_status_inv:
  assumes inv: "nvb_inv p" and i: "inst_at p d = Some inst" and up: "in_Status inst \<le> to"
    and lt: "in_Status inst < Committed" "to < Executed" and t: "d \<notin> set (p_timers p) \<or> to = PreAccepted"
  shows "core_inv (if to = Committed then {d} else {}) {} (setInstance (with_Status to inst) p)"
    and "advances p (setInstance (with_Status to inst) p)"
    and "inst_at (setInstance (with_Status to inst) p) d = Some (with_Status to inst)"
proof -
  note d = inv_inst [OF inv i]
  show "core_inv (if to = Committed then {d} else {}) {} (setInstance (with_Status to inst) p)"
    by (rule core_inv_setInstance [of "{}" "{}"])
      (use inv i lt t d in \<open>auto simp: nvb_inv_def status_at_def inst_ok_def\<close>)
  show "advances p (setInstance (with_Status to inst) p)"
    by (rule advances_setInstance) (use inv_wf [OF inv] i lt up d in \<open>auto simp: status_at_def\<close>)
  show "inst_at (setInstance (with_Status to inst) p) d = Some (with_Status to inst)"
    using wf_inst_at_setInstance [OF inv_wf [OF inv], of "with_Status to inst" d] d by simp
qed

lemma transition_Accepted:
  assumes inv: "nvb_inv p" and i: "inst_at p d = Some inst" "in_Status inst = PreAccepted"
    and t: "d \<notin> set (p_timers p)"
  shows "safe p (transitionTo ord d Accepted p)"
proof -
  have le: "PreAccepted \<le> Accepted" "PreAccepted < Committed"
    by (simp_all add: less_eq_Status_def less_Status_def status_num_def)
  from set_status_inv [OF inv i (1), of Accepted] i (2) t le
  have s: "core_inv {} {} (setInstance (with_Status Accepted inst) p)"
    "advances p (setInstance (with_Status Accepted inst) p)"
    "inst_at (setInstance (with_Status Accepted inst) p) d = Some (with_Status Accepted inst)"
    by simp_all
  then have "safe p (Inr (broadcastAccept (with_Status Accepted inst) (setInstance (with_Status Accepted inst) p)))"
    by (intro safeI) (simp_all add: nvb_inv_def broadcastAccept_def outbox_defs)
  from safe_persist [OF this, of d] show ?thesis
    using i s (3) by (simp add: transitionTo_def with_inst_def stateTransitions_def)
qed

lemma transition_PreAccepted:
  assumes inv: "core_inv {} {} p" and i: "inst_at p d = Some inst" "in_Status inst = NoStatus"
  shows "safe p (transitionTo ord d PreAccepted p)"
proof -
  have le: "NoStatus < Committed" by (simp add: less_Status_def status_num_def)
  from set_status_inv [of p d inst PreAccepted] inv i le
  have s: "core_inv {} {} (setInstance (with_Status PreAccepted inst) p)"
    "advances p (setInstance (with_Status PreAccepted inst) p)"
    "inst_at (setInstance (with_Status PreAccepted inst) p) d = Some (with_Status PreAccepted inst)"
    by (simp_all add: nvb_inv_def)
  then have "safe p (Inr (broadcastPreAccept (with_Status PreAccepted inst) (setInstance (with_Status PreAccepted inst) p)))"
    by (intro safeI) (simp_all add: nvb_inv_def broadcastPreAccept_def outbox_defs)
  from safe_persist [OF this, of d] show ?thesis
    using i s (3) by (simp add: transitionTo_def with_inst_def stateTransitions_def)
qed

lemma transition_Committed:
  assumes inv: "nvb_inv p" and i: "inst_at p d = Some inst" "in_Status inst = PreAccepted \<or> in_Status inst = Accepted"
    and t: "d \<notin> set (p_timers p)" and ord: "is_map_order ord"
  shows "safe p (transitionTo ord d Committed p)"
proof -
  have le: "in_Status inst \<le> Committed" "in_Status inst < Committed"
    using i (2) by (auto simp: less_eq_Status_def less_Status_def status_num_def)
  let ?x = "with_Status Committed inst"
  from set_status_inv [OF inv i (1), of Committed] t le
  have s: "core_inv {d} {} (setInstance ?x p)" "advances p (setInstance ?x p)"
    "inst_at (setInstance ?x p) d = Some ?x"
    by simp_all
  then have "core_inv {d} {} (broadcastCommit ?x (setInstance ?x p))"
    by (simp add: broadcastCommit_def outbox_defs)
  from prepareToExecute_ok [OF this ord] obtain q where
    q: "prepareToExecute ord d (broadcastCommit ?x (setInstance ?x p)) = Inr q" "nvb_inv q"
      "advances (broadcastCommit ?x (setInstance ?x p)) q" by blast
  have "advances p (broadcastCommit ?x (setInstance ?x p))"
    using s (2) by (simp add: broadcastCommit_def outbox_defs)
  from advances_trans [OF this q (3)] q (2) have "safe p (Inr q)" by (rule safeI [rotated])
  from safe_persist [OF this, of d] show ?thesis
    using i s (3) q (1) by (auto simp: transitionTo_def with_inst_def stateTransitions_def)
qed

section \<open>Timers\<close>

lemma unregister_ok:
  assumes inv: "nvb_inv p" and i: "inst_at p d = Some inst" and lt: "in_Status inst < Committed"
  shows "nvb_inv (unregisterTimer inst p)" and "advances p (unregisterTimer inst p)"
    and "\<exists>inst'. inst_at (unregisterTimer inst p) d = Some inst' \<and> in_Status inst' = in_Status inst"
    and "d \<notin> set (p_timers (unregisterTimer inst p))"
proof -
  note d = inv_inst [OF inv i]
  let ?x = "inst\<lparr>in_slowPathTimer := timer_stop (in_slowPathTimer inst)\<rparr>"
  let ?p = "p\<lparr>p_timers := removeAll d (p_timers p)\<rparr>"
  have u: "unregisterTimer inst p = setInstance ?x ?p" using d by (simp add: unregisterTimer_def)
  have p: "core_inv {} {} ?p"
    using inv by (intro core_inv_timers) (auto simp: nvb_inv_def core_inv_def)
  have wf: "nvb_wf ?p" using inv_wf [OF inv] by simp
  have com: "in_Status inst \<noteq> Committed" "in_Status inst \<noteq> Executed"
    using lt by (auto simp: status_bounds)
  have "core_inv {} {} (setInstance ?x ?p)"
    by (rule core_inv_setInstance [OF p]) (use i lt com d in \<open>auto simp: status_at_def inst_ok_def\<close>)
  then show "nvb_inv (unregisterTimer inst p)" by (simp add: u nvb_inv_def)
  have "advances ?p (setInstance ?x ?p)"
    by (rule advances_setInstance [OF wf]) (use i lt d in \<open>auto simp: status_at_def\<close>)
  then show "advances p (unregisterTimer inst p)" by (simp add: u)
  show "\<exists>inst'. inst_at (unregisterTimer inst p) d = Some inst' \<and> in_Status inst' = in_Status inst"
    using wf_inst_at_setInstance [OF wf, of ?x d] d by (simp add: u)
  show "d \<notin> set (p_timers (unregisterTimer inst p))" by (simp add: u)
qed

text \<open>Rewriting an instance in place, status unchanged.\<close>

lemma rewrite_ok:
  assumes inv: "nvb_inv p" and i: "inst_at p d = Some inst" and lt: "in_Status inst < Committed"
    and x: "in_ID x = d" "in_Status x = in_Status inst" "inst_ok p x"
  shows "nvb_inv (setInstance x p)" and "advances p (setInstance x p)" and "inst_at (setInstance x p) d = Some x"
proof -
  note d = inv_inst [OF inv i]
  have com: "in_Status inst \<noteq> Committed" "in_Status inst \<noteq> Executed"
    using lt by (auto simp: status_bounds)
  have t: "d \<in> set (p_timers p) \<Longrightarrow> in_Status x = PreAccepted"
    using inv i x by (auto simp: nvb_inv_def core_inv_def status_at_def)
  have "core_inv {} {} (setInstance x p)"
    by (rule core_inv_setInstance [of "{}" "{}"])
      (use inv i lt com d x t in \<open>auto simp: nvb_inv_def status_at_def\<close>)
  then show "nvb_inv (setInstance x p)" by (simp add: nvb_inv_def)
  show "advances p (setInstance x p)"
    by (rule advances_setInstance [OF inv_wf [OF inv]]) (use i lt d x in \<open>auto simp: status_at_def\<close>)
  show "inst_at (setInstance x p) d = Some x"
    using wf_inst_at_setInstance [OF inv_wf [OF inv], of x d] d x by simp
qed

lemma PreAccepted_less [simp]: "PreAccepted < Committed" "Accepted < Committed" "NoStatus < Committed"
  "PreAccepted \<le> Accepted" "PreAccepted \<le> Committed" "Accepted \<le> Committed"
  by (simp_all add: less_Status_def less_eq_Status_def status_num_def)

lemma Tick_loop_ok:
  "nvb_inv p \<Longrightarrow> safe p (Tick_loop ord ds p)"
proof (induction ds arbitrary: p)
  case Nil
  then show ?case by (simp add: safeI)
next
  case (Cons d ds)
  show ?case
  proof (cases "d \<in> set (p_timers p)")
    case True
    with Cons.prems have "status_at p d = Some PreAccepted" by (auto simp: nvb_inv_def core_inv_def)
    then obtain inst where i: "inst_at p d = Some inst" "in_Status inst = PreAccepted"
      by (auto simp: status_at_def)
    obtain t fired where t: "timer_tick (in_slowPathTimer inst) = (t, fired)" by fastforce
    let ?x = "inst\<lparr>in_slowPathTimer := t\<rparr>"
    note d = inv_inst [OF Cons.prems i (1)]
    have x: "nvb_inv (setInstance ?x p)" "advances p (setInstance ?x p)" "inst_at (setInstance ?x p) d = Some ?x"
      using rewrite_ok [OF Cons.prems i (1), of ?x] i (2) d by (auto simp: inst_ok_def)
    note u = unregister_ok [OF x (1,3)]
    have fire: "safe p (slowPathTimeout_fires ord ?x (setInstance ?x p))"
      unfolding slowPathTimeout_fires_def
    proof (rule safe_trans)
      show "advances p (unregisterTimer ?x (setInstance ?x p))"
        using u (2) advances_trans [OF x (2)] i (2) by simp
      show "safe (unregisterTimer ?x (setInstance ?x p))
          (transitionTo ord (in_ID ?x) Accepted (unregisterTimer ?x (setInstance ?x p)))"
        using u i (2) d transition_Accepted by auto
    qed
    have "safe p (if fired then slowPathTimeout_fires ord ?x (setInstance ?x p) else Inr (setInstance ?x p))"
      using fire x by (simp add: safeI)
    then obtain q where q: "(if fired then slowPathTimeout_fires ord ?x (setInstance ?x p)
        else Inr (setInstance ?x p)) = Inr q" "nvb_inv q" "advances p q" by (auto simp: safe_def)
    from safe_trans [OF q (3) Cons.IH [OF q (2)]] True i (1) t q (1) show ?thesis
      by (simp add: with_inst_def Let_def)
  next
    case False
    with Cons show ?thesis by simp
  qed
qed

section \<open>Dependencies are found without a panic\<close>

lemma descend_deps_ok:
  "\<forall>i \<in> set xs. in_ID i \<noteq> ign \<longrightarrow> in_Command i \<noteq> None \<Longrightarrow>
     \<exists>s ds. descend_deps ops cmd ign rID xs g m deps = Inr (s, ds)
       \<and> set ds \<subseteq> set deps \<union> {e. iid_rep e = rID}"
proof (induction xs arbitrary: g m deps)
  case Nil
  then show ?case by simp
next
  case (Cons x xs)
  have IH: "\<exists>s ds. descend_deps ops cmd ign rID xs g' m' deps' = Inr (s, ds)
      \<and> set ds \<subseteq> set deps \<union> {e. iid_rep e = rID}"
    if "set deps' \<subseteq> set deps \<union> {e. iid_rep e = rID}" for g' m' deps'
    using Cons.IH [of g' m' deps'] Cons.prems that by fastforce
  show ?case
  proof (cases "in_ID x = ign")
    case True
    with IH [of deps g m] show ?thesis by auto
  next
    case False
    with Cons.prems obtain c where "in_Command x = Some c" by auto
    with False show ?thesis
      by (auto simp: Let_def split: prod.split intro!: IH)
  qed
qed

lemma replicas_deps_ok:
  assumes "\<And>r t i. p_commands p r = Some t \<Longrightarrow> i \<in> set t \<Longrightarrow> in_ID i \<noteq> ign \<Longrightarrow> in_Command i \<noteq> None"
  shows "\<exists>s ds. replicas_deps ops p cmd ign rs m deps = Inr (s, ds)
       \<and> set ds \<subseteq> set deps \<union> {e. iid_rep e \<in> set rs}"
proof (induction rs arbitrary: m deps)
  case Nil
  then show ?case by simp
next
  case (Cons r rs)
  have "\<forall>i \<in> set (rev (case p_commands p r of None \<Rightarrow> [] | Some t \<Rightarrow> t)). in_ID i \<noteq> ign \<longrightarrow> in_Command i \<noteq> None"
    using assms by (cases "p_commands p r") auto
  from descend_deps_ok [OF this, of ops cmd r "rg_new ops" m deps] obtain s ds where
    d: "descend_deps ops cmd ign r (rev (case p_commands p r of None \<Rightarrow> [] | Some t \<Rightarrow> t)) (rg_new ops) m deps
      = Inr (s, ds)" "set ds \<subseteq> set deps \<union> {e. iid_rep e = r}" by (elim exE conjE)
  from Cons.IH [of s ds] obtain s' ds' where
    "replicas_deps ops p cmd ign rs s ds = Inr (s', ds')" "set ds' \<subseteq> set ds \<union> {e. iid_rep e \<in> set rs}" by blast
  with d show ?case by fastforce
qed

lemma seqAndDeps_ok:
  assumes "core_inv X {ign} p"
  shows "\<exists>s ds. seqAndDepsForCommand ops p (Some c) ign = Inr (s, ds)
    \<and> (\<forall>e \<in> set ds. iid_rep e \<in> set (p_nodes p))"
proof -
  have wf: "nvb_wf p" using assms by (simp add: core_inv_def)
  have "in_Command i \<noteq> None" if t: "p_commands p r = Some t" "i \<in> set t" "in_ID i \<noteq> ign" for r t i
    using wf_tree_inst_at (1) [OF wf t (1,2)] t (3) assms by (auto simp: core_inv_def inst_ok_def)
  from replicas_deps_ok [of p ign, OF this] show ?thesis
    by (fastforce simp: seqAndDepsForCommand_def)
qed

lemma core_inv_mono: "core_inv X Y p \<Longrightarrow> Y \<subseteq> Y' \<Longrightarrow> core_inv X Y' p"
  unfolding core_inv_def by blast

section \<open>Handlers\<close>

definition deps_ok :: "epaxos \<Rightarrow> InstanceID list \<Rightarrow> bool" where
  "deps_ok p ds \<longleftrightarrow> (\<forall>e \<in> set ds. iid_rep e \<in> set (p_nodes p))"

text \<open>What the messages of a correct peer satisfy; an \<^verbatim>\<open>Accept\<close> must find its instance, because it
  carries no command (see \<open>accept_before_preaccept_panics\<close>).\<close>

definition message_ok :: "epaxos \<Rightarrow> Message \<Rightarrow> bool" where
  "message_ok p m \<longleftrightarrow>
     (case m_Type m of
        MPreAccept d \<Rightarrow> id_Command d \<noteq> None \<and> deps_ok p (id_Deps d)
      | MCommit d \<Rightarrow> id_Command d \<noteq> None \<and> deps_ok p (id_Deps d)
      | MAccept d \<Rightarrow> deps_ok p (id_Deps d) \<and> inst_at p (m_InstanceID m) \<noteq> None
      | MPreAcceptReply s ds \<Rightarrow> deps_ok p ds
      | _ \<Rightarrow> True)"

lemma timers_own: "core_inv X Y p \<Longrightarrow> d \<in> set (p_timers p) \<Longrightarrow> iid_rep d = p_id p"
  by (simp add: core_inv_def)

lemma onPreAccept_ok:
  assumes inv: "core_inv {} {d} p" and i: "inst_at p d = Some inst"
    and pa: "id_Command pa \<noteq> None" "deps_ok p (id_Deps pa)" and d: "iid_rep d \<noteq> p_id p"
    and run: "isStates [NoStatus, PreAccepted] inst"
  shows "safe p (onPreAccept ops pa inst p)"
proof -
  have wf: "nvb_wf p" using inv by (simp add: core_inv_def)
  note id = wf_inst_at [OF wf i]
  have st: "in_Status inst = NoStatus \<or> in_Status inst = PreAccepted" using run by (auto simp: isStates_def)
  let ?x = "with_Status PreAccepted inst" and ?p1 = "setInstance (with_Status PreAccepted inst) p"
  have inv1: "core_inv {} {d} ?p1"
    by (rule core_inv_setInstance [OF inv]) (use i st id in \<open>auto simp: status_at_def\<close>)
  have k1: "advances p ?p1"
    by (rule advances_setInstance [OF wf]) (use i st id in \<open>auto simp: status_at_def\<close>)
  have at1: "inst_at ?p1 d = Some ?x" using wf_inst_at_setInstance [OF wf, of ?x d] id by simp
  obtain c where c: "id_Command pa = Some c" using pa by blast
  from seqAndDeps_ok [OF inv1, of ops c] obtain s ds where
    sd: "seqAndDepsForCommand ops ?p1 (Some c) d = Inr (s, ds)" "\<forall>e \<in> set ds. iid_rep e \<in> set (p_nodes p)"
    by auto
  let ?seq = "MaxSeqNum (id_SeqNum pa) (s + 1)" and ?deps = "depSliceFromMap (ds @ id_Deps pa)"
  let ?y = "with_Data \<lparr>id_Command = Some c, id_SeqNum = ?seq, id_Deps = ?deps\<rparr> ?x"
  have wf1: "nvb_wf ?p1" using inv1 by (simp add: core_inv_def)
  have inv2: "core_inv {} {} (setInstance ?y ?p1)"
    by (rule core_inv_setInstance [OF inv1])
      (use at1 id sd (2) pa (2) in \<open>auto simp: status_at_def inst_ok_def deps_ok_def\<close>)
  have k2: "advances ?p1 (setInstance ?y ?p1)"
    by (rule advances_setInstance [OF wf1]) (use at1 id in \<open>auto simp: status_at_def\<close>)
  have "safe p (Inr (reply m ?y (setInstance ?y ?p1)))" for m
    using inv2 advances_trans [OF k1 k2] by (intro safeI) (simp_all add: nvb_inv_def outbox_defs)
  then have "safe p (if b then Inr (reply m1 ?y (setInstance ?y ?p1)) else Inr (reply m2 ?y (setInstance ?y ?p1)))"
    for b m1 m2
    by simp
  then show ?thesis
    using run c sd (1) id by (simp add: onPreAccept_def Let_def split del: if_split)
qed

lemma onCommit_ok:
  assumes inv: "core_inv {} {d} p" and i: "inst_at p d = Some inst"
    and c: "id_Command c \<noteq> None" "deps_ok p (id_Deps c)" and d: "iid_rep d \<noteq> p_id p"
    and run: "isStates [NoStatus, PreAccepted, Accepted] inst" and ord: "is_map_order ord"
  shows "safe p (onCommit ord c inst p)"
proof -
  have wf: "nvb_wf p" using inv by (simp add: core_inv_def)
  note id = wf_inst_at [OF wf i]
  have st: "in_Status inst < Committed" using run by (auto simp: isStates_def)
  then have st': "in_Status inst \<le> Committed" by simp
  let ?y = "with_Data \<lparr>id_Command = id_Command c, id_SeqNum = id_SeqNum c, id_Deps = id_Deps c\<rparr>
      (with_Status Committed inst)"
  have "core_inv {d} {} (setInstance ?y p)"
    by (rule core_inv_setInstance [OF inv])
      (use i st id c timers_own [OF inv] d in \<open>auto simp: status_at_def inst_ok_def deps_ok_def\<close>)
  from prepareToExecute_ok [OF this ord] obtain q where
    q: "prepareToExecute ord d (setInstance ?y p) = Inr q" "nvb_inv q" "advances (setInstance ?y p) q" by blast
  have "advances p (setInstance ?y p)"
    by (rule advances_setInstance [OF wf]) (use i st st' id in \<open>auto simp: status_at_def\<close>)
  from advances_trans [OF this q (3)] q (1,2) run id show ?thesis
    by (simp add: onCommit_def Let_def safeI)
qed

lemma onAccept_ok:
  assumes inv: "nvb_inv p" and i: "inst_at p d = Some inst" and a: "deps_ok p (id_Deps a)"
    and d: "iid_rep d \<noteq> p_id p"
  shows "safe p (onAccept a inst p)"
proof (cases "isStates [NoStatus, PreAccepted, Accepted] inst")
  case True
  note id = inv_inst [OF inv i]
  have st: "in_Status inst < Committed" "in_Status inst \<le> Accepted" using True by (auto simp: isStates_def)
  let ?y = "replaceInstanceData (id_SeqNum a) (id_Deps a) (with_Status Accepted inst)"
  have y: "in_ID ?y = d" "in_Status ?y = Accepted" "in_Command ?y = in_Command inst" "in_Deps ?y = id_Deps a"
    using id by (simp_all add: replaceInstanceData_def)
  have c: "core_inv {} {} p" using inv by (simp add: nvb_inv_def)
  have "core_inv {} {} (setInstance ?y p)"
    by (rule core_inv_setInstance [OF c])
      (use i st id a y timers_own [OF c] d in \<open>auto simp: status_at_def inst_ok_def deps_ok_def\<close>)
  moreover have "advances p (setInstance ?y p)"
    by (rule advances_setInstance [OF inv_wf [OF inv]]) (use i st id y in \<open>auto simp: status_at_def\<close>)
  ultimately have "safe p (Inr (reply MAcceptOK ?y (setInstance ?y p)))"
    by (intro safeI) (simp_all add: nvb_inv_def outbox_defs)
  with True show ?thesis by (simp add: onAccept_def Let_def)
next
  case False
  with inv show ?thesis by (simp add: onAccept_def safeI)
qed

lemma onEitherPreAcceptReply_ok:
  assumes inv: "nvb_inv p" and i: "inst_at p d = Some inst" "in_Status inst = PreAccepted"
    and own: "iid_rep d = p_id p" and ord: "is_map_order ord"
  shows "safe p (onEitherPreAcceptReply ord inst p)"
proof -
  note id = inv_inst [OF inv i (1)]
  have lt: "in_Status inst < Committed" using i (2) by simp
  note u = unregister_ok [OF inv i (1) lt]
  from u (3) i (2) obtain inst' where i': "inst_at (unregisterTimer inst p) d = Some inst'"
    "in_Status inst' = PreAccepted" by auto
  have com: "safe p (transitionTo ord d Committed (unregisterTimer inst p))"
    using transition_Committed [OF u (1) i' (1) _ u (4) ord] i' (2) by (intro safe_trans [OF u (2)]) auto
  have acc: "safe p (transitionTo ord d Accepted (unregisterTimer inst p))"
    using transition_Accepted [OF u (1) i' u (4)] by (rule safe_trans [OF u (2)])
  let ?x = "inst\<lparr>in_slowPathTimer := timer_reset (in_slowPathTimer inst)\<rparr>"
  let ?p = "p\<lparr>p_timers := List.insert d (p_timers p)\<rparr>"
  have inv': "core_inv {} {} ?p"
    using inv i own by (intro core_inv_timers) (auto simp: nvb_inv_def core_inv_def status_at_def)
  have wf: "nvb_wf ?p" using inv_wf [OF inv] by simp
  have "core_inv {} {} (setInstance ?x ?p)"
    by (rule core_inv_setInstance [OF inv']) (use i id in \<open>auto simp: status_at_def inst_ok_def\<close>)
  moreover have "advances ?p (setInstance ?x ?p)"
    by (rule advances_setInstance [OF wf]) (use i id in \<open>auto simp: status_at_def\<close>)
  then have "advances p (setInstance ?x ?p)" by simp
  ultimately have "safe p (Inr (registerOneTimeTimer inst p))"
    using id by (intro safeI) (simp_all add: nvb_inv_def registerOneTimeTimer_def)
  with com acc inv id show ?thesis
    by (simp add: onEitherPreAcceptReply_def Let_def safeI)
qed

lemma merge_reply_fields:
  "in_ID (merge_reply s ds inst) = in_ID inst" "in_Status (merge_reply s ds inst) = in_Status inst"
  "in_Command (merge_reply s ds inst) = in_Command inst"
  "set (in_Deps (merge_reply s ds inst)) = set (in_Deps inst) \<union> set ds"
  "in_preAcceptReplies (merge_reply s ds inst) = in_preAcceptReplies inst"
  by (auto simp: merge_reply_def replaceInstanceData_def Let_def unionDepSlices_def)

lemma reply_ok:
  assumes inv: "nvb_inv p" and i: "inst_at p d = Some inst" "in_Status inst = PreAccepted"
    and own: "iid_rep d = p_id p" and ord: "is_map_order ord"
    and x: "in_ID x = d" "in_Status x = PreAccepted" "inst_ok p x"
  shows "safe p (onEitherPreAcceptReply ord x (setInstance x p))"
proof -
  from rewrite_ok [OF inv i (1), of x] x i (2) have
    r: "nvb_inv (setInstance x p)" "advances p (setInstance x p)" "inst_at (setInstance x p) d = Some x" by auto
  from onEitherPreAcceptReply_ok [OF r (1,3) x (2) _ ord] own show ?thesis
    by (intro safe_trans [OF r (2)]) simp
qed

lemma onPreAcceptOK_ok:
  assumes "nvb_inv p" and "inst_at p d = Some inst" and "iid_rep d = p_id p" and "is_map_order ord"
  shows "safe p (onPreAcceptOK ord inst p)"
  using assms reply_ok [OF assms (1,2) _ assms (3,4)] inv_inst [OF assms (1,2)]
  by (auto simp: onPreAcceptOK_def isStates_def Let_def inst_ok_def safeI)

lemma onPreAcceptReply_ok:
  assumes "nvb_inv p" and "inst_at p d = Some inst" and "iid_rep d = p_id p" and "is_map_order ord"
    and "deps_ok p ds"
  shows "safe p (onPreAcceptReply ord s ds inst p)"
proof (cases "isStates [PreAccepted] inst")
  case True
  let ?x = "(merge_reply s ds inst)\<lparr>in_preAcceptReplies := in_preAcceptReplies (merge_reply s ds inst) + 1\<rparr>"
  have st: "in_Status inst = PreAccepted" using True by (simp add: isStates_def)
  have "in_ID ?x = d" "in_Status ?x = PreAccepted" "inst_ok p ?x"
    using inv_inst [OF assms (1,2)] assms (5) st by (auto simp: merge_reply_fields inst_ok_def deps_ok_def)
  from reply_ok [OF assms (1,2) st assms (3,4) this] True show ?thesis
    by (simp add: onPreAcceptReply_def Let_def)
next
  case False
  with assms (1) show ?thesis by (simp add: onPreAcceptReply_def safeI)
qed

lemma onAcceptOK_ok:
  assumes inv: "nvb_inv p" and i: "inst_at p d = Some inst" and ord: "is_map_order ord"
  shows "safe p (onAcceptOK ord inst p)"
proof (cases "isStates [Accepted] inst")
  case True
  then have st: "in_Status inst = Accepted" by (simp add: isStates_def)
  note id = inv_inst [OF inv i]
  let ?x = "inst\<lparr>in_acceptReplies := in_acceptReplies inst + 1\<rparr>"
  from rewrite_ok [OF inv i, of ?x] id st have
    r: "nvb_inv (setInstance ?x p)" "advances p (setInstance ?x p)" "inst_at (setInstance ?x p) d = Some ?x"
    by (auto simp: inst_ok_def)
  have "d \<notin> set (p_timers p)"
    using inv i st by (auto simp: nvb_inv_def core_inv_def status_at_def)
  then have "safe p (transitionTo ord d Committed (setInstance ?x p))"
    using transition_Committed [OF r (1,3) _ _ ord] st by (intro safe_trans [OF r (2)]) auto
  with True r id show ?thesis by (simp add: onAcceptOK_def Let_def safeI)
next
  case False
  with inv show ?thesis by (simp add: onAcceptOK_def safeI)
qed

section \<open>Every event is safe\<close>

lemma dispatch_found:
  assumes inv: "nvb_inv p" and ord: "is_map_order ord" and valid: "validateMessage p m"
    and ok: "message_ok p m" and i: "inst_at p (m_InstanceID m) = Some inst"
  shows "safe p (dispatch ops ord (m_Type m) inst p)"
proof (cases "m_Type m")
  case (MPreAccept d)
  have c: "core_inv {} {m_InstanceID m} p" using inv by (auto simp: nvb_inv_def intro: core_inv_mono)
  show ?thesis
  proof (cases "isStates [NoStatus, PreAccepted] inst")
    case True
    from onPreAccept_ok [OF c i _ _ _ True, of d ops] MPreAccept ok valid show ?thesis
      by (auto simp: dispatch_def message_ok_def validateMessage_def IsReply_def split: if_splits)
  next
    case False
    with MPreAccept inv show ?thesis by (simp add: dispatch_def onPreAccept_def safeI)
  qed
next
  case (MCommit d)
  have c: "core_inv {} {m_InstanceID m} p" using inv by (auto simp: nvb_inv_def intro: core_inv_mono)
  show ?thesis
  proof (cases "isStates [NoStatus, PreAccepted, Accepted] inst")
    case True
    from onCommit_ok [OF c i _ _ _ True ord, of d] MCommit ok valid show ?thesis
      by (auto simp: dispatch_def message_ok_def validateMessage_def IsReply_def split: if_splits)
  next
    case False
    with MCommit inv show ?thesis by (simp add: dispatch_def onCommit_def safeI)
  qed
next
  case (MAccept d)
  with onAccept_ok [OF inv i, of d] ok valid show ?thesis
    by (auto simp: dispatch_def message_ok_def validateMessage_def IsReply_def split: if_splits)
next
  case (MPreAcceptReply s ds)
  with onPreAcceptReply_ok [OF inv i _ ord, of ds s] ok valid show ?thesis
    by (auto simp: dispatch_def message_ok_def validateMessage_def IsReply_def split: if_splits)
next
  case MPreAcceptOK
  with onPreAcceptOK_ok [OF inv i _ ord] valid show ?thesis
    by (auto simp: dispatch_def validateMessage_def IsReply_def split: if_splits)
next
  case MAcceptOK
  with onAcceptOK_ok [OF inv i ord] show ?thesis by (simp add: dispatch_def)
qed

lemma dispatch_new:
  assumes inv: "nvb_inv p" and ord: "is_map_order ord" and valid: "validateMessage p m"
    and ok: "message_ok p m" and i: "inst_at p (m_InstanceID m) = None"
    and r: "iid_rep (m_InstanceID m) \<noteq> p_id p"
  shows "safe p (dispatch ops ord (m_Type m) (newInstance (iid_rep (m_InstanceID m)) (iid_num (m_InstanceID m)))
    (setInstance (newInstance (iid_rep (m_InstanceID m)) (iid_num (m_InstanceID m))) p))"
proof -
  let ?d = "m_InstanceID m" and ?x = "newInstance (iid_rep (m_InstanceID m)) (iid_num (m_InstanceID m))"
  let ?q = "setInstance ?x p"
  have x: "in_ID ?x = ?d" "in_Status ?x = NoStatus"
    by (simp_all add: newInstance_def newInstanceFromState_def)
  have known: "iid_rep ?d \<in> set (p_nodes p)"
    using valid r by (auto simp: validateMessage_def knownReplica_def split: if_splits)
  have c0: "core_inv {} {} p" using inv by (simp add: nvb_inv_def)
  have "?d \<notin> set (p_timers p)" using timers_own [OF c0] r by auto
  then have c: "core_inv {} {?d} ?q"
    by (intro core_inv_setInstance [OF c0]) (use x known i in \<open>auto simp: status_at_def\<close>)
  have k: "advances p ?q"
    by (rule advances_setInstance [OF inv_wf [OF inv]]) (use x known i in \<open>auto simp: status_at_def\<close>)
  have at: "inst_at ?q ?d = Some ?x"
    using wf_inst_at_setInstance [OF inv_wf [OF inv], of ?x ?d] x known by simp
  have rq: "iid_rep ?d \<noteq> p_id ?q" using r by simp
  show ?thesis
  proof (rule safe_trans [OF k], cases "m_Type m")
    case (MPreAccept d)
    with onPreAccept_ok [OF c at _ _ rq, of d ops] ok x (2)
    show "safe ?q (dispatch ops ord (m_Type m) ?x ?q)"
      by (simp add: dispatch_def message_ok_def deps_ok_def isStates_def)
  next
    case (MCommit d)
    with onCommit_ok [OF c at _ _ rq _ ord, of d] ok x (2)
    show "safe ?q (dispatch ops ord (m_Type m) ?x ?q)"
      by (simp add: dispatch_def message_ok_def deps_ok_def isStates_def)
  qed (use ok i r valid in \<open>auto simp: message_ok_def validateMessage_def IsReply_def split: if_splits\<close>)
qed

lemma getInstance_eq:
  assumes "nvb_wf p" and "iid_rep d \<in> set (p_nodes p)"
  shows "getInstance p (iid_rep d) (iid_num d) = Inr (inst_at p d)"
proof -
  from wf_known [OF assms] obtain t where "p_commands p (iid_rep d) = Some t" .
  then show ?thesis by (simp add: getInstance_def inst_at_def)
qed

lemma Step_safe:
  assumes inv: "nvb_inv p" and ord: "is_map_order ord" and ok: "message_ok p m"
  shows "safe p (Step ops ord m p)"
proof (cases "validateMessage p m")
  case True
  have self: "p_id p \<in> set (p_nodes p)" using inv_wf [OF inv] by (simp add: nvb_wf_def)
  have "iid_rep (m_InstanceID m) \<in> set (p_nodes p)"
    using True self by (auto simp: validateMessage_def knownReplica_def split: if_splits)
  note g = getInstance_eq [OF inv_wf [OF inv] this]
  show ?thesis
  proof (cases "inst_at p (m_InstanceID m)")
    case None
    with g True dispatch_new [OF inv ord True ok None, of ops] inv show ?thesis
      by (cases "iid_rep (m_InstanceID m) = p_id p") (simp_all add: Step_def Let_def safeI)
  next
    case (Some inst)
    with g True dispatch_found [OF inv ord True ok Some, of ops] show ?thesis
      by (simp add: Step_def Let_def)
  qed
next
  case False
  with inv show ?thesis by (simp add: Step_def safeI)
qed

lemma Tick_safe: "nvb_inv p \<Longrightarrow> safe p (Tick ord p)"
  by (simp add: Tick_def Tick_loop_ok)

text \<open>A request takes the next number of the replica's own instance space; the numbers must not have
  run out.\<close>

definition room_left :: "epaxos \<Rightarrow> bool" where
  "room_left p \<longleftrightarrow> maxInstanceNum p (p_id p) \<noteq> Inr (- 1)"

lemma fresh_instance:
  assumes wf: "nvb_wf p" and room: "room_left p"
  shows "\<exists>m. maxInstanceNum p (p_id p) = Inr m \<and> inst_at p (IID (p_id p) (m + 1)) = None"
proof -
  have "p_id p \<in> set (p_nodes p)" using wf by (simp add: nvb_wf_def)
  from wf_known [OF wf this] obtain t where t: "p_commands p (p_id p) = Some t" .
  then have sorted: "sorted_wrt (\<lambda>a b. in_num a < in_num b) t" using wf by (auto simp: nvb_wf_def)
  show ?thesis
  proof (cases "bt_max t")
    case None
    then show ?thesis
      using t by (auto simp: maxInstanceNum_def maxInstance_def inst_at_def bt_get_def bt_max_def split: if_splits)
  next
    case (Some x)
    then have m: "maxInstanceNum p (p_id p) = Inr (in_num x)"
      using t by (simp add: maxInstanceNum_def maxInstance_def)
    with room have ne: "in_num x \<noteq> - 1" by (simp add: room_left_def)
    have "bt_get in_num (in_num x + 1) t = None"
    proof (rule ccontr)
      assume "bt_get in_num (in_num x + 1) t \<noteq> None"
      then obtain y where "bt_get in_num (in_num x + 1) t = Some y" by blast
      from bt_get_Some [OF this] bt_max_ge [OF sorted _ Some] have "in_num x + 1 \<le> in_num x" by force
      with ne word_succ_gt [of "in_num x"] show False by simp
    qed
    with m t show ?thesis by (simp add: inst_at_def)
  qed
qed

lemma Request_safe:
  assumes inv: "nvb_inv p" and room: "room_left p"
  shows "safe p (Request ops ord cmd p)"
proof -
  note wf = inv_wf [OF inv]
  from fresh_instance [OF wf room] obtain m where
    m: "maxInstanceNum p (p_id p) = Inr m" "inst_at p (IID (p_id p) (m + 1)) = None" by blast
  have c: "core_inv {} {IID 0 0} p" using inv by (auto simp: nvb_inv_def intro: core_inv_mono)
  from seqAndDeps_ok [OF c, of ops cmd] obtain s ds where
    sd: "seqAndDepsForCommand ops p (Some cmd) (IID 0 0) = Inr (s, ds)"
      "\<forall>e \<in> set ds. iid_rep e \<in> set (p_nodes p)" by blast
  let ?x = "with_Data \<lparr>id_Command = Some cmd, id_SeqNum = s + 1, id_Deps = depSliceFromMap ds\<rparr>
      (newInstance (p_id p) (m + 1))"
  have x: "in_ID ?x = IID (p_id p) (m + 1)" "in_Status ?x = NoStatus" "inst_ok p ?x"
    using sd (2) by (auto simp: newInstance_def newInstanceFromState_def inst_ok_def)
  have known: "iid_rep (in_ID ?x) \<in> set (p_nodes p)" using wf x (1) by (simp add: nvb_wf_def)
  have nt: "in_ID ?x \<notin> set (p_timers p)"
    using inv m (2) x (1) by (auto simp: nvb_inv_def core_inv_def status_at_def)
  have "core_inv {} {} (setInstance ?x p)"
    by (rule core_inv_setInstance [of "{}" "{}"])
      (use inv known x m (2) nt in \<open>simp_all add: nvb_inv_def status_at_def\<close>)
  moreover have "inst_at (setInstance ?x p) (in_ID ?x) = Some ?x"
    using wf_inst_at_setInstance [OF wf known] by simp
  ultimately have "safe (setInstance ?x p) (transitionTo ord (in_ID ?x) PreAccepted (setInstance ?x p))"
    using x (2) by (intro transition_PreAccepted [of _ _ ?x]) simp_all
  moreover have "advances p (setInstance ?x p)"
    by (rule advances_setInstance [OF wf known]) (use x m (2) in \<open>simp_all add: status_at_def\<close>)
  ultimately have "safe p (transitionTo ord (in_ID ?x) PreAccepted (setInstance ?x p))"
    using safe_trans by blast
  then show ?thesis
    using m sd (1) by (simp add: Request_def onRequest_def Let_def)
qed

definition event_ok :: "epaxos \<Rightarrow> node_event \<Rightarrow> bool" where
  "event_ok p ev \<longleftrightarrow>
     (case ev of EvStep m \<Rightarrow> message_ok p m | EvPropose _ \<Rightarrow> room_left p | _ \<Rightarrow> True)"

text \<open>\<open>Ready\<close> hands over the executed commands and starts from none.\<close>

definition before_event :: "node_event \<Rightarrow> epaxos \<Rightarrow> epaxos" where
  "before_event ev p = (if ev = EvReady then p\<lparr>p_executedCmds := []\<rparr> else p)"

lemma node_step_safe:
  assumes "nvb_inv p" and "is_map_order ord" and "event_ok p ev"
  shows "safe (before_event ev p) (node_step ops ord ev p)"
proof (cases ev)
  case EvReady
  have "clearExecutedCommands (clearMsgs p) = p\<lparr>p_executedCmds := [], p_msgs := []\<rparr>"
    by (simp add: clearMsgs_def clearExecutedCommands_def)
  moreover have "safe (p\<lparr>p_executedCmds := []\<rparr>) (Inr (p\<lparr>p_executedCmds := [], p_msgs := []\<rparr>))"
    by (rule safeI) (use assms(1) in \<open>simp_all add: nvb_inv_def\<close>)
  ultimately show ?thesis using EvReady by (simp only: node_step_def before_event_def node_event.simps if_True simp_thms)
qed (use assms Step_safe Request_safe Tick_safe in \<open>auto simp: node_step_def event_ok_def before_event_def\<close>)

lemma before_event_fields [simp]:
  "keeps (before_event ev p) q = keeps p q" "executed_closed (before_event ev p) = executed_closed p"
  by (simp_all add: before_event_def keeps_def)

text \<open>A run of the node whose events all are as expected in the state they meet.\<close>

fun events_ok :: "'g range_ops \<Rightarrow> map_order \<Rightarrow> epaxos \<Rightarrow> node_event list \<Rightarrow> bool" where
  "events_ok ops ord p [] = True"
| "events_ok ops ord p (ev # evs) =
     (event_ok p ev \<and> (case node_step ops ord ev p of Inl _ \<Rightarrow> True | Inr p' \<Rightarrow> events_ok ops ord p' evs))"

lemma advances_executedCmds:
  assumes "advances p q"
  shows "advances (p\<lparr>p_executedCmds := xs\<rparr>) (q\<lparr>p_executedCmds := xs @ drop (length (p_executedCmds p)) (p_executedCmds q)\<rparr>)"
proof -
  have "\<exists>h. logs (p\<lparr>p_executedCmds := xs\<rparr>) (q\<lparr>p_executedCmds := xs @ drop (length (p_executedCmds p)) (p_executedCmds q)\<rparr>) h"
    if "logs p q h" for h
    using that by (intro exI [of _ h])
      (simp add: logs_def log_ordered_def is_executed_def status_at_def command_at_def dep_closure_def
        Dependencies_def ExecutesBefore_def)
  with assms show ?thesis by (auto simp: advances_def keeps_def)
qed

lemma advances_appends: "advances p q \<Longrightarrow> executed_closed p \<Longrightarrow> take (length (p_executedCmds p)) (p_executedCmds q) = p_executedCmds p"
  by (auto simp: advances_def logs_def)

lemma core_inv_closed: "nvb_inv p \<Longrightarrow> executed_closed p"
  using wf_inst_at(1) by (auto simp: nvb_inv_def core_inv_def executed_closed_def)

lemma node_run_log:
  "nvb_inv p \<Longrightarrow> is_map_order ord \<Longrightarrow> events_ok ops ord p evs \<Longrightarrow>
     \<exists>p'. node_run ops ord evs p = Inr p' \<and> nvb_inv p' \<and> keeps p p'
       \<and> advances (p\<lparr>p_executedCmds := sofar @ p_executedCmds p\<rparr>)
           (p'\<lparr>p_executedCmds := sofar @ received ops ord evs p @ p_executedCmds p'\<rparr>)"
proof (induction evs arbitrary: p sofar)
  case Nil
  then show ?case by simp
next
  case (Cons ev evs)
  let ?out = "if ev = EvReady then p_executedCmds p else []"
  from node_step_safe [OF Cons.prems (1,2), of ev ops] Cons.prems (3) obtain q where
    q: "node_step ops ord ev p = Inr q" "nvb_inv q" "advances (before_event ev p) q" by (auto simp: safe_def)
  with Cons.prems (3) have "events_ok ops ord q evs" by simp
  from Cons.IH [OF q (2) Cons.prems (2) this, of "sofar @ ?out"] obtain p' where
    p': "node_run ops ord evs q = Inr p'" "nvb_inv p'" "keeps q p'"
      "advances (q\<lparr>p_executedCmds := (sofar @ ?out) @ p_executedCmds q\<rparr>)
         (p'\<lparr>p_executedCmds := (sofar @ ?out) @ received ops ord evs q @ p_executedCmds p'\<rparr>)" by blast
  have "executed_closed (before_event ev p)" using core_inv_closed [OF Cons.prems (1)] by simp
  from advances_appends [OF q (3) this]
  have "p_executedCmds (before_event ev p) @ drop (length (p_executedCmds (before_event ev p))) (p_executedCmds q)
      = p_executedCmds q" by (metis append_take_drop_id)
  moreover have "p_executedCmds p = ?out @ p_executedCmds (before_event ev p)" by (simp add: before_event_def)
  ultimately have eq: "p_executedCmds p @ drop (length (p_executedCmds (before_event ev p))) (p_executedCmds q)
      = ?out @ p_executedCmds q" by (metis append_assoc)
  have "advances (p\<lparr>p_executedCmds := sofar @ p_executedCmds p\<rparr>)
      (q\<lparr>p_executedCmds := (sofar @ ?out) @ p_executedCmds q\<rparr>)"
    using advances_executedCmds [OF q (3), of "sofar @ p_executedCmds p"]
    unfolding append_assoc eq by (simp add: before_event_def split: if_splits)
  from advances_trans [OF this p'(4)] have
    "advances (p\<lparr>p_executedCmds := sofar @ p_executedCmds p\<rparr>)
       (p'\<lparr>p_executedCmds := sofar @ received ops ord (ev # evs) p @ p_executedCmds p'\<rparr>)"
    using q(1) by simp
  moreover have "keeps p p'" using keeps_trans [OF _ p'(3)] advances_keeps [OF q(3)] by simp
  ultimately show ?case using q(1) p'(1,2) by auto
qed

lemma node_run_safe:
  "nvb_inv p \<Longrightarrow> is_map_order ord \<Longrightarrow> events_ok ops ord p evs \<Longrightarrow>
     \<exists>p'. node_run ops ord evs p = Inr p' \<and> nvb_inv p' \<and> keeps p p'"
  using node_run_log by blast

section \<open>The invariant at start-up\<close>

text \<open>With an empty storage, the default.\<close>

lemma newEPaxos_inv:
  assumes "c_ID c \<in> set (c_Nodes c)" and "c_Storage c = None"
    and "\<And>xs. set (rord xs) = set xs"
  shows "\<exists>p. newEPaxos ord rord c = Inr p \<and> nvb_inv p \<and> p_nodes p = c_Nodes c \<and> p_id p = c_ID c"
proof -
  have "Instances (rord (remdups (c_Nodes c)))
      (PersistHardState hs (NewMemoryStorage (c_Nodes c))) = []" for hs
    using assms (3) by (auto simp: Instances_def PersistHardState_def NewMemoryStorage_def)
  moreover have "ms_hardState (NewMemoryStorage (c_Nodes c)) = None" by (simp add: NewMemoryStorage_def)
  ultimately show ?thesis
    using assms (1,2)
    by (auto simp: newEPaxos_def Config_validate_def initStorage_def nvb_inv_def core_inv_def nvb_wf_def
        status_at_def inst_at_def bt_get_def is_executed_def PersistHardState_def NewMemoryStorage_def Let_def
        dom_def split: if_splits)
qed

end
