(* ===== verification/Nvb_Props.thy ===== *)
theory Nvb_Props
  imports Nvb_Safety
begin

text \<open>
  Properties of the EPaxos core: what the dependency sort returns, what a run of the executor delivers,
  what no event of the node's loop changes, which dependencies a single-key command gets, when a reply
  keeps the fast path open, and two situations the code does not handle. \<open>list_ops\<close> is a small range
  group used to show that the hypotheses can be met.
\<close>

section \<open>A range group for the witnesses\<close>

definition range_encloses :: "Range \<Rightarrow> Range \<Rightarrow> bool" where
  "range_encloses x r \<longleftrightarrow>
     bytes_compare (rg_Start x) (rg_Start r) \<le> 0 \<and> bytes_compare (rg_End r) (rg_End x) \<le> 0"

definition range_meets :: "Range \<Rightarrow> Range \<Rightarrow> bool" where
  "range_meets x r \<longleftrightarrow>
     bytes_compare (rg_Start x) (rg_End r) < 0 \<and> bytes_compare (rg_Start r) (rg_End x) < 0"

definition list_ops :: "Range list range_ops" where
  "list_ops =
     \<lparr>rg_new = [],
      rg_Add = (\<lambda>r g. if \<exists>x \<in> set g. range_encloses x r then (False, g) else (True, r # g)),
      rg_Len = (\<lambda>g. int (length g)),
      rg_Encloses = (\<lambda>r g. \<exists>x \<in> set g. range_encloses x r),
      rg_Overlaps = (\<lambda>r g. \<exists>x \<in> set g. range_meets x r)\<rparr>"

definition key_command :: "u64 \<Rightarrow> bytes \<Rightarrow> bool \<Rightarrow> NCommand" where
  "key_command i k w = \<lparr>nc_ID = i, nc_Span = \<lparr>sp_Key = k, sp_EndKey = []\<rparr>, nc_Writing = w, nc_Data = []\<rparr>"

definition three_nodes :: Config where
  "three_nodes = \<lparr>c_ID = 1, c_Nodes = [1, 2, 3], c_Storage = None\<rparr>"

definition from_to :: "InstanceID \<Rightarrow> ReplicaID \<Rightarrow> MsgType \<Rightarrow> Message" where
  "from_to d to t = (WrapMessage t)\<lparr>m_To := to, m_InstanceID := d\<rparr>"

text \<open>One write proposed at replica 1 and acknowledged by one peer, then a commit of replica 2.\<close>

definition sample_events :: "node_event list" where
  "sample_events =
     [EvPropose (key_command 1 [7] True),
      EvStep (from_to (IID 1 1) 1 MPreAcceptOK)]"

definition sample_more :: "node_event list" where
  "sample_more =
     [EvReady, EvTick,
      EvStep (from_to (IID 2 1) 1
        (MCommit \<lparr>id_Command = Some (key_command 2 [7] True), id_SeqNum = 2, id_Deps = [IID 1 1]\<rparr>))]"

section \<open>Runs of the node\<close>

lemma node_run_append:
  "node_run ops ord (evs @ evs') p = bind_p (node_run ops ord evs p) (node_run ops ord evs')"
  by (induction evs arbitrary: p) (auto simp: bind_p_def split: sum.splits)

lemma events_ok_append:
  "events_ok ops ord p (evs @ evs') \<Longrightarrow>
     events_ok ops ord p evs \<and> (\<forall>q. node_run ops ord evs p = Inr q \<longrightarrow> events_ok ops ord q evs')"
  by (induction evs arbitrary: p) (auto simp: bind_p_def split: sum.splits)

lemma start_inv:
  assumes "newEPaxos ord rord c = Inr p" and "c_Storage c = None" and "\<And>xs. set (rord xs) = set xs"
  shows "nvb_inv p"
proof -
  have "c_ID c \<in> set (c_Nodes c)"
    using assms (1) by (auto simp: newEPaxos_def Config_validate_def split: if_splits)
  from newEPaxos_inv [OF this assms (2,3), of ord] assms (1) show ?thesis by auto
qed

text \<open>What the application received along a run, as a list of instances.\<close>

definition execution_log :: "NCommand list \<Rightarrow> epaxos \<Rightarrow> InstanceID list \<Rightarrow> bool" where
  "execution_log cmds p h \<longleftrightarrow>
     cmds = map (\<lambda>d. the (command_at p d)) h \<and> distinct h \<and> set h = {d. status_at p d = Some Executed}
     \<and> (\<forall>x y. before h x y \<longrightarrow> y \<in> dep_closure p x \<longrightarrow> x \<in> dep_closure p y \<and> \<not> ExecutesBefore p y x)"

lemma start_executed:
  assumes "newEPaxos ord rord c = Inr p" and "c_Storage c = None" and "\<And>xs. set (rord xs) = set xs"
  shows "p_executedCmds p = [] \<and> \<not> is_executed p d"
proof -
  have "Instances (rord (remdups (c_Nodes c)))
      (PersistHardState hs (NewMemoryStorage (c_Nodes c))) = []" for hs
    using assms (3) by (auto simp: Instances_def PersistHardState_def NewMemoryStorage_def)
  then show ?thesis
    using assms (1,2)
    by (auto simp: newEPaxos_def Config_validate_def initStorage_def is_executed_def status_at_def
        inst_at_def bt_get_def NewMemoryStorage_def Let_def split: if_splits option.splits)
qed

lemma run_log_exists:
  assumes "newEPaxos ord rord c = Inr p0" and "c_Storage c = None" and "\<forall>xs. set (rord xs) = set xs"
    and "is_map_order ord" and "events_ok ops ord p0 evs" and "node_run ops ord evs p0 = Inr p"
  shows "\<exists>h. execution_log (received ops ord evs p0 @ p_executedCmds p) p h"
proof -
  have inv: "nvb_inv p0" using start_inv [OF assms (1,2)] assms (3) by blast
  have none: "p_executedCmds p0 = []" "\<not> is_executed p0 d" for d
    using start_executed [OF assms (1,2)] assms (3) by blast+
  let ?q = "p\<lparr>p_executedCmds := received ops ord evs p0 @ p_executedCmds p\<rparr>"
  have "p0\<lparr>p_executedCmds := []\<rparr> = p0" using none (1) by simp
  with node_run_log [OF inv assms (4,5), of "[]"] assms (6) have "advances p0 ?q" by (simp add: none)
  then obtain h where l: "logs p0 ?q h" using core_inv_closed [OF inv] by (auto simp: advances_def)
  have eq: "is_executed ?q d = is_executed p d" "command_at ?q d = command_at p d"
    "dep_closure ?q d = dep_closure p d" "ExecutesBefore ?q d e = ExecutesBefore p d e" for d e
    by (simp_all add: is_executed_def status_at_def command_at_def dep_closure_def Dependencies_def
        ExecutesBefore_def)
  from l have "execution_log (received ops ord evs p0 @ p_executedCmds p) p h"
    using sorted_wrt_before [of _ h] none
    unfolding logs_def execution_log_def log_ordered_def eq by (auto simp: is_executed_def)
  then show ?thesis ..
qed


definition sample_start :: epaxos where
  "sample_start = projr (newEPaxos id id three_nodes)"

lemma sample_start: "newEPaxos id id three_nodes = Inr sample_start"
proof -
  have "\<not> isl (newEPaxos id id three_nodes)" by code_simp
  then show ?thesis by (simp add: sample_start_def)
qed

lemma id_map_order: "is_map_order id" "\<forall>xs. set (id xs) = set xs" "c_Storage three_nodes = None"
  by (simp_all add: is_map_order_def three_nodes_def)

lemma sample_events_ok: "events_ok list_ops id sample_start (sample_events @ sample_more)"
  by code_simp

lemma sample_status: "status_at (projr (node_run list_ops id sample_events sample_start)) (IID 1 1) = Some Executed"
  by code_simp


text \<open>C5: The commands the application receives along such a run, with those of the last \<open>Ready\<close> still to
  come, are the commands of exactly the executed instances, each once, in an order in which an
  instance comes before one it depends on (through any number of steps) only when the two depend on each
  other, and then sequence numbers and replicas decide.\<close>

theorem application_receives_dependency_order:
  assumes "newEPaxos ord rord c = Inr p0" and "c_Storage c = None" and "\<forall>xs. set (rord xs) = set xs"
    and "is_map_order ord" and "events_ok ops ord p0 evs" and "node_run ops ord evs p0 = Inr p"
  shows "\<exists>h. received ops ord evs p0 @ p_executedCmds p = map (\<lambda>d. the (command_at p d)) h
    \<and> distinct h \<and> set h = {d. status_at p d = Some Executed}
    \<and> (\<forall>x y. before h x y \<longrightarrow> y \<in> dep_closure p x \<longrightarrow> x \<in> dep_closure p y \<and> \<not> ExecutesBefore p y x)"
  using run_log_exists [OF assms] by (simp add: execution_log_def)

text \<open>C6: In every state such a run reaches, an executed instance has only executed dependencies,
  and the instances waiting in the executor are exactly the committed ones not yet executed.\<close>

theorem executed_closed_under_dependencies:
  assumes "newEPaxos ord rord c = Inr p0" and "c_Storage c = None" and "\<forall>xs. set (rord xs) = set xs"
    and "is_map_order ord" and "events_ok ops ord p0 evs" and "node_run ops ord evs p0 = Inr p"
  shows "(status_at p d = Some Executed \<longrightarrow>
            (\<forall>e \<in> set (Dependencies p d). status_at p e = Some Executed))
    \<and> (d \<in> set (p_vertices p) \<longleftrightarrow> status_at p d = Some Committed)"
proof -
  have inv: "nvb_inv p0" using start_inv [OF assms (1,2)] assms (3) by blast
  from node_run_safe [OF inv assms (4,5)] assms (6) have "nvb_inv p" by auto
  then show ?thesis by (auto simp: nvb_inv_def core_inv_def is_executed_def)
qed

theorem executed_closed_under_dependencies_witness:
  "\<exists>p. node_run list_ops id (sample_events @ sample_more) sample_start = Inr p
     \<and> (\<forall>e \<in> set (Dependencies p (IID 1 1)). status_at p e = Some Executed)"
proof -
  have "\<not> isl (node_run list_ops id (sample_events @ sample_more) sample_start)" by code_simp
  then obtain p where p: "node_run list_ops id (sample_events @ sample_more) sample_start = Inr p"
    by (cases "node_run list_ops id (sample_events @ sample_more) sample_start") auto
  have "status_at (projr (node_run list_ops id (sample_events @ sample_more) sample_start)) (IID 1 1)
      = Some Executed" by code_simp
  with p have "status_at p (IID 1 1) = Some Executed" by simp
  with executed_closed_under_dependencies [OF sample_start id_map_order (3,2,1) sample_events_ok p, of "IID 1 1"]
    p show ?thesis by blast
qed

theorem application_receives_dependency_order_witness:
  "\<exists>p h. node_run list_ops id (sample_events @ sample_more) sample_start = Inr p
     \<and> received list_ops id (sample_events @ sample_more) sample_start @ p_executedCmds p
       = map (\<lambda>d. the (command_at p d)) h \<and> IID 1 1 \<in> set h"
proof -
  have "\<not> isl (node_run list_ops id (sample_events @ sample_more) sample_start)" by code_simp
  then obtain p where p: "node_run list_ops id (sample_events @ sample_more) sample_start = Inr p"
    by (cases "node_run list_ops id (sample_events @ sample_more) sample_start") auto
  have "status_at (projr (node_run list_ops id (sample_events @ sample_more) sample_start)) (IID 1 1)
      = Some Executed" by code_simp
  with p have "status_at p (IID 1 1) = Some Executed" by simp
  with application_receives_dependency_order [OF sample_start id_map_order (3,2,1) sample_events_ok p] p
  show ?thesis by blast
qed

section \<open>The executor\<close>

text \<open>C7: The dependency sort always returns, each vertex is in exactly one component, two vertices
  share a component exactly when each reaches the other through dependencies, and a component
  depends only on itself and on components before it.\<close>

theorem strongConnect_components:
  assumes "\<forall>v \<in> set order. set (g v) \<subseteq> set order"
  shows "\<exists>cs. strongConnect g order = Some cs \<and> distinct (concat cs) \<and> set (concat cs) = set order
    \<and> (\<forall>pre c post u w. cs = pre @ c # post \<longrightarrow> u \<in> set c \<longrightarrow>
         (w \<in> set c \<longleftrightarrow> (u, w) \<in> {(a, b). b \<in> set (g a)}\<^sup>* \<and> (w, u) \<in> {(a, b). b \<in> set (g a)}\<^sup>*)
         \<and> set (g u) \<subseteq> set (concat pre) \<union> set c)"
proof -
  from strongConnect_correct [OF assms] obtain cs where
    cs: "strongConnect g order = Some cs" "comps_ok g cs" "distinct (concat cs)" "set (concat cs) = set order"
    by blast
  have "(w \<in> set c \<longleftrightarrow> (u, w) \<in> reach g \<and> (w, u) \<in> reach g) \<and> set (g u) \<subseteq> set (concat pre) \<union> set c"
    if "cs = pre @ c # post" "u \<in> set c" for pre c post u w
    using comps_ok_member [of g pre c post] comps_ok_scc [of g pre c post u w] cs (2,3) that by blast
  with cs show ?thesis unfolding reach_def by blast
qed

theorem strongConnect_components_witness:
  "\<exists>cs. strongConnect (\<lambda>v. if v = (1::nat) then [2] else if v = 2 then [1, 3] else []) [1, 2, 3] = Some cs
     \<and> distinct (concat cs) \<and> set (concat cs) = {1, 2, 3}"
  using strongConnect_components [of "[1, 2, 3]" "\<lambda>v. if v = (1::nat) then [2] else if v = 2 then [1, 3] else []"]
  by auto

text \<open>A run of the executor delivers the commands of whole batches: what an instance depends on
  is in its own batch, in an earlier batch or was executed before the run; within a batch every
  instance reaches every other through dependencies, and they come in the order of sequence number,
  then replica.\<close>

theorem executor_delivers_in_dependency_order:
  assumes "nvb_inv p" and "is_map_order ord"
  shows "\<exists>p' bs. executor_run ord p = Inr p'
    \<and> p_executedCmds p' = p_executedCmds p @ map (\<lambda>v. the (command_at p v)) (concat bs)
    \<and> distinct (concat bs) \<and> (\<forall>v. status_at p' v = Some Executed \<longleftrightarrow> v \<in> set (concat bs) \<or> status_at p v = Some Executed)
    \<and> (\<forall>pre b post v e. bs = pre @ b # post \<longrightarrow> v \<in> set b \<longrightarrow> e \<in> set (Dependencies p v) \<longrightarrow>
         e \<in> set b \<or> e \<in> set (concat pre) \<or> status_at p e = Some Executed)
    \<and> (\<forall>b \<in> set bs. sorted_wrt (\<lambda>x y. \<not> ExecutesBefore p y x) b
         \<and> (\<forall>x \<in> set b. \<forall>y \<in> set b. y \<in> dep_closure p x))"
proof -
  have pre: "exec_pre p" using assms (1) core_inv_exec_pre by (simp add: nvb_inv_def)
  from executor_run_ok [OF pre assms (2)] obtain cs p' where
    cs: "comps_ok (depNodes p) cs" "distinct (concat cs)" "set (concat cs) = set (p_vertices p)" and
    run: "executor_run ord p = Inr p'" and ex: "executed (concat (batches p [] cs)) p p'" by blast
  let ?bs = "batches p [] cs"
  have sub: "set (concat ?bs) \<subseteq> set (p_vertices p)" using set_batches [of p "[]" cs] cs (3) by blast
  note dist = distinct_batches [of _ p]
  have order: "sorted_wrt (\<lambda>x y. \<not> ExecutesBefore p y x) b \<and> (\<forall>x \<in> set b. \<forall>y \<in> set b. y \<in> dep_closure p x)"
    if b: "b \<in> set ?bs" for b
  proof -
    from batches_from_component [OF b] obtain c where c: "c \<in> set cs" "b = sort_by (ExecutesBefore p) c" by blast
    from split_list [OF c (1)] obtain pr po where "cs = pr @ c # po" by blast
    with comps_ok_member (3) [of "depNodes p" pr c po] cs (1) have "\<forall>x \<in> set c. \<forall>y \<in> set c. (x, y) \<in> reach (depNodes p)"
      by blast
    moreover have "\<forall>v \<in> set c. inst_at p v \<noteq> None"
      using c (1) cs (3) pre by (fastforce simp: exec_pre_def runnable_def status_at_def)
    ultimately show ?thesis
      using sort_by_ExecutesBefore c (2) dep_closure_reach by auto
  qed
  have st: "status_at p' v = Some Executed \<longleftrightarrow> v \<in> set (concat ?bs) \<or> status_at p v = Some Executed" for v
    using is_executed_after [OF pre ex sub] by (simp add: is_executed_def)
  have cmds: "p_executedCmds p' = p_executedCmds p @ map (\<lambda>v. the (command_at p v)) (concat ?bs)"
    using ex by (simp add: executed_def)
  have closed: "e \<in> set b \<or> e \<in> set (concat pr) \<or> status_at p e = Some Executed"
    if "?bs = pr @ b # po" "v \<in> set b" "e \<in> set (Dependencies p v)" for pr b po v e
    using batches_closed [OF that] by (auto simp: is_executed_def)
  show ?thesis
    by (intro exI [of _ p'] exI [of _ ?bs] conjI allI impI ballI)
      (use run cmds dist [OF cs (2)] st closed order in blast)+
qed

text \<open>A state with two committed instances that depend on each other.\<close>

lemma core_inv_vertices:
  "core_inv X Y p \<Longrightarrow> p_vertices p = [] \<Longrightarrow> distinct vs \<Longrightarrow> set vs = X \<Longrightarrow>
     core_inv {} Y (p\<lparr>p_vertices := vs\<rparr>)"
  unfolding core_inv_def
  by (simp add: status_at_def inst_ok_def is_executed_def Dependencies_def)

lemma sample_start_fields:
  "p_nodes sample_start = [1, 2, 3]" "p_timers sample_start = []" "p_vertices sample_start = []"
  by code_simp+

lemma sample_start_inv: "nvb_inv sample_start"
  using start_inv [OF sample_start] id_map_order by blast

lemma sample_start_empty: "inst_at sample_start d = None"
proof -
  have "p_commands sample_start = (\<lambda>r. if r \<in> {1, 2, 3} then Some [] else None)"
    by (simp add: sample_start_def newEPaxos_def Config_validate_def initStorage_def three_nodes_def
          NewMemoryStorage_def PersistHardState_def Instances_def Let_def)
  then show ?thesis by (simp add: inst_at_def bt_get_def)
qed

definition waiting_inst :: "InstanceID \<Rightarrow> u64 \<Rightarrow> SeqNum \<Rightarrow> InstanceID list \<Rightarrow> Instance" where
  "waiting_inst d c seq deps =
     newInstanceFromState \<lparr>is_ID = d, is_Status = Committed,
       is_Data = \<lparr>id_Command = Some (key_command c [7] True), id_SeqNum = seq, id_Deps = deps\<rparr>\<rparr>"

definition waiting :: epaxos where
  "waiting =
     (setInstance (waiting_inst (IID 1 1) 1 2 [IID 2 1])
        (setInstance (waiting_inst (IID 2 1) 2 1 [IID 1 1]) sample_start))
     \<lparr>p_vertices := [IID 1 1, IID 2 1]\<rparr>"

lemma waiting_inst_fields [simp]:
  "in_ID (waiting_inst d c seq deps) = d" "in_Status (waiting_inst d c seq deps) = Committed"
  "in_Command (waiting_inst d c seq deps) = Some (key_command c [7] True)"
  "in_Deps (waiting_inst d c seq deps) = deps"
  by (simp_all add: waiting_inst_def newInstanceFromState_def)

lemma waiting_inv: "nvb_inv waiting"
proof -
  note start = sample_start_inv and nodes = sample_start_fields and empty = sample_start_empty
  have c0: "core_inv {} {} sample_start" using start by (simp add: nvb_inv_def)
  have c1: "core_inv {IID 2 1} {} (setInstance (waiting_inst (IID 2 1) 2 1 [IID 1 1]) sample_start)"
    by (rule core_inv_setInstance [OF c0]) (use empty nodes in \<open>auto simp: status_at_def inst_ok_def\<close>)
  have c2: "core_inv {IID 1 1, IID 2 1} {} (setInstance (waiting_inst (IID 1 1) 1 2 [IID 2 1])
      (setInstance (waiting_inst (IID 2 1) 2 1 [IID 1 1]) sample_start))"
    by (rule core_inv_setInstance [OF c1])
      (use empty nodes inv_wf [OF start] in \<open>auto simp: status_at_def inst_ok_def wf_inst_at_setInstance\<close>)
  show ?thesis
    unfolding waiting_def nvb_inv_def by (rule core_inv_vertices [OF c2]) (simp_all add: nodes)
qed

lemma waiting_inst_at:
  "inst_at waiting d = (if d = IID 1 1 then Some (waiting_inst d 1 2 [IID 2 1])
     else if d = IID 2 1 then Some (waiting_inst d 2 1 [IID 1 1]) else None)"
  using inv_wf [OF sample_start_inv]
  by (simp add: waiting_def wf_inst_at_setInstance wf_setInstance sample_start_fields sample_start_empty)

theorem executor_delivers_in_dependency_order_witness:
  "\<exists>p' bs. executor_run id waiting = Inr p' \<and> distinct (concat bs)
     \<and> p_executedCmds p' = p_executedCmds waiting @ map (\<lambda>v. the (command_at waiting v)) (concat bs)"
  using executor_delivers_in_dependency_order [OF waiting_inv id_map_order (1)] by blast

text \<open>C8: No committed instance waits needlessly: after a run of the executor, an instance whose
  dependencies, and theirs in turn, had all been committed or executed is executed.\<close>

theorem executor_leaves_nothing_ready:
  assumes "nvb_inv p" and "is_map_order ord" and "status_at p v = Some Committed"
    and "\<forall>e \<in> dep_closure p v. status_at p e \<in> {Some Committed, Some Executed}"
  shows "\<exists>p'. executor_run ord p = Inr p' \<and> status_at p' v = Some Executed"
proof -
  have pre: "exec_pre p" using assms (1) core_inv_exec_pre by (simp add: nvb_inv_def)
  have com: "status_at p d = Some Committed \<longleftrightarrow> d \<in> set (p_vertices p)" for d
    using assms (1) by (auto simp: nvb_inv_def core_inv_def)
  from executor_run_ok [OF pre assms (2)] obtain cs p' where
    cs: "comps_ok (depNodes p) cs" "set (concat cs) = set (p_vertices p)" and
    run: "executor_run ord p = Inr p'" and ex: "executed (concat (batches p [] cs)) p p'" by blast
  have "settled p v" using assms (4) com by (auto simp: settled_def is_executed_def)
  moreover have "v \<in> set (concat cs)" using assms (3) com cs (2) by blast
  ultimately have "v \<in> set (concat (batches p [] cs))" using batches_complete [OF cs (1)] by blast
  then have "status_at p' v = Some Executed"
    using executed_status_at [OF ex, of v] assms (3) by simp
  with run show ?thesis by blast
qed


theorem executor_leaves_nothing_ready_witness:
  "\<exists>p'. executor_run id waiting = Inr p' \<and> status_at p' (IID 1 1) = Some Executed"
proof (rule executor_leaves_nothing_ready [OF waiting_inv id_map_order (1)])
  show "status_at waiting (IID 1 1) = Some Committed" by code_simp
  have dep: "Dependencies waiting (IID 1 1) = [IID 2 1]" "Dependencies waiting (IID 2 1) = [IID 1 1]"
    by code_simp+
  have "e \<in> {IID 1 1, IID 2 1}" if "(IID 1 1, e) \<in> {(a, b). b \<in> set (Dependencies waiting a)}\<^sup>*" for e
    using that by (induction rule: rtrancl_induct) (auto simp: dep)
  moreover have "status_at waiting (IID 2 1) = Some Committed" by code_simp
  ultimately show "\<forall>e \<in> dep_closure waiting (IID 1 1). status_at waiting e \<in> {Some Committed, Some Executed}"
    using \<open>status_at waiting (IID 1 1) = Some Committed\<close> by (auto simp: dep_closure_def)
qed


section \<open>Dependencies of single-key commands\<close>

text \<open>What is used of the range group: a new group overlaps nothing, and adding a range to it grows it
  to one range that encloses the added one.\<close>

definition range_laws :: "'g range_ops \<Rightarrow> bool" where
  "range_laws ops \<longleftrightarrow>
     (\<forall>r. \<not> rg_Overlaps ops r (rg_new ops))
     \<and> (\<forall>r. bytes_compare (rg_Start r) (rg_End r) < 0 \<longrightarrow>
          fst (rg_Add ops r (rg_new ops)) \<and> rg_Len ops (snd (rg_Add ops r (rg_new ops))) = 1
          \<and> rg_Encloses ops r (snd (rg_Add ops r (rg_new ops))))"

definition point_command :: "NCommand \<Rightarrow> bool" where
  "point_command c \<longleftrightarrow> sp_EndKey (nc_Span c) = []"

text \<open>An instance the command must be ordered with.\<close>

definition interfering :: "NCommand \<Rightarrow> InstanceID \<Rightarrow> Instance \<Rightarrow> bool" where
  "interfering cmd ign i \<longleftrightarrow>
     in_ID i \<noteq> ign \<and> (\<exists>c. in_Command i = Some c \<and> Interferes c cmd)"

definition writing :: "Instance \<Rightarrow> bool" where
  "writing i \<longleftrightarrow> (\<exists>c. in_Command i = Some c \<and> nc_Writing c)"

text \<open>Not behind a later write it interferes with in the same list.\<close>

definition uncovered :: "NCommand \<Rightarrow> InstanceID \<Rightarrow> Instance list \<Rightarrow> Instance \<Rightarrow> bool" where
  "uncovered cmd ign xs i \<longleftrightarrow>
     i \<in> set xs \<and> interfering cmd ign i
     \<and> \<not> (\<exists>j \<in> set xs. in_num i < in_num j \<and> interfering cmd ign j \<and> writing j)"

lemma point_range: "point_command c \<Longrightarrow> bytes_compare (rg_Start (rangeForCmd c)) (rg_End (rangeForCmd c)) < 0"
  using bytes_compare_append_0 [of "sp_Key (nc_Span c)" "sp_Key (nc_Span c) @ [0]"]
  by (simp add: rangeForCmd_def point_command_def Let_def)

lemma point_same_range:
  "point_command c \<Longrightarrow> point_command d \<Longrightarrow> Interferes c d \<Longrightarrow> rangeForCmd c = rangeForCmd d"
  by (auto simp: Interferes_def point_command_def point_Overlaps rangeForCmd_def)

lemma uncovered_Cons:
  assumes "\<forall>y \<in> set xs. in_num y < in_num x"
  shows "uncovered cmd ign (x # xs) i \<longleftrightarrow>
     (if interfering cmd ign x \<and> writing x then i = x
      else uncovered cmd ign xs i \<or> i = x \<and> interfering cmd ign x)"
  using assms by (auto simp: uncovered_def dest: order_less_asym)

lemma descend_point:
  assumes laws: "range_laws ops" and cmd: "point_command cmd"
  shows "sorted_wrt (\<lambda>a b. in_num b < in_num a) xs \<Longrightarrow>
    \<forall>i \<in> set xs. in_ID i \<noteq> ign \<longrightarrow> (\<exists>c. in_Command i = Some c \<and> point_command c) \<Longrightarrow>
    \<exists>s ds. descend_deps ops cmd ign rID xs (rg_new ops) m deps = Inr (s, ds)
      \<and> set ds = set deps \<union> {IID rID (in_num i) |i. uncovered cmd ign xs i}
      \<and> m \<le> s \<and> (\<forall>i. uncovered cmd ign xs i \<longrightarrow> in_SeqNum i \<le> s)"
proof (induction xs arbitrary: m deps)
  case Nil
  then show ?case by (simp add: uncovered_def)
next
  case (Cons x xs)
  have lt: "\<forall>y \<in> set xs. in_num y < in_num x" using Cons.prems (1) by simp
  note unc = uncovered_Cons [OF lt, of cmd ign]
  have IH: "\<exists>s ds. descend_deps ops cmd ign rID xs (rg_new ops) m' deps' = Inr (s, ds)
      \<and> set ds = set deps' \<union> {IID rID (in_num i) |i. uncovered cmd ign xs i}
      \<and> m' \<le> s \<and> (\<forall>i. uncovered cmd ign xs i \<longrightarrow> in_SeqNum i \<le> s)" for m' deps'
    using Cons.IH [of m' deps'] Cons.prems by simp
  show ?case
  proof (cases "interfering cmd ign x")
    case False
    then have "descend_deps ops cmd ign rID (x # xs) (rg_new ops) m deps
        = descend_deps ops cmd ign rID xs (rg_new ops) m deps"
      using Cons.prems (2) by (auto simp: interfering_def)
    with IH [of m deps] False show ?thesis by (simp add: unc)
  next
    case True
    then obtain c where c: "in_ID x \<noteq> ign" "in_Command x = Some c" "Interferes c cmd" "point_command c"
      using Cons.prems (2) by (auto simp: interfering_def)
    let ?m = "MaxSeqNum m (in_SeqNum x)" and ?deps = "IID rID (in_num x) # deps"
    have m: "m \<le> ?m" "in_SeqNum x \<le> ?m" by (simp_all add: MaxSeqNum_max)
    note rng = point_same_range [OF c (4) cmd c (3)]
    show ?thesis
    proof (cases "nc_Writing c")
      case w: True
      obtain g where g: "rg_Add ops (rangeForCmd cmd) (rg_new ops) = (True, g)" "rg_Len ops g = 1"
          "rg_Encloses ops (rangeForCmd cmd) g"
        using laws point_range [OF cmd] unfolding range_laws_def by (metis prod.collapse)
      have "descend_deps ops cmd ign rID (x # xs) (rg_new ops) m deps = Inr (?m, ?deps)"
        using c w g by (simp add: rng Let_def)
      with True w c (2) m show ?thesis by (auto simp: unc writing_def)
    next
      case r: False
      have "descend_deps ops cmd ign rID (x # xs) (rg_new ops) m deps
          = descend_deps ops cmd ign rID xs (rg_new ops) ?m ?deps"
        using c r laws by (simp add: range_laws_def Let_def)
      with IH [of ?m ?deps] True r c (2) m show ?thesis
        by (auto simp: unc writing_def intro: order_trans)
    qed
  qed
qed

lemma replicas_point:
  assumes laws: "range_laws ops" and cmd: "point_command cmd" and wf: "nvb_wf p"
    and pts: "\<forall>d i. inst_at p d = Some i \<longrightarrow> d \<noteq> ign \<longrightarrow> (\<exists>c. in_Command i = Some c \<and> point_command c)"
  shows "\<exists>s ds. replicas_deps ops p cmd ign rs m deps = Inr (s, ds)
      \<and> set ds = set deps \<union> {d. \<exists>i t. iid_rep d \<in> set rs \<and> p_commands p (iid_rep d) = Some t
                                     \<and> uncovered cmd ign t i \<and> iid_num d = in_num i}
      \<and> m \<le> s \<and> (\<forall>r \<in> set rs. \<forall>t i. p_commands p r = Some t \<longrightarrow> uncovered cmd ign t i \<longrightarrow> in_SeqNum i \<le> s)"
proof (induction rs arbitrary: m deps)
  case Nil
  then show ?case by simp
next
  case (Cons r rs)
  let ?t = "case p_commands p r of None \<Rightarrow> [] | Some t \<Rightarrow> t"
  have s: "sorted_wrt (\<lambda>a b. in_num b < in_num a) (rev ?t)"
    using wf by (auto simp: nvb_wf_def sorted_wrt_rev split: option.split)
  have "\<forall>i \<in> set (rev ?t). in_ID i \<noteq> ign \<longrightarrow> (\<exists>c. in_Command i = Some c \<and> point_command c)"
  proof (intro ballI impI)
    fix i assume i: "i \<in> set (rev ?t)" and ne: "in_ID i \<noteq> ign"
    from i obtain t where "p_commands p r = Some t" "i \<in> set t" by (cases "p_commands p r") auto
    from wf_tree_inst_at (1) [OF wf this] pts ne
    show "\<exists>c. in_Command i = Some c \<and> point_command c" by blast
  qed
  from descend_point [OF laws cmd s this, of r m deps] obtain s1 d1 where
    1: "descend_deps ops cmd ign r (rev ?t) (rg_new ops) m deps = Inr (s1, d1)"
      "set d1 = set deps \<union> {IID r (in_num i) |i. uncovered cmd ign (rev ?t) i}" "m \<le> s1"
      "\<forall>i. uncovered cmd ign (rev ?t) i \<longrightarrow> in_SeqNum i \<le> s1" by blast
  from Cons.IH [of s1 d1] obtain s2 d2 where
    2: "replicas_deps ops p cmd ign rs s1 d1 = Inr (s2, d2)"
      "set d2 = set d1 \<union> {d. \<exists>i t. iid_rep d \<in> set rs \<and> p_commands p (iid_rep d) = Some t
                                     \<and> uncovered cmd ign t i \<and> iid_num d = in_num i}"
      "s1 \<le> s2" "\<forall>r \<in> set rs. \<forall>t i. p_commands p r = Some t \<longrightarrow> uncovered cmd ign t i \<longrightarrow> in_SeqNum i \<le> s2"
    by blast
  have rv: "uncovered cmd ign (rev xs) i = uncovered cmd ign xs i" for xs i by (simp add: uncovered_def)
  have nil: "\<not> uncovered cmd ign [] i" for i by (simp add: uncovered_def)
  have part: "{IID r (in_num i) |i. uncovered cmd ign ?t i} =
      {d. iid_rep d = r \<and> (\<exists>t i. p_commands p r = Some t \<and> uncovered cmd ign t i \<and> iid_num d = in_num i)}"
  proof (cases "p_commands p r")
    case None
    then show ?thesis by (simp add: nil)
  next
    case (Some t)
    have "d \<in> {IID r (in_num i) |i. uncovered cmd ign t i} \<longleftrightarrow>
        iid_rep d = r \<and> (\<exists>i. uncovered cmd ign t i \<and> iid_num d = in_num i)" for d
      by (cases d) auto
    with Some show ?thesis by auto
  qed
  have "set d2 = set deps \<union> {d. \<exists>i t. iid_rep d \<in> set (r # rs) \<and> p_commands p (iid_rep d) = Some t
                                     \<and> uncovered cmd ign t i \<and> iid_num d = in_num i}"
    unfolding 2 (2) 1 (2) rv part by auto
  moreover have "replicas_deps ops p cmd ign (r # rs) m deps = Inr (s2, d2)" using 1 (1) 2 (1) by simp
  moreover have "in_SeqNum i \<le> s2" if "q \<in> set (r # rs)" "p_commands p q = Some t" "uncovered cmd ign t i" for q t i
    using that 1 (4) 2 (3,4) by (auto simp: rv intro: order_trans)
  ultimately show ?case using order_trans [OF 1 (3) 2 (3)] by blast
qed


text \<open>What the lists of a replica hold, read through \<open>inst_at\<close>.\<close>

lemma tree_inst_at:
  assumes "nvb_wf p" and "p_commands p q = Some t"
  shows "i \<in> set t \<longleftrightarrow> inst_at p (IID q (in_num i)) = Some i"
  using assms wf_tree_inst_at [OF assms, of i] bt_get_Some [of in_num "in_num i" t i]
  by (cases "in_ID i") (auto simp: inst_at_def)

lemma tree_ex:
  assumes wf: "nvb_wf p" and q: "p_commands p q = Some t"
  shows "(\<exists>j \<in> set t. P (in_num j) j) \<longleftrightarrow> (\<exists>e j. inst_at p e = Some j \<and> iid_rep e = q \<and> P (iid_num e) j)"
    (is "?l \<longleftrightarrow> ?r")
proof
  assume ?l
  then obtain j where "j \<in> set t" "P (in_num j) j" by blast
  with tree_inst_at [OF assms, of j] show ?r by (intro exI [of _ "IID q (in_num j)"] exI [of _ j]) simp
next
  assume ?r
  then obtain e j where j: "inst_at p e = Some j" "iid_rep e = q" "P (iid_num e) j" by blast
  with wf_inst_at (1) [OF wf j (1)] tree_inst_at [OF assms, of j] show ?l
    by (intro bexI [of _ j]) (cases e, auto)+
qed

definition unhidden :: "epaxos \<Rightarrow> NCommand \<Rightarrow> InstanceID \<Rightarrow> InstanceID \<Rightarrow> Instance \<Rightarrow> bool" where
  "unhidden p cmd ign d i \<longleftrightarrow> inst_at p d = Some i \<and> interfering cmd ign i
     \<and> \<not> (\<exists>e j. inst_at p e = Some j \<and> iid_rep e = iid_rep d \<and> iid_num d < iid_num e
            \<and> interfering cmd ign j \<and> writing j)"

lemma uncovered_unhidden:
  assumes "nvb_wf p" and "p_commands p (iid_rep d) = Some t" and "iid_num d = in_num i"
  shows "uncovered cmd ign t i \<longleftrightarrow> unhidden p cmd ign d i"
proof -
  have "IID (iid_rep d) (in_num i) = d" using assms (3) by (cases d) simp
  then show ?thesis
    using tree_inst_at [OF assms (1,2), of i]
      tree_ex [OF assms (1,2), of "\<lambda>k j. in_num i < k \<and> interfering cmd ign j \<and> writing j"] assms (3)
    unfolding uncovered_def unhidden_def by auto
qed

text \<open>C9: The dependencies computed for a command on one key are exactly the interfering instances that
  are not behind a later interfering write of the same replica's sequence, and the sequence number
  computed is at least that of every dependency. So every interfering instance is a dependency or
  precedes, in its replica's sequence, an interfering write that is one.\<close>

theorem point_command_dependencies:
  assumes "range_laws ops" and "point_command cmd" and "nvb_wf p"
    and "\<forall>d i. inst_at p d = Some i \<longrightarrow> d \<noteq> ign \<longrightarrow> (\<exists>c. in_Command i = Some c \<and> point_command c)"
  shows "\<exists>s ds. seqAndDepsForCommand ops p (Some cmd) ign = Inr (s, ds)
    \<and> set ds = {d. \<exists>i. inst_at p d = Some i \<and> interfering cmd ign i
         \<and> \<not> (\<exists>e j. inst_at p e = Some j \<and> iid_rep e = iid_rep d \<and> iid_num d < iid_num e
                  \<and> interfering cmd ign j \<and> writing j)}
    \<and> (\<forall>d \<in> set ds. \<forall>i. inst_at p d = Some i \<longrightarrow> in_SeqNum i \<le> s)"
proof -
  note wf = assms (3)
  from replicas_point [OF assms, of "remdups (p_nodes p)" 0 "[]"] obtain s ds where
    r: "replicas_deps ops p cmd ign (remdups (p_nodes p)) 0 [] = Inr (s, ds)"
      "set ds = {d. \<exists>i t. iid_rep d \<in> set (p_nodes p) \<and> p_commands p (iid_rep d) = Some t
                         \<and> uncovered cmd ign t i \<and> iid_num d = in_num i}"
      "\<forall>r \<in> set (p_nodes p). \<forall>t i. p_commands p r = Some t \<longrightarrow> uncovered cmd ign t i \<longrightarrow> in_SeqNum i \<le> s"
    by auto
  have known: "iid_rep d \<in> set (p_nodes p)" "\<exists>t. p_commands p (iid_rep d) = Some t" "iid_num d = in_num i"
    if "unhidden p cmd ign d i" for d i
    using wf_inst_at [OF wf, of d i] that by (auto simp: unhidden_def inst_at_def split: option.splits)
  have "d \<in> set ds \<longleftrightarrow> (\<exists>i. unhidden p cmd ign d i)" for d
    using uncovered_unhidden [OF wf] known unfolding r (2) by blast
  then have mem: "set ds = {d. \<exists>i. unhidden p cmd ign d i}" by auto
  have seq: "in_SeqNum i \<le> s" if "d \<in> set ds" "inst_at p d = Some i" for d i
  proof -
    from that (1) r (2) obtain j t where j: "iid_rep d \<in> set (p_nodes p)" "p_commands p (iid_rep d) = Some t"
      "uncovered cmd ign t j" "iid_num d = in_num j" by blast
    with uncovered_unhidden [OF wf j (2,4)] have "inst_at p d = Some j" by (simp add: unhidden_def)
    with that (2) j r (3) show ?thesis by auto
  qed
  have "seqAndDepsForCommand ops p (Some cmd) ign = Inr (s, ds)" using r (1) by (simp add: seqAndDepsForCommand_def)
  with seq mem [unfolded unhidden_def] show ?thesis by blast
qed

lemma list_ops_laws: "range_laws list_ops"
  by (simp add: range_laws_def list_ops_def range_encloses_def)

theorem point_command_dependencies_witness:
  "\<exists>s ds. seqAndDepsForCommand list_ops waiting (Some (key_command 3 [7] False)) (IID 0 0) = Inr (s, ds)
     \<and> IID 1 1 \<in> set ds \<and> IID 2 1 \<in> set ds \<and> 2 \<le> s"
proof -
  have cmds: "\<forall>d i. inst_at waiting d = Some i \<longrightarrow> d \<noteq> IID 0 0 \<longrightarrow>
      (\<exists>c. in_Command i = Some c \<and> point_command c)"
    by (auto simp: waiting_inst_at point_command_def key_command_def)
  have "point_command (key_command 3 [7] False)" by (simp add: point_command_def key_command_def)
  from point_command_dependencies [OF list_ops_laws this inv_wf [OF waiting_inv] cmds] obtain s ds where
    r: "seqAndDepsForCommand list_ops waiting (Some (key_command 3 [7] False)) (IID 0 0) = Inr (s, ds)"
      "\<forall>d \<in> set ds. \<forall>i. inst_at waiting d = Some i \<longrightarrow> in_SeqNum i \<le> s" by blast
  have "seqAndDepsForCommand list_ops waiting (Some (key_command 3 [7] False)) (IID 0 0) = Inr (2, [IID 2 1, IID 1 1])"
    by code_simp
  with r show ?thesis by auto
qed


section \<open>Replies and the two paths\<close>

lemma transition_Committed_result:
  assumes inv: "nvb_inv p" and i: "inst_at p d = Some inst" "in_Status inst = PreAccepted"
    and t: "d \<notin> set (p_timers p)" and ord: "is_map_order ord"
  shows "\<exists>p' inst'. transitionTo ord d Committed p = Inr p' \<and> inst_at p' d = Some inst'
    \<and> Committed \<le> in_Status inst' \<and> is_Data (in_is inst') = is_Data (in_is inst)"
proof -
  let ?x = "with_Status Committed inst"
  let ?q = "broadcastCommit ?x (setInstance ?x p)"
  from set_status_inv [OF inv i (1), of Committed] t i (2)
  have s: "core_inv {d} {} (setInstance ?x p)" "inst_at (setInstance ?x p) d = Some ?x" by simp_all
  then have "core_inv {d} {} ?q" by (simp add: broadcastCommit_def outbox_defs)
  from prepareToExecute_ok [OF this ord] obtain r where
    r: "prepareToExecute ord d ?q = Inr r" "nvb_inv r" "keeps ?q r" using advances_keeps by blast
  have q: "inst_at ?q d = Some ?x" using s (2) by (simp add: broadcastCommit_def outbox_defs)
  from r (3) q have "inst_at r d \<noteq> None" by (fastforce simp: keeps_def)
  with persist_inv [of "{}" "{}" r d] r (2) obtain p' where
    p': "persist d r = Inr p'" "keeps r p'" using advances_keeps by (auto simp: nvb_inv_def)
  have "transitionTo ord d Committed p = Inr p'"
    using i s (2) r (1) p' (1) by (simp add: transitionTo_def with_inst_def stateTransitions_def)
  moreover from keeps_trans [OF r (3) p' (2)] q obtain inst' where
    "inst_at p' d = Some inst'" "Committed \<le> in_Status inst'" "is_Data (in_is inst') = is_Data (in_is inst)"
    unfolding keeps_def by fastforce
  ultimately show ?thesis by blast
qed

lemma transition_Accepted_result:
  assumes inv: "nvb_inv p" and i: "inst_at p d = Some inst" "in_Status inst = PreAccepted"
    and t: "d \<notin> set (p_timers p)"
  shows "\<exists>p'. transitionTo ord d Accepted p = Inr p' \<and> inst_at p' d = Some (with_Status Accepted inst)"
proof -
  let ?x = "with_Status Accepted inst"
  let ?q = "broadcastAccept ?x (setInstance ?x p)"
  from set_status_inv [OF inv i (1), of Accepted] t i (2)
  have s: "core_inv {} {} (setInstance ?x p)" "inst_at (setInstance ?x p) d = Some ?x" by simp_all
  then have q: "core_inv {} {} ?q" "inst_at ?q d = Some ?x" by (simp_all add: broadcastAccept_def outbox_defs)
  then have "nvb_wf ?q" by (simp add: core_inv_def)
  from persist_ok [OF this q (2)] obtain st where "persist d ?q = Inr (?q\<lparr>p_storage := st\<rparr>)" by blast
  with i s (2) q (2) show ?thesis by (simp add: transitionTo_def with_inst_def stateTransitions_def)
qed

lemma merge_reply_data:
  assumes "sorted (in_Deps inst)" and "distinct (in_Deps inst)"
  shows "in_differentReplies (merge_reply s ds inst) \<longleftrightarrow>
      in_differentReplies inst \<or> s > in_SeqNum inst \<or> \<not> set ds \<subseteq> set (in_Deps inst)"
    and "in_SeqNum (merge_reply s ds inst) = max (in_SeqNum inst) s"
    and "s \<le> in_SeqNum inst \<Longrightarrow> set ds \<subseteq> set (in_Deps inst) \<Longrightarrow>
      is_Data (in_is (merge_reply s ds inst)) = is_Data (in_is inst)"
proof -
  let ?u = "unionDepSlices (in_Deps inst) ds"
  have u: "set ?u = set (in_Deps inst) \<union> set ds" "sorted ?u" "distinct ?u"
    using depSlice_sorted_distinct [of "in_Deps inst @ ds"] by (auto simp: unionDepSlices_def)
  have len: "length (in_Deps inst) \<noteq> length ?u \<longleftrightarrow> \<not> set ds \<subseteq> set (in_Deps inst)"
  proof -
    have "length ?u = card (set (in_Deps inst) \<union> set ds)" using u by (metis distinct_card)
    moreover have "length (in_Deps inst) = card (set (in_Deps inst))" using assms (2) by (simp add: distinct_card)
    moreover have "card (set (in_Deps inst)) = card (set (in_Deps inst) \<union> set ds) \<longleftrightarrow> set ds \<subseteq> set (in_Deps inst)"
      using card_subset_eq [of "set (in_Deps inst) \<union> set ds" "set (in_Deps inst)"] by (auto simp: Un_absorb2)
    ultimately show ?thesis by simp
  qed
  show "in_differentReplies (merge_reply s ds inst) \<longleftrightarrow>
      in_differentReplies inst \<or> s > in_SeqNum inst \<or> \<not> set ds \<subseteq> set (in_Deps inst)"
    using len by (simp add: merge_reply_def replaceInstanceData_def Let_def)
  show "in_SeqNum (merge_reply s ds inst) = max (in_SeqNum inst) s"
    by (auto simp: merge_reply_def replaceInstanceData_def Let_def)
  show "is_Data (in_is (merge_reply s ds inst)) = is_Data (in_is inst)"
    if "s \<le> in_SeqNum inst" "set ds \<subseteq> set (in_Deps inst)"
  proof -
    have "?u = in_Deps inst"
      using u that (2) assms by (intro sorted_distinct_set_unique) auto
    with that show ?thesis by (simp add: merge_reply_def replaceInstanceData_def Let_def)
  qed
qed

text \<open>The timer of an instance is in its record: setting or stopping it keeps the rest.\<close>

lemma timer_written:
  assumes inv: "nvb_inv p" and i: "inst_at p d = Some x"
  shows "inst_at (setInstance (x\<lparr>in_slowPathTimer := t\<rparr>) (p\<lparr>p_timers := ts\<rparr>)) d = Some (x\<lparr>in_slowPathTimer := t\<rparr>)"
  using wf_inst_at_setInstance [of "p\<lparr>p_timers := ts\<rparr>" "x\<lparr>in_slowPathTimer := t\<rparr>" d] inv_wf [OF inv] inv_inst [OF inv i]
  by simp

lemma either_reply_result:
  assumes inv: "nvb_inv p" and ord: "is_map_order ord" and i: "inst_at p d = Some x" and st: "in_Status x = PreAccepted"
    and n: "n = in_preAcceptReplies x + 1"
  shows "\<exists>p' y. onEitherPreAcceptReply ord x p = Inr p' \<and> inst_at p' d = Some y \<and> is_Data (in_is y) = is_Data (in_is x)
    \<and> (if \<not> in_differentReplies x \<and> fastQuorum p n then Committed \<le> in_Status y
       else if in_differentReplies x \<and> quorum p n then in_Status y = Accepted else in_Status y = PreAccepted)"
proof -
  have lt: "in_Status x < Committed" using st by simp
  note id = inv_inst [OF inv i] and u = unregister_ok [OF inv i lt]
  let ?q = "unregisterTimer x p" and ?y = "x\<lparr>in_slowPathTimer := timer_stop (in_slowPathTimer x)\<rparr>"
  have y: "inst_at ?q d = Some ?y" "in_Status ?y = PreAccepted" "is_Data (in_is ?y) = is_Data (in_is x)"
    using timer_written [OF inv i] st by (simp_all add: unregisterTimer_def)
  show ?thesis
  proof (cases "\<not> in_differentReplies x \<and> fastQuorum p n")
    case True
    from transition_Committed_result [OF u(1) y(1,2) u(4) ord] y(3) obtain p' inst' where
      "transitionTo ord d Committed ?q = Inr p'" "inst_at p' d = Some inst'"
      "Committed \<le> in_Status inst'" "is_Data (in_is inst') = is_Data (in_is x)" by auto
    with True n id(1) show ?thesis by (auto simp: onEitherPreAcceptReply_def Let_def)
  next
    case fast: False
    show ?thesis
    proof (cases "in_differentReplies x \<and> quorum p n")
      case True
      from transition_Accepted_result [OF u(1) y(1,2) u(4)] obtain p' where
        "transitionTo ord d Accepted ?q = Inr p'" "inst_at p' d = Some (with_Status Accepted ?y)" by blast
      with True fast n id(1) y(3) show ?thesis by (simp add: onEitherPreAcceptReply_def Let_def fastPathAvailable_def)
    next
      case False
      have "inst_at (registerOneTimeTimer x p) d = Some (x\<lparr>in_slowPathTimer := timer_reset (in_slowPathTimer x)\<rparr>)"
        using timer_written [OF inv i] by (simp add: registerOneTimeTimer_def)
      with False fast n id(1) i st show ?thesis
        by (cases "timer_isSet (in_slowPathTimer x)"; cases "quorum p n"; cases "in_differentReplies x")
          (simp_all add: onEitherPreAcceptReply_def Let_def fastPathAvailable_def)
    qed
  qed
qed

text \<open>C10: What the command leader does with a \<^verbatim>\<open>PreAcceptReply\<close>: it merges the reported sequence number
  and dependencies; it commits at once exactly when no reply so far reported anything new and a fast
  quorum has answered, and then with the attributes it proposed; it falls back to the accept phase when
  something new was reported and a majority has answered; otherwise it waits.\<close>

theorem preaccept_reply_decides_path:
  assumes inv: "nvb_inv p" and ord: "is_map_order ord" and i: "inst_at p d = Some inst"
    and st: "in_Status inst = PreAccepted" and own: "iid_rep d = p_id p"
    and deps: "sorted (in_Deps inst)" "distinct (in_Deps inst)" "deps_ok p ds"
    and m: "m = from_to d (p_id p) (MPreAcceptReply s ds)"
    and news: "news \<longleftrightarrow> in_differentReplies inst \<or> s > in_SeqNum inst \<or> \<not> set ds \<subseteq> set (in_Deps inst)"
    and n: "n = in_preAcceptReplies inst + 2"
  shows "\<exists>p' inst'. Step ops ord m p = Inr p' \<and> inst_at p' d = Some inst'
    \<and> in_Command inst' = in_Command inst \<and> in_SeqNum inst' = max (in_SeqNum inst) s
    \<and> set (in_Deps inst') = set (in_Deps inst) \<union> set ds
    \<and> (if \<not> news \<and> fastQuorum p n
       then Committed \<le> in_Status inst' \<and> is_Data (in_is inst') = is_Data (in_is inst)
       else if news \<and> quorum p n then in_Status inst' = Accepted
       else in_Status inst' = PreAccepted)"
proof -
  note id = inv_inst [OF inv i]
  define x where "x = (merge_reply s ds inst)\<lparr>in_preAcceptReplies := in_preAcceptReplies (merge_reply s ds inst) + 1\<rparr>"
  define p1 where "p1 = setInstance x p"
  have x: "in_ID x = d" "in_Status x = PreAccepted" "in_Command x = in_Command inst"
    "set (in_Deps x) = set (in_Deps inst) \<union> set ds" "n = in_preAcceptReplies x + 1"
    "in_differentReplies x = news" "in_SeqNum x = max (in_SeqNum inst) s"
    using id st n news by (simp_all add: x_def merge_reply_fields merge_reply_data [OF deps (1,2)])
  have same: "is_Data (in_is x) = is_Data (in_is inst)" if "\<not> news"
    using that news merge_reply_data (3) [OF deps (1,2), of s ds] by (simp add: not_less x_def)
  have ok: "inst_ok p x" using id (3) deps (3) x (3,4) by (auto simp: inst_ok_def deps_ok_def)
  have lt: "in_Status inst < Committed" using st by simp
  note r = rewrite_ok [OF inv i lt x (1) trans [OF x (2) st [symmetric]] ok, folded p1_def]
  have step: "Step ops ord m p = onEitherPreAcceptReply ord x p1"
    using getInstance_eq [OF inv_wf [OF inv] id (2)] i own st m id (1)
    by (simp add: Step_def validateMessage_def from_to_def WrapMessage_def IsReply_def Let_def dispatch_def
        onPreAcceptReply_def isStates_def x_def p1_def)
  have q: "fastQuorum p1 = fastQuorum p" "quorum p1 = quorum p"
    by (auto simp: fastQuorum_def quorum_def p1_def)
  from either_reply_result [OF r (1) ord r (3) x (2,5)] obtain p' y where
    y: "Step ops ord m p = Inr p'" "inst_at p' d = Some y" "is_Data (in_is y) = is_Data (in_is x)"
    "if \<not> news \<and> fastQuorum p n then Committed \<le> in_Status y
       else if news \<and> quorum p n then in_Status y = Accepted else in_Status y = PreAccepted"
    unfolding step q x (6) by blast
  have "in_Command y = in_Command inst" "in_SeqNum y = max (in_SeqNum inst) s"
    "set (in_Deps y) = set (in_Deps inst) \<union> set ds" using y (3) x by simp_all
  with y same show ?thesis by (auto split: if_splits)
qed


definition proposed :: epaxos where
  "proposed = projr (node_run list_ops id [EvPropose (key_command 1 [7] True)] sample_start)"

lemma proposed_inv: "nvb_inv proposed"
proof -
  have "events_ok list_ops id sample_start [EvPropose (key_command 1 [7] True)]" by code_simp
  from node_run_safe [OF sample_start_inv id_map_order (1) this] show ?thesis
    by (auto simp: proposed_def)
qed

theorem preaccept_reply_decides_path_witness:
  "\<exists>p' inst'. Step list_ops id (from_to (IID 1 1) 1 (MPreAcceptReply 0 [])) proposed = Inr p'
     \<and> inst_at p' (IID 1 1) = Some inst' \<and> Committed \<le> in_Status inst'"
proof -
  have "\<not> Option.is_none (inst_at proposed (IID 1 1))" by code_simp
  then obtain inst where i: "inst_at proposed (IID 1 1) = Some inst" by (auto simp: Option.is_none_def)
  have "(\<lambda>x. in_Status x = PreAccepted \<and> in_Deps x = [] \<and> in_preAcceptReplies x = 0
      \<and> \<not> in_differentReplies x) (the (inst_at proposed (IID 1 1)))" by code_simp
  with i have f: "in_Status inst = PreAccepted" "in_Deps inst = []" "in_preAcceptReplies inst = 0"
      "\<not> in_differentReplies inst" by auto
  have id1: "p_id proposed = 1" by code_simp
  have fq: "fastQuorum proposed 2" by code_simp
  from preaccept_reply_decides_path [OF proposed_inv id_map_order (1) i f (1), of "[]"
      "from_to (IID 1 1) 1 (MPreAcceptReply 0 [])" 0 False 2 list_ops] f id1 fq
  show ?thesis by (auto simp: deps_ok_def)
qed

section \<open>Two situations the code does not handle\<close>

lemma replicas_deps_nil_command:
  assumes "\<And>q t i. q \<noteq> r \<Longrightarrow> p_commands p q = Some t \<Longrightarrow> i \<in> set t \<Longrightarrow> in_Command i \<noteq> None"
    and "p_commands p r = Some [inst]" and "in_Command inst = None" and "in_ID inst \<noteq> ign"
  shows "r \<in> set rs \<Longrightarrow> replicas_deps ops p cmd ign rs m deps = Inl NilCommand"
proof (induction rs arbitrary: m deps)
  case (Cons q rs)
  show ?case
  proof (cases "q = r")
    case True
    with assms (2-4) show ?thesis by simp
  next
    case False
    have "\<forall>i \<in> set (rev (case p_commands p q of None \<Rightarrow> [] | Some t \<Rightarrow> t)). in_ID i \<noteq> ign \<longrightarrow> in_Command i \<noteq> None"
      using assms (1) [OF False] by (cases "p_commands p q") auto
    from descend_deps_ok [OF this, of ops cmd q "rg_new ops" m deps] Cons False show ?thesis by auto
  qed
qed simp

text \<open>A replica that accepts an instance it had not pre-accepted holds it without a command, and the
  next client proposal there panics: the dependency computation calls a method on the nil command.\<close>

theorem accept_before_preaccept_panics:
  assumes inv: "nvb_inv p" and room: "room_left p" and d: "iid_rep d \<in> set (p_nodes p)" "iid_rep d \<noteq> p_id p"
    and none: "p_commands p (iid_rep d) = Some []" and ne: "d \<noteq> IID 0 0"
  shows "\<exists>p1. Step ops ord (from_to d (p_id p) (MAccept a)) p = Inr p1 \<and> Request ops ord cmd p1 = Inl NilCommand"
proof -
  note wf = inv_wf [OF inv]
  let ?x = "newInstance (iid_rep d) (iid_num d)"
  let ?y = "replaceInstanceData (id_SeqNum a) (id_Deps a) (with_Status Accepted ?x)"
  let ?p1 = "reply MAcceptOK ?y (setInstance ?y (setInstance ?x p))"
  have x: "in_ID ?x = d" "in_Status ?x = NoStatus" "in_ID ?y = d" "in_Command ?y = None"
    by (simp_all add: newInstance_def newInstanceFromState_def replaceInstanceData_def)
  have no: "inst_at p d = None" using none by (simp add: inst_at_def bt_get_def)
  have step: "Step ops ord (from_to d (p_id p) (MAccept a)) p = Inr ?p1"
    using getInstance_eq [OF wf d (1)] no d x (2)
    by (simp add: Step_def validateMessage_def from_to_def WrapMessage_def IsReply_def knownReplica_def Let_def
        dispatch_def onAccept_def isStates_def)
  have com: "p_commands ?p1 = (p_commands p)(iid_rep d \<mapsto> [?y])"
    using none x by (simp add: reply_def sendTo_def setInstance_def Let_def)
  from fresh_instance [OF wf room] obtain m where m: "maxInstanceNum p (p_id p) = Inr m" by blast
  have "p_id ?p1 = p_id p" and nodes: "p_nodes ?p1 = p_nodes p" by (simp_all add: reply_def sendTo_def)
  then have m1: "maxInstanceNum ?p1 (p_id ?p1) = Inr m"
    using m d (2) by (simp add: maxInstanceNum_def maxInstance_def com)
  have "in_Command i \<noteq> None" if q: "q \<noteq> iid_rep d" "p_commands ?p1 q = Some t" "i \<in> set t" for q t i
  proof -
    from q com have "p_commands p q = Some t" by simp
    from wf_tree_inst_at (1) [OF wf this q (3)] inv_inst (3) [OF inv] show ?thesis
      by (auto simp: inst_ok_def)
  qed
  note others = this
  have "replicas_deps ops ?p1 cmd (IID 0 0) (remdups (p_nodes ?p1)) 0 [] = Inl NilCommand"
    by (rule replicas_deps_nil_command [where r = "iid_rep d" and inst = ?y])
      (use others com x (3,4) ne d (1) nodes in auto)
  then have "seqAndDepsForCommand ops ?p1 (Some cmd) (IID 0 0) = Inl NilCommand"
    by (simp add: seqAndDepsForCommand_def)
  with m1 have "Request ops ord cmd ?p1 = Inl NilCommand"
    by (simp add: Request_def onRequest_def Let_def)
  with step show ?thesis by blast
qed

theorem accept_before_preaccept_panics_witness:
  "\<exists>p1. Step list_ops id (from_to (IID 2 1) 1 (MAccept \<lparr>id_Command = None, id_SeqNum = 1, id_Deps = []\<rparr>)) sample_start
       = Inr p1
     \<and> Request list_ops id (key_command 1 [7] True) p1 = Inl NilCommand"
proof -
  have "room_left sample_start" by code_simp
  moreover have "p_commands sample_start 2 = Some []"
    by (simp add: sample_start_def newEPaxos_def Config_validate_def initStorage_def three_nodes_def
          NewMemoryStorage_def PersistHardState_def Instances_def Let_def)
  moreover have "p_id sample_start = 1" by code_simp
  ultimately show ?thesis
    using accept_before_preaccept_panics [OF sample_start_inv, of "IID 2 1" list_ops id
        "\<lparr>id_Command = None, id_SeqNum = 1, id_Deps = []\<rparr>" "key_command 1 [7] True"]
    by (simp add: sample_start_fields)
qed

text \<open>In a cluster of one replica a proposal is never committed: nothing is sent, no timer is set,
  and ticks change nothing.\<close>

theorem single_replica_never_commits:
  assumes inv: "nvb_inv p" and room: "room_left p" and one: "p_nodes p = [p_id p]"
    and t: "p_timers p = []" and ord: "is_map_order ord"
  shows "\<exists>p' d. Request ops ord cmd p = Inr p' \<and> inst_at p d = None \<and> status_at p' d = Some PreAccepted
    \<and> p_msgs p' = p_msgs p \<and> p_executedCmds p' = p_executedCmds p \<and> Tick ord p' = Inr p'"
proof -
  note wf = inv_wf [OF inv]
  from fresh_instance [OF wf room] obtain m where
    m: "maxInstanceNum p (p_id p) = Inr m" "inst_at p (IID (p_id p) (m + 1)) = None" by blast
  have c: "core_inv {} {IID 0 0} p" using inv by (auto simp: nvb_inv_def intro: core_inv_mono)
  from seqAndDeps_ok [OF c, of ops cmd] obtain s ds where
    sd: "seqAndDepsForCommand ops p (Some cmd) (IID 0 0) = Inr (s, ds)" by blast
  let ?d = "IID (p_id p) (m + 1)"
  let ?x = "with_Data \<lparr>id_Command = Some cmd, id_SeqNum = s + 1, id_Deps = depSliceFromMap ds\<rparr>
      (newInstance (p_id p) (m + 1))"
  let ?y = "with_Status PreAccepted ?x"
  let ?q = "setInstance ?y (setInstance ?x p)"
  have x: "in_ID ?x = ?d" "in_Status ?x = NoStatus" by (simp_all add: newInstance_def newInstanceFromState_def)
  have known: "iid_rep ?d \<in> set (p_nodes p)" using one by simp
  have wf1: "nvb_wf (setInstance ?x p)" and wf2: "nvb_wf ?q"
    using wf_setInstance wf x known by simp_all
  have at: "inst_at (setInstance ?x p) ?d = Some ?x" "inst_at ?q ?d = Some ?y"
    using wf_inst_at_setInstance [OF wf, of ?x ?d] wf_inst_at_setInstance [OF wf1, of ?y ?d] x known by simp_all
  have quiet: "broadcastPreAccept ?y ?q = ?q"
    using one by (simp add: broadcastPreAccept_def broadcast_def broadcast_loop_eq)
  from persist_ok [OF wf2 at (2)] obtain st where "persist ?d ?q = Inr (?q\<lparr>p_storage := st\<rparr>)" by blast
  then have "Request ops ord cmd p = Inr (?q\<lparr>p_storage := st\<rparr>)"
    using m (1) sd at x quiet
    by (simp add: Request_def onRequest_def Let_def transitionTo_def with_inst_def stateTransitions_def)
  moreover have "Tick ord (?q\<lparr>p_storage := st\<rparr>) = Inr (?q\<lparr>p_storage := st\<rparr>)"
    using t is_map_order_set [OF ord, of "[]"] by (simp add: Tick_def)
  ultimately show ?thesis
    using m (2) at by (auto simp: status_at_def)
qed


theorem single_replica_never_commits_witness:
  "\<exists>c p. newEPaxos id id c = Inr p \<and> p_nodes p = [1] \<and>
     (\<exists>p' d. Request list_ops id (key_command 1 [7] True) p = Inr p' \<and> status_at p' d = Some PreAccepted
        \<and> p_msgs p' = p_msgs p \<and> Tick id p' = Inr p')"
proof -
  let ?c = "\<lparr>c_ID = 1, c_Nodes = [1], c_Storage = None\<rparr> :: Config"
  have "\<not> isl (newEPaxos id id ?c)" by code_simp
  then obtain p where p: "newEPaxos id id ?c = Inr p" by (cases "newEPaxos id id ?c") auto
  have "(\<lambda>p. p_nodes p = [1] \<and> p_id p = 1 \<and> p_timers p = [] \<and> room_left p) (projr (newEPaxos id id ?c))"
    by code_simp
  with p have f: "p_nodes p = [p_id p]" "p_id p = 1" "p_timers p = []" "room_left p" by auto
  have "nvb_inv p" using start_inv [OF p] by simp
  from single_replica_never_commits [OF this f (4,1,3) id_map_order (1), of list_ops "key_command 1 [7] True"]
    p f show ?thesis by (intro exI [of _ ?c] exI [of _ p]) auto
qed

section \<open>Interference and quorums\<close>

text \<open>Two commands over non-empty spans interfere exactly when one of them writes and there is a key
  in both spans; the relation is symmetric.\<close>

theorem interference_is_shared_key:
  assumes "span_keys (nc_Span c) \<noteq> {}" and "span_keys (nc_Span d) \<noteq> {}"
  shows "(Interferes c d \<longleftrightarrow> (nc_Writing c \<or> nc_Writing d) \<and> (\<exists>k. k \<in> span_keys (nc_Span c) \<and> k \<in> span_keys (nc_Span d)))
    \<and> (Interferes c d \<longleftrightarrow> Interferes d c)"
  using Overlaps_imp_common_key [OF assms] common_key_imp_Overlaps Interferes_sym [of c d]
  unfolding Interferes_def by blast

theorem interference_is_shared_key_witness:
  "Interferes (key_command 1 [7] True) (key_command 2 [7] False)
   \<and> \<not> Interferes (key_command 1 [7] True) (key_command 2 [8] False)"
proof -
  have ne: "span_keys (nc_Span (key_command i k w)) = {k}" for i k w
    by (simp add: span_keys_def key_command_def)
  show ?thesis
    using interference_is_shared_key [of "key_command 1 [7] True" "key_command 2 [7] False"]
      interference_is_shared_key [of "key_command 1 [7] True" "key_command 2 [8] False"]
    unfolding ne by (auto simp: key_command_def)
qed

end
