(* ===== verification/Adapter_Nvb.thy ===== *)
theory Adapter_Nvb
  imports Adapter_Pending Nvb_Types
begin

text \<open>
  The adapter around the EPaxos library (\<^verbatim>\<open>lab/adapters/nvbepaxos/main.go\<close>): request identifiers
  and the command it hands to the library, as an instance of \<open>Adapter_Pending\<close>; the queue of outbound
  messages with its sender; and the delay it adds to a message. The network is a parameter of one
  sending attempt: a \<open>link\<close> says whether the peer can be dialled, whether a stream opens, after how many
  messages a send fails, and whether the stream closes.
\<close>

section \<open>Identifiers and commands\<close>

definition nvb_newPending :: "nat \<Rightarrow> pending" where
  "nvb_newPending replicaID =
     \<lparr>pd_m = Map.empty, pd_base = push_bit 48 (of_nat replicaID) OR 1, pd_seq = 0\<rparr>"

definition nvb_next :: "pending \<Rightarrow> u64 \<times> pending" where
  "nvb_next p = (let s = pd_seq p + 1 in (pd_base p + s, p\<lparr>pd_seq := s\<rparr>))"

definition keyBytes :: "u64 \<Rightarrow> bytes" where
  "keyBytes k = be_bytes 8 k"

definition nvb_encode :: "u64 \<Rightarrow> Command \<Rightarrow> NCommand" where
  "nvb_encode cmdID c =
     \<lparr>nc_ID = cmdID, nc_Span = \<lparr>sp_Key = keyBytes (cmd_K c), sp_EndKey = []\<rparr>,
      nc_Writing = (cmd_Op c = PUT), nc_Data = Command_Marshal c\<rparr>"

definition nvb_decode :: "NCommand \<Rightarrow> (u64 \<times> Command) option" where
  "nvb_decode c =
     (if length (nc_Data c) = 0 then None
      else case Command_Unmarshal zero_Command (nc_Data c) of
             (Some e, _, _) \<Rightarrow> None
           | (None, cmd, _) \<Rightarrow> Some (nc_ID c, cmd))"

section \<open>Handlers\<close>

definition nvb_propose :: "Propose \<Rightarrow> u64 \<Rightarrow> bool \<Rightarrow> NCommand replica \<Rightarrow> NCommand replica" where
  "nvb_propose = propose_start nvb_next nvb_encode"

text \<open>\<open>execute\<close> on the commands of one \<^verbatim>\<open>Ready\<close>.\<close>

definition nvb_execute :: "NCommand list \<Rightarrow> NCommand replica \<Rightarrow> NCommand replica" where
  "nvb_execute cmds r = fold (apply_command nvb_decode) cmds r"

definition nvb_adapter_run :: "nat \<Rightarrow> NCommand event list \<Rightarrow> NCommand replica" where
  "nvb_adapter_run k es = fold (ad_step nvb_next nvb_encode nvb_decode) es (start_replica (nvb_newPending k))"

section \<open>Outbound messages\<close>

record 'c sender =
  sn_id :: int
  sn_outbox :: "Message list"
  sn_wake :: bool
  sn_peers :: "ReplicaID \<rightharpoonup> 'c"
  sn_addrs :: "ReplicaID \<rightharpoonup> string"

definition sn_enqueue :: "Message list \<Rightarrow> 'c sender \<Rightarrow> 'c sender" where
  "sn_enqueue msgs s =
     (if length msgs = 0 then s else s\<lparr>sn_outbox := sn_outbox s @ msgs, sn_wake := True\<rparr>)"

record 'c link =
  lk_dial :: "string \<Rightarrow> 'c option"
  lk_stream :: bool
  lk_fail_at :: "nat option"
  lk_close :: bool

definition sn_peer :: "'c link \<Rightarrow> ReplicaID \<Rightarrow> 'c sender \<Rightarrow> bool \<times> 'c sender" where
  "sn_peer lk to s =
     (case sn_peers s to of
        Some c \<Rightarrow> (True, s)
      | None \<Rightarrow>
          (case sn_addrs s to of
             None \<Rightarrow> (False, s)
           | Some addr \<Rightarrow>
               (case lk_dial lk addr of
                  None \<Rightarrow> (False, s)
                | Some c \<Rightarrow> (True, s\<lparr>sn_peers := (sn_peers s)(to \<mapsto> c)\<rparr>))))"

definition sn_dropPeer :: "ReplicaID \<Rightarrow> 'c sender \<Rightarrow> 'c sender" where
  "sn_dropPeer to s =
     (case sn_peers s to of None \<Rightarrow> s | Some c \<Rightarrow> s\<lparr>sn_peers := (sn_peers s)(to := None)\<rparr>)"

text \<open>The messages the peer received, and whether the attempt succeeded.\<close>

definition sn_sendTo :: "'c link \<Rightarrow> ReplicaID \<Rightarrow> Message list \<Rightarrow> 'c sender \<Rightarrow> (bool \<times> Message list) \<times> 'c sender" where
  "sn_sendTo lk to msgs s =
     (case sn_peer lk to s of
        (False, s1) \<Rightarrow> ((False, []), s1)
      | (True, s1) \<Rightarrow>
          (if \<not> lk_stream lk then ((False, []), sn_dropPeer to s1)
           else case lk_fail_at lk of
             Some n \<Rightarrow>
               (if n < length msgs then ((False, take n msgs), sn_dropPeer to s1)
                else if \<not> lk_close lk then ((False, msgs), sn_dropPeer to s1) else ((True, msgs), s1))
           | None \<Rightarrow>
               (if \<not> lk_close lk then ((False, msgs), sn_dropPeer to s1) else ((True, msgs), s1))))"

text \<open>\<open>sendBatch\<close> groups a batch by destination; Go visits the destinations in some \<open>order\<close>.\<close>

definition by_peer :: "int \<Rightarrow> Message list \<Rightarrow> ReplicaID \<Rightarrow> Message list" where
  "by_peer self msgs to = filter (\<lambda>m. \<not> sint (m_To m) = self \<and> m_To m = to) msgs"

definition sn_sendBatch ::
  "(ReplicaID \<Rightarrow> 'c link) \<Rightarrow> ReplicaID list \<Rightarrow> Message list \<Rightarrow> 'c sender
     \<Rightarrow> (ReplicaID \<times> Message list) list \<times> 'c sender" where
  "sn_sendBatch links order msgs s =
     fold (\<lambda>to (sent, s1).
        if by_peer (sn_id s) msgs to = [] then (sent, s1)
        else (case sn_sendTo (links to) to (by_peer (sn_id s) msgs to) s1 of
                ((_, got), s2) \<Rightarrow> (sent @ [(to, got)], s2)))
       order ([], s)"

text \<open>One turn of the sender's inner loop: take the whole queue and send it.\<close>

definition sn_drain ::
  "(ReplicaID \<Rightarrow> 'c link) \<Rightarrow> ReplicaID list \<Rightarrow> 'c sender \<Rightarrow> (ReplicaID \<times> Message list) list \<times> 'c sender" where
  "sn_drain links order s =
     (if length (sn_outbox s) = 0 then ([], s)
      else sn_sendBatch links order (sn_outbox s) (s\<lparr>sn_outbox := []\<rparr>))"

section \<open>The added delay\<close>

text \<open>\<open>rnd n\<close> is what \<^verbatim>\<open>rand.Int63n(n)\<close> returns, at least 0 and below \<open>n\<close>. Nanoseconds.\<close>

definition go_div :: "int \<Rightarrow> int \<Rightarrow> int" where
  "go_div a b = (if a < 0 then - ((- a) div b) else a div b)"

definition commDelay :: "(int \<Rightarrow> int) \<Rightarrow> int \<Rightarrow> int \<Rightarrow> int" where
  "commDelay rnd costMS jitterPct =
     (if costMS \<le> 0 then 0
      else (let base = wrap64 (costMS * 1000000) in
            if jitterPct \<le> 0 then base
            else (let maxJitter = go_div (wrap64 (base * jitterPct)) 100
                  in wrap64 (base + rnd (wrap64 (maxJitter + 1))))))"

section \<open>Identifier facts\<close>

definition nvb_ident :: "nat \<Rightarrow> nat \<Rightarrow> u64" where
  "nvb_ident k n = of_nat k * 2 ^ 48 + 1 + of_nat n"

lemma nvb_ident_nat: "nvb_ident k n = of_nat (k * 2 ^ 48 + 1 + n)"
  by (simp add: nvb_ident_def)

lemma nvb_base: "pd_base (nvb_newPending k) = of_nat (k * 2 ^ 48 + 1)"
proof -
  have "even (push_bit 48 (of_nat k :: u64))" by (simp add: push_bit_eq_mult)
  then have "push_bit 48 (of_nat k :: u64) OR 1 = push_bit 48 (of_nat k) + 1" by (simp only: or_one_eq) simp
  then show ?thesis unfolding nvb_newPending_def by (simp add: push_bit_eq_mult ac_simps)
qed

lemma nvb_ident_inject:
  assumes "j < 65536" "k < 65536" "m \<le> 2 ^ 48 - 2" "n \<le> 2 ^ 48 - 2"
  shows "nvb_ident j m = nvb_ident k n \<longleftrightarrow> j = k \<and> m = n"
proof
  have b: "i * 2 ^ 48 + 1 + l < 2 ^ 64" if "i < 65536" "l \<le> 2 ^ 48 - 2" for i l :: nat
  proof -
    have "i * 2 ^ 48 \<le> 65535 * 2 ^ 48" using that (1) by (intro mult_right_mono) simp_all
    with that (2) show ?thesis by simp
  qed
  assume "nvb_ident j m = nvb_ident k n"
  then have e: "j * 2 ^ 48 + 1 + m = k * 2 ^ 48 + 1 + n"
    using b [OF assms(1,3)] b [OF assms(2,4)] by (simp only: nvb_ident_nat of_nat_u64_inject)
  have d: "(i * 2 ^ 48 + 1 + l) div 2 ^ 48 = i" if "l \<le> 2 ^ 48 - 2" for i l :: nat
  proof -
    have "1 + l < 2 ^ 48" using that by simp
    then show ?thesis
      using div_mult_self3 [of "2 ^ 48" i "1 + l"] by (simp only: add.assoc div_less)
  qed
  from e have "j = k" using d [OF assms(3), of j] d [OF assms(4), of k] by simp
  with e show "j = k \<and> m = n" by simp
qed simp

lemma nvb_next_ident:
  "pd_base p = pd_base (nvb_newPending k) \<Longrightarrow> pd_seq p = of_nat n \<Longrightarrow>
     nvb_next p = (nvb_ident k (Suc n), p\<lparr>pd_seq := of_nat (Suc n)\<rparr>)"
  by (simp add: nvb_next_def nvb_ident_def nvb_base Let_def ac_simps)

lemma nvb_decode_encode: "nvb_decode (nvb_encode i c) = Some (i, c)"
proof -
  have "length (Command_Marshal c) \<noteq> 0" by simp
  then show ?thesis
    using Command_dec_enc [of zero_Command c "[]"]
    unfolding nvb_decode_def nvb_encode_def NCommand.select_convs by (simp del: length_Command_Marshal)
qed

interpretation nvb: request_ids nvb_newPending nvb_next nvb_encode nvb_decode nvb_ident 65536 "2 ^ 48 - 2"
  by unfold_locales
    (simp_all add: nvb_ident_inject nvb_decode_encode nvb_next_ident del: of_nat_Suc,
      simp_all add: nvb_newPending_def)

lemma nvb_run_eq: "nvb_adapter_run k es = nvb.run k es"
  by (simp add: nvb_adapter_run_def nvb.run_def)

section \<open>Sender facts\<close>

lemma by_peer_append: "by_peer self (xs @ ys) to = by_peer self xs to @ by_peer self ys to"
  by (simp add: by_peer_def)

text \<open>A link on which everything works.\<close>

definition link_ok :: "'c link \<Rightarrow> bool" where
  "link_ok lk \<longleftrightarrow> (\<forall>a. lk_dial lk a \<noteq> None) \<and> lk_stream lk \<and> lk_fail_at lk = None \<and> lk_close lk"

lemma sn_sendTo_ok:
  assumes "link_ok lk" and "sn_addrs s to \<noteq> None"
  obtains s' where "sn_sendTo lk to msgs s = ((True, msgs), s')"
    "sn_id s' = sn_id s" "sn_outbox s' = sn_outbox s" "sn_addrs s' = sn_addrs s"
proof -
  obtain a where a: "sn_addrs s to = Some a" using assms (2) by blast
  obtain c where c: "lk_dial lk a = Some c" using assms (1) by (auto simp: link_ok_def)
  show ?thesis
    using that assms (1) a c
    by (cases "sn_peers s to") (auto simp: sn_sendTo_def sn_peer_def link_ok_def)
qed

definition sn_received :: "ReplicaID \<Rightarrow> (ReplicaID \<times> Message list) list \<Rightarrow> Message list" where
  "sn_received p sent = concat (map snd (filter (\<lambda>(to, _). to = p) sent))"

lemma received_Cons: "sn_received p ((to, x) # sent) = (if to = p then x else []) @ sn_received p sent"
  by (simp add: sn_received_def)

lemma received_append [simp]: "sn_received p (xs @ ys) = sn_received p xs @ sn_received p ys"
  by (simp add: sn_received_def)

lemma sn_sendBatch_ok:
  assumes "\<forall>to \<in> set order. link_ok (links to)" and "\<forall>to \<in> set order. sn_addrs s to \<noteq> None"
    and "distinct order"
  shows "\<exists>sent s'. sn_sendBatch links order msgs s = (sent, s')
    \<and> sn_id s' = sn_id s \<and> sn_outbox s' = sn_outbox s \<and> sn_addrs s' = sn_addrs s
    \<and> (\<forall>p. sn_received p sent = (if p \<in> set order then by_peer (sn_id s) msgs p else []))"
proof -
  define f where "f = (\<lambda>to (sent, s1 :: 'a sender).
        if by_peer (sn_id s) msgs to = [] then (sent, s1)
        else (case sn_sendTo (links to) to (by_peer (sn_id s) msgs to) s1 of
                ((_, got), s2) \<Rightarrow> (sent @ [(to, got)], s2)))"
  have "\<exists>sent s'. fold f xs (sent0, s0) = (sent0 @ sent, s')
      \<and> sn_id s' = sn_id s0 \<and> sn_outbox s' = sn_outbox s0 \<and> sn_addrs s' = sn_addrs s0
      \<and> (\<forall>p. sn_received p sent = (if p \<in> set xs then by_peer (sn_id s) msgs p else []))"
    if "\<forall>to \<in> set xs. link_ok (links to)" "\<forall>to \<in> set xs. sn_addrs s0 to \<noteq> None" "distinct xs"
    for xs sent0 s0
    using that
  proof (induction xs arbitrary: sent0 s0)
    case Nil
    then show ?case by (simp add: sn_received_def)
  next
    case (Cons to xs)
    show ?case
    proof (cases "by_peer (sn_id s) msgs to = []")
      case True
      then have "f to (sent0, s0) = (sent0, s0)" by (simp add: f_def)
      moreover obtain sent s' where "fold f xs (sent0, s0) = (sent0 @ sent, s')"
        "sn_id s' = sn_id s0 \<and> sn_outbox s' = sn_outbox s0 \<and> sn_addrs s' = sn_addrs s0"
        "\<forall>p. sn_received p sent = (if p \<in> set xs then by_peer (sn_id s) msgs p else [])"
        using Cons.IH [of s0 sent0] Cons.prems by auto
      ultimately show ?thesis using True by (intro exI [of _ sent] exI [of _ s']) auto
    next
      case False
      obtain s1 where s1: "sn_sendTo (links to) to (by_peer (sn_id s) msgs to) s0
          = ((True, by_peer (sn_id s) msgs to), s1)"
        "sn_id s1 = sn_id s0" "sn_outbox s1 = sn_outbox s0" "sn_addrs s1 = sn_addrs s0"
        using sn_sendTo_ok [of "links to" s0 to "by_peer (sn_id s) msgs to"] Cons.prems by auto
      then have f1: "f to (sent0, s0) = (sent0 @ [(to, by_peer (sn_id s) msgs to)], s1)"
        using False by (simp add: f_def)
      obtain sent s' where r: "fold f xs (sent0 @ [(to, by_peer (sn_id s) msgs to)], s1)
          = ((sent0 @ [(to, by_peer (sn_id s) msgs to)]) @ sent, s')"
        "sn_id s' = sn_id s1 \<and> sn_outbox s' = sn_outbox s1 \<and> sn_addrs s' = sn_addrs s1"
        "\<forall>p. sn_received p sent = (if p \<in> set xs then by_peer (sn_id s) msgs p else [])"
        using Cons.IH [of s1 "sent0 @ [(to, by_peer (sn_id s) msgs to)]"] Cons.prems s1 by auto
      have "sn_received p ((to, by_peer (sn_id s) msgs to) # sent)
          = (if p \<in> set (to # xs) then by_peer (sn_id s) msgs p else [])" for p
        using r (3) Cons.prems (3) by (auto simp: received_Cons)
      with f1 r s1 show ?thesis
        by (intro exI [of _ "(to, by_peer (sn_id s) msgs to) # sent"] exI [of _ s']) auto
    qed
  qed
  from this [OF assms, of "[]"] show ?thesis by (simp add: sn_sendBatch_def f_def)
qed

text \<open>The queue and the sender at work: the loop enqueues, the sender drains.\<close>

datatype 'c sender_event = Enqueue "Message list" | Drain "ReplicaID \<Rightarrow> 'c link" "ReplicaID list"

fun sn_run ::
  "'c sender_event list \<Rightarrow> 'c sender \<Rightarrow> (ReplicaID \<times> Message list) list \<times> 'c sender" where
  "sn_run [] s = ([], s)"
| "sn_run (Enqueue msgs # es) s = sn_run es (sn_enqueue msgs s)"
| "sn_run (Drain links order # es) s =
     (case sn_drain links order s of (sent, s1) \<Rightarrow>
       (case sn_run es s1 of (sent', s2) \<Rightarrow> (sent @ sent', s2)))"

fun enqueued :: "'c sender_event list \<Rightarrow> Message list" where
  "enqueued [] = []"
| "enqueued (Enqueue msgs # es) = msgs @ enqueued es"
| "enqueued (Drain links order # es) = enqueued es"

fun drains_ok :: "ReplicaID set \<Rightarrow> 'c sender_event list \<Rightarrow> bool" where
  "drains_ok P [] = True"
| "drains_ok P (Enqueue msgs # es) = (m_To ` set msgs \<subseteq> P \<and> drains_ok P es)"
| "drains_ok P (Drain links order # es) =
     (set order = P \<and> distinct order \<and> (\<forall>to \<in> set order. link_ok (links to)) \<and> drains_ok P es)"

lemma sn_run_ok:
  assumes "drains_ok P es" and "\<forall>to \<in> P. sn_addrs s to \<noteq> None" and "p \<in> P"
  shows "sn_received p (fst (sn_run es s)) @ by_peer (sn_id s) (sn_outbox (snd (sn_run es s))) p
    = by_peer (sn_id s) (sn_outbox s @ enqueued es) p"
  using assms
proof (induction es s rule: sn_run.induct)
  case (1 s)
  then show ?case by (simp add: sn_received_def)
next
  case (2 msgs es s)
  have "sn_id (sn_enqueue msgs s) = sn_id s" "sn_outbox (sn_enqueue msgs s) = sn_outbox s @ msgs"
    "sn_addrs (sn_enqueue msgs s) = sn_addrs s" by (simp_all add: sn_enqueue_def)
  with 2 show ?case by simp
next
  case (3 links order es s)
  show ?case
  proof (cases "sn_outbox s = []")
    case True
    then have "sn_drain links order s = ([], s)" by (simp add: sn_drain_def)
    with 3 show ?thesis by (auto split: prod.splits)
  next
    case False
    obtain sent s1 where b: "sn_sendBatch links order (sn_outbox s) (s\<lparr>sn_outbox := []\<rparr>) = (sent, s1)"
      "sn_id s1 = sn_id s" "sn_outbox s1 = []" "sn_addrs s1 = sn_addrs s"
      "sn_received p sent = by_peer (sn_id s) (sn_outbox s) p"
      using sn_sendBatch_ok [of order links "s\<lparr>sn_outbox := []\<rparr>" "sn_outbox s"] "3.prems" by auto
    have d: "sn_drain links order s = (sent, s1)" using False b(1) by (simp add: sn_drain_def)
    obtain sent' s2 where r: "sn_run es s1 = (sent', s2)" by fastforce
    have "sn_received p sent' @ by_peer (sn_id s) (sn_outbox s2) p = by_peer (sn_id s) (enqueued es) p"
      using "3.IH" [OF d [symmetric]] "3.prems" b r by simp
    with d r b show ?thesis by (simp add: by_peer_append)
  qed
qed

text \<open>The library's notion of interference is the state machine's notion of conflict.\<close>

lemma nvb_interference_is_conflict:
  "Interferes (nvb_encode i c) (nvb_encode j d) \<longleftrightarrow> Conflict c d"
  by (auto simp: Interferes_def Overlaps_def Key_Equal_def nvb_encode_def keyBytes_def Conflict_def
      be_bytes_inj64)

section \<open>Properties\<close>

text \<open>C16: Through the EPaxos adapter a client is told OK only with the answer its own command gave when
  this replica executed it, and no request is answered twice, as long as a replica issues fewer than
  2 ^ 48 requests and the library delivers only commands that were proposed.\<close>

theorem nvb_clients_get_own_answers:
  assumes "k < 65536" and "nvb.issued es \<le> 2 ^ 48 - 2" and "nvb.genuine k es"
    and "(t, p) \<in> set (ad_replies (nvb_adapter_run k es))"
  shows "distinct (map fst (ad_replies (nvb_adapter_run k es)))
    \<and> (ts_OK p \<noteq> 0 \<longrightarrow> (\<exists>pre d post q. es = pre @ Ev_Apply d # post
         \<and> q = ad_requests (nvb_adapter_run k es) ! t
         \<and> d = nvb_encode (rq_id q) (pr_Command (rq_prop q))
         \<and> ts_Value p = fst (Execute (pr_Command (rq_prop q)) (ad_st (nvb_adapter_run k pre)))))"
  using nvb.reply_at_most_once [OF assms(1,2)] nvb.reply_is_own_answer [OF assms(1-3), of t p] assms(4)
  unfolding nvb_run_eq by blast

text \<open>C23: While the links work, the sender neither loses nor duplicates nor reorders: for every peer, the
  messages it received followed by those still queued for it are the messages enqueued for it, in
  order, however enqueueing and draining interleave.\<close>

theorem outbox_keeps_order:
  assumes "drains_ok P es" and "\<forall>to \<in> P. sn_addrs s to \<noteq> None" and "p \<in> P" and "sn_outbox s = []"
  shows "sn_received p (fst (sn_run es s)) @ by_peer (sn_id s) (sn_outbox (snd (sn_run es s))) p
    = by_peer (sn_id s) (enqueued es) p"
  using sn_run_ok [OF assms(1-3)] assms(4) by simp

text \<open>A send that fails loses the rest of its batch: the queue was emptied before, the messages are
  neither sent again nor put back, and only the connection is forgotten.\<close>

theorem failed_send_loses_messages:
  assumes "sn_outbox s = [m]" and "sint (m_To m) \<noteq> sn_id s" and "sn_addrs s (m_To m) = Some a"
    and "lk_dial (links (m_To m)) a = Some c" and "\<not> lk_stream (links (m_To m))"
  shows "sn_received (m_To m) (fst (sn_drain links [m_To m] s)) = []
    \<and> sn_outbox (snd (sn_drain links [m_To m] s)) = []
    \<and> sn_peers (snd (sn_drain links [m_To m] s)) (m_To m) = None"
  using assms
  by (auto simp: sn_drain_def sn_sendBatch_def by_peer_def sn_sendTo_def sn_peer_def sn_dropPeer_def sn_received_def
      split: option.splits)

text \<open>The delay added to a message lies between the configured cost and the cost plus the configured
  percentage of it; no cost means no delay.\<close>

theorem added_delay_in_range:
  assumes "\<forall>n > 0. 0 \<le> rnd n \<and> rnd n < n" and "cost \<le> 1000000" and "jitter \<le> 100"
  shows "max 0 cost * 1000000 \<le> commDelay rnd cost jitter
    \<and> commDelay rnd cost jitter \<le> max 0 cost * 1000000 + max 0 cost * 1000000 * max 0 jitter div 100"
proof (cases "cost \<le> 0")
  case False
  have b: "wrap64 (cost * 1000000) = cost * 1000000" using assms (2) False by (simp add: wrap64_id)
  show ?thesis
  proof (cases "jitter \<le> 0")
    case True
    with False b show ?thesis by (simp add: commDelay_def)
  next
    case j: False
    let ?b = "cost * 1000000"
    have bj: "0 \<le> ?b * jitter" using False j by (intro mult_nonneg_nonneg) simp_all
    have "?b * jitter \<le> ?b * 100" using assms (3) False by (intro mult_left_mono) simp_all
    then have le: "?b * jitter \<le> 100000000000000" using assms (2) by simp
    then have w: "wrap64 (?b * jitter) = ?b * jitter" using bj by (simp add: wrap64_id)
    let ?m = "?b * jitter div 100"
    have m: "0 \<le> ?m" "?m \<le> 1000000000000" using bj le by simp_all
    have g: "go_div (?b * jitter) 100 = ?m" using bj by (simp add: go_div_def)
    have wm: "wrap64 (?m + 1) = ?m + 1" using m by (simp add: wrap64_id)
    have "0 < ?m + 1" using m by simp
    with assms (1) have r: "0 \<le> rnd (?m + 1)" "rnd (?m + 1) < ?m + 1" by blast+
    then have "wrap64 (?b + rnd (?m + 1)) = ?b + rnd (?m + 1)"
      using m assms (2) False by (simp add: wrap64_id)
    then have "commDelay rnd cost jitter = ?b + rnd (?m + 1)"
      using False j unfolding commDelay_def b w g wm Let_def by simp
    with r False j show ?thesis by simp
  qed
qed (simp add: commDelay_def)

section \<open>Witnesses\<close>

definition nvb_put :: "u64 \<Rightarrow> u64 \<Rightarrow> Propose" where
  "nvb_put key v =
     \<lparr>pr_CommandId = 4, pr_Command = \<lparr>cmd_Op = PUT, cmd_K = key, cmd_V = v\<rparr>, pr_Timestamp = 9\<rparr>"

definition nvb_events :: "NCommand event list" where
  "nvb_events =
     [Ev_Propose (nvb_put 5 6) 100 False,
      Ev_Apply (nvb_encode (nvb_ident 2 1) (pr_Command (nvb_put 5 7))),
      Ev_Apply (nvb_encode (nvb_ident 1 1) (pr_Command (nvb_put 5 6))),
      Ev_Receive 0]"

lemma nvb_events_run:
  "ad_replies (nvb_adapter_run 1 nvb_events) = [(0, \<lparr>ts_OK = 1, ts_CommandId = 4, ts_Value = 6, ts_Timestamp = 100\<rparr>)]"
  "ad_proposed (nvb_adapter_run 1 nvb_events) = [nvb_encode (nvb_ident 1 1) (pr_Command (nvb_put 5 6))]"
  "pr_Command (rq_prop (ad_requests (nvb_adapter_run 1 nvb_events) ! 0)) = pr_Command (nvb_put 5 6)"
  by code_simp+

lemma nvb_genuine: "nvb.genuine 1 nvb_events"
proof -
  have "d \<in> set (ad_proposed (nvb_adapter_run 1 nvb_events))
      \<or> (\<exists>j n c. j < 65536 \<and> j \<noteq> 1 \<and> 0 < n \<and> n \<le> 2 ^ 48 - 2 \<and> d = nvb_encode (nvb_ident j n) c)"
    if "Ev_Apply d \<in> set nvb_events" for d
  proof -
    from that consider "d = nvb_encode (nvb_ident 2 1) (pr_Command (nvb_put 5 7))"
      | "d = nvb_encode (nvb_ident 1 1) (pr_Command (nvb_put 5 6))"
      by (auto simp: nvb_events_def)
    then show ?thesis
    proof cases
      case 1
      then have "(2::nat) < 65536 \<and> (2::nat) \<noteq> 1 \<and> 0 < (1::nat) \<and> (1::nat) \<le> 2 ^ 48 - 2
          \<and> d = nvb_encode (nvb_ident 2 1) (pr_Command (nvb_put 5 7))" by simp
      then show ?thesis by blast
    next
      case 2
      then show ?thesis by (simp only: nvb_events_run) simp
    qed
  qed
  then show ?thesis unfolding nvb.genuine_def nvb_run_eq [symmetric] by blast
qed

lemma nvb_clients_get_own_answers_witness:
  "\<exists>pre d post. nvb_events = pre @ Ev_Apply d # post
     \<and> (6 :: u64) = fst (Execute (pr_Command (nvb_put 5 6)) (ad_st (nvb_adapter_run 1 pre)))"
proof -
  have k: "(1::nat) < 65536" by simp
  have i: "nvb.issued nvb_events \<le> 2 ^ 48 - 2" by (simp add: nvb.issued_def nvb_events_def)
  have m: "(0, \<lparr>ts_OK = 1, ts_CommandId = 4, ts_Value = 6, ts_Timestamp = 100\<rparr>)
      \<in> set (ad_replies (nvb_adapter_run 1 nvb_events))" by (simp only: nvb_events_run) simp
  from nvb_clients_get_own_answers [OF k i nvb_genuine m] nvb_events_run(3) show ?thesis by auto
qed

definition good_link :: "unit link" where
  "good_link = \<lparr>lk_dial = (\<lambda>_. Some ()), lk_stream = True, lk_fail_at = None, lk_close = True\<rparr>"

definition sample_sender :: "unit sender" where
  "sample_sender =
     \<lparr>sn_id = 0, sn_outbox = [], sn_wake = False, sn_peers = Map.empty, sn_addrs = (\<lambda>_. Some ''h:6000'')\<rparr>"

definition sample_message :: "ReplicaID \<Rightarrow> Message" where
  "sample_message to =
     \<lparr>m_To = to, m_Ballot = zero_Ballot, m_InstanceID = IID 0 1, m_Type = MPreAcceptOK\<rparr>"

definition sample_sender_events :: "unit sender_event list" where
  "sample_sender_events =
     [Enqueue [sample_message 1, sample_message 2], Drain (\<lambda>_. good_link) [2, 1],
      Enqueue [sample_message 1]]"

lemma outbox_keeps_order_witness:
  "sn_received 1 (fst (sn_run sample_sender_events sample_sender))
     @ by_peer 0 (sn_outbox (snd (sn_run sample_sender_events sample_sender))) 1
   = by_peer 0 [sample_message 1, sample_message 2, sample_message 1] 1"
proof -
  have l: "link_ok good_link" by (simp add: link_ok_def good_link_def)
  have d: "drains_ok {1, 2} sample_sender_events"
    using l by (auto simp: sample_sender_events_def sample_message_def)
  have a: "\<forall>to \<in> {1, 2}. sn_addrs sample_sender to \<noteq> None" by (simp add: sample_sender_def)
  have s: "sn_outbox sample_sender = []" "sn_id sample_sender = 0" by (simp_all add: sample_sender_def)
  show ?thesis
    using outbox_keeps_order [OF d a _ s(1), of 1] by (simp add: s sample_sender_events_def)
qed

lemma failed_send_loses_messages_witness:
  "sn_outbox (snd (sn_drain (\<lambda>_. good_link\<lparr>lk_stream := False\<rparr>) [1]
     (sn_enqueue [sample_message 1] sample_sender))) = []"
  using failed_send_loses_messages [of "sn_enqueue [sample_message 1] sample_sender" "sample_message 1"
    "''h:6000''" "\<lambda>_. good_link\<lparr>lk_stream := False\<rparr>" "()"]
  by (simp add: sn_enqueue_def sample_sender_def sample_message_def good_link_def)

lemma added_delay_in_range_witness:
  "25000000 \<le> commDelay (\<lambda>n. n div 2) 25 10 \<and> commDelay (\<lambda>n. n div 2) 25 10 \<le> 27500000"
proof -
  have "\<forall>n > 0. 0 \<le> n div 2 \<and> n div 2 < (n :: int)" by auto
  from added_delay_in_range [OF this, of 25 10] show ?thesis by simp
qed

end
