(* ===== verification/Nvb_Replicas.thy ===== *)
theory Nvb_Replicas
  imports Nvb_Props Adapter_Nvb
begin

text \<open>
  Several EPaxos replicas driving the key/value machine: the library of \<^verbatim>\<open>nvb-epaxos\<close> hands its executed
  commands to the adapter, which executes them. When the replicas decided the same things about the
  same instances, they end with the same store and give the same answers, whatever the order in which
  the decisions reached them.
\<close>

section \<open>What the replicas decided\<close>

text \<open>The command of a client inside an instance.\<close>

definition client_command :: "epaxos \<Rightarrow> InstanceID \<Rightarrow> Command" where
  "client_command p d = snd (the (nvb_decode (the (command_at p d))))"

definition from_clients :: "epaxos \<Rightarrow> bool" where
  "from_clients p \<longleftrightarrow> (\<forall>d. status_at p d = Some Executed \<longrightarrow> (\<exists>i c. command_at p d = Some (nvb_encode i c)))"

text \<open>The replicas executed the same instances and agree on the command, the sequence number and the
  dependencies of each: what the protocol's commit messages carry.\<close>

definition same_decisions :: "epaxos \<Rightarrow> epaxos \<Rightarrow> bool" where
  "same_decisions p q \<longleftrightarrow>
     (\<forall>d. status_at p d = Some Executed \<longleftrightarrow> status_at q d = Some Executed)
     \<and> (\<forall>d i j. status_at p d = Some Executed \<longrightarrow> inst_at p d = Some i \<longrightarrow> inst_at q d = Some j
          \<longrightarrow> is_Data (in_is i) = is_Data (in_is j))"

text \<open>Of two interfering instances one depends on the other, and two of the same replica have different
  sequence numbers: what \<^verbatim>\<open>seqAndDepsForCommand\<close> at a quorum establishes.\<close>

definition conflicts_ordered :: "epaxos \<Rightarrow> bool" where
  "conflicts_ordered p \<longleftrightarrow>
     (\<forall>d e i j c c'. status_at p d = Some Executed \<longrightarrow> status_at p e = Some Executed \<longrightarrow> d \<noteq> e \<longrightarrow>
        inst_at p d = Some i \<longrightarrow> inst_at p e = Some j \<longrightarrow> in_Command i = Some c \<longrightarrow> in_Command j = Some c' \<longrightarrow>
        Interferes c c' \<longrightarrow>
        (e \<in> set (Dependencies p d) \<or> d \<in> set (Dependencies p e))
        \<and> (iid_rep d = iid_rep e \<longrightarrow> in_SeqNum i \<noteq> in_SeqNum j))"

section \<open>Facts\<close>

lemma before_map:
  assumes "before (map f xs) a b"
  shows "\<exists>x y. before xs x y \<and> a = f x \<and> b = f y"
  using assms by (induction xs) auto

lemma before_mapI: "before xs x y \<Longrightarrow> before (map f xs) (f x) (f y)"
  by (induction xs) auto

lemma before_total: "x \<in> set xs \<Longrightarrow> y \<in> set xs \<Longrightarrow> x \<noteq> y \<Longrightarrow> before xs x y \<or> before xs y x"
  by (induction xs) auto

lemma apply_command_state:
  "ad_st (apply_command decode d r) =
     (case decode d of None \<Rightarrow> ad_st r | Some (i, c) \<Rightarrow> snd (Execute c (ad_st r)))"
  by (auto simp: apply_command_def Let_def split: option.split prod.split)

lemma nvb_execute_run_log:
  assumes "\<forall>d \<in> set h. \<exists>i c. command_at p d = Some (nvb_encode i c)"
  shows "ad_st (nvb_execute (map (\<lambda>d. the (command_at p d)) h) r)
    = snd (run_log Execute (map (\<lambda>d. (d, client_command p d)) h) (ad_st r))"
  using assms
proof (induction h arbitrary: r)
  case (Cons d h)
  from Cons.prems obtain i c where c: "command_at p d = Some (nvb_encode i c)" by auto
  let ?r = "apply_command nvb_decode (the (command_at p d)) r"
  have "ad_st ?r = snd (Execute (client_command p d) (ad_st r))"
    by (simp add: apply_command_state c nvb_decode_encode client_command_def)
  with Cons.IH [of ?r] Cons.prems show ?case by (simp add: nvb_execute_def)
qed (simp add: nvb_execute_def)

text \<open>Same decisions, read through the executor's view.\<close>

lemma same_decisions_sym: "same_decisions p q \<Longrightarrow> same_decisions q p"
  unfolding same_decisions_def by metis

lemma decided_instances:
  assumes "same_decisions p q" and "status_at p d = Some Executed"
  obtains i j where "inst_at p d = Some i" "inst_at q d = Some j" "is_Data (in_is i) = is_Data (in_is j)"
    "Dependencies q d = Dependencies p d" "command_at q d = command_at p d" "is_executed q d"
proof -
  from assms obtain i j where
    i: "inst_at p d = Some i" "inst_at q d = Some j" and x: "status_at q d = Some Executed"
    unfolding same_decisions_def status_at_def by (metis map_option_eq_Some)
  with assms have "is_Data (in_is i) = is_Data (in_is j)" unfolding same_decisions_def by blast
  with i x that show ?thesis by (simp add: Dependencies_def command_at_def is_executed_def)
qed

lemma decided_closure:
  assumes "same_decisions p q" and "executed_closed p" and "status_at p d = Some Executed"
  shows "dep_closure q d = dep_closure p d"
  by (rule dep_closure_cong)
    (use assms decided_instances [OF assms(1)] in \<open>auto simp: is_executed_def\<close>)

text \<open>Two replicas never run an interfering pair in opposite orders.\<close>

lemma conflicting_order_agrees:
  assumes dec: "same_decisions p q" and ord: "conflicts_ordered p"
    and closed: "executed_closed p" "executed_closed q"
    and hp: "execution_log xs p hp" and hq: "execution_log ys q hq"
    and b: "before hp d e" "d \<noteq> e"
    and cc: "command_at p d = Some c" "command_at p e = Some c'" "Interferes c c'"
  shows "before hq d e"
proof (rule ccontr)
  assume n: "\<not> before hq d e"
  have ex: "status_at p d = Some Executed" "status_at p e = Some Executed"
    using before_in_set [OF b(1)] hp by (auto simp: execution_log_def)
  then have "d \<in> set hq" "e \<in> set hq" using dec hq by (auto simp: same_decisions_def execution_log_def)
  with before_total [of d hq e] n b(2) have b': "before hq e d" by blast
  from decided_instances [OF dec ex(1)] obtain i i' where
    i: "inst_at p d = Some i" "inst_at q d = Some i'" "is_Data (in_is i) = is_Data (in_is i')"
      "Dependencies q d = Dependencies p d" by metis
  from decided_instances [OF dec ex(2)] obtain j j' where
    j: "inst_at p e = Some j" "inst_at q e = Some j'" "is_Data (in_is j) = is_Data (in_is j')"
      "Dependencies q e = Dependencies p e" by metis
  have ids: "in_ID i = d" "in_ID i' = d" "in_ID j = e" "in_ID j' = e"
    using closed i(1,2) j(1,2) by (auto simp: executed_closed_def)
  have "in_Command i = Some c" "in_Command j = Some c'" using cc i(1) j(1) by (simp_all add: command_at_def)
  with ord ex b(2) i(1) j(1) cc(3) have
    o: "e \<in> set (Dependencies p d) \<or> d \<in> set (Dependencies p e)"
      "iid_rep d = iid_rep e \<longrightarrow> in_SeqNum i \<noteq> in_SeqNum j"
    unfolding conflicts_ordered_def by blast+
  note cl = decided_closure [OF dec closed(1)]
  have pq: "e \<in> dep_closure p d \<longrightarrow> d \<in> dep_closure p e \<and> \<not> ExecutesBefore p e d"
    "d \<in> dep_closure p e \<longrightarrow> e \<in> dep_closure p d \<and> \<not> ExecutesBefore q d e"
    using hp hq b(1) b' cl [OF ex(1)] cl [OF ex(2)] unfolding execution_log_def by (blast, metis)
  moreover have "e \<in> dep_closure p d \<or> d \<in> dep_closure p e"
    using o(1) by (auto simp: dep_closure_def)
  ultimately have "\<not> ExecutesBefore p e d" "\<not> ExecutesBefore q d e" by blast+
  with i j ids o(2) show False by (auto simp: ExecutesBefore_def split: if_splits)
qed

lemma same_decisions_converge:
  assumes dec: "same_decisions p q" and ord: "conflicts_ordered p" and cl: "from_clients p"
    and closed: "executed_closed p" "executed_closed q"
    and hp: "execution_log xs p hp" and hq: "execution_log ys q hq"
  shows "run_log Execute (map (\<lambda>d. (d, client_command p d)) hp) st
    = run_log Execute (map (\<lambda>d. (d, client_command q d)) hq) st"
proof -
  have ex: "status_at p d = Some Executed \<longleftrightarrow> d \<in> set hp" "status_at q d = Some Executed \<longleftrightarrow> d \<in> set hq" for d
    using hp hq unfolding execution_log_def by blast+
  have sets: "set hq = set hp" using dec ex unfolding same_decisions_def by blast
  have cmd: "client_command q d = client_command p d" if "d \<in> set hp" for d
  proof -
    from that ex have "status_at p d = Some Executed" by blast
    from decided_instances [OF dec this] have "command_at q d = command_at p d" by metis
    then show ?thesis by (simp add: client_command_def)
  qed
  show ?thesis
  proof (rule kv.conflict_order_determines_run)
    have "distinct hp" "distinct hq" using hp hq unfolding execution_log_def by blast+
    then show "distinct (map fst (map (\<lambda>d. (d, client_command p d)) hp))"
      "distinct (map fst (map (\<lambda>d. (d, client_command q d)) hq))"
      by (simp_all add: comp_def)
    show "set (map (\<lambda>d. (d, client_command p d)) hp) = set (map (\<lambda>d. (d, client_command q d)) hq)"
      using cmd by (simp add: sets)
    fix d c e c'
    assume cf: "Conflict c c'" and b: "before (map (\<lambda>d. (d, client_command p d)) hp) (d, c) (e, c')"
    from before_map [OF b] have bh: "before hp d e" and c: "c = client_command p d" "c' = client_command p e" by auto
    then have in_h: "d \<in> set hp" "e \<in> set hp" using before_in_set by metis+
    with cl ex obtain k a l a' where a: "command_at p d = Some (nvb_encode k a)" "command_at p e = Some (nvb_encode l a')"
      unfolding from_clients_def by metis
    with c have "c = a" "c' = a'" by (simp_all add: client_command_def nvb_decode_encode)
    with cf have "Interferes (nvb_encode k a) (nvb_encode l a')" by (simp add: nvb_interference_is_conflict)
    moreover have "d \<noteq> e" using bh before_antisym [of hp d e] hp by (auto simp: execution_log_def)
    ultimately have "before hq d e" using conflicting_order_agrees [OF dec ord closed hp hq bh _ a] by blast
    from before_mapI [OF this, of "\<lambda>d. (d, client_command q d)"] c cmd in_h
    show "before (map (\<lambda>d. (d, client_command q d)) hq) (d, c) (e, c')" by simp
  qed
qed

lemma decided_from_clients:
  assumes dec: "same_decisions p q" and cl: "from_clients p"
  shows "from_clients q"
  unfolding from_clients_def
proof (intro allI impI)
  fix d assume "status_at q d = Some Executed"
  then have d: "status_at p d = Some Executed" using dec by (simp add: same_decisions_def)
  from decided_instances [OF dec d] have "command_at q d = command_at p d" by metis
  with cl d show "\<exists>i c. command_at q d = Some (nvb_encode i c)" by (auto simp: from_clients_def)
qed

lemma execute_execution_log:
  assumes "execution_log cmds p h" and "from_clients p"
  shows "ad_st (nvb_execute cmds r) = snd (run_log Execute (map (\<lambda>d. (d, client_command p d)) h) (ad_st r))"
  using nvb_execute_run_log [of h p r] assms unfolding execution_log_def from_clients_def by auto

lemma run_closed:
  assumes "newEPaxos ord rord c = Inr p0" and "c_Storage c = None" and "\<forall>xs. set (rord xs) = set xs"
    and "is_map_order ord" and "events_ok ops ord p0 evs" and "node_run ops ord evs p0 = Inr p"
  shows "executed_closed p"
proof -
  have "nvb_inv p0" using start_inv [OF assms(1,2)] assms(3) by blast
  from node_run_safe [OF this assms(4,5)] assms(6) show ?thesis by (auto intro: core_inv_closed)
qed

section \<open>Two replicas that learn of two writes in opposite orders\<close>

definition replica_node :: "ReplicaID \<Rightarrow> Config" where
  "replica_node k = \<lparr>c_ID = k, c_Nodes = [1, 2, 3], c_Storage = None\<rparr>"

definition write_7 :: "u64 \<Rightarrow> u64 \<Rightarrow> NCommand" where
  "write_7 i v = nvb_encode i \<lparr>cmd_Op = PUT, cmd_K = 7, cmd_V = v\<rparr>"

definition commit_of :: "InstanceID \<Rightarrow> ReplicaID \<Rightarrow> NCommand \<Rightarrow> SeqNum \<Rightarrow> InstanceID list \<Rightarrow> node_event" where
  "commit_of d to c s ds = EvStep (from_to d to (MCommit \<lparr>id_Command = Some c, id_SeqNum = s, id_Deps = ds\<rparr>))"

definition first_events :: "node_event list" where
  "first_events =
     [EvPropose (write_7 5 1), EvStep (from_to (IID 1 1) 1 MPreAcceptOK), EvReady,
      commit_of (IID 2 1) 1 (write_7 6 2) 2 [IID 1 1]]"

definition third_events :: "node_event list" where
  "third_events =
     [commit_of (IID 2 1) 3 (write_7 6 2) 2 [IID 1 1], EvTick, commit_of (IID 1 1) 3 (write_7 5 1) 1 [], EvReady]"

definition node_start :: "ReplicaID \<Rightarrow> epaxos" where
  "node_start k = projr (newEPaxos id id (replica_node k))"

definition node_end :: "ReplicaID \<Rightarrow> node_event list \<Rightarrow> epaxos" where
  "node_end k evs = projr (node_run list_ops id evs (node_start k))"

definition both_executed :: "epaxos \<Rightarrow> bool" where
  "both_executed p \<longleftrightarrow>
     map (\<lambda>d. map_option (\<lambda>i. (in_Status i, is_Data (in_is i))) (inst_at p d)) [IID 1 1, IID 2 1]
       = [Some (Executed, \<lparr>id_Command = Some (write_7 5 1), id_SeqNum = 1, id_Deps = []\<rparr>),
          Some (Executed, \<lparr>id_Command = Some (write_7 6 2), id_SeqNum = 2, id_Deps = [IID 1 1]\<rparr>)]
     \<and> map (\<lambda>r. map_option (map in_num) (p_commands p r)) [1, 2, 3] = [Some [1], Some [1], Some []]"

lemma node_starts: "newEPaxos id id (replica_node 1) = Inr (node_start 1)"
  "newEPaxos id id (replica_node 3) = Inr (node_start 3)"
proof -
  have "\<not> isl (newEPaxos id id (replica_node 1))" "\<not> isl (newEPaxos id id (replica_node 3))" by code_simp+
  then show "newEPaxos id id (replica_node 1) = Inr (node_start 1)"
    "newEPaxos id id (replica_node 3) = Inr (node_start 3)"
    by (simp_all add: node_start_def)
qed

lemma node_ends: "node_run list_ops id first_events (node_start 1) = Inr (node_end 1 first_events)"
  "node_run list_ops id third_events (node_start 3) = Inr (node_end 3 third_events)"
proof -
  have "\<not> isl (node_run list_ops id first_events (node_start 1))"
    "\<not> isl (node_run list_ops id third_events (node_start 3))" by code_simp+
  then show "node_run list_ops id first_events (node_start 1) = Inr (node_end 1 first_events)"
    "node_run list_ops id third_events (node_start 3) = Inr (node_end 3 third_events)"
    by (simp_all add: node_end_def)
qed

lemma node_events_ok: "events_ok list_ops id (node_start 1) first_events"
  "events_ok list_ops id (node_start 3) third_events"
  by code_simp+

lemma node_both_executed: "both_executed (node_end 1 first_events)" "both_executed (node_end 3 third_events)"
  by code_simp+

lemma both_executed_inst:
  assumes "nvb_wf p" and "set (p_nodes p) = {1, 2, 3}" and "both_executed p" and "inst_at p d = Some i"
  shows "in_Status i = Executed
    \<and> (d = IID 1 1 \<and> is_Data (in_is i) = \<lparr>id_Command = Some (write_7 5 1), id_SeqNum = 1, id_Deps = []\<rparr>
       \<or> d = IID 2 1 \<and> is_Data (in_is i) = \<lparr>id_Command = Some (write_7 6 2), id_SeqNum = 2, id_Deps = [IID 1 1]\<rparr>)"
proof -
  from assms(4) obtain t where t: "p_commands p (iid_rep d) = Some t" "bt_get in_num (iid_num d) t = Some i"
    by (auto simp: inst_at_def split: option.splits)
  from bt_get_Some [OF t(2)] have n: "i \<in> set t" "in_num i = iid_num d" by auto
  have "iid_rep d \<in> {1, 2, 3}" using wf_inst_at(2) [OF assms(1,4)] assms(2) by blast
  then have "d = IID 1 1 \<or> d = IID 2 1"
    using t(1) n assms(3) by (cases d) (auto simp: both_executed_def)
  then show ?thesis using assms(3,4) by (auto simp: both_executed_def)
qed

lemma both_executed_facts:
  assumes "nvb_wf p" "set (p_nodes p) = {1, 2, 3}" "both_executed p"
    and "nvb_wf q" "set (p_nodes q) = {1, 2, 3}" "both_executed q"
  shows "same_decisions p q" and "conflicts_ordered p" and "from_clients p"
proof -
  note P = both_executed_inst [OF assms(1-3)] and Q = both_executed_inst [OF assms(4-6)]
  have ex: "status_at r d = Some Executed \<longleftrightarrow> d = IID 1 1 \<or> d = IID 2 1"
    if "nvb_wf r" "set (p_nodes r) = {1, 2, 3}" "both_executed r" for r d
    using both_executed_inst [OF that, of d] that(3) by (auto simp: status_at_def both_executed_def)
  show "same_decisions p q"
    using ex [OF assms(1-3)] ex [OF assms(4-6)] P Q unfolding same_decisions_def by fastforce
  show "from_clients p"
    using P unfolding from_clients_def status_at_def command_at_def write_7_def by fastforce
  show "conflicts_ordered p"
    unfolding conflicts_ordered_def
  proof (intro allI impI)
    fix d e i j c c' assume "d \<noteq> e" and i: "inst_at p d = Some i" "inst_at p e = Some j"
    with P [OF i(1)] P [OF i(2)]
    show "(e \<in> set (Dependencies p d) \<or> d \<in> set (Dependencies p e))
        \<and> (iid_rep d = iid_rep e \<longrightarrow> in_SeqNum i \<noteq> in_SeqNum j)"
      by (auto simp: Dependencies_def)
  qed
qed

lemma node_end_facts:
  assumes "k \<in> {1, 3}" and "newEPaxos id id (replica_node k) = Inr (node_start k)"
    and "events_ok list_ops id (node_start k) evs" and "node_run list_ops id evs (node_start k) = Inr (node_end k evs)"
  shows "nvb_wf (node_end k evs) \<and> set (p_nodes (node_end k evs)) = {1, 2, 3}"
proof -
  have c: "c_ID (replica_node k) \<in> set (c_Nodes (replica_node k))" "c_Storage (replica_node k) = None"
    using assms(1) by (auto simp: replica_node_def)
  from newEPaxos_inv [OF c, of id id] assms(2) have s: "nvb_inv (node_start k)" "p_nodes (node_start k) = [1, 2, 3]"
    by (auto simp: replica_node_def)
  from node_run_safe [OF s(1) id_map_order(1) assms(3)] assms(4) s(2) show ?thesis
    by (auto simp: keeps_def intro: inv_wf)
qed

end
