(* ===== verification/Spec2Isabelle.thy ===== *)
theory Spec2Isabelle
  imports Epx_Order Runner_Manifest Runner_Notes Lab_Client Lab_Correctness Lab_Master Adapter_Etcd Adapter_Server Etcd_Node Nvb_Replicas
begin

text \<open>
  A verification library for the Go code of the leader/leaderless consensus comparison
  (\<^verbatim>\<open>lab/\<close>): a benchmark that runs the same key/value workload over Raft (two implementations) and
  EPaxos (two implementations) and compares them.

  \<^bold>\<open>The program.\<close> A \<^emph>\<open>runner\<close> expands an experiment matrix into configurations, schedules them and
  executes each run: it starts a master, the replicas and one client in containers, optionally kills or
  isolates a replica, and judges what the run left behind. A \<^emph>\<open>replica\<close> is an adapter between the
  benchmark's client protocol and a consensus library; the library orders commands and the adapter
  executes them on the key/value machine and answers the client that proposed them. The \<^emph>\<open>master\<close>
  hands out replica ids and, for Raft, reports the leader. The \<^emph>\<open>correctness harness\<close> drives a run
  with known requests and compares the replicas' states with what the client was told.

  \<^bold>\<open>Theories and code.\<close>

  \<^item> \<^verbatim>\<open>Prelude\<close>, \<^verbatim>\<open>Float64\<close>, \<^verbatim>\<open>Wire_Codec\<close>: words and byte streams, 64-bit wrap-around
    (\<open>wrap64\<close>), decimal numerals, IEEE rounding, and the locale every wire message satisfies.
  \<^item> \<^verbatim>\<open>Lab_State\<close> (\<^verbatim>\<open>internal/state\<close>), \<^verbatim>\<open>Lab_Proto\<close> (\<^verbatim>\<open>internal/proto\<close>): the replicated
    machine and the client messages with their encodings. \<^verbatim>\<open>Lab_Config\<close> (\<^verbatim>\<open>internal/labcfg\<close>): the
    configuration and \<^verbatim>\<open>Validate\<close>.
  \<^item> \<^verbatim>\<open>Nvb_Types\<close>, \<^verbatim>\<open>Nvb_Tarjan\<close>, \<^verbatim>\<open>Nvb_State\<close>, \<^verbatim>\<open>Nvb_Core\<close>: the EPaxos library under
    \<^verbatim>\<open>upstream/nvb-epaxos/epaxos\<close>; its data, the dependency sort, the state of one replica, and its
    operations. The node's loop is a fold over an arbitrary list of events. \<^verbatim>\<open>Nvb_Execute\<close> describes a
    run of the executor, \<^verbatim>\<open>Nvb_Safety\<close> holds the invariant of a replica and its preservation,
    \<^verbatim>\<open>Nvb_Props\<close> and \<^verbatim>\<open>Nvb_Replicas\<close> the resulting properties of one and of several replicas.
  \<^item> \<^verbatim>\<open>Adapter_Pending\<close>, \<^verbatim>\<open>Adapter_Etcd\<close>, \<^verbatim>\<open>Etcd_Wal\<close>, \<^verbatim>\<open>Etcd_Node\<close>
    (\<^verbatim>\<open>adapters/etcdraft\<close>), \<^verbatim>\<open>Adapter_Nvb\<close> (\<^verbatim>\<open>adapters/nvbepaxos\<close>), \<^verbatim>\<open>Adapter_Raft\<close>
    (\<^verbatim>\<open>adapters/raft\<close>), \<^verbatim>\<open>Adapter_Server\<close> (the connection loop all three share).
  \<^item> \<^verbatim>\<open>Lab_Client\<close> (\<^verbatim>\<open>client/main.go\<close>), \<^verbatim>\<open>Lab_Master\<close> (\<^verbatim>\<open>master/raft/main.go\<close>),
    \<^verbatim>\<open>Lab_Correctness\<close> (\<^verbatim>\<open>runner/correctness.go\<close>).
  \<^item> \<^verbatim>\<open>Epx_State\<close>, \<^verbatim>\<open>Epx_Core\<close>, \<^verbatim>\<open>Epx_Recovery\<close>, \<^verbatim>\<open>Epx_Exec\<close>: the original EPaxos replica under
    \<^verbatim>\<open>upstream/epaxos/src/epaxos\<close>; its data and helpers, the handlers of the two phases, recovery and the main
    loop, the execution thread. \<^verbatim>\<open>Epx_System\<close> puts replicas and messages together, \<^verbatim>\<open>Epx_Faults\<close> evaluates
    runs that go wrong. \<^verbatim>\<open>Epx_Wire\<close> (\<^verbatim>\<open>epaxosprotomarsh.go\<close>) holds the encodings of its messages,
    \<^verbatim>\<open>Epx_Link\<close> (\<^verbatim>\<open>genericsmr.go\<close>) the connection between two replicas, \<^verbatim>\<open>Epx_Wide\<close> what a fault in the
    encodings does. \<^verbatim>\<open>Epx_Effects\<close> says what each handler may change, \<^verbatim>\<open>Epx_Leader\<close> and
    \<^verbatim>\<open>Epx_Agree\<close> derive that without recovery replicas never disagree on a committed instance;
    \<^verbatim>\<open>Epx_Attributes\<close> (what a replica finds when it looks for conflicts), \<^verbatim>\<open>Epx_Votes\<close> (what casting a
    vote and creating an instance do), \<^verbatim>\<open>Epx_Quorum\<close> (who took part in an instance) and \<^verbatim>\<open>Epx_Order\<close> derive
    that conflicting commits are ordered by their dependencies.
  \<^item> \<^verbatim>\<open>Runner_Ident\<close> (\<^verbatim>\<open>runner/build.go\<close>, parts of \<^verbatim>\<open>run.go\<close>, \<^verbatim>\<open>manifest.go\<close>,
    \<^verbatim>\<open>compose.go\<close>): run identifiers, seeds and attempt directories. \<^verbatim>\<open>Runner_Plan\<close>
    (\<^verbatim>\<open>runner/cli.go\<close>): the matrix and its expansion, the dry run and the blocked schedule.
    \<^verbatim>\<open>Runner_Compose\<close> (\<^verbatim>\<open>compose.go\<close>): the command lines of the containers and how the client reads
    its own. \<^verbatim>\<open>Runner_Netem\<close> (\<^verbatim>\<open>netem.go\<close>): the network emulation. \<^verbatim>\<open>Runner_Run\<close> (\<^verbatim>\<open>run.go\<close>): one
    run from its configuration to its metadata, over a dataset of run directories; a \<open>run_world\<close> holds
    what Docker, the master, the client and the clock answer. \<^verbatim>\<open>Runner_Notes\<close>: what the metadata says
    about the implementation. \<^verbatim>\<open>Runner_Batch\<close> (\<^verbatim>\<open>runConfigs\<close>): a batch, proved against the locale
    \<open>executor\<close> and interpreted by the run of \<^verbatim>\<open>Runner_Run\<close>. \<^verbatim>\<open>Runner_Manifest\<close> (\<^verbatim>\<open>manifest.go\<close>):
    the manifest rebuilt from a dataset and the replacement of runs.

  Goroutines that share state are steps of an explicit schedule, over which the theorems quantify: the
  client's workers, the node's events, proposals, applications and timeouts of an adapter, drains of
  the outbox. Mutexes appear as the atomicity of a step. Errors and panics are constructors of result
  types; a struct is a record with the source's fields, \<^verbatim>\<open>int\<close> and \<^verbatim>\<open>int64\<close> are \<^typ>\<open>int\<close> with
  \<open>wrap64\<close> where a sum or product may leave the range, identifiers and ballots are words where their
  bytes or wrap-around matter.

  \<^bold>\<open>What is shown.\<close> For the EPaxos library: no event of a run panics, statuses only advance and a
  committed instance is final; the dependency sort returns the strongly connected components in
  dependency order; the application receives each executed instance once, dependencies first, and two
  replicas that executed the same decided instances hold the same store, whatever order their events
  came in. For the adapters: each client is answered at most once and with the result of its own
  command; the write-ahead log restores what was appended; nothing is answered before it is in the
  log; a snapshot plus the rest of the log equals the whole log. For the harness: a passing test means
  the answered writes are stored at a majority, a healthy cluster passes, and the situations in which
  it nevertheless passes wrongly or fails wrongly are stated as theorems of kind \<^emph>\<open>error\<close>.
  For the runner: identifiers determine the condition a run measures, directories of completed runs are
  never reused or changed, the schedule is blocked whatever the random source draws; a successful run has
  usable data and, if a fault was configured, a logged injection and a recovered cluster; the client works
  with the configuration it is started for; a delayed run has its delay on every replica; a resumed batch
  repeats nothing; the manifest accounts for every completed run and a replaced run is settled. Where the
  runner records something that is not so, a theorem of kind \<^emph>\<open>error\<close> gives the situation.

  For the original EPaxos replica: as long as no replica recovers an instance of another one, an instance
  is committed with one sequence number, one set of dependencies and one list of commands everywhere and
  for ever (\<open>committed_instances_agree\<close>), whatever the network does. With at most five replicas, of two committed instances with one command each on
  one key, at least one depends on the other (\<open>conflicting_commits_are_ordered\<close>). The bounds are needed: the same
  code is shown to go wrong with seven replicas, with recovery, with batches and with concurrent
  conflicting writes.

  \<^bold>\<open>Bounds and fuel.\<close> The attempt-directory loop has fuel one more than the number of existing
  entries, and is shown never to run out; the dependency sort has fuel from the size of its graph, and
  the same is shown there. The float rounding has no overflow to infinity, which configuration values
  do not reach.

  \<^bold>\<open>Parameters.\<close> Third-party consensus cores (\<^verbatim>\<open>go.etcd.io/raft\<close>, \<^verbatim>\<open>hashicorp/raft\<close>), the
  range tree behind the EPaxos command log, Docker, RPC and gRPC transports, clocks, file-system errors
  and random sources are arguments of the definitions, with their documented behaviour as named
  hypotheses.

  \<^bold>\<open>Not modelled.\<close>
  The protocols beside the original EPaxos (paxos, mencius, gpaxos), which the benchmark never starts, and its start-up,
  connection and statistics code; the gRPC transport and demo of the
  EPaxos library; the resource monitor; generated marshalling code; the smoke and validate commands of
  the runner, and the input/output around the modelled parts (Docker and compose calls, the template of
  the compose file, JSON files, flag parsing of the commands). The Python report is outside the Go program.
\<close>

section \<open>Replicas of the EPaxos protocol behind their adapters\<close>


section \<open>The correctness harness and the client it drives\<close>


definition client_run :: "unit cstate" where
  "client_run = runCorrectness Lab_Client.sample_config 3 3 sample_schedule Lab_Client.sample_start"

definition client_cluster :: cluster where
  "client_cluster =
     \<lparr>k_render = None, k_up = None, k_master = None, k_registered = [Some (True, 3)],
      k_leaders = [Some 0], k_fault_leader = None, k_client = None,
      k_requests = Some (writeCSV Lab_Client.sample_config (cs_records client_run)),
      k_states = [\<lambda>i. Some (\<lambda>key. Some 5, 2)]\<rparr>"

lemma client_run_records:
  "list_all (\<lambda>q. q_ok q \<longrightarrow> q_value q = 5) (cs_records client_run)"
  "length (filter q_ok (cs_records client_run)) = 2"
  "list_all (\<lambda>w. fst w = Done) (cs_workers client_run)"
  by code_simp+


text \<open>A store as the harness receives it, with keys and values read as signed integers.\<close>

definition state_reply :: "(u64 \<rightharpoonup> u64) \<times> int \<Rightarrow> store \<times> int" where
  "state_reply got =
     (\<lambda>k. if in_int64 k then map_option sint (fst got (word_of_int k)) else None, snd got)"

text \<open>A false alarm: \<^verbatim>\<open>GetState\<close> of the etcd and EPaxos adapters copies the store and reads the counter
  in two steps, so a replica that applies the last command between them looks complete with a store that
  lacks it. The harness keeps this answer, and the fault-free test fails although every replica holds
  every answered write; had the same replica been read in one step, the test would pass.\<close>

theorem torn_state_read_false_alarm:
  assumes "cluster_ran k" and "readCSV (k_requests k) = Inr rows" and "t_KillAfter t = 0"
    and "distinct (map row_id (replied rows))"
    and "caught_up_r = apply_command decode d behind"
    and "ad_appliedN caught_up_r = int (length (replied rows))"
    and "\<forall>r \<in> set (replied rows). store_get (fst (state_reply (ad_GetState caught_up_r caught_up_r))) (row_id r) = row_value r"
    and "row \<in> set (replied rows)"
    and "store_get (fst (state_reply (ad_GetState behind behind))) (row_id row) \<noteq> row_value row"
  shows "\<not> r_Pass (fst (runCorrectnessTest t
      (k\<lparr>k_states := [\<lambda>i. Some (state_reply (ad_GetState (if i = 0 then behind else caught_up_r) caught_up_r))]\<rparr>)))
    \<and> r_Pass (fst (runCorrectnessTest t
      (k\<lparr>k_states := [\<lambda>i. Some (state_reply (ad_GetState caught_up_r caught_up_r))]\<rparr>)))"
proof -
  let ?e = "int (length (replied rows))"
  define st where "st = (\<lambda>i :: nat. fst (state_reply (ad_GetState (if i = 0 then behind else caught_up_r) caught_up_r)))"
  have reply: "state_reply (ad_GetState x caught_up_r) = (fst (state_reply (ad_GetState x caught_up_r)), ?e)" for x
    using assms(6) by (simp add: state_reply_def ad_GetState_def)
  define torn where "torn = (\<lambda>i :: nat. Some (st i, ?e))"
  have torn_eq: "(\<lambda>i :: nat. Some (state_reply (ad_GetState (if i = 0 then behind else caught_up_r) caught_up_r))) = torn"
    unfolding torn_def st_def by (rule ext) (subst reply, simp)
  let ?k = "k\<lparr>k_states := [torn]\<rparr>" and ?h = "k\<lparr>k_states := [\<lambda>i. Some (state_reply (ad_GetState caught_up_r caught_up_r))]\<rparr>"
  have ran: "cluster_ran ?k" "cluster_ran ?h" and csv: "readCSV (k_requests ?k) = Inr rows" "readCSV (k_requests ?h) = Inr rows"
    using assms(1,2) by (simp_all add: cluster_ran_def)
  define c where "c = collect 3 ?e (k_states ?k) nothing_collected"
  have "c_states c = map (\<lambda>i. (store_name i, st i)) [0, 1, 2]"
    using collect_all [of torn st "\<lambda>_. ?e" ?e "[]"] by (simp add: c_def torn_def)
  then have "(store_name 0, st 0) \<in> set (c_states c)" by simp
  moreover have "(row_id row, row_value row) \<in> set (snd (reference rows))"
    using assms(8) by (auto simp: reference_distinct [OF assms(4)])
  moreover have "store_get (st 0) (row_id row) \<noteq> row_value row"
    using assms(9) by (simp add: st_def state_reply_def ad_GetState_def fst_conv cong del: if_weak_cong)
  ultimately have "\<not> r_Pass (verdict t 3 rows (k_states ?k))"
    unfolding verdict_pass [OF c_def] by fastforce
  then have no: "\<not> r_Pass (fst (runCorrectnessTest t ?k))"
    using cluster_ran_result(1) [OF ran(1) csv(1)] by (simp add: correctness_replicas_def)
  have yes: "r_Pass (fst (runCorrectnessTest t ?h))"
  proof (rule healthy_passes [OF ran(2) csv(2), where rounds = "[]"])
    show "k_states ?h = (\<lambda>i. Some (fst (state_reply (ad_GetState caught_up_r caught_up_r)), ?e)) # []"
      using reply [of caught_up_r] by simp
  qed (use assms(3,7) in \<open>auto simp: reference_distinct [OF assms(4)]\<close>)
  from no yes show ?thesis unfolding torn_eq by blast
qed

definition one_write :: "u64 \<Rightarrow> bytes replica" where
  "one_write n =
     (if n = 0 then start_replica (newPending 0)
      else etcd_apply (etcd_encode 1 \<lparr>cmd_Op = PUT, cmd_K = 0, cmd_V = 5\<rparr>) (start_replica (newPending 0)))"

definition one_record :: reqRecord where
  "one_record = sample_record 0 5"

definition one_cluster :: cluster where
  "one_cluster = client_cluster\<lparr>k_requests := Some (writeCSV Lab_Client.sample_config [one_record])\<rparr>"

lemma torn_state_read_false_alarm_witness:
  "\<not> r_Pass (fst (runCorrectnessTest (fault_free ''raft'' ''etcd'' ''sequential'' 1 1)
      (one_cluster\<lparr>k_states := [\<lambda>i. Some (state_reply (ad_GetState (if i = 0 then one_write 0 else one_write 1) (one_write 1)))]\<rparr>)))"
proof -
  let ?rows = "[client_row Lab_Client.sample_config one_record]"
  have rows: "readCSV (k_requests one_cluster) = Inr ?rows"
    by (simp add: one_cluster_def readCSV_writeCSV)
  have ran: "cluster_ran one_cluster"
    by (simp add: cluster_ran_def client_cluster_def one_cluster_def correctness_replicas_def masterLeader_def)
  have rep: "replied ?rows = ?rows"
    using replied_client_rows [of Lab_Client.sample_config "[one_record]"]
    by (simp add: one_record_def sample_record_def)
  have row: "row_id (client_row Lab_Client.sample_config one_record) = 0"
    "row_value (client_row Lab_Client.sample_config one_record) = 5"
    using client_row_values [of one_record] by (simp_all add: one_record_def sample_record_def in_int64_def)
  have w: "one_write 1 = apply_command etcd_decode (etcd_encode 1 \<lparr>cmd_Op = PUT, cmd_K = 0, cmd_V = 5\<rparr>) (one_write 0)"
    by (simp add: one_write_def etcd_apply_def)
  have after: "ad_appliedN (one_write 1) = 1" "Store (ad_st (one_write 1)) = [0 \<mapsto> 5]" "Store (ad_st (one_write 0)) = Map.empty"
    unfolding w by (simp_all add: one_write_def start_replica_def apply_command_def etcd_decode_encode Execute_def
        InitState_def pending_deliver_def newPending_def Let_def)
  show ?thesis
    by (rule torn_state_read_false_alarm [OF ran rows _ _ w, where row = "client_row Lab_Client.sample_config one_record", THEN conjunct1])
      (simp_all add: rep row after state_reply_def ad_GetState_def Snapshot_def store_get_def in_int64_def fault_free_def)
qed

end
